(* ===== verification/Prelude.thy ===== *)
theory Prelude
  imports Main "HOL-Library.AList" "HOL-Library.Char_ord" "HOL-Library.List_Lexorder"
begin

text \<open>
  Vocabulary and lemmas shared by every component.

  A Go map is an association list with distinct keys (\<open>wf_map\<close>): the order of its
  pairs stands for Go's unspecified iteration order, and every operation that a
  component observes is stated through \<open>map_of\<close>. A fallible Go function returns
  \<open>error + value\<close>. A Go string is the list of its bytes; comparison is the
  lexicographic order on bytes, which is Go's.
\<close>

named_theorems map_simps "lookup after update and delete on association lists"

type_synonym bytes = string
type_synonym ('k, 'v) gomap = "('k \<times> 'v) list"

definition wf_map :: "('k, 'v) gomap \<Rightarrow> bool" where
  "wf_map m \<longleftrightarrow> distinct (map fst m)"

lemma wf_map_empty [simp, intro]: "wf_map []"
  by (simp add: wf_map_def)

lemma wf_map_update [simp, intro]: "wf_map m \<Longrightarrow> wf_map (AList.update k v m)"
  by (simp add: wf_map_def distinct_update)

lemma wf_map_filter [intro]: "wf_map m \<Longrightarrow> wf_map (filter P m)"
  by (simp add: wf_map_def distinct_map_filter)

lemma wf_map_delete [simp, intro]: "wf_map m \<Longrightarrow> wf_map (AList.delete k m)"
  by (simp add: wf_map_def AList.distinct_delete)

lemma map_of_update [map_simps]:
  "map_of (AList.update k v m) k' = (if k' = k then Some v else map_of m k')"
  by (simp add: AList.update_conv')

lemma map_of_delete [map_simps]:
  "map_of (AList.delete k m) k' = (if k' = k then None else map_of m k')"
  by (simp add: AList.delete_conv')

lemma length_update_new: "map_of m k = None \<Longrightarrow> length (AList.update k v m) = Suc (length m)"
  by (induction m) auto

lemma length_update_old: "map_of m k \<noteq> None \<Longrightarrow> length (AList.update k v m) = length m"
  by (induction m) auto

lemma delete_absent: "map_of m k = None \<Longrightarrow> AList.delete k m = m"
  by (induction m) (auto simp: AList.delete_eq)

lemma length_delete_key:
  "distinct (map fst m) \<Longrightarrow> k \<in> fst ` set m \<Longrightarrow> Suc (length (AList.delete k m)) = length m"
proof (induction m)
  case (Cons p m)
  then show ?case
    by (cases "fst p = k") (auto simp: delete_absent map_of_eq_None_iff)
qed simp

lemma length_delete_present:
  "wf_map m \<Longrightarrow> map_of m k \<noteq> None \<Longrightarrow> Suc (length (AList.delete k m)) = length m"
  by (rule length_delete_key) (simp_all add: wf_map_def map_of_eq_None_iff del: not_None_eq)

lemma set_update_wf: "wf_map m \<Longrightarrow> set (AList.update k v m) = insert (k, v) (set (AList.delete k m))"
proof (induction m)
  case (Cons p m)
  then show ?case
    by (cases p) (auto simp: wf_map_def delete_absent map_of_eq_None_iff)
qed simp

lemma wf_map_Some_iff: "wf_map m \<Longrightarrow> map_of m k = Some v \<longleftrightarrow> (k, v) \<in> set m"
  by (simp add: wf_map_def)

lemma map_of_filter_wf:
  "wf_map m \<Longrightarrow> map_of (filter (\<lambda>(k, v). P k v) m) k =
     (case map_of m k of None \<Rightarrow> None | Some v \<Rightarrow> if P k v then Some v else None)"
  by (induction m) (auto simp: wf_map_def map_of_eq_None_iff split: option.splits)

lemma map_of_filter_keys [map_simps]:
  "map_of (filter (\<lambda>(k, v). Q k) m) k = (if Q k then map_of m k else None)"
  by (induction m) auto

lemma find_snoc: "find P (xs @ [x]) =
    (case find P xs of Some y \<Rightarrow> Some y | None \<Rightarrow> if P x then Some x else None)"
  by (induction xs) auto

lemma find_SomeD: "find P xs = Some x \<Longrightarrow> x \<in> set xs \<and> P x"
  by (induction xs) (auto split: if_splits)

lemma find_NoneD: "find P xs = None \<Longrightarrow> x \<in> set xs \<Longrightarrow> \<not> P x"
  by (induction xs) (auto split: if_splits)

lemma map_of_append_Some: "map_of (m @ n) k = (case map_of m k of None \<Rightarrow> map_of n k | Some v \<Rightarrow> Some v)"
  by (simp add: map_add_def split: option.splits)

lemma map_of_set_eq: "wf_map m \<Longrightarrow> (k, v) \<in> set m \<Longrightarrow> map_of m k = Some v"
  by (simp add: wf_map_def)

text \<open>\<open>first_error\<close> is the early-return scan of a Go \<open>for\<close> loop: the first error wins.\<close>

fun first_error :: "('a \<Rightarrow> 'e option) \<Rightarrow> 'a list \<Rightarrow> 'e option" where
  "first_error f [] = None"
| "first_error f (x # xs) = (case f x of Some e \<Rightarrow> Some e | None \<Rightarrow> first_error f xs)"

lemma first_error_None [simp]: "first_error f xs = None \<longleftrightarrow> (\<forall>x \<in> set xs. f x = None)"
  by (induction xs) (auto split: option.splits)

lemma first_error_Some: "first_error f xs = Some e \<Longrightarrow> \<exists>x \<in> set xs. f x = Some e"
  by (induction xs) (auto split: option.splits)

text \<open>
  Go's stable sorts (\<open>sort.SliceStable\<close>, \<open>slices.SortStableFunc\<close>), given by the
  comparator \<open>lt\<close>: insertion of each element after every element it is not less than.
  For a strict weak order the result of a stable sort is unique, so any
  implementation agrees with this one.
\<close>

fun insert_by :: "('a \<Rightarrow> 'a \<Rightarrow> bool) \<Rightarrow> 'a \<Rightarrow> 'a list \<Rightarrow> 'a list" where
  "insert_by lt x [] = [x]"
| "insert_by lt x (y # ys) = (if lt y x then y # insert_by lt x ys else x # y # ys)"

fun stable_sort :: "('a \<Rightarrow> 'a \<Rightarrow> bool) \<Rightarrow> 'a list \<Rightarrow> 'a list" where
  "stable_sort lt [] = []"
| "stable_sort lt (x # xs) = insert_by lt x (stable_sort lt xs)"

lemma set_insert_by [simp]: "set (insert_by lt x xs) = insert x (set xs)"
  by (induction xs) auto

lemma length_insert_by [simp]: "length (insert_by lt x xs) = Suc (length xs)"
  by (induction xs) auto

lemma set_stable_sort [simp]: "set (stable_sort lt xs) = set xs"
  by (induction xs) auto

lemma length_stable_sort [simp]: "length (stable_sort lt xs) = length xs"
  by (induction xs) auto

lemma distinct_insert_by: "distinct (insert_by lt x xs) \<longleftrightarrow> x \<notin> set xs \<and> distinct xs"
  by (induction xs) auto

lemma distinct_stable_sort [simp]: "distinct (stable_sort lt xs) \<longleftrightarrow> distinct xs"
  by (induction xs) (auto simp: distinct_insert_by)

text \<open>The order a sort establishes: no later element is less than an earlier one.\<close>

definition in_order :: "('a \<Rightarrow> 'a \<Rightarrow> bool) \<Rightarrow> 'a list \<Rightarrow> bool" where
  "in_order lt xs \<longleftrightarrow> sorted_wrt (\<lambda>a b. \<not> lt b a) xs"

definition weak_order :: "('a \<Rightarrow> 'a \<Rightarrow> bool) \<Rightarrow> bool" where
  "weak_order lt \<longleftrightarrow> (\<forall>a. \<not> lt a a) \<and> (\<forall>a b c. lt a b \<and> lt b c \<longrightarrow> lt a c)
     \<and> (\<forall>a b c. \<not> lt a b \<and> \<not> lt b c \<longrightarrow> \<not> lt a c)"

lemma distinct_map_insert_by:
  "distinct (map f (insert_by lt x xs)) \<longleftrightarrow> f x \<notin> f ` set xs \<and> distinct (map f xs)"
  by (induction xs) auto

lemma distinct_map_stable_sort: "distinct (map f (stable_sort lt xs)) \<longleftrightarrow> distinct (map f xs)"
  by (induction xs) (auto simp: distinct_map_insert_by)

lemma in_order_Nil [simp]: "in_order lt []"
  by (simp add: in_order_def)

lemma in_order_Cons [simp]:
  "in_order lt (x # xs) \<longleftrightarrow> (\<forall>y \<in> set xs. \<not> lt y x) \<and> in_order lt xs"
  by (auto simp: in_order_def)

lemma in_order_insert_by: "weak_order lt \<Longrightarrow> in_order lt xs \<Longrightarrow> in_order lt (insert_by lt x xs)"
proof (induction xs)
  case Nil
  then show ?case by simp
next
  case (Cons y ys)
  show ?case
  proof (cases "lt y x")
    case True
    then have "\<not> lt x y" using Cons.prems(1) unfolding weak_order_def by blast
    moreover have "in_order lt (insert_by lt x ys)" using Cons by simp
    ultimately show ?thesis using True Cons.prems(2) by simp
  next
    case False
    have tr: "\<And>a b c. \<not> lt a b \<Longrightarrow> \<not> lt b c \<Longrightarrow> \<not> lt a c"
      using Cons.prems(1) unfolding weak_order_def by blast
    have "\<not> lt z x" if "z \<in> set ys" for z
      using Cons.prems(2) that False by (intro tr [of z y x]) auto
    with False Cons.prems(2) show ?thesis by simp
  qed
qed

lemma in_order_stable_sort: "weak_order lt \<Longrightarrow> in_order lt (stable_sort lt xs)"
  by (induction xs) (auto intro: in_order_insert_by)

lemma insert_by_head: "\<forall>y \<in> set xs. \<not> lt y x \<Longrightarrow> insert_by lt x xs = x # xs"
  by (cases xs) auto

text \<open>A sort leaves a list that is already in order alone.\<close>

lemma stable_sort_id: "in_order lt xs \<Longrightarrow> stable_sort lt xs = xs"
  by (induction xs) (auto simp: insert_by_head)

text \<open>Comparing by a key of a linear order is a weak order.\<close>

lemma weak_order_key: "weak_order (\<lambda>a b. (f a :: 'k::linorder) < f b)"
  by (auto simp: weak_order_def)

section \<open>Instants\<close>

text \<open>A \<open>time.Time\<close> as nanoseconds since the Unix epoch; \<open>zero_time\<close> is Go's zero value.\<close>

type_synonym instant = int

definition zero_time :: instant where
  "zero_time = - 62135596800 * 1000000000"

section \<open>Invariants of stateful components\<close>

text \<open>
  The contract every stateful component states once: an invariant and the transitions
  (one per operation and environment) that keep it. What holds of a single operation
  then holds after every sequence of operations.
\<close>

locale preserved =
  fixes step :: "'op \<Rightarrow> 's \<Rightarrow> 's"
    and inv :: "'s \<Rightarrow> bool"
  assumes step_inv: "inv s \<Longrightarrow> inv (step op s)"
begin

lemma run_inv: "inv s \<Longrightarrow> inv (fold step ops s)"
  by (induction ops arbitrary: s) (auto intro: step_inv)

text \<open>A relation between states that every operation respects, respected by a run.\<close>

lemma run_rel:
  assumes "\<And>s. R s s" and "\<And>a b c. R a b \<Longrightarrow> R b c \<Longrightarrow> R a c"
    and "\<And>s op. inv s \<Longrightarrow> R s (step op s)"
  shows "inv s \<Longrightarrow> R s (fold step ops s)"
proof (induction ops arbitrary: s)
  case Nil
  show ?case using assms(1) by simp
next
  case (Cons op ops)
  have "R s (step op s)" and "R (step op s) (fold step ops (step op s))"
    using Cons.IH [OF step_inv [OF Cons.prems]] assms(3) [OF Cons.prems] by auto
  from assms(2) [OF this] show ?case by simp
qed

end

end
