(* ===== verification/GoText.thy ===== *)
theory GoText
  imports Prelude
begin

text \<open>
  The parts of Go's \<open>strings\<close>, \<open>strconv\<close>, \<open>fmt\<close> and \<open>errors\<close> packages
  that the modelled code calls, on byte strings.

  White space is \<open>unicode.IsSpace\<close>, given by the UTF-8 encodings of its code points, so
  \<open>trim_space\<close> and \<open>words\<close> agree with Go on every byte string. Case mapping
  (\<open>to_lower\<close>, \<open>to_upper\<close>) covers ASCII letters and leaves every other byte as it is.
  \<open>go_quote\<close> is \<open>%q\<close> for strings whose non-ASCII characters are printable.
\<close>

named_theorems text_simps "evaluation of the string library"

abbreviation newline :: char where "newline \<equiv> CHR 0x0A"

subsection \<open>Prefixes, search and splitting\<close>

definition has_prefix :: "bytes \<Rightarrow> bytes \<Rightarrow> bool" where
  "has_prefix s p \<longleftrightarrow> take (length p) s = p"

definition has_suffix :: "bytes \<Rightarrow> bytes \<Rightarrow> bool" where
  "has_suffix s p \<longleftrightarrow> length p \<le> length s \<and> drop (length s - length p) s = p"

definition trim_prefix :: "bytes \<Rightarrow> bytes \<Rightarrow> bytes" where
  "trim_prefix s p = (if has_prefix s p then drop (length p) s else s)"

definition trim_suffix :: "bytes \<Rightarrow> bytes \<Rightarrow> bytes" where
  "trim_suffix s p = (if has_suffix s p then take (length s - length p) s else s)"

fun index_of :: "bytes \<Rightarrow> bytes \<Rightarrow> nat option" where
  "index_of [] p = (if p = [] then Some 0 else None)"
| "index_of (c # cs) p = (if has_prefix (c # cs) p then Some 0 else map_option Suc (index_of cs p))"

definition contains :: "bytes \<Rightarrow> bytes \<Rightarrow> bool" where
  "contains s p \<longleftrightarrow> index_of s p \<noteq> None"

fun split_on :: "char \<Rightarrow> bytes \<Rightarrow> bytes list" where
  "split_on c [] = [[]]"
| "split_on c (x # xs) =
     (if x = c then [] # split_on c xs
      else (case split_on c xs of [] \<Rightarrow> [[x]] | y # ys \<Rightarrow> (x # y) # ys))"

fun join :: "bytes \<Rightarrow> bytes list \<Rightarrow> bytes" where
  "join sep [] = []"
| "join sep [x] = x"
| "join sep (x # y # ys) = x @ sep @ join sep (y # ys)"

lemma split_on_nonempty [simp]: "split_on c s \<noteq> []"
  by (induction s) (auto split: list.splits)

lemma join_Cons_head: "join sep ((x # l) # ls) = x # join sep (l # ls)"
  by (cases ls) auto

lemma join_split_on: "join [c] (split_on c s) = s"
proof (induction s)
  case (Cons x s)
  obtain l ls where l: "split_on c s = l # ls" by (cases "split_on c s") auto
  with Cons show ?case by (auto simp: join_Cons_head)
qed simp

lemma split_on_single: "c \<notin> set s \<Longrightarrow> split_on c s = [s]"
  by (induction s) auto

lemma split_on_append: "c \<notin> set s \<Longrightarrow> split_on c (s @ c # t) = s # split_on c t"
  by (induction s) auto

lemma split_on_join: "ls \<noteq> [] \<Longrightarrow> \<forall>l \<in> set ls. c \<notin> set l \<Longrightarrow> split_on c (join [c] ls) = ls"
proof (induction ls)
  case (Cons l ls)
  then show ?case by (cases ls) (auto simp: split_on_single split_on_append)
qed simp

lemma split_on_no_sep: "l \<in> set (split_on c s) \<Longrightarrow> c \<notin> set l"
proof (induction s arbitrary: l)
  case (Cons x s)
  then show ?case by (cases "split_on c s") (auto split: if_splits)
qed simp

lemma split_on_sep: "split_on c (s @ c # t) = split_on c s @ split_on c t"
proof (induction s)
  case (Cons x s)
  obtain l ls where l: "split_on c s = l # ls" by (cases "split_on c s") auto
  with Cons show ?case by auto
qed simp

text \<open>\<open>strings.ReplaceAll\<close> for a non-empty \<open>old\<close>.\<close>

function replace_all :: "bytes \<Rightarrow> bytes \<Rightarrow> bytes \<Rightarrow> bytes" where
  "replace_all old new [] = []"
| "replace_all old new (c # cs) =
     (if old \<noteq> [] \<and> has_prefix (c # cs) old
      then new @ replace_all old new (drop (length old) (c # cs))
      else c # replace_all old new cs)"
  by pat_completeness auto
termination
  by (relation "measure (\<lambda>(old, new, s). length s)") auto

subsection \<open>White space\<close>

definition byte :: "nat \<Rightarrow> char" where
  "byte n = char_of n"

definition unicode_spaces :: "bytes list" where
  "unicode_spaces =
     [[byte 32], [byte 9], [byte 10], [byte 11], [byte 12], [byte 13],
      [byte 0xC2, byte 0x85], [byte 0xC2, byte 0xA0], [byte 0xE1, byte 0x9A, byte 0x80]]
     @ map (\<lambda>n. [byte 0xE2, byte 0x80, byte n]) ([0x80..<0x8B] @ [0xA8, 0xA9, 0xAF])
     @ [[byte 0xE2, byte 0x81, byte 0x9F], [byte 0xE3, byte 0x80, byte 0x80]]"

lemma unicode_spaces_literal [code]: "unicode_spaces =
     [[CHR 0x20], [CHR 0x09], [CHR 0x0A], [CHR 0x0B], [CHR 0x0C], [CHR 0x0D], [CHR 0xC2, CHR
     0x85], [CHR 0xC2, CHR 0xA0], [CHR 0xE1, CHR 0x9A, CHR 0x80], [CHR 0xE2, CHR 0x80, CHR
     0x80], [CHR 0xE2, CHR 0x80, CHR 0x81], [CHR 0xE2, CHR 0x80, CHR 0x82], [CHR 0xE2, CHR
     0x80, CHR 0x83], [CHR 0xE2, CHR 0x80, CHR 0x84], [CHR 0xE2, CHR 0x80, CHR 0x85], [CHR
     0xE2, CHR 0x80, CHR 0x86], [CHR 0xE2, CHR 0x80, CHR 0x87], [CHR 0xE2, CHR 0x80, CHR 0x88],
     [CHR 0xE2, CHR 0x80, CHR 0x89], [CHR 0xE2, CHR 0x80, CHR 0x8A], [CHR 0xE2, CHR 0x80, CHR
     0xA8], [CHR 0xE2, CHR 0x80, CHR 0xA9], [CHR 0xE2, CHR 0x80, CHR 0xAF], [CHR 0xE2, CHR
     0x81, CHR 0x9F], [CHR 0xE3, CHR 0x80, CHR 0x80]]"
  by (simp only: unicode_spaces_def byte_def) code_simp

fun strip_seq :: "bytes list \<Rightarrow> bytes \<Rightarrow> bytes option" where
  "strip_seq [] s = None"
| "strip_seq (p # ps) s =
     (if p \<noteq> [] \<and> has_prefix s p then Some (drop (length p) s) else strip_seq ps s)"

lemma strip_seq_shorter: "strip_seq ps s = Some r \<Longrightarrow> length r < length s"
proof (induction ps)
  case (Cons p ps)
  have "length (drop (length p) s) < length s" if "p \<noteq> []" "has_prefix s p"
    using that by (cases s; cases p) (auto simp: has_prefix_def)
  with Cons show ?case by (auto split: if_splits)
qed simp

function trim_left_seqs :: "bytes list \<Rightarrow> bytes \<Rightarrow> bytes" where
  "trim_left_seqs ps s = (case strip_seq ps s of None \<Rightarrow> s | Some r \<Rightarrow> trim_left_seqs ps r)"
  by pat_completeness auto
termination
  by (relation "measure (\<lambda>(ps, s). length s)") (auto simp: strip_seq_shorter)

declare trim_left_seqs.simps [simp del]

definition trim_right_seqs :: "bytes list \<Rightarrow> bytes \<Rightarrow> bytes" where
  "trim_right_seqs ps s = rev (trim_left_seqs (map rev ps) (rev s))"

definition trim_space :: "bytes \<Rightarrow> bytes" where
  "trim_space s = trim_right_seqs unicode_spaces (trim_left_seqs unicode_spaces s)"

text \<open>\<open>strings.Fields\<close>: the maximal runs without white space, in order.\<close>

function fields_acc :: "bytes \<Rightarrow> bytes \<Rightarrow> bytes list" where
  "fields_acc cur s =
     (let flush = (\<lambda>rest. if cur = [] then rest else rev cur # rest) in
      case strip_seq unicode_spaces s of
        Some r \<Rightarrow> flush (fields_acc [] r)
      | None \<Rightarrow> (case s of [] \<Rightarrow> flush [] | c # cs \<Rightarrow> fields_acc (c # cur) cs))"
  by pat_completeness auto
termination
  by (relation "measure (\<lambda>(cur, s). length s)") (auto simp: strip_seq_shorter)

declare fields_acc.simps [simp del]

definition words :: "bytes \<Rightarrow> bytes list" where
  "words s = fields_acc [] s"

subsection \<open>Cutsets, case, digits\<close>

definition trim_left_set :: "bytes \<Rightarrow> bytes \<Rightarrow> bytes" where
  "trim_left_set s cutset = dropWhile (\<lambda>c. c \<in> set cutset) s"

definition trim_right_set :: "bytes \<Rightarrow> bytes \<Rightarrow> bytes" where
  "trim_right_set s cutset = rev (dropWhile (\<lambda>c. c \<in> set cutset) (rev s))"

definition trim_set :: "bytes \<Rightarrow> bytes \<Rightarrow> bytes" where
  "trim_set s cutset = trim_right_set (trim_left_set s cutset) cutset"

definition between :: "char \<Rightarrow> char \<Rightarrow> char \<Rightarrow> bool" where
  "between lo hi c \<longleftrightarrow> lo \<le> c \<and> c \<le> hi"

abbreviation is_digit :: "char \<Rightarrow> bool" where
  "is_digit \<equiv> between (CHR ''0'') (CHR ''9'')"

abbreviation is_upper :: "char \<Rightarrow> bool" where
  "is_upper \<equiv> between (CHR ''A'') (CHR ''Z'')"

abbreviation is_lower :: "char \<Rightarrow> bool" where
  "is_lower \<equiv> between (CHR ''a'') (CHR ''z'')"

text \<open>The class \<open>\s\<close> of Go regular expressions: ASCII white space only.\<close>

definition re_space :: "char \<Rightarrow> bool" where
  "re_space c \<longleftrightarrow> c = CHR '' '' \<or> c = CHR 0x09 \<or> c = CHR 0x0A \<or> c = CHR 0x0C \<or> c = CHR 0x0D"

definition lower_char :: "char \<Rightarrow> char" where
  "lower_char c = (if is_upper c then char_of (of_char c + (32 :: nat)) else c)"

definition upper_char :: "char \<Rightarrow> char" where
  "upper_char c = (if is_lower c then char_of (of_char c - (32 :: nat)) else c)"

definition to_lower :: "bytes \<Rightarrow> bytes" where
  "to_lower s = map lower_char s"

definition to_upper :: "bytes \<Rightarrow> bytes" where
  "to_upper s = map upper_char s"

definition equal_fold :: "bytes \<Rightarrow> bytes \<Rightarrow> bool" where
  "equal_fold s t \<longleftrightarrow> to_lower s = to_lower t"

definition digit_char :: "nat \<Rightarrow> char" where
  "digit_char d = char_of (48 + d)"

definition digit_val :: "char \<Rightarrow> nat" where
  "digit_val c = of_char c - 48"

fun nat_text :: "nat \<Rightarrow> bytes" where
  "nat_text n = (if n < 10 then [digit_char n] else nat_text (n div 10) @ [digit_char (n mod 10)])"

declare nat_text.simps [simp del]

definition itoa :: "int \<Rightarrow> bytes" where
  "itoa i = (if i < 0 then CHR ''-'' # nat_text (nat (- i)) else nat_text (nat i))"

definition digits_val :: "bytes \<Rightarrow> nat" where
  "digits_val s = foldl (\<lambda>a c. 10 * a + digit_val c) 0 s"

text \<open>\<open>strconv.Atoi\<close> on a 64-bit platform: an optional sign, digits only, in range.\<close>

definition atoi :: "bytes \<Rightarrow> int option" where
  "atoi s =
     (let neg = (case s of c # _ \<Rightarrow> c = CHR ''-'' | [] \<Rightarrow> False);
          ds = (case s of c # cs \<Rightarrow> if c = CHR ''-'' \<or> c = CHR ''+'' then cs else s | [] \<Rightarrow> []);
          v = (if neg then - int (digits_val ds) else int (digits_val ds))
      in if ds \<noteq> [] \<and> list_all is_digit ds \<and> - (2 ^ 63) \<le> v \<and> v < 2 ^ 63 then Some v else None)"

subsection \<open>UTF-8\<close>

text \<open>
  The length of the well-formed UTF-8 sequence at the head of a byte string, \<open>None\<close>
  where \<open>utf8.DecodeRuneInString\<close> reports \<open>RuneError\<close> with width 1.
\<close>

definition cont_byte :: "nat \<Rightarrow> nat \<Rightarrow> char \<Rightarrow> bool" where
  "cont_byte lo hi c \<longleftrightarrow> lo \<le> of_char c \<and> of_char c \<le> hi"

definition rune_need :: "nat \<Rightarrow> nat" where
  "rune_need n = (if n < 0x80 then 0 else if 0xC2 \<le> n \<and> n \<le> 0xDF then 1
     else if 0xE0 \<le> n \<and> n \<le> 0xEF then 2 else if 0xF0 \<le> n \<and> n \<le> 0xF4 then 3 else 4)"

definition rune_tail :: "nat \<Rightarrow> bytes \<Rightarrow> bool" where
  "rune_tail n cs =
     (let lo = (if n = 0xE0 then 0xA0 else if n = 0xF0 then 0x90 else 0x80);
          hi = (if n = 0xED then 0x9F else if n = 0xF4 then 0x8F else 0xBF)
      in (case cs of [] \<Rightarrow> True | d # ds \<Rightarrow> cont_byte lo hi d \<and> list_all (cont_byte 0x80 0xBF) ds))"

definition rune_len :: "bytes \<Rightarrow> nat option" where
  "rune_len s = (case s of [] \<Rightarrow> None | c # cs \<Rightarrow>
     (let need = rune_need (of_char c) in
      if need < 4 \<and> need \<le> length cs \<and> rune_tail (of_char c) (take need cs)
      then Some (Suc need) else None))"

lemma rune_len_bounds: "rune_len s = Some n \<Longrightarrow> 0 < n \<and> n \<le> length s"
  by (auto simp: rune_len_def Let_def split: list.splits if_splits)

function valid_utf8 :: "bytes \<Rightarrow> bool" where
  "valid_utf8 s = (s = [] \<or> (case rune_len s of None \<Rightarrow> False | Some n \<Rightarrow> valid_utf8 (drop n s)))"
  by pat_completeness auto
termination
  by (relation "measure length") (auto dest: rune_len_bounds)

declare valid_utf8.simps [simp del]

lemma valid_utf8_Nil [simp]: "valid_utf8 []"
  by (simp add: valid_utf8.simps)

text \<open>\<open>strings.ToValidUTF8\<close>: each run of invalid bytes becomes one \<open>rep\<close>.\<close>

function to_valid_utf8 :: "bytes \<Rightarrow> bool \<Rightarrow> bytes \<Rightarrow> bytes" where
  "to_valid_utf8 rep in_run s =
     (if s = [] then [] else
      (case rune_len s of
         None \<Rightarrow> (if in_run then [] else rep) @ to_valid_utf8 rep True (tl s)
       | Some n \<Rightarrow> take n s @ to_valid_utf8 rep False (drop n s)))"
  by pat_completeness auto
termination
  by (relation "measure (\<lambda>(rep, b, s). length s)") (auto dest: rune_len_bounds)

declare to_valid_utf8.simps [simp del]

lemma rune_len_append: "rune_len s = Some n \<Longrightarrow> rune_len (take n s @ t) = Some n"
  by (cases s) (auto simp: rune_len_def Let_def split: if_splits)

lemma valid_utf8_rune_append:
  assumes "rune_len s = Some n" and "valid_utf8 t"
  shows "valid_utf8 (take n s @ t)"
proof -
  have "drop n (take n s @ t) = t" using rune_len_bounds [OF assms(1)] by simp
  then show ?thesis
    using assms rune_len_append [OF assms(1), of t]
    by (subst valid_utf8.simps) simp
qed

lemma valid_utf8_append: "valid_utf8 s \<Longrightarrow> valid_utf8 t \<Longrightarrow> valid_utf8 (s @ t)"
proof (induction s rule: valid_utf8.induct)
  case (1 s)
  show ?case
  proof (cases "s = []")
    case True
    with 1 show ?thesis by simp
  next
    case False
    then obtain n where n: "rune_len s = Some n" and v: "valid_utf8 (drop n s)"
      using 1(2) by (subst (asm) valid_utf8.simps) (auto split: option.splits)
    have "valid_utf8 (drop n s @ t)" using 1 False n v by simp
    then have "valid_utf8 (take n s @ (drop n s @ t))" by (rule valid_utf8_rune_append [OF n])
    then show ?thesis by (simp flip: append_assoc)
  qed
qed

text \<open>ASCII text is valid.\<close>

definition is_ascii :: "char \<Rightarrow> bool" where
  "is_ascii c \<longleftrightarrow> (of_char c :: nat) < 128"

lemma valid_utf8_ascii: "list_all is_ascii s \<Longrightarrow> valid_utf8 s"
proof (induction s)
  case (Cons c s)
  then have "rune_len (c # s) = Some 1"
    by (simp add: rune_len_def rune_need_def rune_tail_def is_ascii_def)
  with Cons show ?case by (subst valid_utf8.simps) simp
qed simp

lemma to_valid_utf8_valid: "valid_utf8 rep \<Longrightarrow> valid_utf8 (to_valid_utf8 rep b s)"
proof (induction rep b s rule: to_valid_utf8.induct)
  case (1 rep b s)
  then show ?case
    by (subst to_valid_utf8.simps)
      (auto split: option.splits intro: valid_utf8_append valid_utf8_rune_append)
qed

subsection \<open>Formatting and errors\<close>

definition hex_digit :: "nat \<Rightarrow> char" where
  "hex_digit n = (if n < 10 then char_of (48 + n) else char_of (87 + n))"

definition quote_char :: "char \<Rightarrow> bytes" where
  "quote_char c =
     (let n = of_char c :: nat in
      if c = CHR 34 then [CHR 92, CHR 34] else if c = CHR 92 then [CHR 92, CHR 92]
      else if n = 7 then [CHR 92, CHR ''a''] else if n = 8 then [CHR 92, CHR ''b'']
      else if n = 12 then [CHR 92, CHR ''f''] else if n = 10 then [CHR 92, CHR ''n'']
      else if n = 13 then [CHR 92, CHR ''r''] else if n = 9 then [CHR 92, CHR ''t'']
      else if n = 11 then [CHR 92, CHR ''v'']
      else if n < 32 \<or> n = 127
        then [CHR 92, CHR ''x'', hex_digit (n div 16), hex_digit (n mod 16)]
      else [c])"

definition go_quote :: "bytes \<Rightarrow> bytes" where
  "go_quote s = [CHR 34] @ concat (map quote_char s) @ [CHR 34]"

text \<open>
  A Go error value: what \<open>errors.Is\<close> and \<open>errors.As\<close> find in its chain, and the text
  \<open>Error()\<close> returns. The sentinels are those the modelled code branches on; the two
  that carry a string are the daemon's own error types with their own text.
\<close>

datatype sentinel =
    S_ToolNotFound
  | S_NotImplemented
  | S_ApprovalUnknown
  | S_IllegalTransition
  | S_NotDurable
  | S_PolicyDenied bytes
  | S_InvalidParams bytes
  | S_NotExist
  | S_InvalidProviderState
  | S_InvalidSession
  | S_InvalidSessionID
  | S_ClientPolicyDenied
  | S_CallError int
  | S_AgentNotFound
  | S_AgentBlocked
  | S_AgentTimeout
  | S_DeadlineExceeded
  | S_Canceled
  | S_EOF
  | S_VoiceQuit
  | S_SessionLeaseHeld

record go_error =
  err_chain :: "sentinel list"
  err_text :: bytes

definition errors_is :: "go_error \<Rightarrow> sentinel \<Rightarrow> bool" where
  "errors_is e s \<longleftrightarrow> s \<in> set (err_chain e)"

definition new_error :: "bytes \<Rightarrow> go_error" where
  "new_error t = \<lparr>err_chain = [], err_text = t\<rparr>"

text \<open>\<open>fmt.Errorf("%w: ...", sentinel)\<close>.\<close>

definition sentinel_error :: "sentinel \<Rightarrow> bytes \<Rightarrow> go_error" where
  "sentinel_error s t = \<lparr>err_chain = [s], err_text = t\<rparr>"

text \<open>\<open>errors.Join\<close> of the errors that are not nil.\<close>

definition join_errors :: "go_error option list \<Rightarrow> go_error option" where
  "join_errors es =
     (let xs = map the (filter (\<lambda>e. e \<noteq> None) es) in
      if xs = [] then None
      else Some \<lparr>err_chain = concat (map err_chain xs), err_text = join [newline] (map err_text xs)\<rparr>)"

text \<open>\<open>fmt.Errorf("...%w", err)\<close> keeps the chain and puts a text before the wrapped one.\<close>

definition wrap_error :: "bytes \<Rightarrow> go_error \<Rightarrow> go_error" where
  "wrap_error pre e = e\<lparr>err_text := pre @ err_text e\<rparr>"

lemma errors_is_new [simp]: "\<not> errors_is (new_error t) s"
  by (simp add: errors_is_def new_error_def)

lemma errors_is_sentinel [simp]: "errors_is (sentinel_error s t) x \<longleftrightarrow> x = s"
  by (simp add: errors_is_def sentinel_error_def)

lemma join_errors_None [simp]: "join_errors es = None \<longleftrightarrow> (\<forall>e \<in> set es. e = None)"
  by (auto simp: join_errors_def Let_def filter_empty_conv)

lemma errors_is_wrap [simp]: "errors_is (wrap_error pre e) s = errors_is e s"
  by (simp add: errors_is_def wrap_error_def)

end
