(* ===== verification/Tools.thy ===== *)
theory Tools
  imports GoText
begin

text \<open>
  \<open>internal/tools\<close>: the in-memory catalog of executable tools (\<open>tool.go\<close>,
  \<open>registry.go\<close>, \<open>runtime.go\<close>). A tool's effects are on a world of type \<open>'w\<close>,
  threaded through handlers and the MCP dispatcher; parameters and results are JSON
  bytes. The registry's mutex makes each operation one atomic step.
\<close>

subsection \<open>Tools and their sources\<close>

datatype source_kind = SourceLocal | SourceMCP | SourceSkill | SourceOther int

fun kind_string :: "source_kind \<Rightarrow> bytes" where
  "kind_string SourceLocal = ''local''"
| "kind_string SourceMCP = ''mcp''"
| "kind_string SourceSkill = ''skill''"
| "kind_string (SourceOther n) = ''unknown''"

text \<open>The integer behind a kind: \<open>iota + 1\<close> for the three constants.\<close>

fun kind_int :: "source_kind \<Rightarrow> int" where
  "kind_int SourceLocal = 1"
| "kind_int SourceMCP = 2"
| "kind_int SourceSkill = 3"
| "kind_int (SourceOther n) = n"

text \<open>JSON form of a kind: the string that is marshalled, and what unmarshalling accepts.\<close>

definition marshal_kind :: "source_kind \<Rightarrow> go_error + bytes" where
  "marshal_kind k =
     (if kind_string k = ''unknown'' then Inl (new_error (''invalid source kind '' @ itoa (kind_int k)))
      else Inr (kind_string k))"

definition unmarshal_kind :: "bytes \<Rightarrow> go_error + source_kind" where
  "unmarshal_kind s =
     (if s = ''local'' then Inr SourceLocal
      else if s = ''mcp'' then Inr SourceMCP
      else if s = ''skill'' then Inr SourceSkill
      else Inl (new_error (''unknown source kind '' @ go_quote s)))"

record source =
  src_kind :: source_kind
  src_id :: bytes

definition source_string :: "source \<Rightarrow> bytes" where
  "source_string s = (if src_kind s = SourceMCP then ''mcp:'' @ src_id s else kind_string (src_kind s))"

record tool =
  t_name :: bytes
  t_source :: source
  t_version :: bytes
  t_mutating :: bool
  t_description :: bytes
  t_schema :: bytes

definition validate_tool :: "tool \<Rightarrow> go_error option" where
  "validate_tool t =
     (if t_name t = [] then Some (new_error ''tool name is empty'')
      else if \<exists>c \<in> set (t_name t). c \<in> set [CHR '' '', byte 9, byte 10, byte 13]
        then Some (new_error (''tool name '' @ go_quote (t_name t) @ '' contains whitespace''))
      else (case src_kind (t_source t) of
          SourceMCP \<Rightarrow>
            (if src_id (t_source t) = []
             then Some (new_error (''tool '' @ go_quote (t_name t) @ '': MCP source requires server ID''))
             else None)
        | SourceOther n \<Rightarrow>
            Some (new_error (''tool '' @ go_quote (t_name t) @ '': unknown source kind '' @ itoa n))
        | k \<Rightarrow>
            (if src_id (t_source t) \<noteq> []
             then Some (new_error (''tool '' @ go_quote (t_name t) @ '': source '' @ kind_string k
               @ '' must not set ID''))
             else None)))"

subsection \<open>The registry\<close>

type_synonym 'w outcome = "(go_error + bytes) \<times> 'w"
type_synonym 'w handler = "bytes \<Rightarrow> 'w \<Rightarrow> 'w outcome"
type_synonym 'w dispatcher = "bytes \<Rightarrow> bytes \<Rightarrow> bytes \<Rightarrow> 'w \<Rightarrow> 'w outcome"

record 'w registry =
  reg_tools :: "(bytes, tool) gomap"
  reg_handlers :: "(bytes, 'w handler) gomap"
  reg_disp :: "'w dispatcher option"

definition new_registry :: "'w registry" where
  "new_registry = \<lparr>reg_tools = [], reg_handlers = [], reg_disp = None\<rparr>"

definition already_registered :: "bytes \<Rightarrow> go_error" where
  "already_registered n = new_error (''tool '' @ go_quote n @ '' already registered'')"

definition register :: "tool \<Rightarrow> 'w registry \<Rightarrow> go_error option \<times> 'w registry" where
  "register t r =
     (case validate_tool t of
        Some e \<Rightarrow> (Some e, r)
      | None \<Rightarrow>
          (if map_of (reg_tools r) (t_name t) \<noteq> None then (Some (already_registered (t_name t)), r)
           else (None, r\<lparr>reg_tools := AList.update (t_name t) t (reg_tools r)\<rparr>)))"

definition register_with_handler ::
  "tool \<Rightarrow> 'w handler option \<Rightarrow> 'w registry \<Rightarrow> go_error option \<times> 'w registry" where
  "register_with_handler t h r =
     (case h of
        None \<Rightarrow> (Some (new_error (''tool '' @ go_quote (t_name t) @ '': handler is nil'')), r)
      | Some f \<Rightarrow>
          (case validate_tool t of
             Some e \<Rightarrow> (Some e, r)
           | None \<Rightarrow>
               (if map_of (reg_tools r) (t_name t) \<noteq> None
                then (Some (already_registered (t_name t)), r)
                else (None, r\<lparr>reg_tools := AList.update (t_name t) t (reg_tools r),
                              reg_handlers := AList.update (t_name t) f (reg_handlers r)\<rparr>))))"

definition register_local :: "tool \<Rightarrow> 'w handler option \<Rightarrow> 'w registry \<Rightarrow> go_error option \<times> 'w registry" where
  "register_local t h = register_with_handler (t\<lparr>t_source := \<lparr>src_kind = SourceLocal, src_id = []\<rparr>\<rparr>) h"

definition register_skill :: "tool \<Rightarrow> 'w handler option \<Rightarrow> 'w registry \<Rightarrow> go_error option \<times> 'w registry" where
  "register_skill t h = register_with_handler (t\<lparr>t_source := \<lparr>src_kind = SourceSkill, src_id = []\<rparr>\<rparr>) h"

text \<open>The deletion loop \<open>RegisterDynamic\<close> and \<open>Unregister\<close> share.\<close>

definition owned_names :: "source \<Rightarrow> 'w registry \<Rightarrow> bytes list" where
  "owned_names s r = map fst (filter (\<lambda>(n, t). t_source t = s) (reg_tools r))"

definition drop_source :: "source \<Rightarrow> 'w registry \<Rightarrow> 'w registry" where
  "drop_source s r =
     r\<lparr>reg_tools := filter (\<lambda>(n, t). t_source t \<noteq> s) (reg_tools r),
       reg_handlers := filter (\<lambda>(n, h). n \<notin> set (owned_names s r)) (reg_handlers r)\<rparr>"

definition check_batch_tool :: "source \<Rightarrow> tool \<Rightarrow> go_error option" where
  "check_batch_tool s t =
     (if t_source t \<noteq> s
      then Some (new_error (''tool '' @ go_quote (t_name t) @ '': source '' @ source_string (t_source t)
             @ '' does not match batch source '' @ source_string s))
      else validate_tool t)"

definition check_conflict :: "source \<Rightarrow> 'w registry \<Rightarrow> tool \<Rightarrow> go_error option" where
  "check_conflict s r t =
     (case map_of (reg_tools r) (t_name t) of
        Some ex \<Rightarrow>
          (if t_source ex \<noteq> s
           then Some (new_error (''tool '' @ go_quote (t_name t) @ '' already registered by source ''
                  @ source_string (t_source ex)))
           else None)
      | None \<Rightarrow> None)"

definition add_tools :: "tool list \<Rightarrow> 'w registry \<Rightarrow> 'w registry" where
  "add_tools ts r = r\<lparr>reg_tools := foldl (\<lambda>m t. AList.update (t_name t) t m) (reg_tools r) ts\<rparr>"

definition register_dynamic ::
  "source \<Rightarrow> tool list \<Rightarrow> 'w registry \<Rightarrow> go_error option \<times> 'w registry" where
  "register_dynamic s ts r =
     (case first_error (check_batch_tool s) ts of
        Some e \<Rightarrow> (Some e, r)
      | None \<Rightarrow>
          (case first_error (check_conflict s r) ts of
             Some e \<Rightarrow> (Some e, r)
           | None \<Rightarrow> (None, add_tools ts (drop_source s r))))"

definition unregister :: "source \<Rightarrow> 'w registry \<Rightarrow> nat \<times> 'w registry" where
  "unregister s r = (length (owned_names s r), drop_source s r)"

definition lookup_tool :: "'w registry \<Rightarrow> bytes \<Rightarrow> tool option" where
  "lookup_tool r n = map_of (reg_tools r) n"

definition list_tools :: "'w registry \<Rightarrow> tool list" where
  "list_tools r = stable_sort (\<lambda>a b. t_name a < t_name b) (map snd (reg_tools r))"

definition registry_len :: "'w registry \<Rightarrow> nat" where
  "registry_len r = length (reg_tools r)"

definition set_mcp_dispatcher :: "'w dispatcher option \<Rightarrow> 'w registry \<Rightarrow> 'w registry" where
  "set_mcp_dispatcher d r = r\<lparr>reg_disp := d\<rparr>"

subsection \<open>Execution\<close>

definition upstream_name :: "bytes \<Rightarrow> source \<Rightarrow> bytes" where
  "upstream_name name s =
     (if src_kind s \<noteq> SourceMCP then name
      else let prefix = ''mcp.'' @ src_id s @ ''.'' in
        if length name > length prefix \<and> take (length prefix) name = prefix
        then drop (length prefix) name else name)"

definition tool_not_found :: "bytes \<Rightarrow> go_error" where
  "tool_not_found n = \<lparr>err_chain = [S_ToolNotFound], err_text = ''tool not found: '' @ n\<rparr>"

definition execute :: "'w registry \<Rightarrow> bytes \<Rightarrow> bytes \<Rightarrow> 'w \<Rightarrow> 'w outcome" where
  "execute r name params w =
     (case lookup_tool r name of
        None \<Rightarrow> (Inl (tool_not_found name), w)
      | Some t \<Rightarrow>
          (case src_kind (t_source t) of
             SourceMCP \<Rightarrow>
               (case reg_disp r of
                  None \<Rightarrow> (Inl \<lparr>err_chain = [S_NotImplemented],
                    err_text = ''tool dispatch not implemented: '' @ source_string (t_source t)\<rparr>, w)
                | Some d \<Rightarrow> d (src_id (t_source t)) (upstream_name name (t_source t)) params w)
           | SourceOther n \<Rightarrow>
               (Inl (new_error (''tool '' @ go_quote name @ '': unknown source kind '' @ itoa n)), w)
           | k \<Rightarrow>
               (case map_of (reg_handlers r) name of
                  None \<Rightarrow> (Inl (new_error (''tool '' @ go_quote name @ '': '' @ kind_string k
                    @ '' tool has no handler'')), w)
                | Some h \<Rightarrow> h params w)))"

subsection \<open>The registry's invariant\<close>

definition wf_registry :: "'w registry \<Rightarrow> bool" where
  "wf_registry r \<longleftrightarrow>
     wf_map (reg_tools r) \<and> wf_map (reg_handlers r)
     \<and> (\<forall>n t. map_of (reg_tools r) n = Some t \<longrightarrow> t_name t = n \<and> validate_tool t = None)
     \<and> (\<forall>n. map_of (reg_handlers r) n \<noteq> None \<longrightarrow>
          (\<exists>t. map_of (reg_tools r) n = Some t \<and> src_kind (t_source t) \<in> {SourceLocal, SourceSkill}))"

lemma wf_registryD:
  assumes "wf_registry r"
  shows "wf_map (reg_tools r)" and "wf_map (reg_handlers r)"
    and "map_of (reg_tools r) n = Some t \<Longrightarrow> t_name t = n"
    and "map_of (reg_tools r) n = Some t \<Longrightarrow> validate_tool t = None"
  using assms by (auto simp: wf_registry_def)

lemma wf_new_registry: "wf_registry new_registry"
  by (simp add: wf_registry_def new_registry_def)

lemma wf_register: "wf_registry r \<Longrightarrow> wf_registry (snd (register t r))"
  by (auto simp: register_def wf_registry_def map_simps split: option.splits)

lemma wf_register_with_handler:
  "wf_registry r \<Longrightarrow> src_kind (t_source t) \<in> {SourceLocal, SourceSkill} \<Longrightarrow>
     wf_registry (snd (register_with_handler t h r))"
  by (auto simp: register_with_handler_def wf_registry_def map_simps split: option.splits)

lemma wf_register_local: "wf_registry r \<Longrightarrow> wf_registry (snd (register_local t h r))"
  by (simp add: register_local_def wf_register_with_handler)

lemma wf_register_skill: "wf_registry r \<Longrightarrow> wf_registry (snd (register_skill t h r))"
  by (simp add: register_skill_def wf_register_with_handler)

lemma owned_names_iff:
  "wf_map (reg_tools r) \<Longrightarrow>
     n \<in> set (owned_names s r) \<longleftrightarrow> (\<exists>t. map_of (reg_tools r) n = Some t \<and> t_source t = s)"
  by (force simp: owned_names_def wf_map_Some_iff)

lemma tools_drop_source:
  "wf_map (reg_tools r) \<Longrightarrow> map_of (reg_tools (drop_source s r)) n =
     (case map_of (reg_tools r) n of None \<Rightarrow> None | Some t \<Rightarrow> if t_source t \<noteq> s then Some t else None)"
  by (simp add: drop_source_def map_of_filter_wf)

lemma handlers_drop_source:
  assumes "wf_registry r"
  shows "map_of (reg_handlers (drop_source s r)) n =
     (if \<exists>t. map_of (reg_tools r) n = Some t \<and> t_source t = s then None else map_of (reg_handlers r) n)"
  using owned_names_iff [OF wf_registryD(1) [OF assms], of n s]
  by (auto simp: drop_source_def map_of_filter_keys)

lemma wf_drop_source:
  assumes "wf_registry r"
  shows "wf_registry (drop_source s r)"
proof -
  have "wf_map (reg_tools (drop_source s r))" "wf_map (reg_handlers (drop_source s r))"
    using wf_registryD(1,2) [OF assms] by (auto simp: drop_source_def)
  moreover have "t_name t = n \<and> validate_tool t = None"
    if "map_of (reg_tools (drop_source s r)) n = Some t" for n t
    using that assms by (auto simp: tools_drop_source wf_registry_def split: option.splits if_splits)
  moreover have "\<exists>t. map_of (reg_tools (drop_source s r)) n = Some t
      \<and> src_kind (t_source t) \<in> {SourceLocal, SourceSkill}"
    if "map_of (reg_handlers (drop_source s r)) n \<noteq> None" for n
  proof -
    from that have h: "map_of (reg_handlers r) n \<noteq> None"
      and no: "\<not> (\<exists>t. map_of (reg_tools r) n = Some t \<and> t_source t = s)"
      by (auto simp: handlers_drop_source [OF assms] split: if_splits)
    from h assms obtain t where "map_of (reg_tools r) n = Some t"
      and "src_kind (t_source t) \<in> {SourceLocal, SourceSkill}"
      unfolding wf_registry_def by blast
    with no wf_registryD(1) [OF assms] show ?thesis by (auto simp: tools_drop_source)
  qed
  ultimately show ?thesis unfolding wf_registry_def by blast
qed

lemma wf_unregister: "wf_registry r \<Longrightarrow> wf_registry (snd (unregister s r))"
  by (simp add: unregister_def wf_drop_source)

lemma add_tools_simps [simp]:
  "reg_handlers (add_tools ts r) = reg_handlers r"
  "reg_disp (add_tools ts r) = reg_disp r"
  by (simp_all add: add_tools_def)

lemma foldl_update_tools:
  "map_of (foldl (\<lambda>m t. AList.update (t_name t) t m) m ts) n =
     (case find (\<lambda>t. t_name t = n) (rev ts) of Some t \<Rightarrow> Some t | None \<Rightarrow> map_of m n)"
  by (induction ts arbitrary: m) (auto simp: map_simps find_snoc split: option.splits)

lemma tools_add_tools:
  "map_of (reg_tools (add_tools ts r)) n =
     (case find (\<lambda>t. t_name t = n) (rev ts) of Some t \<Rightarrow> Some t | None \<Rightarrow> map_of (reg_tools r) n)"
  by (simp add: add_tools_def foldl_update_tools)

lemma wf_map_foldl_update:
  "wf_map m \<Longrightarrow> wf_map (foldl (\<lambda>m t. AList.update (t_name t) t m) m ts)"
  by (induction ts arbitrary: m) auto

lemma wf_add_tools:
  assumes wf: "wf_registry r" and val: "\<forall>t \<in> set ts. validate_tool t = None"
    and fresh: "\<forall>t \<in> set ts. map_of (reg_handlers r) (t_name t) = None"
  shows "wf_registry (add_tools ts r)"
proof -
  let ?m = "map_of (reg_tools (add_tools ts r))"
  have new: "?m n = (case find (\<lambda>t. t_name t = n) (rev ts) of Some t \<Rightarrow> Some t
      | None \<Rightarrow> map_of (reg_tools r) n)" for n
    by (rule tools_add_tools)
  have "t_name t = n \<and> validate_tool t = None" if "?m n = Some t" for n t
    using that val wf by (auto simp: new wf_registry_def split: option.splits dest: find_SomeD)
  moreover have "\<exists>t. ?m n = Some t \<and> src_kind (t_source t) \<in> {SourceLocal, SourceSkill}"
    if h: "map_of (reg_handlers (add_tools ts r)) n \<noteq> None" for n
  proof -
    have "find (\<lambda>t. t_name t = n) (rev ts) = None"
      using h fresh by (auto simp: find_None_iff)
    with h wf show ?thesis by (simp add: new wf_registry_def)
  qed
  moreover have "wf_map (reg_tools (add_tools ts r))" "wf_map (reg_handlers (add_tools ts r))"
    using wf by (simp_all add: add_tools_def wf_map_foldl_update wf_registryD)
  ultimately show ?thesis
    unfolding wf_registry_def by blast
qed

lemma wf_register_dynamic:
  assumes wf: "wf_registry r"
  shows "wf_registry (snd (register_dynamic s ts r))"
proof (cases "first_error (check_batch_tool s) ts = None \<and> first_error (check_conflict s r) ts = None")
  case True
  then have val: "\<forall>t \<in> set ts. validate_tool t = None"
    by (auto simp: check_batch_tool_def split: if_splits)
  have "map_of (reg_handlers (drop_source s r)) (t_name t) = None" if "t \<in> set ts" for t
  proof (cases "map_of (reg_tools r) (t_name t)")
    case None
    with wf have "map_of (reg_handlers r) (t_name t) = None" by (force simp: wf_registry_def)
    then show ?thesis by (simp add: handlers_drop_source [OF wf])
  next
    case (Some ex)
    with True that have "t_source ex = s" by (auto simp: check_conflict_def split: if_splits)
    with Some show ?thesis by (simp add: handlers_drop_source [OF wf])
  qed
  with val have "wf_registry (add_tools ts (drop_source s r))"
    by (intro wf_add_tools wf_drop_source wf) auto
  then show ?thesis
    using wf True by (auto simp: register_dynamic_def split: option.split)
next
  case False
  with wf show ?thesis by (auto simp: register_dynamic_def split: option.splits)
qed

lemmas wf_registry_ops = wf_register wf_register_local wf_register_skill wf_register_dynamic
  wf_unregister wf_new_registry

text \<open>
  Every operation of the registry keeps its invariant: names are unique and match
  their tools, every registered tool passes validation, and a handler is bound only
  to a registered Local or Skill tool.
\<close>

theorem registry_invariant:
  assumes "wf_registry r"
  shows "wf_registry (snd (register t r)) \<and> wf_registry (snd (register_local t h r))
    \<and> wf_registry (snd (register_skill t h r)) \<and> wf_registry (snd (register_dynamic s ts r))
    \<and> wf_registry (snd (unregister s r)) \<and> wf_registry (set_mcp_dispatcher d r)"
proof -
  have "wf_registry (set_mcp_dispatcher d r)"
    using assms by (simp add: wf_registry_def set_mcp_dispatcher_def)
  with assms show ?thesis by (simp add: wf_registry_ops)
qed

definition sample_tool :: tool where
  "sample_tool = \<lparr>t_name = ''task.add'', t_source = \<lparr>src_kind = SourceLocal, src_id = []\<rparr>,
     t_version = ''1'', t_mutating = True, t_description = [], t_schema = []\<rparr>"

definition sample_mcp :: source where
  "sample_mcp = \<lparr>src_kind = SourceMCP, src_id = ''gh''\<rparr>"

definition sample_remote :: "bytes \<Rightarrow> tool" where
  "sample_remote n = \<lparr>t_name = n, t_source = sample_mcp,
     t_version = [], t_mutating = True, t_description = [], t_schema = []\<rparr>"

definition sample_registry :: "unit registry" where
  "sample_registry = snd (register_local sample_tool (Some (\<lambda>p w. (Inr p, w))) new_registry)"

lemma wf_sample_registry: "wf_registry sample_registry"
  by (simp add: sample_registry_def wf_registry_ops)

theorem registry_invariant_witness:
  "wf_registry (snd (register_dynamic sample_mcp [sample_remote ''mcp.gh.x''] sample_registry))"
  using registry_invariant [OF wf_sample_registry, of sample_tool None sample_mcp "[sample_remote ''mcp.gh.x'']" None]
  by simp

subsection \<open>Batch registration, listing, dispatch\<close>

lemma register_dynamic_effect:
  assumes "wf_registry r"
  shows "case register_dynamic s ts r of
      (Some e, r') \<Rightarrow> r' = r
    | (None, r') \<Rightarrow>
        (\<forall>n. lookup_tool r' n =
           (case find (\<lambda>t. t_name t = n) (rev ts) of
              Some t \<Rightarrow> Some t
            | None \<Rightarrow> (case lookup_tool r n of
                Some t \<Rightarrow> if t_source t = s then None else Some t | None \<Rightarrow> None)))
        \<and> (\<forall>n t. lookup_tool r n = Some t \<and> t_source t \<noteq> s \<longrightarrow>
             lookup_tool r' n = Some t \<and> map_of (reg_handlers r') n = map_of (reg_handlers r) n)"
proof (cases "first_error (check_batch_tool s) ts = None \<and> first_error (check_conflict s r) ts = None")
  case True
  have eq: "register_dynamic s ts r = (None, add_tools ts (drop_source s r))"
    using True by (auto simp: register_dynamic_def split: option.split)
  note look = lookup_tool_def tools_add_tools tools_drop_source [OF wf_registryD(1) [OF assms]]
  have "find (\<lambda>t. t_name t = n) (rev ts) = None"
    if "lookup_tool r n = Some t" "t_source t \<noteq> s" for n t
    using that True by (auto simp: find_None_iff check_conflict_def lookup_tool_def split: if_splits)
  then show ?thesis
    unfolding eq using handlers_drop_source [OF assms, of s]
    by (auto simp: look split: option.splits)
next
  case False
  then show ?thesis by (auto simp: register_dynamic_def split: option.splits)
qed

text \<open>
  \<open>RegisterDynamic\<close> is all-or-nothing. When it reports an error the registry is
  unchanged; when it succeeds every name of the batch resolves to the batch's (last)
  tool of that name, every other tool of the source is gone, and the tools and
  handlers of all other sources are untouched.
\<close>

theorem register_dynamic_all_or_nothing:
  assumes "wf_registry r"
  shows "case register_dynamic s ts r of
      (Some e, r') \<Rightarrow> r' = r
    | (None, r') \<Rightarrow>
        (\<forall>n. lookup_tool r' n =
           (case find (\<lambda>t. t_name t = n) (rev ts) of
              Some t \<Rightarrow> Some t
            | None \<Rightarrow> (case lookup_tool r n of
                Some t \<Rightarrow> if t_source t = s then None else Some t | None \<Rightarrow> None)))
        \<and> (\<forall>n t. lookup_tool r n = Some t \<and> t_source t \<noteq> s \<longrightarrow>
             lookup_tool r' n = Some t \<and> map_of (reg_handlers r') n = map_of (reg_handlers r) n)"
  using assms by (rule register_dynamic_effect)

theorem register_dynamic_all_or_nothing_witness:
  "lookup_tool (snd (register_dynamic sample_mcp [sample_remote ''mcp.gh.x''] sample_registry)) ''task.add''
     = Some sample_tool"
proof -
  let ?call = "register_dynamic sample_mcp [sample_remote ''mcp.gh.x''] sample_registry"
  have ok: "fst ?call = None" by code_simp
  have look: "lookup_tool sample_registry ''task.add'' = Some sample_tool" by code_simp
  have src: "t_source sample_tool \<noteq> sample_mcp" by code_simp
  obtain r' where r': "?call = (None, r')" using ok by (cases ?call) simp
  note res = register_dynamic_all_or_nothing
    [OF wf_sample_registry, of sample_mcp "[sample_remote ''mcp.gh.x'']", unfolded r' prod.case option.case]
  have "lookup_tool r' ''task.add'' = Some sample_tool"
    using conjunct2 [OF res] look src by blast
  then show ?thesis by (simp only: r' snd_conv)
qed

lemma map_snd_wf: "wf_registry r \<Longrightarrow> map t_name (map snd (reg_tools r)) = map fst (reg_tools r)"
proof -
  assume "wf_registry r"
  then have "\<forall>(n, t) \<in> set (reg_tools r). t_name t = n"
    by (auto simp: wf_registry_def wf_map_Some_iff)
  then show ?thesis by (auto intro!: map_cong)
qed

lemma map_insert_by_sorted:
  "sorted (map f xs) \<Longrightarrow> sorted (map f (insert_by (\<lambda>a b. (f a :: 'k::linorder) < f b) x xs))"
  by (induction xs) (auto simp: not_less)

lemma sorted_stable_sort: "sorted (map f (stable_sort (\<lambda>a b. (f a :: 'k::linorder) < f b) xs))"
  by (induction xs) (auto intro: map_insert_by_sorted)

text \<open>
  \<open>List\<close> returns every registered tool exactly once, in strictly increasing
  order of name, and \<open>Len\<close> is its length.
\<close>

theorem list_tools_sorted_complete:
  assumes "wf_registry r"
  shows "sorted_wrt (<) (map t_name (list_tools r))
     \<and> set (list_tools r) = {t. \<exists>n. lookup_tool r n = Some t}
     \<and> length (list_tools r) = registry_len r"
proof -
  have "distinct (map t_name (list_tools r))"
    using wf_registryD(1) [OF assms] map_snd_wf [OF assms]
    by (simp add: list_tools_def distinct_map_stable_sort wf_map_def del: map_map)
  moreover have "sorted (map t_name (list_tools r))"
    unfolding list_tools_def by (rule sorted_stable_sort)
  ultimately have "sorted_wrt (<) (map t_name (list_tools r))"
    by (simp add: strict_sorted_iff)
  moreover have "set (list_tools r) = {t. \<exists>n. lookup_tool r n = Some t}"
    using wf_registryD(1) [OF assms]
    by (force simp: list_tools_def lookup_tool_def wf_map_Some_iff)
  ultimately show ?thesis by (simp add: list_tools_def registry_len_def)
qed

theorem list_tools_sorted_complete_witness:
  "set (list_tools sample_registry) = {t. \<exists>n. lookup_tool sample_registry n = Some t}
   \<and> map t_name (list_tools sample_registry) = [''task.add'']"
proof
  show "set (list_tools sample_registry) = {t. \<exists>n. lookup_tool sample_registry n = Some t}"
    using list_tools_sorted_complete [OF wf_sample_registry] by blast
  show "map t_name (list_tools sample_registry) = [''task.add'']" by code_simp
qed

text \<open>Marshalling a valid kind and reading it back is the identity.\<close>

lemma kind_roundtrip:
  "k \<in> {SourceLocal, SourceMCP, SourceSkill} \<Longrightarrow>
     (case marshal_kind k of Inl e \<Rightarrow> Inl e | Inr s \<Rightarrow> unmarshal_kind s) = Inr k"
  by (auto simp: marshal_kind_def unmarshal_kind_def)

lemma upstream_name_roundtrip:
  "u \<noteq> [] \<Longrightarrow> upstream_name (''mcp.'' @ sid @ ''.'' @ u) \<lparr>src_kind = SourceMCP, src_id = sid\<rparr> = u"
  by (simp add: upstream_name_def Let_def)

text \<open>A name the registry does not know never runs anything.\<close>

lemma execute_unknown:
  "lookup_tool r n = None \<Longrightarrow> execute r n p w = (Inl (tool_not_found n), w)"
  by (simp add: execute_def)

end
