(* ===== verification/Policy.thy ===== *)
theory Policy
  imports Tools
begin

text \<open>
  \<open>internal/policy\<close>: what happens to a tool call before it runs. A \<open>Decider\<close> is any
  function from requests to verdicts; \<open>default_decide\<close> is the built-in one. The
  integer behind a Go \<open>Decision\<close> may be outside the three constants, hence
  \<open>UnknownDecision\<close>.
\<close>

datatype decision = Allow | Confirm | Deny | UnknownDecision int

fun decision_string :: "decision \<Rightarrow> bytes" where
  "decision_string Allow = ''allow''"
| "decision_string Confirm = ''confirm''"
| "decision_string Deny = ''deny''"
| "decision_string (UnknownDecision n) = ''unknown''"

record verdict =
  v_decision :: decision
  v_reason :: bytes

record policy_request =
  pr_caller :: bytes
  pr_tool :: tool
  pr_params :: bytes

type_synonym decider = "policy_request \<Rightarrow> verdict"

definition caller_cli :: bytes where
  "caller_cli = ''cli''"

definition default_decide :: decider where
  "default_decide req =
     (if pr_caller req = [] then \<lparr>v_decision = Deny, v_reason = ''missing caller identity''\<rparr>
      else if pr_caller req = caller_cli
        then \<lparr>v_decision = Allow, v_reason = ''cli call is user-driven''\<rparr>
      else if \<not> t_mutating (pr_tool req) then \<lparr>v_decision = Allow, v_reason = ''read-only tool''\<rparr>
      else \<lparr>v_decision = Confirm, v_reason = ''mutation by non-cli caller requires approval''\<rparr>)"

text \<open>
  What the daemon relies on in a decider: it never lets a mutating tool straight
  through for a caller other than the command line.
\<close>

locale gating_decider =
  fixes decide :: decider
  assumes gates: "t_mutating (pr_tool req) \<Longrightarrow> pr_caller req \<noteq> caller_cli \<Longrightarrow>
    v_decision (decide req) \<noteq> Allow"
begin

lemma allowed_is_safe:
  "v_decision (decide req) = Allow \<Longrightarrow> pr_caller req = caller_cli \<or> \<not> t_mutating (pr_tool req)"
  using gates by blast

end

interpretation default_policy: gating_decider default_decide
  by unfold_locales (auto simp: default_decide_def)

text \<open>
  The default policy, completely: an anonymous caller is denied, a call is allowed
  exactly when an identified caller is the command line or the tool is read-only,
  and every other call of an identified caller must be confirmed.
\<close>

theorem default_policy_decisions:
  "(v_decision (default_decide req) = Deny \<longleftrightarrow> pr_caller req = [])
   \<and> (v_decision (default_decide req) = Allow \<longleftrightarrow>
        pr_caller req = caller_cli \<or> (pr_caller req \<noteq> [] \<and> \<not> t_mutating (pr_tool req)))
   \<and> (v_decision (default_decide req) = Confirm \<longleftrightarrow>
        pr_caller req \<noteq> [] \<and> pr_caller req \<noteq> caller_cli \<and> t_mutating (pr_tool req))"
  by (auto simp: default_decide_def caller_cli_def)

end
