(* ===== verification/AuditLog.thy ===== *)
theory AuditLog
  imports GoText
begin

text \<open>
  The durable side of \<open>internal/approval\<close>: the records of \<open>audit.go\<close>, the append-only
  JSONL log with its capacity reservation (\<open>Audit.Append\<close>), the reader
  (\<open>ReadAuditLog\<close>) and the repair of a torn last line (\<open>repairAuditTail\<close>, \<open>OpenAudit\<close>).

  The log file is its byte content. \<open>json.Marshal\<close> and \<open>json.Unmarshal\<close> of an entry are
  the parameters \<open>marshal\<close> and \<open>unmarshal\<close>; the outcomes of the file system calls come
  with the call in an \<open>audit_io\<close> or \<open>open_io\<close> record.
\<close>

section \<open>Data\<close>

type_synonym status = bytes

abbreviation StatusPending :: status where "StatusPending \<equiv> ''pending''"
abbreviation StatusApproved :: status where "StatusApproved \<equiv> ''approved''"
abbreviation StatusDenied :: status where "StatusDenied \<equiv> ''denied''"
abbreviation StatusExecuted :: status where "StatusExecuted \<equiv> ''executed''"
abbreviation StatusFailed :: status where "StatusFailed \<equiv> ''failed''"

type_synonym audit_event = bytes

abbreviation EventEnqueue :: audit_event where "EventEnqueue \<equiv> ''enqueue''"
abbreviation EventApprove :: audit_event where "EventApprove \<equiv> ''approve''"
abbreviation EventDeny :: audit_event where "EventDeny \<equiv> ''deny''"
abbreviation EventExecute :: audit_event where "EventExecute \<equiv> ''execute''"
abbreviation EventFail :: audit_event where "EventFail \<equiv> ''fail''"

definition MaxTerminalResultBytes :: int where
  "MaxTerminalResultBytes = 4194304"

definition MaxAuditRecordBytes :: int where
  "MaxAuditRecordBytes = MaxTerminalResultBytes + 524288"

definition MaxAuditLogBytes :: int where
  "MaxAuditLogBytes = 67108864"

definition MaxAuditReplayEntries :: int where
  "MaxAuditReplayEntries = 10000"

lemmas audit_limits = MaxTerminalResultBytes_def MaxAuditRecordBytes_def MaxAuditLogBytes_def
  MaxAuditReplayEntries_def

record terminal_outcome =
  to_status :: status
  to_result :: bytes
  to_reason :: bytes
  to_err :: bytes
  to_decided_at :: "instant option"
  to_executed_at :: "instant option"

record audit_entry =
  ae_time :: instant
  ae_event :: audit_event
  ae_id :: bytes
  ae_caller :: bytes
  ae_call_id :: bytes
  ae_tool :: bytes
  ae_reason :: bytes
  ae_err :: bytes
  ae_params :: bytes
  ae_params_hash :: bytes
  ae_outcome :: "terminal_outcome option"

text \<open>The writer: whether the file is open, its content, and the capacity it keeps back.\<close>

record audit =
  au_open :: bool
  au_file :: bytes
  au_reserved :: "(bytes, int) gomap"
  au_reserved_bytes :: int
  au_record_count :: int

datatype write_outcome = Wrote | Write_failed nat go_error | Wrote_short nat

record audit_io =
  io_now :: instant
  io_stat :: "go_error option"
  io_write :: write_outcome
  io_sync :: "go_error option"

type_synonym marshal = "audit_entry \<Rightarrow> go_error + bytes"
type_synonym unmarshal = "bytes \<Rightarrow> go_error + audit_entry"

section \<open>Append\<close>

definition reservation_of :: "audit \<Rightarrow> bytes \<Rightarrow> int" where
  "reservation_of a i = (case map_of (au_reserved a) i of None \<Rightarrow> 0 | Some n \<Rightarrow> n)"

definition ends_reservation :: "audit_event \<Rightarrow> bool" where
  "ends_reservation ev \<longleftrightarrow> ev = EventExecute \<or> ev = EventFail"

text \<open>The bytes on disk after a write of \<open>line\<close>, and the error \<open>Append\<close> then returns.\<close>

definition write_line :: "write_outcome \<Rightarrow> bytes \<Rightarrow> bytes \<Rightarrow> bytes \<times> go_error option" where
  "write_line w line file =
     (case w of
        Wrote \<Rightarrow> (file @ line, None)
      | Write_failed k err \<Rightarrow> (file @ take k line, Some (wrap_error ''audit write: '' err))
      | Wrote_short k \<Rightarrow>
          if k < length line
          then (file @ take k line, Some (new_error (''audit write: short write: wrote '' @ itoa (int k)
                  @ '' of '' @ itoa (int (length line)) @ '' bytes'')))
          else (file @ line, None))"

text \<open>The bookkeeping after the record is synced.\<close>

definition account :: "audit_entry \<Rightarrow> audit \<Rightarrow> audit" where
  "account e a =
     (let reservation = reservation_of a (ae_id e);
          a1 = (if ae_event e = EventApprove
                then a\<lparr>au_reserved := AList.update (ae_id e) MaxAuditRecordBytes (au_reserved a),
                       au_reserved_bytes := au_reserved_bytes a + MaxAuditRecordBytes\<rparr>
                else if ends_reservation (ae_event e) \<and> reservation \<noteq> 0
                then a\<lparr>au_reserved := AList.delete (ae_id e) (au_reserved a),
                       au_reserved_bytes := au_reserved_bytes a - reservation\<rparr>
                else a)
      in a1\<lparr>au_record_count := au_record_count a + 1\<rparr>)"

text \<open>
  The checks of \<open>Append\<close> before the write: a terminal record may use what was reserved
  for it, an approval must also find room for the terminal record it will need.
\<close>

definition capacity_error :: "audit \<Rightarrow> audit_entry \<Rightarrow> bytes \<Rightarrow> go_error option" where
  "capacity_error a e line =
     (let reservation = reservation_of a (ae_id e);
          reserved_after = au_reserved_bytes a - (if ends_reservation (ae_event e) then reservation else 0);
          entries_after = int (length (au_reserved a))
            - (if ends_reservation (ae_event e) \<and> reservation \<noteq> 0 then 1 else 0);
          approve = (ae_event e = EventApprove);
          required = int (length line) + (if approve then MaxAuditRecordBytes else 0);
          required_entries = (if approve then 2 else 1)
      in if approve \<and> reservation \<noteq> 0
         then Some (new_error (''audit terminal capacity already reserved for '' @ ae_id e))
         else if au_record_count a + entries_after + required_entries > MaxAuditReplayEntries
         then Some (new_error (''audit replay exceeds '' @ itoa MaxAuditReplayEntries @ '' entries''))
         else if int (length (au_file a)) + reserved_after + required > MaxAuditLogBytes
         then Some (new_error (''audit log exceeds '' @ itoa MaxAuditLogBytes @ '' bytes''))
         else None)"

definition with_time :: "audit_io \<Rightarrow> audit_entry \<Rightarrow> audit_entry" where
  "with_time io e = (if ae_time e = zero_time then e\<lparr>ae_time := io_now io\<rparr> else e)"

definition append_audit :: "marshal \<Rightarrow> audit_io \<Rightarrow> audit_entry \<Rightarrow> audit \<Rightarrow> audit \<times> go_error option" where
  "append_audit marshal io e0 a =
     (let e = with_time io e0 in
      case marshal e of
        Inl err \<Rightarrow> (a, Some (wrap_error ''audit marshal: '' err))
      | Inr b \<Rightarrow>
          if int (length b) > MaxAuditRecordBytes
          then (a, Some (new_error (''audit record exceeds '' @ itoa MaxAuditRecordBytes @ '' bytes'')))
          else if \<not> au_open a then (a, Some (new_error ''audit write: audit is closed''))
          else (case io_stat io of
            Some err \<Rightarrow> (a, Some (wrap_error ''audit inspect before write: '' err))
          | None \<Rightarrow>
              (let line = b @ [newline] in
               case capacity_error a e line of
                 Some err \<Rightarrow> (a, Some err)
               | None \<Rightarrow>
                   (case write_line (io_write io) line (au_file a) of
                      (f, Some err) \<Rightarrow> (a\<lparr>au_file := f\<rparr>, Some err)
                    | (f, None) \<Rightarrow>
                        (case io_sync io of
                           Some err \<Rightarrow> (a\<lparr>au_file := f\<rparr>, Some (wrap_error ''audit sync: '' err))
                         | None \<Rightarrow> (account e (a\<lparr>au_file := f\<rparr>), None))))))"

section \<open>Reading\<close>

definition outcome_too_long :: "audit_entry \<Rightarrow> bool" where
  "outcome_too_long e \<longleftrightarrow>
     (case ae_outcome e of None \<Rightarrow> False | Some oc \<Rightarrow> int (length (to_result oc)) > MaxTerminalResultBytes)"

lemma length_tl_dropWhile: "xs \<noteq> [] \<Longrightarrow> length (dropWhile P xs) - Suc 0 < length xs"
  using length_dropWhile_le [of P xs] by (cases xs) (auto simp: less_Suc_eq_le)

text \<open>
  The loop of \<open>ReadAuditLog\<close>, one \<open>ReadSlice\<close> per step. \<open>acc\<close> is \<open>entries\<close>. The buffer
  of \<open>MaxAuditRecordBytes + 1\<close> bytes is full without a newline exactly when the line is
  longer than \<open>MaxAuditRecordBytes\<close>, whether the file ends there or not.
\<close>

function read_entries :: "unmarshal \<Rightarrow> audit_entry list \<Rightarrow> bytes \<Rightarrow> go_error + audit_entry list" where
  "read_entries unmarshal acc data =
     (let line = takeWhile (\<lambda>c. c \<noteq> newline) data;
          rest = dropWhile (\<lambda>c. c \<noteq> newline) data;
          terminated = (rest \<noteq> [])
      in if int (length line) > MaxAuditRecordBytes
         then Inl (new_error (''audit record exceeds '' @ itoa MaxAuditRecordBytes @ '' bytes''))
         else if line = [] then (if terminated then read_entries unmarshal acc (tl rest) else Inr acc)
         else (case unmarshal line of
             Inl err \<Rightarrow> if terminated then Inl (wrap_error ''audit decode: '' err) else Inr acc
           | Inr e \<Rightarrow>
               if outcome_too_long e
               then Inl (new_error (''terminal result exceeds '' @ itoa MaxTerminalResultBytes @ '' bytes''))
               else if int (length acc) = MaxAuditReplayEntries
               then Inl (new_error (''audit replay exceeds '' @ itoa MaxAuditReplayEntries @ '' entries''))
               else if terminated then read_entries unmarshal (acc @ [e]) (tl rest)
               else Inr (acc @ [e])))"
  by pat_completeness auto
termination
  by (relation "measure (\<lambda>(u, acc, data). length data)") (auto intro!: length_tl_dropWhile)

declare read_entries.simps [simp del]

text \<open>\<open>ReadAuditLog\<close> of a file that may not exist.\<close>

definition read_audit_log :: "unmarshal \<Rightarrow> bytes option \<Rightarrow> go_error + audit_entry list" where
  "read_audit_log unmarshal file =
     (case file of
        None \<Rightarrow> Inr []
      | Some data \<Rightarrow>
          if int (length data) > MaxAuditLogBytes
          then Inl (new_error (''audit log exceeds '' @ itoa MaxAuditLogBytes @ '' bytes''))
          else read_entries unmarshal [] data)"

section \<open>Opening and repair\<close>

record open_io =
  oi_mkdir :: "go_error option"
  oi_open :: "go_error option"
  oi_stat :: "go_error option"
  oi_chmod :: "go_error option"
  oi_tail_stat :: "go_error option"
  oi_tail_read :: "go_error option"
  oi_tail_write :: "go_error option"
  oi_tail_truncate :: "go_error option"
  oi_tail_sync :: "go_error option"

definition guarded :: "bytes \<Rightarrow> go_error option \<Rightarrow> go_error + 'a \<Rightarrow> go_error + 'a" where
  "guarded pre fault k = (case fault of Some err \<Rightarrow> Inl (wrap_error pre err) | None \<Rightarrow> k)"

lemma guarded_None [simp]: "guarded pre None k = k"
  by (simp add: guarded_def)

text \<open>The bytes after the last newline.\<close>

definition tail_line :: "bytes \<Rightarrow> bytes" where
  "tail_line data = rev (takeWhile (\<lambda>c. c \<noteq> newline) (rev data))"

definition repair_audit_tail :: "unmarshal \<Rightarrow> open_io \<Rightarrow> bytes \<Rightarrow> go_error + bytes" where
  "repair_audit_tail unmarshal io file =
     guarded ''audit inspect tail: '' (oi_tail_stat io)
      (if file = [] then Inr file
       else
         (let read_size = min (length file) (nat MaxAuditRecordBytes + 1);
              start = length file - read_size;
              data = drop start file
          in guarded ''audit read tail: '' (oi_tail_read io)
            (if last data = newline then Inr file
             else
               (let line = tail_line data;
                    valid = (case unmarshal line of Inl _ \<Rightarrow> False | Inr e \<Rightarrow> \<not> outcome_too_long e);
                    synced = (\<lambda>f. guarded ''audit sync repaired tail: '' (oi_tail_sync io) (Inr f))
                in if valid
                   then (if int (length file) = MaxAuditLogBytes
                         then Inl (new_error (''audit log exceeds '' @ itoa MaxAuditLogBytes @ '' bytes''))
                         else guarded ''audit terminate tail: '' (oi_tail_write io) (synced (file @ [newline])))
                   else guarded ''audit truncate tail: '' (oi_tail_truncate io)
                          (synced (take (start + (length data - length line)) file))))))"

definition open_audit :: "unmarshal \<Rightarrow> open_io \<Rightarrow> bytes option \<Rightarrow> go_error + audit" where
  "open_audit unmarshal io file0 =
     guarded ''audit mkdir: '' (oi_mkdir io)
      (guarded ''audit open: '' (oi_open io)
        (guarded ''audit inspect: '' (oi_stat io)
          (let file = (case file0 of None \<Rightarrow> [] | Some d \<Rightarrow> d) in
           if int (length file) > MaxAuditLogBytes
           then Inl (new_error (''audit log exceeds '' @ itoa MaxAuditLogBytes @ '' bytes''))
           else guarded ''audit chmod: '' (oi_chmod io)
             (case read_audit_log unmarshal (Some file) of
                Inl err \<Rightarrow> Inl err
              | Inr entries \<Rightarrow>
                  (case repair_audit_tail unmarshal io file of
                     Inl err \<Rightarrow> Inl err
                   | Inr f \<Rightarrow> Inr \<lparr>au_open = True, au_file = f, au_reserved = [],
                                 au_reserved_bytes = 0, au_record_count = int (length entries)\<rparr>)))))"

definition close_audit :: "go_error option \<Rightarrow> audit \<Rightarrow> audit \<times> go_error option" where
  "close_audit close_err a = (if au_open a then (a\<lparr>au_open := False\<rparr>, close_err) else (a, None))"

section \<open>Reading line by line\<close>

definition ends_line :: "bytes \<Rightarrow> bool" where
  "ends_line data \<longleftrightarrow> data = [] \<or> last data = newline"

lemma line_split:
  obtains (last_line) "newline \<notin> set data"
  | (more) l rest where "data = l @ newline # rest" and "newline \<notin> set l"
  using split_list_first [of newline data] by blast

lemma takeWhile_line [simp]:
  "newline \<notin> set l \<Longrightarrow> takeWhile (\<lambda>c. c \<noteq> newline) (l @ newline # rest) = l"
  by (induction l) auto

lemma dropWhile_line [simp]:
  "newline \<notin> set l \<Longrightarrow> dropWhile (\<lambda>c. c \<noteq> newline) (l @ newline # rest) = newline # rest"
  by (induction l) auto

lemma takeWhile_no_newline [simp]: "newline \<notin> set l \<Longrightarrow> takeWhile (\<lambda>c. c \<noteq> newline) l = l"
  by (induction l) auto

lemma dropWhile_no_newline [simp]: "newline \<notin> set l \<Longrightarrow> dropWhile (\<lambda>c. c \<noteq> newline) l = []"
  by (induction l) auto

lemma MaxAuditRecordBytes_nonneg [simp]: "\<not> MaxAuditRecordBytes < 0"
  by (simp add: audit_limits)

lemma read_entries_Nil [simp]: "read_entries u acc [] = Inr acc"
  by (subst read_entries.simps) simp

text \<open>A record that the reader takes: one line of at most \<open>MaxAuditRecordBytes\<close> that decodes.\<close>

definition readable :: "unmarshal \<Rightarrow> bytes \<Rightarrow> audit_entry \<Rightarrow> bool" where
  "readable u l e \<longleftrightarrow> l \<noteq> [] \<and> newline \<notin> set l \<and> int (length l) \<le> MaxAuditRecordBytes
     \<and> u l = Inr e \<and> \<not> outcome_too_long e"

lemma read_entries_line:
  "readable u l e \<Longrightarrow> int (length acc) \<noteq> MaxAuditReplayEntries \<Longrightarrow>
   read_entries u acc (l @ newline # rest) = read_entries u (acc @ [e]) rest"
  by (subst read_entries.simps) (simp add: readable_def)

lemma read_entries_blank: "read_entries u acc (newline # rest) = read_entries u acc rest"
  by (subst read_entries.simps) simp

lemma read_entries_last:
  "readable u l e \<Longrightarrow> int (length acc) \<noteq> MaxAuditReplayEntries \<Longrightarrow>
   read_entries u acc l = Inr (acc @ [e])"
  by (subst read_entries.simps) (simp add: readable_def)

lemma read_entries_torn:
  "newline \<notin> set l \<Longrightarrow> int (length l) \<le> MaxAuditRecordBytes \<Longrightarrow> u l = Inl err \<Longrightarrow>
   read_entries u acc l = Inr acc"
  by (subst read_entries.simps) simp

text \<open>What a successful read says of its first line.\<close>

lemma read_entries_lineE:
  assumes "read_entries u acc (l @ newline # rest) = Inr es" and "newline \<notin> set l"
  obtains (blank) "l = []" "read_entries u acc rest = Inr es"
  | (entry) e where "readable u l e" "int (length acc) \<noteq> MaxAuditReplayEntries"
      "read_entries u (acc @ [e]) rest = Inr es"
  using assms(1) [unfolded read_entries.simps [of u acc "l @ newline # rest"]] assms(2)
  by (auto simp: readable_def Let_def split: if_splits sum.splits)

lemma read_entries_lastE:
  assumes "read_entries u acc l = Inr es" and "newline \<notin> set l"
  obtains (blank) "l = []" "es = acc"
  | (torn) err where "int (length l) \<le> MaxAuditRecordBytes" "l \<noteq> []" "u l = Inl err" "es = acc"
  | (entry) e where "readable u l e" "int (length acc) \<noteq> MaxAuditReplayEntries" "es = acc @ [e]"
  using assms(1) [unfolded read_entries.simps [of u acc l]] assms(2)
  by (auto simp: readable_def Let_def split: if_splits sum.splits)

text \<open>
  Reading a log whose last line is complete, followed by anything: the entries read so
  far, then the rest.
\<close>

lemma read_entries_append:
  assumes "read_entries u acc data = Inr es" and "ends_line data"
  shows "read_entries u acc (data @ x) = read_entries u es x"
  using assms
proof (induction "length data" arbitrary: acc data rule: less_induct)
  case less
  show ?case
  proof (cases rule: line_split [of data])
    case last_line
    with less.prems(2) have "data = []" by (metis ends_line_def last_in_set)
    with less.prems(1) show ?thesis by simp
  next
    case (more l rest)
    have *: "ends_line rest" using less.prems(2) more by (auto simp: ends_line_def split: if_splits)
    show ?thesis
      using less.prems(1) [unfolded more(1)] more(2)
    proof (cases rule: read_entries_lineE)
      case blank
      with less.hyps [of rest acc] more * show ?thesis by (simp add: read_entries_blank)
    next
      case (entry e)
      with less.hyps [of rest "acc @ [e]"] more * show ?thesis by (simp add: read_entries_line)
    qed
  qed
qed

lemma read_entries_snoc:
  assumes "read_entries u acc data = Inr es" and "ends_line data"
    and "readable u l e" and "int (length es) \<noteq> MaxAuditReplayEntries"
  shows "read_entries u acc (data @ l @ [newline]) = Inr (es @ [e])"
  using read_entries_append [OF assms(1,2), of "l @ newline # []"] assms(3,4)
  by (simp add: read_entries_line)

lemma read_entries_length: "read_entries u acc data = Inr es \<Longrightarrow>
  int (length acc) \<le> MaxAuditReplayEntries \<Longrightarrow> int (length es) \<le> MaxAuditReplayEntries"
proof (induction "length data" arbitrary: acc data rule: less_induct)
  case less
  show ?case
  proof (cases rule: line_split [of data])
    case last_line
    show ?thesis
      using less.prems(1) last_line by (cases rule: read_entries_lastE) (use less.prems(2) in auto)
  next
    case (more l rest)
    show ?thesis
      using less.prems(1) [unfolded more(1)] more(2)
    proof (cases rule: read_entries_lineE)
      case blank
      with less.hyps [of rest acc] less.prems(2) more show ?thesis by simp
    next
      case (entry e)
      with less.hyps [of rest "acc @ [e]"] less.prems(2) more show ?thesis by simp
    qed
  qed
qed

section \<open>Capacity\<close>

text \<open>
  The accounting invariant: every reservation is one maximal record, and the file and the
  record count leave room for all of them.
\<close>

definition wf_audit :: "audit \<Rightarrow> bool" where
  "wf_audit a \<longleftrightarrow> wf_map (au_reserved a)
     \<and> (\<forall>p \<in> set (au_reserved a). snd p = MaxAuditRecordBytes)
     \<and> au_reserved_bytes a = int (length (au_reserved a)) * MaxAuditRecordBytes
     \<and> int (length (au_file a)) + au_reserved_bytes a \<le> MaxAuditLogBytes
     \<and> au_record_count a + int (length (au_reserved a)) \<le> MaxAuditReplayEntries"

text \<open>The log on disk reads back as \<open>es\<close>, all of them counted, its last line complete.\<close>

definition log_holds :: "unmarshal \<Rightarrow> audit \<Rightarrow> audit_entry list \<Rightarrow> bool" where
  "log_holds u a es \<longleftrightarrow> read_entries u [] (au_file a) = Inr es \<and> ends_line (au_file a)
     \<and> int (length es) = au_record_count a"

lemma reservation_cases:
  assumes "wf_audit a"
  shows "reservation_of a i = 0 \<and> map_of (au_reserved a) i = None
       \<or> reservation_of a i = MaxAuditRecordBytes \<and> map_of (au_reserved a) i = Some MaxAuditRecordBytes"
  using assms by (auto simp: reservation_of_def wf_audit_def split: option.splits dest!: map_of_SomeD)

lemma account_file [simp]: "au_file (account e a) = au_file a"
  by (simp add: account_def Let_def)

lemma account_open [simp]: "au_open (account e a) = au_open a"
  by (simp add: account_def Let_def)

lemma account_count [simp]: "au_record_count (account e a) = au_record_count a + 1"
  by (simp add: account_def Let_def)

lemma account_reserved:
  "au_reserved (account e a) =
     (if ae_event e = EventApprove then AList.update (ae_id e) MaxAuditRecordBytes (au_reserved a)
      else if ends_reservation (ae_event e) \<and> reservation_of a (ae_id e) \<noteq> 0
      then AList.delete (ae_id e) (au_reserved a) else au_reserved a)"
  by (simp add: account_def Let_def)

lemma account_reserved_bytes:
  "au_reserved_bytes (account e a) =
     (if ae_event e = EventApprove then au_reserved_bytes a + MaxAuditRecordBytes
      else if ends_reservation (ae_event e) \<and> reservation_of a (ae_id e) \<noteq> 0
      then au_reserved_bytes a - reservation_of a (ae_id e) else au_reserved_bytes a)"
  by (simp add: account_def Let_def)

lemma MaxAuditRecordBytes_neq [simp]: "MaxAuditRecordBytes \<noteq> 0"
  by (simp add: audit_limits)

lemma wf_audit_account:
  assumes wf: "wf_audit a" and ok: "capacity_error a e line = None"
    and f: "int (length f) \<le> int (length (au_file a)) + int (length line)"
  shows "wf_audit (account e (a\<lparr>au_file := f\<rparr>))"
proof -
  have r: "reservation_of (a\<lparr>au_file := f\<rparr>) i = reservation_of a i" for i
    by (simp add: reservation_of_def)
  have wfm: "wf_map (au_reserved a)" using wf by (simp add: wf_audit_def)
  consider (approve) "ae_event e = EventApprove" | (terminal) "ends_reservation (ae_event e)"
    | (other) "ae_event e \<noteq> EventApprove" "\<not> ends_reservation (ae_event e)" by blast
  then show ?thesis
  proof cases
    case approve
    then have "\<not> ends_reservation (ae_event e)" by (simp add: ends_reservation_def)
    moreover have none: "map_of (au_reserved a) (ae_id e) = None"
      using ok approve reservation_cases [OF wf, of "ae_id e"]
      by (auto simp: capacity_error_def Let_def split: if_splits)
    ultimately show ?thesis
      using wf ok approve f wfm
      by (auto simp: wf_audit_def account_reserved account_reserved_bytes capacity_error_def Let_def
          length_update_new set_update_wf delete_absent distrib_right split: if_splits)
  next
    case terminal
    then have na: "ae_event e \<noteq> EventApprove" by (auto simp: ends_reservation_def)
    show ?thesis
    proof (cases "map_of (au_reserved a) (ae_id e)")
      case None
      then show ?thesis
        using wf ok terminal na f reservation_cases [OF wf, of "ae_id e"]
        by (auto simp: wf_audit_def account_reserved account_reserved_bytes capacity_error_def Let_def r
            split: if_splits)
    next
      case (Some n)
      then have l: "int (length (au_reserved a)) = 1 + int (length (AList.delete (ae_id e) (au_reserved a)))"
        using length_delete_present [OF wfm, of "ae_id e"] by simp
      have n: "reservation_of a (ae_id e) = MaxAuditRecordBytes"
        using Some reservation_cases [OF wf, of "ae_id e"] by auto
      have "set (AList.delete (ae_id e) (au_reserved a)) \<subseteq> set (au_reserved a)"
        by (simp add: AList.delete_eq)
      then show ?thesis
        using wf ok terminal na f n l
        by (auto simp: wf_audit_def account_reserved account_reserved_bytes capacity_error_def Let_def r
            distrib_right split: if_splits)
    qed
  next
    case other
    then show ?thesis
      using wf ok f by (auto simp: wf_audit_def account_reserved account_reserved_bytes
          capacity_error_def Let_def split: if_splits)
  qed
qed

text \<open>The two outcomes of an append.\<close>

lemma append_audit_okE:
  assumes "append_audit marshal io e a = (a', None)"
  obtains b where "marshal (with_time io e) = Inr b" "int (length b) \<le> MaxAuditRecordBytes"
    "capacity_error a (with_time io e) (b @ [newline]) = None"
    "a' = account (with_time io e) (a\<lparr>au_file := au_file a @ b @ [newline]\<rparr>)"
  using assms
  by (auto simp: append_audit_def Let_def write_line_def
      split: sum.splits if_splits option.splits write_outcome.splits prod.splits)

definition untorn :: "audit_io \<Rightarrow> bool" where
  "untorn io \<longleftrightarrow> io_write io = Wrote \<and> io_sync io = None"

lemma append_audit_refused:
  "append_audit marshal io e a = (a', Some err) \<Longrightarrow> untorn io \<Longrightarrow> a' = a"
  by (auto simp: append_audit_def Let_def write_line_def untorn_def
      split: sum.splits if_splits option.splits prod.splits)

lemma append_audit_fits:
  assumes "marshal (with_time io e) = Inr b" "int (length b) \<le> MaxAuditRecordBytes"
    and "au_open a" "io_stat io = None" "untorn io"
    and "capacity_error a (with_time io e) (b @ [newline]) = None"
  shows "append_audit marshal io e a
     = (account (with_time io e) (a\<lparr>au_file := au_file a @ b @ [newline]\<rparr>), None)"
  using assms by (simp add: append_audit_def write_line_def untorn_def)

text \<open>What was reserved at the approval is enough for a terminal record that leaves room for its newline.\<close>

lemma reserved_capacity:
  assumes wf: "wf_audit a" and "map_of (au_reserved a) (ae_id e) \<noteq> None"
    and "ends_reservation (ae_event e)" and "int (length line) \<le> MaxAuditRecordBytes"
  shows "capacity_error a e line = None"
proof -
  have "ae_event e \<noteq> EventApprove" using assms(3) by (auto simp: ends_reservation_def)
  moreover have "reservation_of a (ae_id e) = MaxAuditRecordBytes"
    using reservation_cases [OF wf, of "ae_id e"] assms(2) by auto
  ultimately show ?thesis
    using assms unfolding wf_audit_def by (simp add: capacity_error_def Let_def)
qed

section \<open>Repair\<close>

lemma tail_line_no_newline [simp]: "newline \<notin> set (tail_line data)"
  by (auto simp: tail_line_def dest: set_takeWhileD)

lemma tail_split:
  obtains body where "data = body @ tail_line data" and "ends_line body"
proof
  let ?b = "rev (dropWhile (\<lambda>c. c \<noteq> newline) (rev data))"
  show "data = ?b @ tail_line data"
    unfolding tail_line_def rev_append [symmetric] takeWhile_dropWhile_id by simp
  show "ends_line ?b"
    using hd_dropWhile [of "\<lambda>c. c \<noteq> newline" "rev data"]
    by (auto simp: ends_line_def last_rev simp del: dropWhile_eq_Nil_conv)
qed

lemma tail_line_append:
  assumes "newline \<notin> set t" and "ends_line body"
  shows "tail_line (body @ t) = t"
proof -
  have "takeWhile (\<lambda>c. c \<noteq> newline) (rev t @ rev body) = rev t"
    using assms
    by (cases "rev body") (auto simp: ends_line_def takeWhile_append1 takeWhile_tail
        simp flip: hd_rev)
  then show ?thesis by (simp add: tail_line_def)
qed

lemma ends_line_drop: "ends_line body \<Longrightarrow> ends_line (drop n body)"
  by (cases "n < length body") (auto simp: ends_line_def)

lemma last_newline_iff: "data \<noteq> [] \<Longrightarrow> last data = newline \<longleftrightarrow> tail_line data = []"
  by (cases data rule: rev_cases) (auto simp: tail_line_def)

definition no_open_faults :: "open_io" where
  "no_open_faults = \<lparr>oi_mkdir = None, oi_open = None, oi_stat = None, oi_chmod = None,
     oi_tail_stat = None, oi_tail_read = None, oi_tail_write = None, oi_tail_truncate = None,
     oi_tail_sync = None\<rparr>"

text \<open>The repair in terms of the complete lines and the rest, whatever window it reads.\<close>

lemma repair_split:
  assumes "ends_line body" and "newline \<notin> set t" and "int (length t) \<le> MaxAuditRecordBytes"
  shows "repair_audit_tail u no_open_faults (body @ t) =
     (if t = [] then Inr body
      else if (case u t of Inl _ \<Rightarrow> False | Inr e \<Rightarrow> \<not> outcome_too_long e)
      then (if int (length (body @ t)) = MaxAuditLogBytes
            then Inl (new_error (''audit log exceeds '' @ itoa MaxAuditLogBytes @ '' bytes''))
            else Inr (body @ t @ [newline]))
      else Inr body)"
proof (cases "t = []")
  case True
  with assms(1) show ?thesis
    by (auto simp: repair_audit_tail_def no_open_faults_def Let_def ends_line_def)
next
  case False
  let ?k = "min (length (body @ t)) (nat MaxAuditRecordBytes + 1)"
  let ?s = "length (body @ t) - ?k"
  have s: "?s \<le> length body" using assms(3) by simp
  then have d: "drop ?s (body @ t) = drop ?s body @ t" by simp
  have tl: "tail_line (drop ?s (body @ t)) = t"
    unfolding d by (rule tail_line_append [OF assms(2) ends_line_drop [OF assms(1)]])
  have lst: "last (drop ?s (body @ t)) \<noteq> newline"
    using False assms(2) unfolding d by (metis last_appendR last_in_set)
  have len: "?s + (length (drop ?s (body @ t)) - length t) = length body"
    unfolding d using s by simp
  show ?thesis
    unfolding repair_audit_tail_def Let_def
    using False lst len
    unfolding tl by (simp add: no_open_faults_def)
qed

lemma read_entries_appendD:
  assumes "read_entries u acc (body @ t) = Inr es" and "ends_line body"
  shows "\<exists>es0. read_entries u acc body = Inr es0 \<and> read_entries u es0 t = Inr es"
  using assms
proof (induction "length body" arbitrary: acc body rule: less_induct)
  case less
  show ?case
  proof (cases rule: line_split [of body])
    case last_line
    with less.prems(2) have "body = []" by (metis ends_line_def last_in_set)
    with less.prems(1) show ?thesis by simp
  next
    case (more l rest)
    have *: "ends_line rest" using less.prems(2) more by (auto simp: ends_line_def split: if_splits)
    have "read_entries u acc (l @ newline # (rest @ t)) = Inr es" using less.prems(1) more by simp
    from this more(2) show ?thesis
    proof (cases rule: read_entries_lineE)
      case blank
      with less.hyps [of rest acc] more * show ?thesis by (simp add: read_entries_blank)
    next
      case (entry e)
      with less.hyps [of rest "acc @ [e]"] more * show ?thesis by (simp add: read_entries_line)
    qed
  qed
qed

text \<open>
  Opening a log that reads back as \<open>es\<close> keeps exactly those entries and leaves a log that
  ends in a complete line, so the next record starts a line of its own.
\<close>

lemma repair_keeps_entries:
  assumes rd: "read_entries u [] data = Inr es" and size: "int (length data) < MaxAuditLogBytes"
  shows "\<exists>f. repair_audit_tail u no_open_faults data = Inr f \<and> read_entries u [] f = Inr es
     \<and> ends_line f \<and> int (length f) \<le> MaxAuditLogBytes"
proof -
  obtain body t where d: "data = body @ t" and body: "ends_line body" and nt: "newline \<notin> set t"
    using tail_split [of data] tail_line_no_newline [of data] by metis
  obtain es0 where b: "read_entries u [] body = Inr es0" and rt: "read_entries u es0 t = Inr es"
    using read_entries_appendD [OF rd [unfolded d] body] by blast
  from rt nt show ?thesis
  proof (cases rule: read_entries_lastE)
    case blank
    with b body size d show ?thesis
      using repair_split [OF body, of "[]" u] by (simp add: audit_limits)
  next
    case (torn err)
    with b body size d nt show ?thesis by (simp add: repair_split)
  next
    case (entry e)
    with read_entries_snoc [OF b body entry(1,2)] b body size d nt show ?thesis
      by (simp add: repair_split readable_def ends_line_def)
  qed
qed

lemma open_audit_recovers:
  assumes "read_audit_log u (Some data) = Inr es" and size: "int (length data) < MaxAuditLogBytes"
  shows "\<exists>a. open_audit u no_open_faults (Some data) = Inr a \<and> au_open a \<and> log_holds u a es \<and> wf_audit a"
proof -
  have rd: "read_entries u [] data = Inr es" using assms by (simp add: read_audit_log_def)
  from repair_keeps_entries [OF rd size] obtain f where
    f: "repair_audit_tail u no_open_faults data = Inr f" "read_entries u [] f = Inr es"
       "ends_line f" "int (length f) \<le> MaxAuditLogBytes" by blast
  have "int (length es) \<le> MaxAuditReplayEntries"
    using read_entries_length [OF rd] by (simp add: audit_limits)
  then have "open_audit u no_open_faults (Some data) = Inr \<lparr>au_open = True, au_file = f, au_reserved = [],
      au_reserved_bytes = 0, au_record_count = int (length es)\<rparr>"
    using assms f unfolding open_audit_def by (simp add: no_open_faults_def)
  with f show ?thesis
    using \<open>int (length es) \<le> MaxAuditReplayEntries\<close> by (auto simp: log_holds_def wf_audit_def)
qed

text \<open>
  C10. An append is atomic across a crash. Take a log that reads back as \<open>es\<close> with room for
  one more record, and let the process die after any number \<open>k\<close> of the bytes of the next
  line reached the disk (all of them, some, none). If no proper prefix of the record's JSON
  decodes, opening the log afterwards succeeds, and the entries it holds are either exactly
  the old ones or the old ones and the whole new record; the reopened log satisfies the
  capacity invariant and ends in a complete line.
\<close>

theorem append_crash_atomic:
  assumes "log_holds u a es" and "readable u b e"
    and "\<forall>j. 0 < j \<and> j < length b \<longrightarrow> (\<exists>err. u (take j b) = Inl err)"
    and "int (length es) < MaxAuditReplayEntries"
    and "int (length (au_file a @ b)) + 1 < MaxAuditLogBytes"
  shows "\<exists>a'. open_audit u no_open_faults (Some (au_file a @ take k (b @ [newline]))) = Inr a'
     \<and> wf_audit a' \<and> (log_holds u a' es \<or> log_holds u a' (es @ [e]))"
proof -
  let ?t = "take k (b @ [newline])"
  have rd: "read_entries u [] (au_file a) = Inr es" and el: "ends_line (au_file a)"
    using assms(1) by (auto simp: log_holds_def)
  have nb: "newline \<notin> set b" and lb: "int (length b) \<le> MaxAuditRecordBytes"
    using assms(2) by (auto simp: readable_def)
  have "read_entries u [] (au_file a @ ?t) = Inr es \<or> read_entries u [] (au_file a @ ?t) = Inr (es @ [e])"
  proof -
    consider "k = 0" | "0 < k" "k < length b" | "k = length b" "b \<noteq> []" | "length b < k"
      by (cases k "length b" rule: linorder_cases) auto
    then show ?thesis
    proof cases
      case 1
      with rd show ?thesis by simp
    next
      case 2
      then obtain err where "u (take k b) = Inl err" using assms(3) by blast
      moreover have "newline \<notin> set (take k b)" using nb by (auto dest: in_set_takeD)
      ultimately have "read_entries u es (take k b) = Inr es"
        using lb 2 by (intro read_entries_torn) auto
      with 2 show ?thesis by (simp add: read_entries_append [OF rd el])
    next
      case 3
      then show ?thesis
        using read_entries_last [OF assms(2), of es] assms(4) by (simp add: read_entries_append [OF rd el])
    next
      case 4
      then show ?thesis
        using read_entries_line [OF assms(2), of es "[]"] assms(4) by (simp add: read_entries_append [OF rd el])
    qed
  qed
  moreover have size: "int (length (au_file a @ ?t)) < MaxAuditLogBytes" using assms(5) by simp
  ultimately have "read_audit_log u (Some (au_file a @ ?t)) = Inr es
      \<or> read_audit_log u (Some (au_file a @ ?t)) = Inr (es @ [e])"
    by (simp add: read_audit_log_def)
  then show ?thesis using open_audit_recovers [OF _ size] by blast
qed

definition sample_entry :: audit_entry where
  "sample_entry = \<lparr>ae_time = 5, ae_event = EventEnqueue, ae_id = ''a1'', ae_caller = ''cli'',
     ae_call_id = [], ae_tool = ''t'', ae_reason = [], ae_err = [], ae_params = [],
     ae_params_hash = [], ae_outcome = None\<rparr>"

definition sample_decode :: unmarshal where
  "sample_decode b = (if b = ''{1}'' then Inr sample_entry else Inl (new_error ''bad json''))"

definition empty_audit :: audit where
  "empty_audit = \<lparr>au_open = True, au_file = [], au_reserved = [], au_reserved_bytes = 0, au_record_count = 0\<rparr>"

lemma log_holds_empty [simp]: "log_holds u empty_audit []"
  by (simp add: log_holds_def empty_audit_def ends_line_def)

lemma wf_empty_audit [simp]: "wf_audit empty_audit"
  by (simp add: wf_audit_def empty_audit_def audit_limits)

lemma append_crash_atomic_witness:
  "\<exists>a'. open_audit sample_decode no_open_faults (Some (au_file empty_audit @ take 2 (''{1}'' @ [newline]))) = Inr a'
     \<and> wf_audit a' \<and> (log_holds sample_decode a' [] \<or> log_holds sample_decode a' ([] @ [sample_entry]))"
proof (rule append_crash_atomic)
  show "log_holds sample_decode empty_audit []" by simp
  show "readable sample_decode ''{1}'' sample_entry"
    by (simp add: readable_def sample_decode_def audit_limits outcome_too_long_def sample_entry_def)
  have "take j ''{1}'' \<noteq> ''{1}''" if "j < 3" for j
    using that by (metis length_take list.size(3,4) min.absorb4 add_0 less_irrefl numeral_3_eq_3 One_nat_def add_Suc_right add.right_neutral)
  then show "\<forall>j. 0 < j \<and> j < length ''{1}'' \<longrightarrow> (\<exists>err. sample_decode (take j ''{1}'') = Inl err)"
    by (auto simp: sample_decode_def)
qed (simp_all add: audit_limits empty_audit_def)

end
