(* ===== verification/Approval.thy ===== *)
theory Approval
  imports AuditLog
begin

text \<open>
  The approval queue of \<open>internal/approval\<close>: \<open>queue.go\<close> (enqueue, approve, deny, record the
  result, look up, list) and \<open>restore.go\<close> (rebuilding the queue from the audit log).

  Each method runs under the queue's mutex, so a history of the queue is a sequence of
  method calls. The clock reading of a call and the outcomes of its file system calls come
  with the call; \<open>newID\<close>'s random words come as a list, and \<open>EnqueueWithCallID\<close> takes the
  first fresh one. \<open>hash\<close> is the hexadecimal SHA-256 of \<open>auditParamsHash\<close>.
\<close>

section \<open>Data\<close>

record pending =
  p_id :: bytes
  p_caller :: bytes
  p_call_id :: bytes
  p_tool :: bytes
  p_params :: bytes
  p_status :: status
  p_reason :: bytes
  p_created_at :: instant
  p_decided_at :: "instant option"
  p_executed_at :: "instant option"
  p_result :: bytes
  p_err :: bytes

record queue =
  q_items :: "(bytes, pending) gomap"
  q_history :: "(bytes, pending) gomap"
  q_audit :: "audit option"

definition new_queue :: "audit option \<Rightarrow> queue" where
  "new_queue a = \<lparr>q_items = [], q_history = [], q_audit = a\<rparr>"

definition MaxApprovalCallerBytes :: nat where "MaxApprovalCallerBytes = 8192"
definition MaxApprovalCallIDBytes :: nat where "MaxApprovalCallIDBytes = 1024"
definition MaxApprovalToolBytes :: nat where "MaxApprovalToolBytes = 8192"
definition MaxTerminalTextBytes :: nat where "MaxTerminalTextBytes = 32768"

definition ErrUnknownID :: "bytes \<Rightarrow> go_error" where
  "ErrUnknownID i = \<lparr>err_chain = [S_ApprovalUnknown], err_text = ''approval id not found: '' @ i\<rparr>"

definition ErrIllegalTransition :: "bytes \<Rightarrow> go_error" where
  "ErrIllegalTransition what =
     \<lparr>err_chain = [S_IllegalTransition], err_text = ''illegal approval state transition: '' @ what\<rparr>"

definition errTerminalResultNotDurable :: "go_error \<Rightarrow> go_error" where
  "errTerminalResultNotDurable e =
     \<lparr>err_chain = [S_NotDurable],
      err_text = ''tool may have executed; terminal result was not durably recorded: '' @ err_text e\<rparr>"

section \<open>Helpers\<close>

text \<open>\<open>newID\<close>: eight hexadecimal digits of four random bytes.\<close>

definition new_id :: "nat \<Rightarrow> bytes" where
  "new_id n = map (\<lambda>i. hex_digit (n div 16 ^ (7 - i) mod 16)) [0..<8]"

definition validate_approval_text :: "bytes \<Rightarrow> bytes \<Rightarrow> nat \<Rightarrow> go_error option" where
  "validate_approval_text name v max_bytes =
     (if \<not> valid_utf8 v then Some (new_error (''enqueue: '' @ name @ '' must be valid UTF-8''))
      else if length v > max_bytes
      then Some (new_error (''enqueue: '' @ name @ '' exceeds '' @ itoa (int max_bytes) @ '' bytes''))
      else None)"

text \<open>The replacement character, and the cut that removes a rune split by the limit.\<close>

definition replacement :: bytes where
  "replacement = map char_of [0xEF, 0xBF, 0xBD :: nat]"

function cut_to_valid :: "bytes \<Rightarrow> bytes" where
  "cut_to_valid v = (if valid_utf8 v then v else cut_to_valid (butlast v))"
  by pat_completeness auto
termination
proof (relation "measure length", goal_cases)
  case 1
  show ?case by simp
next
  case (2 v)
  then have "v \<noteq> []" by auto
  then show ?case by simp
qed

declare cut_to_valid.simps [simp del]

definition bounded_terminal_text :: "bytes \<Rightarrow> bytes" where
  "bounded_terminal_text v0 =
     (let v = to_valid_utf8 replacement False v0 in
      if length v \<le> MaxTerminalTextBytes then v else cut_to_valid (take MaxTerminalTextBytes v))"

definition find_entry :: "queue \<Rightarrow> bytes \<Rightarrow> pending option" where
  "find_entry q i = (case map_of (q_items q) i of Some p \<Rightarrow> Some p | None \<Rightarrow> map_of (q_history q) i)"

definition has_id :: "queue \<Rightarrow> bytes \<Rightarrow> bool" where
  "has_id q i \<longleftrightarrow> map_of (q_items q) i \<noteq> None \<or> map_of (q_history q) i \<noteq> None"

text \<open>\<open>appendAudit\<close>: without an audit log every record is accepted.\<close>

definition append_record :: "marshal \<Rightarrow> audit_io \<Rightarrow> audit_entry \<Rightarrow> queue \<Rightarrow> queue \<times> go_error option" where
  "append_record marshal io e q =
     (case q_audit q of
        None \<Rightarrow> (q, None)
      | Some a \<Rightarrow> (case append_audit marshal io e a of (a', r) \<Rightarrow> (q\<lparr>q_audit := Some a'\<rparr>, r)))"

definition put_item :: "pending \<Rightarrow> queue \<Rightarrow> queue" where
  "put_item p q = q\<lparr>q_items := AList.update (p_id p) p (q_items q)\<rparr>"

definition base_entry :: "instant \<Rightarrow> audit_event \<Rightarrow> pending \<Rightarrow> audit_entry" where
  "base_entry t ev p = \<lparr>ae_time = t, ae_event = ev, ae_id = p_id p, ae_caller = p_caller p,
     ae_call_id = p_call_id p, ae_tool = p_tool p, ae_reason = [], ae_err = [], ae_params = [],
     ae_params_hash = [], ae_outcome = None\<rparr>"

definition terminal_entry :: "(bytes \<Rightarrow> bytes) \<Rightarrow> instant \<Rightarrow> audit_event \<Rightarrow> pending \<Rightarrow> terminal_outcome \<Rightarrow> audit_entry" where
  "terminal_entry hash t ev p oc =
     (base_entry t ev p)\<lparr>ae_params_hash := hash (p_params p), ae_outcome := Some oc\<rparr>"

section \<open>Operations\<close>

definition enqueue_text_error :: "bytes \<Rightarrow> bytes \<Rightarrow> bytes \<Rightarrow> bytes \<Rightarrow> go_error option" where
  "enqueue_text_error caller call_id tool reason =
     (if caller = [] \<or> tool = [] then Some (new_error ''enqueue: caller and tool name are required'')
      else first_error (\<lambda>(n, v, m). validate_approval_text n v m)
        [(''caller'', caller, MaxApprovalCallerBytes), (''call id'', call_id, MaxApprovalCallIDBytes),
         (''tool name'', tool, MaxApprovalToolBytes), (''reason'', reason, MaxTerminalTextBytes)])"

definition enqueue_entry :: "pending \<Rightarrow> audit_entry" where
  "enqueue_entry p = (base_entry (p_created_at p) EventEnqueue p)\<lparr>ae_reason := p_reason p, ae_params := p_params p\<rparr>"

text \<open>
  \<open>EnqueueWithCallID\<close>. \<open>None\<close> stands for the loop that is still drawing ids when the
  supplied random words run out.
\<close>

definition enqueue_with_call_id ::
  "marshal \<Rightarrow> instant \<Rightarrow> audit_io \<Rightarrow> nat list \<Rightarrow> bytes \<Rightarrow> bytes \<Rightarrow> bytes \<Rightarrow> bytes \<Rightarrow> bytes \<Rightarrow> queue
     \<Rightarrow> (queue \<times> (go_error + bytes)) option" where
  "enqueue_with_call_id marshal now io supply caller call_id tool params reason q =
     (case enqueue_text_error caller call_id tool reason of
        Some err \<Rightarrow> Some (q, Inl err)
      | None \<Rightarrow>
          (case find (\<lambda>i. \<not> has_id q i) (map new_id supply) of
             None \<Rightarrow> None
           | Some i \<Rightarrow>
               (let p = \<lparr>p_id = i, p_caller = caller, p_call_id = call_id, p_tool = tool,
                         p_params = params, p_status = StatusPending, p_reason = reason,
                         p_created_at = now, p_decided_at = None, p_executed_at = None,
                         p_result = [], p_err = []\<rparr>
                in case append_record marshal io (enqueue_entry p) (put_item p q) of
                     (q', Some err) \<Rightarrow> Some (q'\<lparr>q_items := AList.delete i (q_items q')\<rparr>,
                                            Inl (wrap_error ''enqueue audit: '' err))
                   | (q', None) \<Rightarrow> Some (q', Inr i))))"

definition enqueue ::
  "marshal \<Rightarrow> instant \<Rightarrow> audit_io \<Rightarrow> nat list \<Rightarrow> bytes \<Rightarrow> bytes \<Rightarrow> bytes \<Rightarrow> bytes \<Rightarrow> queue
     \<Rightarrow> (queue \<times> (go_error + bytes)) option" where
  "enqueue marshal now io supply caller tool params reason =
     enqueue_with_call_id marshal now io supply caller [] tool params reason"

definition arrow :: bytes where
  "arrow = '' '' @ map char_of [0xE2, 0x86, 0x92 :: nat] @ '' ''"

definition pending_for_transition :: "bytes \<Rightarrow> status \<Rightarrow> queue \<Rightarrow> go_error + pending" where
  "pending_for_transition i next q =
     (case map_of (q_items q) i of
        None \<Rightarrow> (case map_of (q_history q) i of
            Some h \<Rightarrow> Inl (ErrIllegalTransition (p_status h @ arrow @ next))
          | None \<Rightarrow> Inl (ErrUnknownID i))
      | Some p \<Rightarrow> if p_status p \<noteq> StatusPending
                  then Inl (ErrIllegalTransition (p_status p @ arrow @ next)) else Inr p)"

definition approve :: "marshal \<Rightarrow> instant \<Rightarrow> audit_io \<Rightarrow> bytes \<Rightarrow> queue \<Rightarrow> queue \<times> (go_error + pending)" where
  "approve marshal now io i q =
     (case pending_for_transition i StatusApproved q of
        Inl err \<Rightarrow> (q, Inl err)
      | Inr p \<Rightarrow>
          (case append_record marshal io ((base_entry now EventApprove p)\<lparr>ae_id := i\<rparr>) q of
             (q', Some err) \<Rightarrow> (q', Inl (wrap_error ''approve audit: '' err))
           | (q', None) \<Rightarrow>
               (let p' = p\<lparr>p_status := StatusApproved, p_decided_at := Some now\<rparr>
                in (q'\<lparr>q_items := AList.update i p' (q_items q')\<rparr>, Inr p'))))"

definition deny :: "marshal \<Rightarrow> (bytes \<Rightarrow> bytes) \<Rightarrow> instant \<Rightarrow> audit_io \<Rightarrow> bytes \<Rightarrow> bytes \<Rightarrow> queue
    \<Rightarrow> queue \<times> (go_error + pending)" where
  "deny marshal hash now io i reason q =
     (case validate_approval_text ''denial reason'' reason MaxTerminalTextBytes of
        Some err \<Rightarrow> (q, Inl err)
      | None \<Rightarrow>
          (case pending_for_transition i StatusDenied q of
             Inl err \<Rightarrow> (q, Inl err)
           | Inr p \<Rightarrow>
               (let oc = \<lparr>to_status = StatusDenied, to_result = [], to_reason = reason, to_err = [],
                          to_decided_at = Some now, to_executed_at = None\<rparr>
                in case append_record marshal io ((terminal_entry hash now EventDeny p oc)\<lparr>ae_id := i\<rparr>) q of
                     (q', Some err) \<Rightarrow> (q', Inl (wrap_error ''deny audit: '' err))
                   | (q', None) \<Rightarrow>
                       (let p' = p\<lparr>p_status := StatusDenied, p_reason := reason, p_decided_at := Some now\<rparr>
                        in (q'\<lparr>q_items := AList.update i p' (q_items q')\<rparr>, Inr p')))))"

text \<open>\<open>RecordResult\<close>; \<open>exec_err\<close> is \<open>execErr.Error()\<close> when the tool failed.\<close>

definition executed_snapshot :: "instant \<Rightarrow> bytes \<Rightarrow> bytes option \<Rightarrow> pending \<Rightarrow> pending" where
  "executed_snapshot now result exec_err p =
     (case exec_err of
        Some text \<Rightarrow> p\<lparr>p_executed_at := Some now, p_status := StatusFailed, p_err := bounded_terminal_text text\<rparr>
      | None \<Rightarrow> p\<lparr>p_executed_at := Some now, p_status := StatusExecuted, p_result := result\<rparr>)"

definition record_result ::
  "marshal \<Rightarrow> (bytes \<Rightarrow> bytes) \<Rightarrow> instant \<Rightarrow> audit_io \<Rightarrow> bytes \<Rightarrow> bytes \<Rightarrow> bytes option \<Rightarrow> queue
     \<Rightarrow> queue \<times> (go_error + pending)" where
  "record_result marshal hash now io i result exec_err q =
     (if exec_err = None \<and> int (length result) > MaxTerminalResultBytes
      then (q, Inl (new_error (''terminal result exceeds '' @ itoa MaxTerminalResultBytes @ '' bytes'')))
      else (case map_of (q_items q) i of
          None \<Rightarrow> (case map_of (q_history q) i of
              Some h \<Rightarrow> (q, Inl (ErrIllegalTransition (''cannot record result on '' @ p_status h @ '' entry'')))
            | None \<Rightarrow> (q, Inl (ErrUnknownID i)))
        | Some p \<Rightarrow>
            if p_status p \<noteq> StatusApproved
            then (q, Inl (ErrIllegalTransition (''cannot record result on '' @ p_status p @ '' entry'')))
            else
              (let snap = executed_snapshot now result exec_err p;
                   ev = (if exec_err = None then EventExecute else EventFail);
                   oc = \<lparr>to_status = p_status snap, to_result = p_result snap, to_reason = [],
                         to_err = p_err snap, to_decided_at = p_decided_at snap,
                         to_executed_at = p_executed_at snap\<rparr>
               in case append_record marshal io ((terminal_entry hash now ev snap oc)\<lparr>ae_id := i\<rparr>) q of
                    (q', Some err) \<Rightarrow> (q', Inl (errTerminalResultNotDurable err))
                  | (q', None) \<Rightarrow> (q'\<lparr>q_items := AList.update i snap (q_items q')\<rparr>, Inr snap))))"

definition get_entry :: "bytes \<Rightarrow> queue \<Rightarrow> pending option" where
  "get_entry i q = find_entry q i"

definition list_entries :: "status \<Rightarrow> queue \<Rightarrow> pending list" where
  "list_entries flt q =
     stable_sort (\<lambda>a b. p_created_at a < p_created_at b)
       (filter (\<lambda>p. flt = [] \<or> p_status p = flt) (map snd (q_items q)))"

section \<open>Restore\<close>

record accumulator =
  acc_enqueue :: "audit_entry option"
  acc_latest :: audit_entry

definition accumulate :: "audit_entry \<Rightarrow> (bytes, accumulator) gomap \<Rightarrow> (bytes, accumulator) gomap" where
  "accumulate e m =
     (if ae_id e = [] then m
      else
        (let enq = (case map_of m (ae_id e) of None \<Rightarrow> None | Some a \<Rightarrow> acc_enqueue a);
             enq' = (if ae_event e = EventEnqueue then Some e else enq)
         in AList.update (ae_id e) \<lparr>acc_enqueue = enq', acc_latest = e\<rparr> m))"

definition accumulate_all :: "audit_entry list \<Rightarrow> (bytes, accumulator) gomap" where
  "accumulate_all es = fold accumulate es []"

definition terminal_outcome_matches :: "audit_event \<Rightarrow> status \<Rightarrow> bool" where
  "terminal_outcome_matches ev st =
     (if ev = EventDeny then st = StatusDenied else if ev = EventExecute then st = StatusExecuted
      else if ev = EventFail then st = StatusFailed else False)"

definition terminal_audit_matches_enqueue :: "(bytes \<Rightarrow> bytes) \<Rightarrow> audit_entry \<Rightarrow> audit_entry \<Rightarrow> bool" where
  "terminal_audit_matches_enqueue hash terminal enq \<longleftrightarrow>
     ae_caller terminal = ae_caller enq \<and> ae_call_id terminal = ae_call_id enq
     \<and> ae_tool terminal = ae_tool enq \<and> ae_params_hash terminal \<noteq> []
     \<and> ae_params_hash terminal = hash (ae_params enq)"

text \<open>The entry an accumulator restores to; the flag says whether it is live.\<close>

definition restored_entry :: "(bytes \<Rightarrow> bytes) \<Rightarrow> bytes \<Rightarrow> accumulator \<Rightarrow> (bool \<times> pending) option" where
  "restored_entry hash i a =
     (case acc_enqueue a of
        None \<Rightarrow> None
      | Some enq \<Rightarrow>
          (let p = \<lparr>p_id = i, p_caller = ae_caller enq, p_call_id = ae_call_id enq,
                    p_tool = ae_tool enq, p_params = ae_params enq, p_status = StatusPending,
                    p_reason = ae_reason enq, p_created_at = ae_time enq, p_decided_at = None,
                    p_executed_at = None, p_result = [], p_err = []\<rparr>;
               last = acc_latest a;
               ev = ae_event last
           in if ev = EventDeny \<or> ev = EventExecute \<or> ev = EventFail
              then (case ae_outcome last of
                  None \<Rightarrow> None
                | Some oc \<Rightarrow>
                    if \<not> terminal_outcome_matches ev (to_status oc)
                       \<or> \<not> terminal_audit_matches_enqueue hash last enq then None
                    else Some (False, p\<lparr>p_status := to_status oc, p_result := to_result oc,
                           p_reason := to_reason oc, p_err := to_err oc,
                           p_decided_at := to_decided_at oc, p_executed_at := to_executed_at oc\<rparr>))
              else if ev = EventEnqueue \<or> ev = EventApprove then Some (True, p)
              else None))"

record restore_stats =
  rs_pending :: nat
  rs_terminal :: nat

definition restore_one :: "(bytes \<Rightarrow> bytes) \<Rightarrow> bytes \<times> accumulator \<Rightarrow> queue \<times> restore_stats \<Rightarrow> queue \<times> restore_stats" where
  "restore_one hash ia s =
     (case (ia, s) of ((i, a), (q, st)) \<Rightarrow>
        if acc_enqueue a = None \<or> has_id q i then (q, st)
        else (case restored_entry hash i a of
            None \<Rightarrow> (q, st)
          | Some (True, p) \<Rightarrow> (q\<lparr>q_items := AList.update i p (q_items q)\<rparr>, st\<lparr>rs_pending := rs_pending st + 1\<rparr>)
          | Some (False, p) \<Rightarrow> (q\<lparr>q_history := AList.update i p (q_history q)\<rparr>, st\<lparr>rs_terminal := rs_terminal st + 1\<rparr>)))"

definition restore :: "(bytes \<Rightarrow> bytes) \<Rightarrow> audit_entry list \<Rightarrow> queue \<Rightarrow> queue \<times> restore_stats" where
  "restore hash es q = fold (restore_one hash) (accumulate_all es) (q, \<lparr>rs_pending = 0, rs_terminal = 0\<rparr>)"

section \<open>The abstract machine\<close>

text \<open>
  What the queue promises, without maps, files and error texts: a book of entries in which
  each entry is created pending and then moves along
  \<open>pending \<rightarrow> approved \<rightarrow> executed | failed\<close> or \<open>pending \<rightarrow> denied\<close>, every move labelled with
  the audit record that makes it durable.
\<close>

type_synonym book = "bytes \<Rightarrow> pending option"

definition unsettled :: "pending \<Rightarrow> bool" where
  "unsettled p \<longleftrightarrow> p_executed_at p = None \<and> p_result p = [] \<and> p_err p = []"

definition is_terminal :: "status \<Rightarrow> bool" where
  "is_terminal st \<longleftrightarrow> st = StatusDenied \<or> st = StatusExecuted \<or> st = StatusFailed"

inductive book_step :: "(bytes \<Rightarrow> bytes) \<Rightarrow> book \<Rightarrow> audit_entry \<Rightarrow> book \<Rightarrow> bool" for hash where
  created: "b i = None \<Longrightarrow> i \<noteq> [] \<Longrightarrow> p_id p = i \<Longrightarrow> p_status p = StatusPending \<Longrightarrow>
    p_decided_at p = None \<Longrightarrow> unsettled p \<Longrightarrow> book_step hash b (enqueue_entry p) (b(i \<mapsto> p))"
| approved: "b i = Some p \<Longrightarrow> p_status p = StatusPending \<Longrightarrow>
    book_step hash b (base_entry t EventApprove p)
      (b(i \<mapsto> p\<lparr>p_status := StatusApproved, p_decided_at := Some t\<rparr>))"
| denied: "b i = Some p \<Longrightarrow> p_status p = StatusPending \<Longrightarrow>
    book_step hash b
      (terminal_entry hash t EventDeny p \<lparr>to_status = StatusDenied, to_result = [], to_reason = r,
         to_err = [], to_decided_at = Some t, to_executed_at = None\<rparr>)
      (b(i \<mapsto> p\<lparr>p_status := StatusDenied, p_reason := r, p_decided_at := Some t\<rparr>))"
| settled: "b i = Some p \<Longrightarrow> p_status p = StatusApproved \<Longrightarrow>
    p' = executed_snapshot t result exec_err p \<Longrightarrow>
    (exec_err = None \<Longrightarrow> int (length result) \<le> MaxTerminalResultBytes) \<Longrightarrow>
    book_step hash b
      (terminal_entry hash t (if exec_err = None then EventExecute else EventFail) p'
        \<lparr>to_status = p_status p', to_result = p_result p', to_reason = [], to_err = p_err p',
         to_decided_at = p_decided_at p', to_executed_at = p_executed_at p'\<rparr>)
      (b(i \<mapsto> p'))"

inductive_cases book_stepE: "book_step hash b e b'"

section \<open>The queue implements the abstract machine\<close>

definition entry_shape :: "pending \<Rightarrow> bool" where
  "entry_shape p \<longleftrightarrow>
     (p_status p = StatusPending \<and> p_decided_at p = None \<and> unsettled p)
     \<or> (p_status p = StatusApproved \<and> unsettled p)
     \<or> (p_status p = StatusDenied \<and> unsettled p)
     \<or> p_status p = StatusExecuted \<and> p_err p = []
     \<or> p_status p = StatusFailed \<and> p_result p = []"

definition wf_queue :: "queue \<Rightarrow> bool" where
  "wf_queue q \<longleftrightarrow> wf_map (q_items q) \<and> wf_map (q_history q)
     \<and> (\<forall>i p. map_of (q_items q) i = Some p \<longrightarrow> p_id p = i \<and> i \<noteq> [] \<and> entry_shape p)
     \<and> (\<forall>i p. map_of (q_history q) i = Some p \<longrightarrow> p_id p = i \<and> i \<noteq> [] \<and> is_terminal (p_status p)
           \<and> map_of (q_items q) i = None)"

datatype queue_op =
    Op_enqueue "nat list" bytes bytes bytes bytes bytes
  | Op_approve bytes
  | Op_deny bytes bytes
  | Op_record bytes bytes "bytes option"

type_synonym queue_call = "instant \<times> audit_io \<times> queue_op"

fun queue_step :: "marshal \<Rightarrow> (bytes \<Rightarrow> bytes) \<Rightarrow> queue_call \<Rightarrow> queue \<Rightarrow> queue" where
  "queue_step m h (now, io, Op_enqueue supply caller call_id tool params reason) q =
     (case enqueue_with_call_id m now io supply caller call_id tool params reason q of
        None \<Rightarrow> q | Some (q', r) \<Rightarrow> q')"
| "queue_step m h (now, io, Op_approve i) q = fst (approve m now io i q)"
| "queue_step m h (now, io, Op_deny i reason) q = fst (deny m h now io i reason q)"
| "queue_step m h (now, io, Op_record i result exec_err) q = fst (record_result m h now io i result exec_err q)"

lemma new_id_nonempty [simp]: "new_id n \<noteq> []"
  by (simp add: new_id_def)

lemma has_id_iff: "has_id q i \<longleftrightarrow> find_entry q i \<noteq> None"
  by (auto simp: has_id_def find_entry_def split: option.splits)

lemma append_record_fields:
  "append_record m io e q = (q', r) \<Longrightarrow> q_items q' = q_items q \<and> q_history q' = q_history q"
  by (auto simp: append_record_def split: option.splits prod.splits)

lemma base_entry_id [simp]: "ae_id (base_entry t ev p) = p_id p"
  by (simp add: base_entry_def)

lemma terminal_entry_id [simp]: "ae_id (terminal_entry h t ev p oc) = p_id p"
  by (simp add: terminal_entry_def)

lemma entry_id_self [simp]: "(e :: audit_entry)\<lparr>ae_id := ae_id e\<rparr> = e"
  by simp

lemma find_entry_update: "map_of (q_history q) i = None \<Longrightarrow>
  find_entry (q\<lparr>q_items := AList.update i p (q_items q)\<rparr>) = (find_entry q)(i \<mapsto> p)"
  by (auto simp: find_entry_def map_simps fun_eq_iff split: option.splits)

lemma find_entry_cong:
  "q_items q' = q_items q \<Longrightarrow> q_history q' = q_history q \<Longrightarrow> find_entry q' = find_entry q"
  by (auto simp: find_entry_def fun_eq_iff split: option.splits)

text \<open>
  The common tail of \<open>Approve\<close>, \<open>Deny\<close> and \<open>RecordResult\<close>: the record is appended, and only
  then is the item replaced.
\<close>

definition logged :: "marshal \<Rightarrow> audit_io \<Rightarrow> audit_entry \<Rightarrow> queue \<Rightarrow> queue \<Rightarrow> bool" where
  "logged m io e q q' \<longleftrightarrow>
     (case q_audit q of
        None \<Rightarrow> q_audit q' = None
      | Some a \<Rightarrow> \<exists>a'. append_audit m io e a = (a', None) \<and> q_audit q' = Some a')"

definition refused :: "marshal \<Rightarrow> audit_io \<Rightarrow> queue \<Rightarrow> queue \<Rightarrow> bool" where
  "refused m io q q' \<longleftrightarrow> map_of (q_items q') = map_of (q_items q) \<and> q_history q' = q_history q
     \<and> wf_map (q_items q')
     \<and> (q_audit q' = q_audit q
        \<or> (\<exists>a e a' err. q_audit q = Some a \<and> append_audit m io e a = (a', Some err) \<and> q_audit q' = Some a'))"

text \<open>\<open>replaced\<close>: entry \<open>i\<close> is now \<open>p\<close>, and the record \<open>e\<close> is in the log.\<close>

definition replaced :: "marshal \<Rightarrow> audit_io \<Rightarrow> audit_entry \<Rightarrow> bytes \<Rightarrow> pending \<Rightarrow> queue \<Rightarrow> queue \<Rightarrow> bool" where
  "replaced m io e i p q q' \<longleftrightarrow> logged m io e q q' \<and> q_history q' = q_history q
     \<and> wf_map (q_items q') \<and> map_of (q_items q') = (map_of (q_items q))(i \<mapsto> p)"

lemma append_record_audit_ok:
  "append_record m io e q = (q', None) \<Longrightarrow>
     (case q_audit q of None \<Rightarrow> q_audit q' = None
      | Some a \<Rightarrow> \<exists>a'. append_audit m io e a = (a', None) \<and> q_audit q' = Some a')"
  by (auto simp: append_record_def split: option.splits prod.splits)

lemma append_record_audit_err:
  "append_record m io e q = (q', Some err) \<Longrightarrow>
     \<exists>a a'. q_audit q = Some a \<and> append_audit m io e a = (a', Some err) \<and> q_audit q' = Some a'"
  by (auto simp: append_record_def split: option.splits prod.splits)

lemma append_record_ok:
  assumes "append_record m io e q = (q', None)" and "wf_map (q_items q)"
  shows "replaced m io e i p q (q'\<lparr>q_items := AList.update i p (q_items q')\<rparr>)"
  unfolding replaced_def logged_def
  using append_record_audit_ok [OF assms(1)] append_record_fields [OF assms(1)] assms(2)
  by (simp add: map_simps fun_eq_iff split: option.splits)

lemma append_record_err:
  assumes "append_record m io e q = (q', Some err)" and "wf_map (q_items q)"
  shows "refused m io q q'"
  unfolding refused_def
  using append_record_audit_err [OF assms(1)] append_record_fields [OF assms(1)] assms(2)
  by auto

lemma enqueue_cases:
  assumes "enqueue_with_call_id m now io supply caller call_id tool params reason q = Some (q', r)"
    and "wf_map (q_items q)"
  obtains "refused m io q q'"
  | p where "\<not> has_id q (p_id p)" "p_id p \<noteq> []" "p_status p = StatusPending" "p_decided_at p = None"
      "unsettled p" "p_params p = params" "enqueue_text_error (p_caller p) (p_call_id p) (p_tool p) (p_reason p) = None"
      "replaced m io (enqueue_entry p) (p_id p) p q q'" "r = Inr (p_id p)" "p_created_at p = now"
      "p_caller p = caller" "p_call_id p = call_id" "p_tool p = tool"
proof (cases "enqueue_text_error caller call_id tool reason")
  case (Some err)
  with assms show thesis by (auto simp: enqueue_with_call_id_def refused_def intro: that(1))
next
  case None
  then obtain i where i: "find (\<lambda>i. \<not> has_id q i) (map new_id supply) = Some i"
    using assms(1) by (auto simp: enqueue_with_call_id_def split: option.splits)
  then have new: "\<not> has_id q i" "i \<noteq> []" using find_SomeD [OF i] by auto
  define p where "p = \<lparr>p_id = i, p_caller = caller, p_call_id = call_id, p_tool = tool,
                         p_params = params, p_status = StatusPending, p_reason = reason,
                         p_created_at = now, p_decided_at = None, p_executed_at = None,
                         p_result = [], p_err = []\<rparr>"
  obtain qa ra where app: "append_record m io (enqueue_entry p) (put_item p q) = (qa, ra)"
    by fastforce
  have fs: "q_items qa = AList.update i p (q_items q)" "q_history qa = q_history q"
    using append_record_fields [OF app] by (auto simp: put_item_def p_def)
  have pid: "p_id p = i" by (simp add: p_def)
  have aud: "q_audit (put_item p q) = q_audit q" by (simp add: put_item_def)
  show thesis
  proof (cases ra)
    case (Some err)
    then have q': "q' = qa\<lparr>q_items := AList.delete i (q_items qa)\<rparr>"
      using assms(1) None i app by (simp add: enqueue_with_call_id_def p_def [symmetric])
    have "refused m io q q'"
      unfolding q' refused_def
      using append_record_audit_err [OF app [unfolded Some]] new(1) assms(2) aud
      by (auto simp: fs map_simps fun_eq_iff has_id_def)
    then show thesis by (rule that(1))
  next
    case None
    then have q': "q' = qa" "r = Inr i"
      using assms(1) \<open>enqueue_text_error caller call_id tool reason = None\<close> i app
      by (simp_all add: enqueue_with_call_id_def p_def [symmetric])
    have "replaced m io (enqueue_entry p) i p q q'"
      unfolding q' replaced_def logged_def
      using append_record_audit_ok [OF app [unfolded None]] assms(2) aud
      by (simp add: fs map_simps fun_eq_iff)
    then show thesis
      using new q' \<open>enqueue_text_error caller call_id tool reason = None\<close>
      by (intro that(2) [of p]) (auto simp: p_def unsettled_def)
  qed
qed

lemma wf_queue_item:
  "wf_queue q \<Longrightarrow> map_of (q_items q) i = Some p \<Longrightarrow> p_id p = i \<and> i \<noteq> [] \<and> entry_shape p
     \<and> map_of (q_history q) i = None"
  unfolding wf_queue_def by (cases "map_of (q_history q) i") auto

lemma pending_for_transition_Inr:
  "pending_for_transition i st q = Inr p \<Longrightarrow> map_of (q_items q) i = Some p \<and> p_status p = StatusPending"
  by (auto simp: pending_for_transition_def split: option.splits if_splits)

lemma approve_cases:
  assumes "approve m now io i q = (q', r)" and "wf_queue q"
  obtains "refused m io q q'" "\<exists>err. r = Inl err"
  | p where "map_of (q_items q) i = Some p" "p_status p = StatusPending"
      "replaced m io (base_entry now EventApprove p) i (p\<lparr>p_status := StatusApproved, p_decided_at := Some now\<rparr>) q q'"
      "r = Inr (p\<lparr>p_status := StatusApproved, p_decided_at := Some now\<rparr>)"
proof (cases "pending_for_transition i StatusApproved q")
  case (Inl err)
  with assms have "q' = q" "r = Inl err" by (simp_all add: approve_def)
  with assms(2) show thesis by (intro that(1)) (auto simp: refused_def wf_queue_def)
next
  case (Inr p)
  note p = pending_for_transition_Inr [OF Inr]
  then have e: "(base_entry now EventApprove p)\<lparr>ae_id := i\<rparr> = base_entry now EventApprove p"
    using wf_queue_item [OF assms(2)] by (auto simp: base_entry_def)
  have wf: "wf_map (q_items q)" using assms(2) by (simp add: wf_queue_def)
  show thesis
    using assms(1) Inr p that append_record_ok [OF _ wf] append_record_err [OF _ wf]
    by (fastforce simp: approve_def e Let_def split: prod.splits option.splits)
qed

lemma deny_cases:
  assumes "deny m h now io i reason q = (q', r)" and "wf_queue q"
  obtains "refused m io q q'" "\<exists>err. r = Inl err"
  | p where "map_of (q_items q) i = Some p" "p_status p = StatusPending" "valid_utf8 reason"
      "replaced m io (terminal_entry h now EventDeny p \<lparr>to_status = StatusDenied, to_result = [], to_reason = reason,
         to_err = [], to_decided_at = Some now, to_executed_at = None\<rparr>) i
        (p\<lparr>p_status := StatusDenied, p_reason := reason, p_decided_at := Some now\<rparr>) q q'"
proof (cases "validate_approval_text ''denial reason'' reason MaxTerminalTextBytes")
  case (Some err)
  with assms have "q' = q" "r = Inl err" by (simp_all add: deny_def)
  with assms(2) show thesis by (intro that(1)) (auto simp: refused_def wf_queue_def)
next
  case None
  then have v: "valid_utf8 reason" by (auto simp: validate_approval_text_def split: if_splits)
  show thesis
  proof (cases "pending_for_transition i StatusDenied q")
    case (Inl err)
    with assms None have "q' = q" "r = Inl err" by (simp_all add: deny_def)
    with assms(2) show thesis by (intro that(1)) (auto simp: refused_def wf_queue_def)
  next
    case (Inr p)
    note p = pending_for_transition_Inr [OF Inr]
    then have e: "\<And>oc. (terminal_entry h now EventDeny p oc)\<lparr>ae_id := i\<rparr> = terminal_entry h now EventDeny p oc"
      using wf_queue_item [OF assms(2)] by (auto simp: base_entry_def terminal_entry_def)
    have wf: "wf_map (q_items q)" using assms(2) by (simp add: wf_queue_def)
    show thesis
      using assms(1) None Inr p v that append_record_ok [OF _ wf] append_record_err [OF _ wf]
      by (auto simp: deny_def e Let_def split: prod.splits option.splits)
  qed
qed

lemma executed_snapshot_id [simp]: "p_id (executed_snapshot now result exec_err p) = p_id p"
  by (simp add: executed_snapshot_def split: option.splits)

lemma record_result_cases:
  assumes "record_result m h now io i result exec_err q = (q', r)" and "wf_queue q"
  obtains "refused m io q q'" "\<exists>err. r = Inl err"
  | p p' where "map_of (q_items q) i = Some p" "p_status p = StatusApproved"
      "p' = executed_snapshot now result exec_err p"
      "exec_err = None \<Longrightarrow> int (length result) \<le> MaxTerminalResultBytes"
      "replaced m io (terminal_entry h now (if exec_err = None then EventExecute else EventFail) p'
         \<lparr>to_status = p_status p', to_result = p_result p', to_reason = [], to_err = p_err p',
          to_decided_at = p_decided_at p', to_executed_at = p_executed_at p'\<rparr>) i p' q q'"
      "r = Inr p'"
proof (cases "(exec_err \<noteq> None \<or> int (length result) \<le> MaxTerminalResultBytes) \<and>
    (\<exists>p. map_of (q_items q) i = Some p \<and> p_status p = StatusApproved)")
  case False
  with assms show thesis
    by (auto simp: record_result_def refused_def wf_queue_def split: if_splits option.splits intro: that(1))
next
  case True
  then obtain p where p: "map_of (q_items q) i = Some p" "p_status p = StatusApproved" by auto
  then have e: "\<And>ev oc. (terminal_entry h now ev (executed_snapshot now result exec_err p) oc)\<lparr>ae_id := i\<rparr>
      = terminal_entry h now ev (executed_snapshot now result exec_err p) oc"
    using wf_queue_item [OF assms(2)] by (auto simp: base_entry_def terminal_entry_def)
  have wf: "wf_map (q_items q)" using assms(2) by (simp add: wf_queue_def)
  have len: "exec_err = None \<Longrightarrow> int (length result) \<le> MaxTerminalResultBytes" using True by auto
  obtain qa ra where app: "append_record m io (terminal_entry h now (if exec_err = None then EventExecute else EventFail)
         (executed_snapshot now result exec_err p)
         \<lparr>to_status = p_status (executed_snapshot now result exec_err p),
          to_result = p_result (executed_snapshot now result exec_err p), to_reason = [],
          to_err = p_err (executed_snapshot now result exec_err p),
          to_decided_at = p_decided_at (executed_snapshot now result exec_err p),
          to_executed_at = p_executed_at (executed_snapshot now result exec_err p)\<rparr>) q = (qa, ra)"
    by fastforce
  have nb: "\<not> (exec_err = None \<and> int (length result) > MaxTerminalResultBytes)" using len by auto
  show thesis
  proof (cases ra)
    case (Some err)
    with assms(1) app nb p have "q' = qa" "r = Inl (errTerminalResultNotDurable err)"
      unfolding record_result_def Let_def by (simp_all add: e)
    with append_record_err [OF _ wf] app Some show thesis by (intro that(1)) auto
  next
    case None
    with assms(1) app nb p have
      "q' = qa\<lparr>q_items := AList.update i (executed_snapshot now result exec_err p) (q_items qa)\<rparr>"
      "r = Inr (executed_snapshot now result exec_err p)"
      unfolding record_result_def Let_def by (simp_all add: e)
    with append_record_ok [OF _ wf] app None show thesis
      by (intro that(2) [OF p refl len]) auto
  qed
qed

lemma refused_find: "refused m io q q' \<Longrightarrow> find_entry q' = find_entry q"
  by (auto simp: refused_def find_entry_def fun_eq_iff split: option.splits)

lemma replaced_find:
  "replaced m io e i p q q' \<Longrightarrow> map_of (q_history q) i = None \<Longrightarrow> find_entry q' = (find_entry q)(i \<mapsto> p)"
  by (auto simp: replaced_def find_entry_def fun_eq_iff split: option.splits)

lemma refused_wf: "refused m io q q' \<Longrightarrow> wf_queue q \<Longrightarrow> wf_queue q'"
  by (simp add: refused_def wf_queue_def)

lemma replaced_wf:
  "replaced m io e i p q q' \<Longrightarrow> map_of (q_history q) i = None \<Longrightarrow> p_id p = i \<Longrightarrow> i \<noteq> [] \<Longrightarrow>
   entry_shape p \<Longrightarrow> wf_queue q \<Longrightarrow> wf_queue q'"
  by (auto simp: replaced_def wf_queue_def)

lemma find_entry_item: "map_of (q_items q) i = Some p \<Longrightarrow> find_entry q i = Some p"
  by (simp add: find_entry_def)

lemma executed_snapshot_shape:
  "entry_shape p \<Longrightarrow> p_status p = StatusApproved \<Longrightarrow> entry_shape (executed_snapshot t result exec_err p)"
  by (auto simp: entry_shape_def executed_snapshot_def unsettled_def split: option.splits)

text \<open>The outcome of one call: either nothing but the audit changed, or one abstract step was logged.\<close>

definition call_outcome :: "marshal \<Rightarrow> (bytes \<Rightarrow> bytes) \<Rightarrow> audit_io \<Rightarrow> queue \<Rightarrow> queue \<Rightarrow> bool" where
  "call_outcome m h io q q' \<longleftrightarrow> refused m io q q' \<or>
     (\<exists>e. book_step h (find_entry q) e (find_entry q') \<and> logged m io e q q')"

lemma replaced_outcome:
  assumes "replaced m io e i p q q'" and "wf_queue q" and "map_of (q_history q) i = None"
    and "p_id p = i" and "i \<noteq> []" and "entry_shape p"
    and "book_step h (find_entry q) e ((find_entry q)(i \<mapsto> p))"
  shows "wf_queue q' \<and> call_outcome m h io q q'"
  using assms replaced_find [OF assms(1,3)] replaced_wf [OF assms(1,3)]
  by (auto simp: call_outcome_def replaced_def)

lemma queue_step_outcome:
  assumes "wf_queue q"
  shows "wf_queue (queue_step m h (now, io, op) q) \<and> call_outcome m h io q (queue_step m h (now, io, op) q)"
proof -
  have ref: "wf_queue q' \<and> call_outcome m h io q q'" if "refused m io q q'" for q'
    using that refused_wf assms by (auto simp: call_outcome_def)
  have same: "wf_queue q \<and> call_outcome m h io q q"
    using assms by (auto simp: call_outcome_def refused_def wf_queue_def)
  have wfi: "wf_map (q_items q)" using assms by (simp add: wf_queue_def)
  show ?thesis
  proof (cases op)
    case (Op_enqueue ws caller call_id tool params reason)
    show ?thesis
    proof (cases "enqueue_with_call_id m now io ws caller call_id tool params reason q")
      case None
      with same Op_enqueue show ?thesis by simp
    next
      case (Some qr)
      obtain q' r where qr: "qr = (q', r)" by fastforce
      from Some [unfolded qr] wfi have "wf_queue q' \<and> call_outcome m h io q q'"
      proof (cases rule: enqueue_cases)
        case 1
        then show ?thesis by (rule ref)
      next
        case (2 p)
        then have n: "find_entry q (p_id p) = None" "map_of (q_history q) (p_id p) = None"
          by (auto simp: has_id_def find_entry_def split: option.splits)
        show ?thesis
          by (rule replaced_outcome [OF 2(8) assms n(2)])
            (use 2 n in \<open>auto simp: entry_shape_def intro: book_step.created\<close>)
      qed
      with Some qr Op_enqueue show ?thesis by simp
    qed
  next
    case (Op_approve i)
    obtain q' r where qr: "approve m now io i q = (q', r)" by fastforce
    from qr assms have "wf_queue q' \<and> call_outcome m h io q q'"
    proof (cases rule: approve_cases)
      case 1
      then show ?thesis by (intro ref)
    next
      case (2 p)
      note w = wf_queue_item [OF assms 2(1)]
      show ?thesis
        by (rule replaced_outcome [OF 2(3) assms])
          (use 2 w in \<open>auto simp: entry_shape_def unsettled_def intro!: book_step.approved find_entry_item\<close>)
    qed
    with qr Op_approve show ?thesis by simp
  next
    case (Op_deny i reason)
    obtain q' r where qr: "deny m h now io i reason q = (q', r)" by fastforce
    from qr assms have "wf_queue q' \<and> call_outcome m h io q q'"
    proof (cases rule: deny_cases)
      case 1
      then show ?thesis by (intro ref)
    next
      case (2 p)
      note w = wf_queue_item [OF assms 2(1)]
      show ?thesis
        by (rule replaced_outcome [OF 2(4) assms])
          (use 2 w in \<open>auto simp: entry_shape_def unsettled_def intro!: book_step.denied find_entry_item\<close>)
    qed
    with qr Op_deny show ?thesis by simp
  next
    case (Op_record i result exec_err)
    obtain q' r where qr: "record_result m h now io i result exec_err q = (q', r)" by fastforce
    from qr assms have "wf_queue q' \<and> call_outcome m h io q q'"
    proof (cases rule: record_result_cases)
      case 1
      then show ?thesis by (intro ref)
    next
      case (2 p p')
      note w = wf_queue_item [OF assms 2(1)]
      show ?thesis
        using w 2(2,3)
        by (intro replaced_outcome [OF 2(5) assms _ _ _ _
              book_step.settled [where b = "find_entry q" and i = i and p = p and p' = p' and t = now
                and result = result and exec_err = exec_err, OF find_entry_item [OF 2(1)] 2(2) 2(3)]])
          (auto intro: executed_snapshot_shape 2(4))
    qed
    with qr Op_record show ?thesis by simp
  qed
qed

interpretation approvals: preserved "queue_step m h" wf_queue
  for m h
proof unfold_locales
  fix q and op :: queue_call
  assume "wf_queue q"
  then show "wf_queue (queue_step m h op q)"
    using queue_step_outcome by (cases op) auto
qed

lemma wf_new_queue [simp]: "wf_queue (new_queue a)"
  by (simp add: wf_queue_def new_queue_def)

end
