(* ===== verification/Recovery.thy ===== *)
theory Recovery
  imports Approval
begin

text \<open>
  What the queue and its audit log guarantee together: entries only move forward, an
  approval has room for its result, and replaying the log rebuilds the queue.
\<close>

section \<open>Entries only move forward\<close>

definition same_call :: "pending \<Rightarrow> pending \<Rightarrow> bool" where
  "same_call p p' \<longleftrightarrow> p_id p' = p_id p \<and> p_caller p' = p_caller p \<and> p_call_id p' = p_call_id p
     \<and> p_tool p' = p_tool p \<and> p_params p' = p_params p \<and> p_created_at p' = p_created_at p"

definition advances :: "pending \<Rightarrow> pending \<Rightarrow> bool" where
  "advances p p' \<longleftrightarrow> same_call p p' \<and>
     (p' = p
      \<or> p_status p = StatusPending \<and> (p_status p' = StatusApproved \<or> is_terminal (p_status p'))
      \<or> p_status p = StatusApproved \<and> (p_status p' = StatusExecuted \<or> p_status p' = StatusFailed))"

lemma advances_refl [simp]: "advances p p"
  by (simp add: advances_def same_call_def)

lemma advances_trans: "advances a b \<Longrightarrow> advances b c \<Longrightarrow> advances a c"
  by (auto simp: advances_def same_call_def is_terminal_def)

lemma executed_snapshot_status:
  "p_status (executed_snapshot t result exec_err p) = (if exec_err = None then StatusExecuted else StatusFailed)"
  by (simp add: executed_snapshot_def split: option.splits)

lemma same_call_executed [simp]: "same_call p (executed_snapshot t result exec_err p)"
  by (simp add: executed_snapshot_def same_call_def split: option.splits)

text \<open>An abstract step replaces one entry by one that is further along.\<close>

lemma book_step_one:
  assumes "book_step h b e b'"
  obtains i p' where "b' = b(i \<mapsto> p')" "ae_id e = p_id p'"
    "case b i of None \<Rightarrow> p_status p' = StatusPending \<and> ae_event e = EventEnqueue \<and> p_id p' = i
     | Some p \<Rightarrow> advances p p' \<and>
         (p_status p', ae_event e) \<in> {(StatusApproved, EventApprove), (StatusDenied, EventDeny),
            (StatusExecuted, EventExecute), (StatusFailed, EventFail)}"
  using assms
proof (cases rule: book_step.cases)
  case (created i p)
  then show thesis by (intro that [of i p]) (auto simp: enqueue_entry_def base_entry_def)
next
  case (approved i p t)
  then show thesis
    by (intro that [of i "p\<lparr>p_status := StatusApproved, p_decided_at := Some t\<rparr>"])
      (auto simp: base_entry_def advances_def same_call_def)
next
  case (denied i p t r)
  then show thesis
    by (intro that [of i "p\<lparr>p_status := StatusDenied, p_reason := r, p_decided_at := Some t\<rparr>"])
      (auto simp: base_entry_def terminal_entry_def advances_def same_call_def is_terminal_def)
next
  case (settled i p p' t result exec_err)
  then have "p_status p' \<noteq> p_status p" by (simp add: executed_snapshot_status)
  with settled show thesis
    by (intro that [of i p'])
      (auto simp: base_entry_def terminal_entry_def advances_def executed_snapshot_status)
qed

lemma book_step_advances:
  assumes "book_step h b e b'" and "b i = Some p"
  shows "\<exists>p'. b' i = Some p' \<and> advances p p'"
  using assms(1)
proof (cases rule: book_step_one)
  case (1 j p')
  then show ?thesis using assms(2) by (cases "j = i") auto
qed

lemma queue_step_advances:
  assumes "wf_queue q" and "find_entry q i = Some p"
  shows "\<exists>p'. find_entry (queue_step m h c q) i = Some p' \<and> advances p p'"
proof -
  obtain now io op where c: "c = (now, io, op)" by (cases c) auto
  have "call_outcome m h io q (queue_step m h c q)"
    using queue_step_outcome [OF assms(1)] c by simp
  then show ?thesis
    using book_step_advances assms(2) refused_find unfolding call_outcome_def by fastforce
qed


section \<open>Capacity\<close>

definition backed :: "queue \<Rightarrow> bool" where
  "backed q \<longleftrightarrow> wf_queue q \<and> (\<forall>a. q_audit q = Some a \<longrightarrow> wf_audit a \<and> au_open a
     \<and> (\<forall>i. map_of (au_reserved a) i \<noteq> None \<longleftrightarrow> (\<exists>p. find_entry q i = Some p \<and> p_status p = StatusApproved)))"

lemma with_time_fields [simp]:
  "ae_event (with_time io e) = ae_event e" "ae_id (with_time io e) = ae_id e"
  "ae_outcome (with_time io e) = ae_outcome e"
  by (simp_all add: with_time_def)

lemma reserved_after:
  assumes "append_audit m io e a = (a', None)" and "wf_audit a"
  shows "map_of (au_reserved a') i \<noteq> None \<longleftrightarrow>
    (if ae_id e = i \<and> ae_event e = EventApprove then True
     else if ae_id e = i \<and> ends_reservation (ae_event e) then False
     else map_of (au_reserved a) i \<noteq> None)"
  using assms(1)
proof (cases rule: append_audit_okE)
  case (1 b)
  have r: "reservation_of (a\<lparr>au_file := f\<rparr>) j = reservation_of a j" for f j
    by (simp add: reservation_of_def)
  have "ae_event e = EventApprove \<Longrightarrow> \<not> ends_reservation (ae_event e)" by (simp add: ends_reservation_def)
  then show ?thesis
    using reservation_cases [OF assms(2), of i] unfolding 1(4)
    by (auto simp: account_reserved map_simps r split: if_splits)
qed

lemma append_audit_wf:
  assumes "append_audit m io e a = (a', None)" and "wf_audit a"
  shows "wf_audit a' \<and> au_open a' = au_open a"
  using assms(1)
proof (cases rule: append_audit_okE)
  case (1 b)
  then show ?thesis
    using wf_audit_account [OF assms(2) 1(3)] by simp
qed

definition keyed :: "book \<Rightarrow> bool" where
  "keyed b \<longleftrightarrow> (\<forall>i p. b i = Some p \<longrightarrow> p_id p = i \<and> i \<noteq> [])"

lemma wf_queue_keyed: "wf_queue q \<Longrightarrow> keyed (find_entry q)"
  by (auto simp: keyed_def wf_queue_def find_entry_def split: option.splits)

lemma queue_step_backed:
  assumes "backed q" and "untorn io"
  shows "backed (queue_step m h (now, io, op) q)"
proof -
  let ?q = "queue_step m h (now, io, op) q"
  have wf: "wf_queue q" using assms(1) by (simp add: backed_def)
  note out = queue_step_outcome [OF wf, of m h now io op]
  show ?thesis
  proof (cases "refused m io q ?q")
    case True
    then have "q_audit ?q = q_audit q"
      using append_audit_refused [OF _ assms(2)] unfolding refused_def by metis
    with assms(1) out refused_find [OF True] show ?thesis by (simp add: backed_def)
  next
    case False
    then obtain e where e: "book_step h (find_entry q) e (find_entry ?q)" "logged m io e q ?q"
      using out by (auto simp: call_outcome_def)
    show ?thesis
    proof (cases "q_audit q")
      case None
      with e(2) out show ?thesis by (simp add: logged_def backed_def)
    next
      case (Some a)
      with e(2) obtain a' where a': "append_audit m io e a = (a', None)" "q_audit ?q = Some a'"
        by (auto simp: logged_def)
      have wa: "wf_audit a" "au_open a"
        and res: "\<And>i. map_of (au_reserved a) i \<noteq> None \<longleftrightarrow> (\<exists>p. find_entry q i = Some p \<and> p_status p = StatusApproved)"
        using assms(1) Some by (auto simp: backed_def)
      from e(1) have "map_of (au_reserved a') i \<noteq> None \<longleftrightarrow>
          (\<exists>p. find_entry ?q i = Some p \<and> p_status p = StatusApproved)" for i
      proof (cases rule: book_step_one)
        case (1 j p')
        have j: "ae_id e = j"
          using 1 wf_queue_keyed [OF wf]
          by (auto simp: keyed_def advances_def same_call_def split: option.splits)
        have ev1: "ae_event e = EventApprove \<longleftrightarrow> p_status p' = StatusApproved"
          and ev2: "\<not> ends_reservation (ae_event e) \<Longrightarrow> p_status p' \<noteq> StatusApproved \<Longrightarrow>
             \<not> (\<exists>p. find_entry q j = Some p \<and> p_status p = StatusApproved)"
          using 1(3) by (auto simp: ends_reservation_def advances_def split: option.splits)
        have ev3: "ends_reservation (ae_event e) \<Longrightarrow> ae_event e \<noteq> EventApprove"
          by (auto simp: ends_reservation_def)
        show ?thesis
        proof (cases "j = i")
          case True
          have "find_entry ?q i = Some p'" using 1(1) True by simp
          moreover have "map_of (au_reserved a') i \<noteq> None \<longleftrightarrow>
              (if ae_event e = EventApprove then True else if ends_reservation (ae_event e) then False
               else map_of (au_reserved a) i \<noteq> None)"
            using reserved_after [OF a'(1) wa(1), of i] j True by simp
          ultimately show ?thesis
            using ev1 ev2 ev3 res [of i] True by (metis option.inject)
        next
          case False
          then have "find_entry ?q i = find_entry q i" using 1(1) by simp
          moreover have "map_of (au_reserved a') i \<noteq> None \<longleftrightarrow> map_of (au_reserved a) i \<noteq> None"
            using reserved_after [OF a'(1) wa(1), of i] j False by simp
          ultimately show ?thesis using res [of i] by simp
        qed
      qed
      then show ?thesis
        using out a'(2) append_audit_wf [OF a'(1) wa(1)] wa(2) by (simp add: backed_def)
    qed
  qed
qed

definition untorn_calls :: "queue_call list \<Rightarrow> bool" where
  "untorn_calls calls \<longleftrightarrow> (\<forall>c \<in> set calls. untorn (fst (snd c)))"

lemma run_backed: "backed q \<Longrightarrow> untorn_calls calls \<Longrightarrow> backed (fold (queue_step m h) calls q)"
proof (induction calls arbitrary: q)
  case (Cons c calls)
  obtain now io op where c: "c = (now, io, op)" by (cases c) auto
  with Cons.prems have "backed (queue_step m h c q)" by (simp add: queue_step_backed untorn_calls_def)
  with Cons show ?case by (simp add: untorn_calls_def)
qed simp

lemma backed_new_queue: "wf_audit a \<Longrightarrow> au_open a \<Longrightarrow> au_reserved a = [] \<Longrightarrow> backed (new_queue (Some a))"
  using wf_new_queue [of "Some a"] by (simp add: backed_def) (simp add: new_queue_def find_entry_def)

lemma find_approved_live:
  "wf_queue q \<Longrightarrow> find_entry q i = Some p \<Longrightarrow> p_status p = StatusApproved \<Longrightarrow> map_of (q_items q) i = Some p"
  unfolding wf_queue_def by (cases "map_of (q_items q) i") (force simp: find_entry_def is_terminal_def)+


section \<open>Replay\<close>

definition null_result :: "bytes \<Rightarrow> bytes" where
  "null_result r = (if r = [] then ''null'' else r)"

text \<open>
  An entry after encoding and decoding: the one visible effect of JSON is that an absent
  result comes back as \<open>null\<close>.
\<close>

definition read_back :: "audit_entry \<Rightarrow> audit_entry" where
  "read_back e = e\<lparr>ae_outcome := map_option (\<lambda>oc. oc\<lparr>to_result := null_result (to_result oc)\<rparr>) (ae_outcome e)\<rparr>"

text \<open>
  What a restart makes of a live entry: an approval that was not acted on must be given
  again; a settled entry keeps its outcome, but only a denial keeps a reason.
\<close>

definition recover :: "pending \<Rightarrow> pending" where
  "recover p =
     (if p_status p = StatusPending then p
      else if p_status p = StatusApproved then p\<lparr>p_status := StatusPending, p_decided_at := None\<rparr>
      else p\<lparr>p_result := null_result (p_result p),
             p_reason := if p_status p = StatusDenied then p_reason p else []\<rparr>)"

definition remembered :: "pending \<Rightarrow> bool \<times> pending" where
  "remembered p = (\<not> is_terminal (p_status p), recover p)"

definition rebuilt :: "(bytes \<Rightarrow> bytes) \<Rightarrow> audit_entry list \<Rightarrow> bytes \<Rightarrow> (bool \<times> pending) option" where
  "rebuilt hash es i = Option.bind (map_of (accumulate_all es) i) (restored_entry hash i)"

definition tracks :: "(bytes \<Rightarrow> bytes) \<Rightarrow> book \<Rightarrow> audit_entry list \<Rightarrow> bool" where
  "tracks hash b es \<longleftrightarrow> (\<forall>i. rebuilt hash es i = map_option remembered (b i))"

lemma accumulate_all_snoc: "accumulate_all (es @ [e]) = accumulate e (accumulate_all es)"
  by (simp add: accumulate_all_def)

lemma wf_accumulate: "wf_map m \<Longrightarrow> wf_map (accumulate e m)"
  by (simp add: accumulate_def Let_def)

lemma wf_accumulate_all: "wf_map (accumulate_all es)"
  by (induction es rule: rev_induct) (simp_all add: accumulate_all_snoc wf_accumulate, simp add: accumulate_all_def)

lemma rebuilt_other: "ae_id e \<noteq> i \<Longrightarrow> rebuilt hash (es @ [e]) i = rebuilt hash es i"
  by (simp add: rebuilt_def accumulate_all_snoc accumulate_def Let_def map_simps)

lemma rebuilt_enqueue:
  "ae_id e = i \<Longrightarrow> i \<noteq> [] \<Longrightarrow> ae_event e = EventEnqueue \<Longrightarrow>
   rebuilt hash (es @ [e]) i = restored_entry hash i \<lparr>acc_enqueue = Some e, acc_latest = e\<rparr>"
  by (simp add: rebuilt_def accumulate_all_snoc accumulate_def Let_def map_simps)

text \<open>The enqueue record behind a rebuilt entry carries the fields of the call.\<close>

lemma restored_entry_call:
  "restored_entry hash i a = Some (l, p) \<Longrightarrow>
     \<exists>enq. acc_enqueue a = Some enq \<and> ae_caller enq = p_caller p \<and> ae_call_id enq = p_call_id p
       \<and> ae_tool enq = p_tool p \<and> ae_params enq = p_params p \<and> ae_time enq = p_created_at p
       \<and> (p_status p = StatusPending \<longrightarrow> ae_reason enq = p_reason p)"
  by (auto simp: restored_entry_def Let_def terminal_outcome_matches_def split: option.splits if_splits)

lemma rebuilt_later:
  assumes "rebuilt hash es i = Some (l, p)" and "ae_id e = i" and "i \<noteq> []" and "ae_event e \<noteq> EventEnqueue"
  shows "\<exists>enq. rebuilt hash (es @ [e]) i = restored_entry hash i \<lparr>acc_enqueue = Some enq, acc_latest = e\<rparr>
     \<and> ae_caller enq = p_caller p \<and> ae_call_id enq = p_call_id p
       \<and> ae_tool enq = p_tool p \<and> ae_params enq = p_params p \<and> ae_time enq = p_created_at p
       \<and> (p_status p = StatusPending \<longrightarrow> ae_reason enq = p_reason p)"
proof -
  obtain a where a: "map_of (accumulate_all es) i = Some a" "restored_entry hash i a = Some (l, p)"
    using assms(1) by (auto simp: rebuilt_def bind_eq_Some_conv)
  from restored_entry_call [OF a(2)] obtain enq where enq: "acc_enqueue a = Some enq" and
    "ae_caller enq = p_caller p \<and> ae_call_id enq = p_call_id p \<and> ae_tool enq = p_tool p
      \<and> ae_params enq = p_params p \<and> ae_time enq = p_created_at p
      \<and> (p_status p = StatusPending \<longrightarrow> ae_reason enq = p_reason p)" by blast
  with a(1) assms(2-4) show ?thesis
    by (intro exI [of _ enq]) (simp add: rebuilt_def accumulate_all_snoc accumulate_def Let_def map_simps)
qed

lemma pending_eqI:
  "p_id a = p_id b \<Longrightarrow> p_caller a = p_caller b \<Longrightarrow> p_call_id a = p_call_id b \<Longrightarrow> p_tool a = p_tool b \<Longrightarrow>
   p_params a = p_params b \<Longrightarrow> p_status a = p_status b \<Longrightarrow> p_reason a = p_reason b \<Longrightarrow>
   p_created_at a = p_created_at b \<Longrightarrow> p_decided_at a = p_decided_at b \<Longrightarrow>
   p_executed_at a = p_executed_at b \<Longrightarrow> p_result a = p_result b \<Longrightarrow> p_err a = p_err b \<Longrightarrow> a = (b :: pending)"
  by simp

definition shaped :: "book \<Rightarrow> bool" where
  "shaped b \<longleftrightarrow> keyed b \<and> (\<forall>i p. b i = Some p \<and> \<not> is_terminal (p_status p) \<longrightarrow> entry_shape p)"

lemma tracks_fun_upd:
  assumes "tracks hash b es" and "ae_id e = i" and "rebuilt hash (es @ [e]) i = Some (remembered p)"
  shows "tracks hash (b(i \<mapsto> p)) (es @ [e])"
  using assms rebuilt_other [of e] by (auto simp: tracks_def)

lemma read_back_simps [simp]:
  "ae_id (read_back e) = ae_id e" "ae_event (read_back e) = ae_event e"
  "ae_caller (read_back e) = ae_caller e" "ae_call_id (read_back e) = ae_call_id e"
  "ae_tool (read_back e) = ae_tool e" "ae_reason (read_back e) = ae_reason e"
  "ae_params (read_back e) = ae_params e" "ae_params_hash (read_back e) = ae_params_hash e"
  "ae_time (read_back e) = ae_time e"
  "ae_outcome (read_back e) = map_option (\<lambda>oc. oc\<lparr>to_result := null_result (to_result oc)\<rparr>) (ae_outcome e)"
  by (simp_all add: read_back_def)

lemma tracks_step:
  assumes "tracks hash b es" and "book_step hash b e b'" and "shaped b" and h: "\<forall>x. hash x \<noteq> []"
  shows "tracks hash b' (es @ [read_back e])"
proof -
  have reb: "rebuilt hash es i = Some (remembered p)" if "b i = Some p" for i p
    using assms(1) that by (simp add: tracks_def)
  have key: "p_id p = i" "i \<noteq> []" "\<not> is_terminal (p_status p) \<Longrightarrow> entry_shape p" if "b i = Some p" for i p
    using assms(3) that by (auto simp: shaped_def keyed_def)
  show ?thesis
    using assms(2)
  proof (cases rule: book_step.cases)
    case (created i p)
    have "rebuilt hash (es @ [read_back e]) i = Some (remembered p)"
      using created by (subst rebuilt_enqueue)
        (auto simp: enqueue_entry_def base_entry_def restored_entry_def remembered_def recover_def
          is_terminal_def unsettled_def intro: pending_eqI)
    then show ?thesis
      using created tracks_fun_upd [OF assms(1)] by (simp add: enqueue_entry_def base_entry_def)
  next
    case (approved i p t)
    let ?p = "p\<lparr>p_status := StatusApproved, p_decided_at := Some t\<rparr>"
    have e: "ae_id (read_back e) = i" "ae_event (read_back e) = EventApprove"
      using approved key(1) [OF approved(3)] by (auto simp: base_entry_def)
    have "rebuilt hash es i = Some (True, p)"
      using reb [OF approved(3)] approved(4) by (simp add: remembered_def recover_def is_terminal_def)
    from rebuilt_later [OF this e(1) key(2) [OF approved(3)]] e(2) obtain enq where
      "rebuilt hash (es @ [read_back e]) i = restored_entry hash i \<lparr>acc_enqueue = Some enq, acc_latest = read_back e\<rparr>"
      "ae_caller enq = p_caller p \<and> ae_call_id enq = p_call_id p \<and> ae_tool enq = p_tool p
      \<and> ae_params enq = p_params p \<and> ae_time enq = p_created_at p \<and> ae_reason enq = p_reason p"
      using approved(4) by auto
    moreover have "entry_shape p" using key(3) [OF approved(3)] approved(4) by (simp add: is_terminal_def)
    ultimately have "rebuilt hash (es @ [read_back e]) i = Some (remembered ?p)"
      using approved(4) e key(1) [OF approved(3)]
      by (auto simp: restored_entry_def remembered_def recover_def is_terminal_def entry_shape_def
          unsettled_def intro: pending_eqI)
    then show ?thesis using tracks_fun_upd [OF assms(1) e(1)] approved(2) by simp
  next
    case (denied i p t r)
    let ?p = "p\<lparr>p_status := StatusDenied, p_reason := r, p_decided_at := Some t\<rparr>"
    have e: "ae_id (read_back e) = i" "ae_event (read_back e) = EventDeny"
      using denied key(1) [OF denied(3)] by (auto simp: base_entry_def terminal_entry_def)
    have "rebuilt hash es i = Some (True, p)"
      using reb [OF denied(3)] denied(4) by (simp add: remembered_def recover_def is_terminal_def)
    from rebuilt_later [OF this e(1) key(2) [OF denied(3)]] e(2) obtain enq where
      "rebuilt hash (es @ [read_back e]) i = restored_entry hash i \<lparr>acc_enqueue = Some enq, acc_latest = read_back e\<rparr>"
      "ae_caller enq = p_caller p \<and> ae_call_id enq = p_call_id p \<and> ae_tool enq = p_tool p
      \<and> ae_params enq = p_params p \<and> ae_time enq = p_created_at p \<and> ae_reason enq = p_reason p"
      using denied(4) by auto
    moreover have "entry_shape p" using key(3) [OF denied(3)] denied(4) by (simp add: is_terminal_def)
    ultimately have "rebuilt hash (es @ [read_back e]) i = Some (remembered ?p)"
      using denied(1,4) e key(1) [OF denied(3)] h
      by (auto simp: restored_entry_def remembered_def recover_def is_terminal_def entry_shape_def
          unsettled_def terminal_entry_def base_entry_def terminal_outcome_matches_def
          terminal_audit_matches_enqueue_def intro: pending_eqI)
    then show ?thesis using tracks_fun_upd [OF assms(1) e(1)] denied(2) by simp
  next
    case (settled i p p' t result exec_err)
    have id': "p_id p' = i" using settled(5) key(1) [OF settled(3)] by simp
    have e: "ae_id (read_back e) = i" "ae_event (read_back e) = (if exec_err = None then EventExecute else EventFail)"
      using settled(1) id' by (auto simp: base_entry_def terminal_entry_def)
    have "rebuilt hash es i = Some (True, p\<lparr>p_status := StatusPending, p_decided_at := None\<rparr>)"
      using reb [OF settled(3)] settled(4) by (simp add: remembered_def recover_def is_terminal_def)
    from rebuilt_later [OF this e(1) key(2) [OF settled(3)]] e(2) obtain enq where
      "rebuilt hash (es @ [read_back e]) i = restored_entry hash i \<lparr>acc_enqueue = Some enq, acc_latest = read_back e\<rparr>"
      "ae_caller enq = p_caller p \<and> ae_call_id enq = p_call_id p \<and> ae_tool enq = p_tool p
      \<and> ae_params enq = p_params p \<and> ae_time enq = p_created_at p \<and> ae_reason enq = p_reason p"
      by (auto split: if_splits)
    moreover have "entry_shape p" using key(3) [OF settled(3)] settled(4) by (simp add: is_terminal_def)
    moreover have "same_call p p'" using settled(5) by simp
    moreover have st: "p_status p' = (if exec_err = None then StatusExecuted else StatusFailed)"
      using settled(5) by (simp add: executed_snapshot_status)
    ultimately have "rebuilt hash (es @ [read_back e]) i = Some (remembered p')"
      using settled(1) e id' h
      by (auto simp: restored_entry_def remembered_def recover_def is_terminal_def entry_shape_def
          unsettled_def terminal_entry_def base_entry_def terminal_outcome_matches_def same_call_def
          terminal_audit_matches_enqueue_def intro: pending_eqI)
    then show ?thesis using tracks_fun_upd [OF assms(1) e(1)] settled(2) by simp
  qed
qed

section \<open>What restore puts where\<close>

definition restored_live :: "(bool \<times> pending) option \<Rightarrow> pending option" where
  "restored_live r = (case r of Some (True, p) \<Rightarrow> Some p | _ \<Rightarrow> None)"

definition restored_old :: "(bool \<times> pending) option \<Rightarrow> pending option" where
  "restored_old r = (case r of Some (False, p) \<Rightarrow> Some p | _ \<Rightarrow> None)"

lemma restored_entry_enqueue: "acc_enqueue a = None \<Longrightarrow> restored_entry hash i a = None"
  by (simp add: restored_entry_def)

lemma restore_one_lookup:
  "map_of (q_items (fst (restore_one hash (i, a) (q, st)))) j =
     (if j = i \<and> \<not> has_id q i \<and> restored_live (restored_entry hash i a) \<noteq> None
      then restored_live (restored_entry hash i a) else map_of (q_items q) j)"
  "map_of (q_history (fst (restore_one hash (i, a) (q, st)))) j =
     (if j = i \<and> \<not> has_id q i \<and> restored_old (restored_entry hash i a) \<noteq> None
      then restored_old (restored_entry hash i a) else map_of (q_history q) j)"
  "q_audit (fst (restore_one hash (i, a) (q, st))) = q_audit q"
  by (auto simp: restore_one_def restored_live_def restored_old_def restored_entry_enqueue map_simps
      split: option.splits bool.splits prod.splits)

lemma restore_fold_lookup:
  assumes "distinct (map fst m)"
  shows "map_of (q_items (fst (fold (restore_one hash) m (q, st)))) j =
      (if has_id q j then map_of (q_items q) j else restored_live (Option.bind (map_of m j) (restored_entry hash j)))
    \<and> map_of (q_history (fst (fold (restore_one hash) m (q, st)))) j =
      (if has_id q j then map_of (q_history q) j else restored_old (Option.bind (map_of m j) (restored_entry hash j)))
    \<and> q_audit (fst (fold (restore_one hash) m (q, st))) = q_audit q"
  using assms
proof (induction m arbitrary: q st)
  case Nil
  show ?case by (auto simp: has_id_def restored_live_def restored_old_def)
next
  case (Cons ia m)
  obtain i a where ia: "ia = (i, a)" by (cases ia)
  obtain q1 st1 where r: "restore_one hash (i, a) (q, st) = (q1, st1)" by fastforce
  note l = restore_one_lookup(1,2) [of hash i a q st, unfolded r fst_conv]
  have aud: "q_audit q1 = q_audit q" using restore_one_lookup(3) [of hash i a q st] r by simp
  have IH: "map_of (q_items (fst (fold (restore_one hash) m (q1, st1)))) j =
      (if has_id q1 j then map_of (q_items q1) j else restored_live (Option.bind (map_of m j) (restored_entry hash j)))
    \<and> map_of (q_history (fst (fold (restore_one hash) m (q1, st1)))) j =
      (if has_id q1 j then map_of (q_history q1) j else restored_old (Option.bind (map_of m j) (restored_entry hash j)))
    \<and> q_audit (fst (fold (restore_one hash) m (q1, st1))) = q_audit q1"
    using Cons by simp
  have *: "fold (restore_one hash) (ia # m) (q, st) = fold (restore_one hash) m (q1, st1)" by (simp add: ia r)
  show ?case
  proof (cases "j = i")
    case True
    then have none: "map_of m j = None" using Cons.prems ia by (simp add: map_of_eq_None_iff)
    have "has_id q1 i \<longleftrightarrow> has_id q i \<or> restored_entry hash i a \<noteq> None"
      using l by (auto simp: has_id_def restored_live_def restored_old_def split: option.splits bool.splits prod.splits)
    then show ?thesis
      unfolding * using IH l [of i] aud none True
      by (auto simp: ia has_id_def restored_live_def restored_old_def split: option.splits bool.splits prod.splits)
  next
    case False
    then have "has_id q1 j = has_id q j" using l [of j] by (simp add: has_id_def)
    then show ?thesis unfolding * using IH l [of j] aud False by (simp add: ia)
  qed
qed

lemma restore_lookup:
  fixes a :: "audit option" and es :: "audit_entry list" and hash :: "bytes \<Rightarrow> bytes"
  defines "q \<equiv> fst (restore hash es (new_queue a))"
  shows "map_of (q_items q) i = restored_live (rebuilt hash es i)"
    and "map_of (q_history q) i = restored_old (rebuilt hash es i)" and "q_audit q = a"
  using restore_fold_lookup [OF wf_accumulate_all [unfolded wf_map_def], of hash es "new_queue a"]
  by (auto simp: q_def restore_def rebuilt_def new_queue_def has_id_def)

section \<open>Entries that encode faithfully\<close>

text \<open>
  \<open>canonical\<close> says that a raw JSON text is one \<open>json.Marshal\<close> writes unchanged. The codec
  law is what \<open>encoding/json\<close> documents for an entry whose texts are valid UTF-8 and whose
  raw fields are canonical: one line that decodes to the entry.
\<close>

definition entry_ok :: "(bytes \<Rightarrow> bool) \<Rightarrow> audit_entry \<Rightarrow> bool" where
  "entry_ok canonical e \<longleftrightarrow> valid_utf8 (ae_caller e) \<and> valid_utf8 (ae_call_id e) \<and> valid_utf8 (ae_tool e)
     \<and> valid_utf8 (ae_reason e) \<and> (ae_params e = [] \<or> canonical (ae_params e))
     \<and> (\<forall>oc. ae_outcome e = Some oc \<longrightarrow> valid_utf8 (to_reason oc) \<and> valid_utf8 (to_err oc)
            \<and> (to_result oc = [] \<or> canonical (to_result oc)))"

definition codec_law :: "marshal \<Rightarrow> unmarshal \<Rightarrow> (bytes \<Rightarrow> bool) \<Rightarrow> bool" where
  "codec_law m u canonical \<longleftrightarrow> (\<forall>e b. m e = Inr b \<and> entry_ok canonical e \<longrightarrow>
     b \<noteq> [] \<and> newline \<notin> set b \<and> u b = Inr (read_back e))"

definition pending_ok :: "(bytes \<Rightarrow> bool) \<Rightarrow> pending \<Rightarrow> bool" where
  "pending_ok canonical p \<longleftrightarrow> valid_utf8 (p_caller p) \<and> valid_utf8 (p_call_id p) \<and> valid_utf8 (p_tool p)
     \<and> valid_utf8 (p_reason p) \<and> valid_utf8 (p_err p) \<and> (p_params p = [] \<or> canonical (p_params p))
     \<and> (p_result p = [] \<or> canonical (p_result p)) \<and> p_created_at p \<noteq> zero_time"

fun call_ok :: "(bytes \<Rightarrow> bool) \<Rightarrow> queue_op \<Rightarrow> bool" where
  "call_ok canonical (Op_enqueue _ _ _ _ params _) = (params = [] \<or> canonical params)"
| "call_ok canonical (Op_record _ result _) = (result = [] \<or> canonical result)"
| "call_ok canonical _ = True"

lemma valid_replacement: "valid_utf8 replacement"
  by code_simp

lemma valid_cut: "valid_utf8 (cut_to_valid v)"
  by (induction v rule: cut_to_valid.induct) (subst cut_to_valid.simps, simp)

lemma valid_bounded_terminal_text: "valid_utf8 (bounded_terminal_text v)"
  by (simp add: bounded_terminal_text_def Let_def valid_cut to_valid_utf8_valid valid_replacement)

lemma length_cut: "length (cut_to_valid v) \<le> length v"
proof (induction v rule: cut_to_valid.induct)
  case (1 v)
  then show ?case by (subst cut_to_valid.simps) fastforce
qed

lemma length_bounded_terminal_text: "length (bounded_terminal_text v) \<le> MaxTerminalTextBytes"
  using length_cut [of "take MaxTerminalTextBytes (to_valid_utf8 replacement False v)"]
  by (auto simp: bounded_terminal_text_def Let_def)

definition all_ok :: "(bytes \<Rightarrow> bool) \<Rightarrow> queue \<Rightarrow> bool" where
  "all_ok canonical q \<longleftrightarrow> (\<forall>i p. find_entry q i = Some p \<longrightarrow> pending_ok canonical p)"

lemma all_ok_refused: "refused m io q q' \<Longrightarrow> all_ok canonical q \<Longrightarrow> all_ok canonical q'"
  by (simp add: all_ok_def refused_find)

lemma all_ok_replaced:
  "replaced m io e i p q q' \<Longrightarrow> map_of (q_history q) i = None \<Longrightarrow> pending_ok canonical p \<Longrightarrow>
   all_ok canonical q \<Longrightarrow> all_ok canonical q'"
  by (simp add: all_ok_def replaced_find)

lemma enqueue_text_error_None:
  "enqueue_text_error caller call_id tool reason = None \<Longrightarrow>
   valid_utf8 caller \<and> valid_utf8 call_id \<and> valid_utf8 tool \<and> valid_utf8 reason"
  by (simp add: enqueue_text_error_def validate_approval_text_def split: if_splits)

lemma pending_ok_executed:
  "pending_ok canonical p \<Longrightarrow> result = [] \<or> canonical result \<Longrightarrow>
   pending_ok canonical (executed_snapshot t result exec_err p)"
  by (simp add: pending_ok_def executed_snapshot_def valid_bounded_terminal_text split: option.splits)

lemma queue_step_all_ok:
  assumes wf: "wf_queue q" and ok: "all_ok canonical q" and call: "call_ok canonical op"
    and now: "now \<noteq> zero_time"
  shows "all_ok canonical (queue_step m h (now, io, op) q)"
proof -
  have item: "pending_ok canonical p \<and> map_of (q_history q) i = None" if "map_of (q_items q) i = Some p" for i p
    using ok wf_queue_item [OF wf that] find_entry_item [OF that] by (auto simp: all_ok_def)
  show ?thesis
  proof (cases op)
    case (Op_enqueue ws caller call_id tool params reason)
    show ?thesis
    proof (cases "enqueue_with_call_id m now io ws caller call_id tool params reason q")
      case (Some qr)
      obtain q' r where qr: "qr = (q', r)" by fastforce
      have wfi: "wf_map (q_items q)" using wf by (simp add: wf_queue_def)
      from Some [unfolded qr] wfi have "all_ok canonical q'"
      proof (cases rule: enqueue_cases)
        case 1
        then show ?thesis by (rule all_ok_refused [OF _ ok])
      next
        case (2 p)
        then have "map_of (q_history q) (p_id p) = None" by (simp add: has_id_def)
        moreover have "pending_ok canonical p"
          using 2 enqueue_text_error_None [OF 2(7)] call Op_enqueue now by (simp add: pending_ok_def unsettled_def)
        ultimately show ?thesis using all_ok_replaced [OF 2(8)] ok by simp
      qed
      with Some qr Op_enqueue show ?thesis by simp
    qed (use ok Op_enqueue in simp)
  next
    case (Op_approve i)
    obtain q' r where qr: "approve m now io i q = (q', r)" by fastforce
    from qr wf have "all_ok canonical q'"
    proof (cases rule: approve_cases)
      case 1
      show ?thesis by (rule all_ok_refused [OF 1(1) ok])
    next
      case (2 p)
      show ?thesis
        by (rule all_ok_replaced [OF 2(3) _ _ ok]) (use item [OF 2(1)] in \<open>auto simp: pending_ok_def\<close>)
    qed
    with qr Op_approve show ?thesis by simp
  next
    case (Op_deny i reason)
    obtain q' r where qr: "deny m h now io i reason q = (q', r)" by fastforce
    from qr wf have "all_ok canonical q'"
    proof (cases rule: deny_cases)
      case 1
      show ?thesis by (rule all_ok_refused [OF 1(1) ok])
    next
      case (2 p)
      show ?thesis
        by (rule all_ok_replaced [OF 2(4) _ _ ok]) (use item [OF 2(1)] 2(3) in \<open>auto simp: pending_ok_def\<close>)
    qed
    with qr Op_deny show ?thesis by simp
  next
    case (Op_record i result exec_err)
    obtain q' r where qr: "record_result m h now io i result exec_err q = (q', r)" by fastforce
    from qr wf have "all_ok canonical q'"
    proof (cases rule: record_result_cases)
      case 1
      show ?thesis by (rule all_ok_refused [OF 1(1) ok])
    next
      case (2 p p')
      show ?thesis
        by (rule all_ok_replaced [OF 2(5) _ _ ok])
          (use item [OF 2(1)] 2(3) call Op_record in \<open>auto intro: pending_ok_executed\<close>)
    qed
    with qr Op_record show ?thesis by simp
  qed
qed

section \<open>Restart\<close>

lemma wf_queue_shaped: "wf_queue q \<Longrightarrow> shaped (find_entry q)"
  using wf_queue_keyed [of q]
  by (auto simp: shaped_def wf_queue_def find_entry_def split: option.splits)

lemma book_step_entry_ok:
  assumes "book_step h b e b'" and "\<And>i p. b' i = Some p \<Longrightarrow> pending_ok canonical p"
  shows "entry_ok canonical e \<and> (ae_event e = EventEnqueue \<longrightarrow> ae_time e \<noteq> zero_time)"
  using assms(1)
proof (cases rule: book_step.cases)
  case (created i p)
  then have "pending_ok canonical p" using assms(2) [of i p] by simp
  with created show ?thesis by (simp add: entry_ok_def enqueue_entry_def base_entry_def pending_ok_def)
next
  case (approved i p t)
  then show ?thesis using assms(2) [of i] by (simp add: entry_ok_def base_entry_def pending_ok_def)
next
  case (denied i p t r)
  then show ?thesis
    using assms(2) [of i] by (simp add: entry_ok_def terminal_entry_def base_entry_def pending_ok_def)
next
  case (settled i p p' t result exec_err)
  then have "pending_ok canonical p'" using assms(2) [of i p'] by simp
  with settled show ?thesis by (simp add: entry_ok_def terminal_entry_def base_entry_def pending_ok_def)
qed

lemma book_step_short:
  assumes "book_step h b e b'" and "shaped b"
  shows "\<not> outcome_too_long (read_back e)"
  using assms(1)
proof (cases rule: book_step.cases)
  case (settled i p p' t result exec_err)
  then have "entry_shape p" using assms(2) by (auto simp: shaped_def is_terminal_def)
  then have "p_result p = []" using settled(4) by (auto simp: entry_shape_def unsettled_def)
  with settled show ?thesis
    by (auto simp: outcome_too_long_def terminal_entry_def null_result_def executed_snapshot_def audit_limits
        split: option.splits)
qed (simp_all add: outcome_too_long_def enqueue_entry_def base_entry_def terminal_entry_def null_result_def audit_limits)

lemma entry_ok_with_time [simp]: "entry_ok canonical (with_time io e) = entry_ok canonical e"
  by (simp add: entry_ok_def with_time_def)

lemma with_time_id: "ae_time e \<noteq> zero_time \<Longrightarrow> with_time io e = e"
  by (simp add: with_time_def)

lemma rebuilt_time:
  "ae_event e \<noteq> EventEnqueue \<Longrightarrow>
   rebuilt hash (es @ [read_back (e\<lparr>ae_time := t\<rparr>)]) = rebuilt hash (es @ [read_back e])"
proof
  fix i
  assume "ae_event e \<noteq> EventEnqueue"
  moreover have "restored_entry hash i \<lparr>acc_enqueue = x, acc_latest = read_back (e\<lparr>ae_time := t\<rparr>)\<rparr>
      = restored_entry hash i \<lparr>acc_enqueue = x, acc_latest = read_back e\<rparr>" for x i
    by (cases x; cases "ae_outcome e")
      (simp_all add: restored_entry_def terminal_audit_matches_enqueue_def Let_def)
  ultimately show "rebuilt hash (es @ [read_back (e\<lparr>ae_time := t\<rparr>)]) i = rebuilt hash (es @ [read_back e]) i"
    by (simp add: rebuilt_def accumulate_all_snoc accumulate_def Let_def map_simps split: option.splits)
qed

lemma tracks_step_timed:
  assumes "tracks hash b es" and "book_step hash b e b'" and "shaped b" and "\<forall>x. hash x \<noteq> []"
    and "ae_event e = EventEnqueue \<longrightarrow> ae_time e \<noteq> zero_time"
  shows "tracks hash b' (es @ [read_back (with_time io e)])"
  using tracks_step [OF assms(1-4)] assms(5) rebuilt_time [of e hash es]
  by (cases "ae_event e = EventEnqueue") (auto simp: with_time_def tracks_def)

text \<open>The full invariant of a queue over its log.\<close>

definition durable :: "unmarshal \<Rightarrow> (bytes \<Rightarrow> bytes) \<Rightarrow> (bytes \<Rightarrow> bool) \<Rightarrow> queue \<Rightarrow> bool" where
  "durable u hash canonical q \<longleftrightarrow> backed q \<and> all_ok canonical q
     \<and> (\<exists>a es. q_audit q = Some a \<and> log_holds u a es \<and> tracks hash (find_entry q) es)"

definition good_call :: "(bytes \<Rightarrow> bool) \<Rightarrow> queue_call \<Rightarrow> bool" where
  "good_call canonical c \<longleftrightarrow> fst c \<noteq> zero_time \<and> untorn (fst (snd c)) \<and> call_ok canonical (snd (snd c))"

lemma log_holds_append:
  assumes app: "append_audit m io e a = (a', None)" and wf: "wf_audit a" and log: "log_holds u a es"
    and law: "codec_law m u canonical" and ok: "entry_ok canonical e"
    and short: "\<not> outcome_too_long (read_back (with_time io e))"
  shows "log_holds u a' (es @ [read_back (with_time io e)])"
  using app
proof (cases rule: append_audit_okE)
  case (1 b)
  have "au_record_count a' \<le> MaxAuditReplayEntries"
    using append_audit_wf [OF app wf] unfolding wf_audit_def by linarith
  then have n: "int (length es) \<noteq> MaxAuditReplayEntries"
    using log 1(4) by (simp add: log_holds_def)
  have "readable u b (read_back (with_time io e))"
    using 1(1,2) law [unfolded codec_law_def, rule_format, of "with_time io e" b] ok short
    by (simp add: readable_def)
  from read_entries_snoc [OF _ _ this n] log 1(4) show ?thesis
    by (simp add: log_holds_def ends_line_def)
qed

lemma queue_step_durable:
  assumes d: "durable u hash canonical q" and law: "codec_law m u canonical" and h: "\<forall>x. hash x \<noteq> []"
    and c: "good_call canonical c"
  shows "durable u hash canonical (queue_step m hash c q)"
proof -
  obtain now io op where ceq: "c = (now, io, op)" by (cases c) auto
  with c have now: "now \<noteq> zero_time" and io: "untorn io" and call: "call_ok canonical op"
    by (auto simp: good_call_def)
  let ?q = "queue_step m hash (now, io, op) q"
  have bk: "backed q" and wf: "wf_queue q" and ok: "all_ok canonical q"
    using d by (auto simp: durable_def backed_def)
  obtain a es where a: "q_audit q = Some a" "log_holds u a es" "tracks hash (find_entry q) es"
    using d by (auto simp: durable_def)
  have bk': "backed ?q" and ok': "all_ok canonical ?q"
    using queue_step_backed [OF bk io] queue_step_all_ok [OF wf ok call now] by auto
  show ?thesis
  proof (cases "refused m io q ?q")
    case True
    then have "q_audit ?q = q_audit q"
      using append_audit_refused [OF _ io] unfolding refused_def by metis
    then show ?thesis
      using a bk' ok' ceq by (auto simp: durable_def refused_find [OF True])
  next
    case False
    then obtain e where e: "book_step hash (find_entry q) e (find_entry ?q)" "logged m io e q ?q"
      using queue_step_outcome [OF wf, of m hash now io op] by (auto simp: call_outcome_def)
    obtain a' where a': "append_audit m io e a = (a', None)" "q_audit ?q = Some a'"
      using e(2) a(1) by (auto simp: logged_def)
    have wa: "wf_audit a" using bk a(1) by (simp add: backed_def)
    have eok: "entry_ok canonical e" "ae_event e = EventEnqueue \<longrightarrow> ae_time e \<noteq> zero_time"
      using book_step_entry_ok [OF e(1)] ok' by (auto simp: all_ok_def)
    have "\<not> outcome_too_long (read_back (with_time io e))"
      using book_step_short [OF e(1) wf_queue_shaped [OF wf]]
      by (simp add: outcome_too_long_def with_time_def)
    from log_holds_append [OF a'(1) wa a(2) law eok(1) this]
      tracks_step_timed [OF a(3) e(1) wf_queue_shaped [OF wf] h eok(2), of io]
    show ?thesis using a'(2) bk' ok' ceq by (auto simp: durable_def)
  qed
qed

lemma run_durable:
  "durable u hash canonical q \<Longrightarrow> codec_law m u canonical \<Longrightarrow> \<forall>x. hash x \<noteq> [] \<Longrightarrow>
   list_all (good_call canonical) calls \<Longrightarrow> durable u hash canonical (fold (queue_step m hash) calls q)"
proof (induction calls arbitrary: q)
  case (Cons c calls)
  then show ?case using queue_step_durable [OF Cons.prems(1-3), of c] by simp
qed simp

lemma reopen:
  assumes "log_holds u a es" and "wf_audit a"
  shows "read_audit_log u (Some (au_file a)) = Inr es \<and>
    open_audit u no_open_faults (Some (au_file a)) = Inr \<lparr>au_open = True, au_file = au_file a,
       au_reserved = [], au_reserved_bytes = 0, au_record_count = int (length es)\<rparr>"
proof -
  have size: "int (length (au_file a)) \<le> MaxAuditLogBytes"
    using assms(2) unfolding wf_audit_def audit_limits by auto
  have rd: "read_entries u [] (au_file a) = Inr es" "ends_line (au_file a)"
    using assms(1) by (auto simp: log_holds_def)
  have "repair_audit_tail u no_open_faults (au_file a) = Inr (au_file a)"
    using repair_split [OF rd(2), of "[]" u] by (simp add: audit_limits)
  with rd size show ?thesis
    by (auto simp: read_audit_log_def open_audit_def no_open_faults_def)
qed

definition restart :: "unmarshal \<Rightarrow> (bytes \<Rightarrow> bytes) \<Rightarrow> bytes \<Rightarrow> go_error + queue" where
  "restart u hash file =
     (case open_audit u no_open_faults (Some file) of
        Inl err \<Rightarrow> Inl err
      | Inr a \<Rightarrow> (case read_audit_log u (Some file) of
            Inl err \<Rightarrow> Inl err
          | Inr es \<Rightarrow> Inr (fst (restore hash es (new_queue (Some a))))))"

lemma remembered_lookup:
  "restored_live (map_option remembered x) = (case x of None \<Rightarrow> None
     | Some p \<Rightarrow> if is_terminal (p_status p) then None else Some (recover p))"
  "restored_old (map_option remembered x) = (case x of None \<Rightarrow> None
     | Some p \<Rightarrow> if is_terminal (p_status p) then Some (recover p) else None)"
  by (auto simp: restored_live_def restored_old_def remembered_def split: option.splits)

lemma durable_new_queue: "durable u hash canonical (new_queue (Some empty_audit))"
proof -
  have "backed (new_queue (Some empty_audit))"
    by (rule backed_new_queue) (simp_all, simp_all add: empty_audit_def)
  moreover have "find_entry (new_queue (Some empty_audit)) = (\<lambda>_. None)"
    by (simp add: new_queue_def find_entry_def fun_eq_iff)
  moreover have "q_audit (new_queue (Some empty_audit)) = Some empty_audit"
    by (simp add: new_queue_def)
  moreover have "tracks hash (\<lambda>_. None) []"
    by (simp add: tracks_def rebuilt_def accumulate_all_def)
  ultimately show ?thesis
    using log_holds_empty [of u] unfolding durable_def all_ok_def
    by (intro conjI exI [of _ empty_audit] exI [of _ "[]"]) simp_all
qed


section \<open>A run\<close>

definition calm :: audit_io where
  "calm = \<lparr>io_now = 1, io_stat = None, io_write = Wrote, io_sync = None\<rparr>"

definition sample_hash :: "bytes \<Rightarrow> bytes" where
  "sample_hash b = ''h''"

definition sample_pending :: pending where
  "sample_pending = \<lparr>p_id = ''00000007'', p_caller = ''cli'', p_call_id = [], p_tool = ''write'',
     p_params = ''{}'', p_status = StatusPending, p_reason = [], p_created_at = 5, p_decided_at = None,
     p_executed_at = None, p_result = [], p_err = []\<rparr>"

definition sample_denial :: audit_entry where
  "sample_denial = terminal_entry sample_hash 9 EventDeny sample_pending
     \<lparr>to_status = StatusDenied, to_result = [], to_reason = ''no'', to_err = [],
      to_decided_at = Some 9, to_executed_at = None\<rparr>"

definition sample_marshal :: marshal where
  "sample_marshal e =
     (if e = enqueue_entry sample_pending then Inr ''1''
      else if e = base_entry 9 EventApprove sample_pending then Inr ''2''
      else if e = sample_denial then Inr ''3''
      else if ends_reservation (ae_event e) then Inr ''4''
      else Inl (new_error ''unsupported''))"

definition sample_unmarshal :: unmarshal where
  "sample_unmarshal b =
     (if b = ''1'' then Inr (read_back (enqueue_entry sample_pending))
      else if b = ''2'' then Inr (read_back (base_entry 9 EventApprove sample_pending))
      else if b = ''3'' then Inr (read_back sample_denial)
      else Inl (new_error ''bad json''))"

definition strict_marshal :: marshal where
  "strict_marshal e = (if ends_reservation (ae_event e) then Inl (new_error ''unsupported'') else sample_marshal e)"

definition sample_enqueue :: queue_call where
  "sample_enqueue = (5, calm, Op_enqueue [7] ''cli'' [] ''write'' ''{}'' [])"

definition denial_run :: queue where
  "denial_run = fold (queue_step strict_marshal sample_hash)
     [sample_enqueue, (9, calm, Op_deny ''00000007'' ''no'')] (new_queue (Some empty_audit))"

definition denial_audit :: audit where
  "denial_audit = empty_audit\<lparr>au_file := ''1'' @ [newline] @ ''3'' @ [newline], au_record_count := 2\<rparr>"

definition approval_run :: queue where
  "approval_run = fold (queue_step sample_marshal sample_hash)
     [sample_enqueue, (9, calm, Op_approve ''00000007'')] (new_queue (Some empty_audit))"

definition sample_approved :: pending where
  "sample_approved = sample_pending\<lparr>p_status := StatusApproved, p_decided_at := Some 9\<rparr>"

lemma sample_digits:
  "[0..<8] = [0, 1, 2, 3, 4, 5, 6, 7 :: nat]" "char_of (48 :: nat) = CHR ''0''" "char_of (55 :: nat) = CHR ''7''"
  by code_simp+

lemma sample_id: "new_id 7 = ''00000007''"
  by (simp add: new_id_def hex_digit_def sample_digits)

lemma sample_texts [simp]: "valid_utf8 ''cli''" "valid_utf8 ''write''" "valid_utf8 ''no''"
  by (rule valid_utf8_ascii, code_simp)+

lemma sample_enqueued:
  assumes "m (enqueue_entry sample_pending) = Inr ''1''"
  shows "queue_step m h sample_enqueue (new_queue (Some empty_audit)) =
     \<lparr>q_items = [(''00000007'', sample_pending)], q_history = [],
      q_audit = Some (empty_audit\<lparr>au_file := ''1'' @ [newline], au_record_count := 1\<rparr>)\<rparr>"
proof -
  have "enqueue_text_error ''cli'' [] ''write'' [] = None"
    by (simp add: enqueue_text_error_def validate_approval_text_def MaxApprovalCallerBytes_def
        MaxApprovalCallIDBytes_def MaxApprovalToolBytes_def MaxTerminalTextBytes_def)
  moreover have "find (\<lambda>i. \<not> has_id (new_queue (Some empty_audit)) i) (map new_id [7]) = Some ''00000007''"
    by (simp add: sample_id has_id_def new_queue_def)
  moreover have "append_audit m calm (enqueue_entry sample_pending) empty_audit =
      (empty_audit\<lparr>au_file := ''1'' @ [newline], au_record_count := 1\<rparr>, None)"
    using assms
    by (simp add: append_audit_def with_time_def enqueue_entry_def base_entry_def sample_pending_def
        zero_time_def audit_limits empty_audit_def calm_def capacity_error_def reservation_of_def
        ends_reservation_def write_line_def account_def)
  ultimately show ?thesis
    unfolding sample_enqueue_def queue_step.simps enqueue_with_call_id_def sample_pending_def [symmetric]
    by (simp add: append_record_def put_item_def new_queue_def sample_pending_def)
qed

lemma denial_run_eq: "denial_run =
   \<lparr>q_items = [(''00000007'', sample_pending\<lparr>p_status := StatusDenied, p_reason := ''no'', p_decided_at := Some 9\<rparr>)],
    q_history = [], q_audit = Some denial_audit\<rparr>"
proof -
  have m: "strict_marshal (enqueue_entry sample_pending) = Inr ''1''" "strict_marshal sample_denial = Inr ''3''"
    by (simp_all add: strict_marshal_def sample_marshal_def enqueue_entry_def base_entry_def
        sample_denial_def terminal_entry_def ends_reservation_def)
  have "append_audit strict_marshal calm sample_denial (empty_audit\<lparr>au_file := ''1'' @ [newline], au_record_count := 1\<rparr>)
      = (denial_audit, None)"
    using m(2)
    by (simp add: append_audit_def with_time_def sample_denial_def base_entry_def terminal_entry_def
        zero_time_def audit_limits empty_audit_def calm_def capacity_error_def reservation_of_def
        ends_reservation_def write_line_def account_def denial_audit_def)
  then show ?thesis
    unfolding denial_run_def fold_simps id_apply o_apply sample_enqueued [of strict_marshal, OF m(1)] queue_step.simps deny_def Let_def
    by (simp add: validate_approval_text_def MaxTerminalTextBytes_def pending_for_transition_def
        sample_denial_def sample_pending_def append_record_def terminal_entry_def base_entry_def)
qed

lemma approval_run_eq: "approval_run =
   \<lparr>q_items = [(''00000007'', sample_approved)], q_history = [],
    q_audit = Some (empty_audit\<lparr>au_file := ''1'' @ [newline] @ ''2'' @ [newline], au_record_count := 2,
       au_reserved := [(''00000007'', MaxAuditRecordBytes)], au_reserved_bytes := MaxAuditRecordBytes\<rparr>)\<rparr>"
proof -
  have m: "sample_marshal (enqueue_entry sample_pending) = Inr ''1''"
    "sample_marshal (base_entry 9 EventApprove sample_pending) = Inr ''2''"
    by (simp_all add: sample_marshal_def enqueue_entry_def base_entry_def)
  have "append_audit sample_marshal calm (base_entry 9 EventApprove sample_pending)
      (empty_audit\<lparr>au_file := ''1'' @ [newline], au_record_count := 1\<rparr>)
      = (empty_audit\<lparr>au_file := ''1'' @ [newline] @ ''2'' @ [newline], au_record_count := 2,
       au_reserved := [(''00000007'', MaxAuditRecordBytes)], au_reserved_bytes := MaxAuditRecordBytes\<rparr>, None)"
    using m(2)
    by (simp add: append_audit_def with_time_def base_entry_def sample_pending_def
        zero_time_def audit_limits empty_audit_def calm_def capacity_error_def reservation_of_def
        ends_reservation_def write_line_def account_def)
  then show ?thesis
    unfolding approval_run_def fold_simps id_apply o_apply sample_enqueued [of sample_marshal, OF m(1)] queue_step.simps approve_def Let_def
    by (simp add: pending_for_transition_def
        sample_approved_def sample_pending_def append_record_def base_entry_def)
qed

lemma denial_run_audit: "q_audit denial_run = Some denial_audit"
  by (simp add: denial_run_eq)

lemma denial_run_entry: "find_entry denial_run ''00000007''
    = Some (sample_pending\<lparr>p_status := StatusDenied, p_reason := ''no'', p_decided_at := Some 9\<rparr>)"
  by (simp add: denial_run_eq find_entry_def)

lemma approval_run_entry: "find_entry approval_run ''00000007'' = Some sample_approved"
  by (simp add: approval_run_eq find_entry_def)

lemma wf_denial_run: "wf_queue denial_run"
  unfolding denial_run_def by (rule approvals.run_inv) (rule wf_new_queue)

lemma codec_law_sample: "codec_law strict_marshal sample_unmarshal (\<lambda>_. True)"
  unfolding codec_law_def strict_marshal_def sample_marshal_def sample_unmarshal_def
  by (auto split: if_splits)




section \<open>Where the guarantees stop\<close>

text \<open>
  The reservation counts the record but not its newline: a terminal record of exactly
  \<open>MaxAuditRecordBytes\<close> bytes passes the size check and can still be refused.
\<close>

lemma reservation_newline_gap:
  "\<exists>a e b. wf_audit a \<and> map_of (au_reserved a) (ae_id e) \<noteq> None \<and> ends_reservation (ae_event e)
     \<and> int (length b) = MaxAuditRecordBytes \<and> capacity_error a e (b @ [newline]) \<noteq> None"
proof (intro exI conjI)
  let ?a = "empty_audit\<lparr>au_file := replicate (nat (MaxAuditLogBytes - MaxAuditRecordBytes)) CHR ''x'',
     au_reserved := [(''a1'', MaxAuditRecordBytes)], au_reserved_bytes := MaxAuditRecordBytes\<rparr>"
  let ?e = "sample_entry\<lparr>ae_event := EventExecute\<rparr>"
  let ?b = "replicate (nat MaxAuditRecordBytes) CHR ''x''"
  show "wf_audit ?a" by (simp add: wf_audit_def empty_audit_def audit_limits wf_map_def)
  show "map_of (au_reserved ?a) (ae_id ?e) \<noteq> None" by (simp add: sample_entry_def)
  show "ends_reservation (ae_event ?e)" by (simp add: ends_reservation_def)
  show "int (length ?b) = MaxAuditRecordBytes" by (simp add: audit_limits)
  show "capacity_error ?a ?e (?b @ [newline]) \<noteq> None"
    by (simp add: capacity_error_def Let_def reservation_of_def ends_reservation_def sample_entry_def
        empty_audit_def audit_limits)
qed

text \<open>
  A write that fails after some bytes leaves them in the file, and the next record is
  appended to the same line: the log no longer decodes, so it cannot be opened again.
\<close>

lemma torn_write_poisons_log:
  "\<exists>a1 a2. append_audit sample_marshal (calm\<lparr>io_write := Write_failed 1 (new_error ''disk full'')\<rparr>)
       sample_denial empty_audit = (a1, Some (new_error ''audit write: disk full''))
     \<and> append_audit sample_marshal calm (enqueue_entry sample_pending) a1 = (a2, None)
     \<and> read_audit_log sample_unmarshal (Some (au_file a2)) = Inl (new_error ''audit decode: bad json'')"
proof (intro exI conjI)
  have m: "sample_marshal sample_denial = Inr ''3''" "sample_marshal (enqueue_entry sample_pending) = Inr ''1''"
    by (simp_all add: sample_marshal_def enqueue_entry_def base_entry_def
        sample_denial_def terminal_entry_def)
  have t: "with_time io sample_denial = sample_denial" "with_time io (enqueue_entry sample_pending) = enqueue_entry sample_pending" for io
    by (simp_all add: with_time_def sample_denial_def base_entry_def terminal_entry_def enqueue_entry_def
        sample_pending_def zero_time_def)
  have ev: "ae_event sample_denial = EventDeny" "ae_event (enqueue_entry sample_pending) = EventEnqueue"
    by (simp_all add: sample_denial_def base_entry_def terminal_entry_def enqueue_entry_def)
  show "append_audit sample_marshal (calm\<lparr>io_write := Write_failed 1 (new_error ''disk full'')\<rparr>)
       sample_denial empty_audit = (empty_audit\<lparr>au_file := ''3''\<rparr>, Some (new_error ''audit write: disk full''))"
    by (simp add: append_audit_def t m ev audit_limits empty_audit_def calm_def capacity_error_def
        reservation_of_def ends_reservation_def write_line_def new_error_def wrap_error_def)
  show "append_audit sample_marshal calm (enqueue_entry sample_pending) (empty_audit\<lparr>au_file := ''3''\<rparr>)
      = (empty_audit\<lparr>au_file := ''31'' @ [newline], au_record_count := 1\<rparr>, None)"
    by (simp add: append_audit_def t m ev audit_limits empty_audit_def calm_def capacity_error_def
        reservation_of_def ends_reservation_def write_line_def account_def)
  show "read_audit_log sample_unmarshal (Some (au_file (empty_audit\<lparr>au_file := ''31'' @ [newline], au_record_count := 1\<rparr>)))
      = Inl (new_error ''audit decode: bad json'')"
    by (simp add: read_audit_log_def read_entries.simps [of sample_unmarshal "[]" "[CHR ''3'', CHR ''1'', newline]"] audit_limits
        sample_unmarshal_def new_error_def wrap_error_def)
qed

end
