(* ===== verification/Daemon.thy ===== *)
theory Daemon
  imports Recovery Policy Tools
begin

text \<open>
  The daemon's JSON-RPC server (\<open>internal/daemon/server.go\<close>, \<open>wire.go\<close>): one line in, at
  most one response out, and in between the policy gate and the approval queue.

  A method takes the environment of the call, the raw parameters and the daemon's state
  (the world the tools act on and the queue) and returns its result and the new state.
  \<open>None\<close> is a call that does not return, which only an exhausted supply of random ids
  produces. JSON decoding and encoding are the fields of \<open>codec\<close>.
\<close>

section \<open>Wire format\<close>

definition JSONRPCVersion :: bytes where "JSONRPCVersion = ''2.0''"
definition CodeParseError :: int where "CodeParseError = -32700"
definition CodeInvalidRequest :: int where "CodeInvalidRequest = -32600"
definition CodeMethodNotFound :: int where "CodeMethodNotFound = -32601"
definition CodeInvalidParams :: int where "CodeInvalidParams = -32602"
definition CodeToolNotFound :: int where "CodeToolNotFound = -32001"
definition CodeToolNotImplemented :: int where "CodeToolNotImplemented = -32002"
definition CodeHandlerError :: int where "CodeHandlerError = -32003"
definition CodePolicyDenied :: int where "CodePolicyDenied = -32004"
definition CodeApprovalUnknown :: int where "CodeApprovalUnknown = -32005"

lemmas code_defs = CodeParseError_def CodeInvalidRequest_def CodeMethodNotFound_def
  CodeInvalidParams_def CodeToolNotFound_def CodeToolNotImplemented_def CodeHandlerError_def
  CodePolicyDenied_def CodeApprovalUnknown_def

record request =
  rq_jsonrpc :: bytes
  rq_method :: bytes
  rq_params :: bytes
  rq_id :: bytes

definition is_notification :: "request \<Rightarrow> bool" where
  "is_notification r \<longleftrightarrow> rq_id r = [] \<or> rq_id r = ''null''"

record rpc_error =
  re_code :: int
  re_message :: bytes

record response =
  rs_jsonrpc :: bytes
  rs_result :: bytes
  rs_error :: "rpc_error option"
  rs_id :: bytes

definition null_id :: "bytes \<Rightarrow> bytes" where
  "null_id i = (if i = [] then ''null'' else i)"

definition success_response :: "bytes \<Rightarrow> bytes \<Rightarrow> response" where
  "success_response i result = \<lparr>rs_jsonrpc = JSONRPCVersion, rs_result = result, rs_error = None, rs_id = null_id i\<rparr>"

definition error_response :: "bytes \<Rightarrow> int \<Rightarrow> bytes \<Rightarrow> response" where
  "error_response i code message =
     \<lparr>rs_jsonrpc = JSONRPCVersion, rs_result = [], rs_error = Some \<lparr>re_code = code, re_message = message\<rparr>,
      rs_id = null_id i\<rparr>"

section \<open>Errors of methods\<close>

definition bad_params :: "bytes \<Rightarrow> go_error" where
  "bad_params text = \<lparr>err_chain = [S_InvalidParams text], err_text = text\<rparr>"

definition policy_denied :: "bytes \<Rightarrow> go_error" where
  "policy_denied reason = \<lparr>err_chain = [S_PolicyDenied reason], err_text = ''policy denied: '' @ reason\<rparr>"

fun first_denied :: "sentinel list \<Rightarrow> bytes option" where
  "first_denied [] = None"
| "first_denied (S_PolicyDenied r # _) = Some r"
| "first_denied (_ # ss) = first_denied ss"

fun first_invalid :: "sentinel list \<Rightarrow> bytes option" where
  "first_invalid [] = None"
| "first_invalid (S_InvalidParams t # _) = Some t"
| "first_invalid (_ # ss) = first_invalid ss"

definition error_from_method :: "bytes \<Rightarrow> go_error \<Rightarrow> response" where
  "error_from_method i err =
     (if errors_is err S_ToolNotFound then error_response i CodeToolNotFound (err_text err)
      else if errors_is err S_NotImplemented then error_response i CodeToolNotImplemented (err_text err)
      else if errors_is err S_ApprovalUnknown then error_response i CodeApprovalUnknown (err_text err)
      else (case first_denied (err_chain err) of
          Some reason \<Rightarrow> error_response i CodePolicyDenied (''policy denied: '' @ reason)
        | None \<Rightarrow>
            (case first_invalid (err_chain err) of
               Some text \<Rightarrow> error_response i CodeInvalidParams text
             | None \<Rightarrow> error_response i CodeHandlerError (err_text err))))"

section \<open>The server\<close>

record call_params =
  cp_name :: bytes
  cp_arguments :: bytes
  cp_caller :: bytes
  cp_call_id :: bytes

text \<open>Decoders return the text of the decoding error or the value.\<close>

record codec =
  c_request :: "bytes \<Rightarrow> bytes + request"
  c_call :: "bytes \<Rightarrow> bytes + call_params"
  c_status :: "bytes \<Rightarrow> bytes + bytes"
  c_id :: "bytes \<Rightarrow> bytes + bytes"
  c_deny :: "bytes \<Rightarrow> bytes + bytes \<times> bytes"
  c_tools :: "tool list \<Rightarrow> go_error + bytes"
  c_queued :: "bytes \<Rightarrow> bytes \<Rightarrow> go_error + bytes"
  c_pending :: "pending \<Rightarrow> go_error + bytes"
  c_pendings :: "pending list \<Rightarrow> go_error + bytes"
  c_response :: "response \<Rightarrow> bytes option"

text \<open>What a call meets: the clock and the file system at its first and second queue operation.\<close>

record call_env =
  ce_now :: instant
  ce_io :: audit_io
  ce_supply :: "nat list"
  ce_now2 :: instant
  ce_io2 :: audit_io

record 'w daemon_state =
  ds_world :: 'w
  ds_queue :: "queue option"

type_synonym 'w method_result = "((go_error + bytes) \<times> 'w daemon_state) option"
type_synonym 'w rpc_method = "call_env \<Rightarrow> bytes \<Rightarrow> 'w daemon_state \<Rightarrow> 'w method_result"

record 'w server =
  sv_registry :: "'w registry"
  sv_policy :: decider
  sv_marshal :: marshal
  sv_hash :: "bytes \<Rightarrow> bytes"
  sv_codec :: codec

definition tools_list :: "'w server \<Rightarrow> 'w rpc_method" where
  "tools_list s env raw d = Some (c_tools (sv_codec s) (list_tools (sv_registry s)), d)"

definition enqueue_call :: "'w server \<Rightarrow> call_env \<Rightarrow> call_params \<Rightarrow> bytes \<Rightarrow> 'w daemon_state \<Rightarrow> 'w method_result" where
  "enqueue_call s env p reason d =
     (case ds_queue d of
        None \<Rightarrow> Some (Inl (policy_denied ''approval queue is not available''), d)
      | Some q \<Rightarrow>
          (case enqueue_with_call_id (sv_marshal s) (ce_now env) (ce_io env) (ce_supply env)
                  (cp_caller p) (cp_call_id p) (cp_name p) (cp_arguments p) reason q of
             None \<Rightarrow> None
           | Some (q', Inl err) \<Rightarrow> Some (Inl (wrap_error ''enqueue: '' err), d\<lparr>ds_queue := Some q'\<rparr>)
           | Some (q', Inr i) \<Rightarrow> Some (c_queued (sv_codec s) i reason, d\<lparr>ds_queue := Some q'\<rparr>)))"

definition tools_call :: "'w server \<Rightarrow> 'w rpc_method" where
  "tools_call s env raw d =
     (if raw = [] then Some (Inl (bad_params ''missing params''), d)
      else (case c_call (sv_codec s) raw of
          Inl err \<Rightarrow> Some (Inl (bad_params (''parse params: '' @ err)), d)
        | Inr p \<Rightarrow>
            if cp_name p = [] then Some (Inl (bad_params ''name is required''), d)
            else (case lookup_tool (sv_registry s) (cp_name p) of
                None \<Rightarrow> Some (Inl (tool_not_found (cp_name p)), d)
              | Some t \<Rightarrow>
                  (let v = sv_policy s \<lparr>pr_caller = cp_caller p, pr_tool = t, pr_params = cp_arguments p\<rparr>
                   in case v_decision v of
                        Allow \<Rightarrow>
                          (case execute (sv_registry s) (cp_name p) (cp_arguments p) (ds_world d) of
                             (r, w) \<Rightarrow> Some (r, d\<lparr>ds_world := w\<rparr>))
                      | Deny \<Rightarrow> Some (Inl (policy_denied (v_reason v)), d)
                      | Confirm \<Rightarrow> enqueue_call s env p (v_reason v) d
                      | UnknownDecision n \<Rightarrow>
                          Some (Inl (new_error (''policy returned unknown decision '' @ decision_string (UnknownDecision n))), d)))))"

definition approval_list :: "'w server \<Rightarrow> queue \<Rightarrow> 'w rpc_method" where
  "approval_list s q env raw d =
     (case (if raw = [] then Inr [] else c_status (sv_codec s) raw) of
        Inl err \<Rightarrow> Some (Inl (bad_params (''parse params: '' @ err)), d)
      | Inr st \<Rightarrow> Some (c_pendings (sv_codec s) (list_entries st q), d))"

definition parse_id_param :: "codec \<Rightarrow> bytes \<Rightarrow> go_error + bytes" where
  "parse_id_param c raw =
     (case c_id c raw of
        Inl err \<Rightarrow> Inl (bad_params (''parse params: '' @ err))
      | Inr i \<Rightarrow> if i = [] then Inl (bad_params ''id is required'') else Inr i)"

definition approval_get :: "'w server \<Rightarrow> queue \<Rightarrow> 'w rpc_method" where
  "approval_get s q env raw d =
     (case parse_id_param (sv_codec s) raw of
        Inl err \<Rightarrow> Some (Inl err, d)
      | Inr i \<Rightarrow> (case get_entry i q of
            None \<Rightarrow> Some (Inl (ErrUnknownID i), d)
          | Some p \<Rightarrow> Some (c_pending (sv_codec s) p, d)))"

definition approval_approve :: "'w server \<Rightarrow> queue \<Rightarrow> 'w rpc_method" where
  "approval_approve s q env raw d =
     (case parse_id_param (sv_codec s) raw of
        Inl err \<Rightarrow> Some (Inl err, d)
      | Inr i \<Rightarrow>
          (case approve (sv_marshal s) (ce_now env) (ce_io env) i q of
             (q1, Inl err) \<Rightarrow> Some (Inl err, d\<lparr>ds_queue := Some q1\<rparr>)
           | (q1, Inr p) \<Rightarrow>
               (case execute (sv_registry s) (p_tool p) (p_params p) (ds_world d) of
                  (r, w) \<Rightarrow>
                    (case record_result (sv_marshal s) (sv_hash s) (ce_now2 env) (ce_io2 env) i
                            (case r of Inr out \<Rightarrow> out | Inl _ \<Rightarrow> [])
                            (case r of Inr _ \<Rightarrow> None | Inl e \<Rightarrow> Some (err_text e)) q1 of
                       (q2, Inl err) \<Rightarrow> Some (Inl err, \<lparr>ds_world = w, ds_queue = Some q2\<rparr>)
                     | (q2, Inr final) \<Rightarrow>
                         Some (case r of Inl e \<Rightarrow> Inl e | Inr _ \<Rightarrow> c_pending (sv_codec s) final,
                               \<lparr>ds_world = w, ds_queue = Some q2\<rparr>)))))"

definition approval_deny :: "'w server \<Rightarrow> queue \<Rightarrow> 'w rpc_method" where
  "approval_deny s q env raw d =
     (case c_deny (sv_codec s) raw of
        Inl err \<Rightarrow> Some (Inl (bad_params (''parse params: '' @ err)), d)
      | Inr (i, reason) \<Rightarrow>
          if i = [] then Some (Inl (bad_params ''id is required''), d)
          else (case deny (sv_marshal s) (sv_hash s) (ce_now env) (ce_io env) i reason q of
              (q', Inl err) \<Rightarrow> Some (Inl err, d\<lparr>ds_queue := Some q'\<rparr>)
            | (q', Inr p) \<Rightarrow> Some (c_pending (sv_codec s) p, d\<lparr>ds_queue := Some q'\<rparr>)))"

text \<open>
  The method table of \<open>NewServer\<close>; the approval methods exist only with a queue.
  \<open>extra\<close> is what \<open>Register\<close> added or replaced.
\<close>

definition builtin_method :: "'w server \<Rightarrow> 'w daemon_state \<Rightarrow> bytes \<Rightarrow> 'w rpc_method option" where
  "builtin_method s d name =
     (if name = ''tools.list'' then Some (tools_list s)
      else if name = ''tools.call'' then Some (tools_call s)
      else (case ds_queue d of
          None \<Rightarrow> None
        | Some q \<Rightarrow>
            if name = ''approval.list'' then Some (approval_list s q)
            else if name = ''approval.get'' then Some (approval_get s q)
            else if name = ''approval.approve'' then Some (approval_approve s q)
            else if name = ''approval.deny'' then Some (approval_deny s q)
            else None))"

definition find_method ::
  "'w server \<Rightarrow> (bytes, 'w rpc_method) gomap \<Rightarrow> 'w daemon_state \<Rightarrow> bytes \<Rightarrow> 'w rpc_method option" where
  "find_method s extra d name =
     (case map_of extra name of Some h \<Rightarrow> Some h | None \<Rightarrow> builtin_method s d name)"

text \<open>\<open>handleLine\<close> with the bytes it writes to the connection.\<close>

definition write_response :: "codec \<Rightarrow> response \<Rightarrow> bytes" where
  "write_response c resp = (case c_response c resp of None \<Rightarrow> [] | Some data \<Rightarrow> data @ [newline])"

definition reply_unless_notification :: "request \<Rightarrow> response \<Rightarrow> response option" where
  "reply_unless_notification req resp = (if is_notification req then None else Some resp)"

definition answer ::
  "'w server \<Rightarrow> (bytes, 'w rpc_method) gomap \<Rightarrow> call_env \<Rightarrow> bytes \<Rightarrow> 'w daemon_state
     \<Rightarrow> (response option \<times> 'w daemon_state) option" where
  "answer s extra env line d =
     (case c_request (sv_codec s) line of
        Inl err \<Rightarrow> Some (Some (error_response [] CodeParseError (''parse error: '' @ err)), d)
      | Inr req \<Rightarrow>
          if rq_jsonrpc req \<noteq> JSONRPCVersion
          then Some (reply_unless_notification req
                 (error_response (rq_id req) CodeInvalidRequest ''jsonrpc must be \"2.0\"''), d)
          else if rq_method req = []
          then Some (reply_unless_notification req
                 (error_response (rq_id req) CodeInvalidRequest ''method is required''), d)
          else (case find_method s extra d (rq_method req) of
              None \<Rightarrow> Some (reply_unless_notification req
                 (error_response (rq_id req) CodeMethodNotFound (''method not found: '' @ rq_method req)), d)
            | Some h \<Rightarrow>
                (case h env (rq_params req) d of
                   None \<Rightarrow> None
                 | Some (r, d') \<Rightarrow>
                     Some (if is_notification req then None
                           else (case r of
                               Inl err \<Rightarrow> Some (error_from_method (rq_id req) err)
                             | Inr result \<Rightarrow>
                                 Some (success_response (rq_id req) (if result = [] then ''null'' else result))),
                           d'))))"

definition handle_line ::
  "'w server \<Rightarrow> (bytes, 'w rpc_method) gomap \<Rightarrow> call_env \<Rightarrow> bytes \<Rightarrow> 'w daemon_state
     \<Rightarrow> (bytes \<times> 'w daemon_state) option" where
  "handle_line s extra env line d =
     (case answer s extra env line d of
        None \<Rightarrow> None
      | Some (reply, d') \<Rightarrow> Some ((case reply of None \<Rightarrow> [] | Some resp \<Rightarrow> write_response (sv_codec s) resp), d'))"

text \<open>\<open>ServeConn\<close>: the lines of a connection in order, their replies in the same order.\<close>

fun serve_conn ::
  "'w server \<Rightarrow> (bytes, 'w rpc_method) gomap \<Rightarrow> (call_env \<times> bytes) list \<Rightarrow> 'w daemon_state
     \<Rightarrow> (bytes \<times> 'w daemon_state) option" where
  "serve_conn s extra [] d = Some ([], d)"
| "serve_conn s extra ((env, line) # rest) d =
     (if line = [] then serve_conn s extra rest d
      else (case handle_line s extra env line d of
          None \<Rightarrow> None
        | Some (out, d') \<Rightarrow>
            (case serve_conn s extra rest d' of
               None \<Rightarrow> None
             | Some (out', d'') \<Rightarrow> Some (out @ out', d''))))"

section \<open>The protocol\<close>

definition fresh_supply :: "call_env \<Rightarrow> 'w daemon_state \<Rightarrow> bool" where
  "fresh_supply env d \<longleftrightarrow>
     (\<forall>q. ds_queue d = Some q \<longrightarrow> (\<exists>n \<in> set (ce_supply env). \<not> has_id q (new_id n)))"

lemma find_Some_ex: "x \<in> set xs \<Longrightarrow> P x \<Longrightarrow> \<exists>y. find P xs = Some y"
  by (induction xs) auto

lemma enqueue_returns:
  assumes "\<exists>n \<in> set ws. \<not> has_id q (new_id n)"
  shows "\<exists>q' r. enqueue_with_call_id m now io ws caller call_id tool params reason q = Some (q', r)"
proof (cases "enqueue_text_error caller call_id tool reason")
  case None
  obtain i where "find (\<lambda>i. \<not> has_id q i) (map new_id ws) = Some i"
    using assms find_Some_ex [of _ "map new_id ws" "\<lambda>i. \<not> has_id q i"] by fastforce
  with None show ?thesis
    by (simp add: enqueue_with_call_id_def Let_def split: prod.splits option.splits)
qed (simp add: enqueue_with_call_id_def)

lemma enqueue_call_returns: "fresh_supply env d \<Longrightarrow> \<exists>r d'. enqueue_call s env p reason d = Some (r, d')"
proof (cases "ds_queue d")
  case (Some q)
  assume "fresh_supply env d"
  with Some obtain q' r where "enqueue_with_call_id (sv_marshal s) (ce_now env) (ce_io env) (ce_supply env)
      (cp_caller p) (cp_call_id p) (cp_name p) (cp_arguments p) reason q = Some (q', r)"
    using enqueue_returns by (fastforce simp: fresh_supply_def)
  with Some show ?thesis by (cases r) (auto simp: enqueue_call_def)
qed (simp add: enqueue_call_def)

lemma tools_call_returns: "fresh_supply env d \<Longrightarrow> \<exists>r d'. tools_call s env raw d = Some (r, d')"
  using enqueue_call_returns [of env d s]
  by (auto simp: tools_call_def Let_def split: sum.splits option.splits decision.splits prod.splits)

lemma builtin_returns:
  assumes "builtin_method s d name = Some h" and "fresh_supply env d"
  shows "\<exists>r d'. h env raw d = Some (r, d')"
proof -
  consider "h = tools_list s" | "h = tools_call s" | q where "h = approval_list s q"
    | q where "h = approval_get s q" | q where "h = approval_approve s q" | q where "h = approval_deny s q"
    using assms(1) by (auto simp: builtin_method_def split: if_splits option.splits)
  then show ?thesis
  proof cases
    case 1
    then show ?thesis by (simp add: tools_list_def)
  next
    case 2
    then show ?thesis using tools_call_returns [OF assms(2)] by simp
  next
    case (3 q)
    then show ?thesis by (simp add: approval_list_def split: sum.splits)
  next
    case (4 q)
    then show ?thesis by (simp add: approval_get_def split: sum.splits option.splits)
  next
    case (5 q)
    then show ?thesis
      by (auto simp: approval_approve_def split: sum.splits prod.splits)
  next
    case (6 q)
    then show ?thesis by (auto simp: approval_deny_def split: sum.splits prod.splits)
  qed
qed

lemma error_response_fields [simp]:
  "rs_id (error_response i c t) = null_id i" "rs_jsonrpc (error_response i c t) = JSONRPCVersion"
  "rs_result (error_response i c t) = []" "rs_error (error_response i c t) = Some \<lparr>re_code = c, re_message = t\<rparr>"
  by (simp_all add: error_response_def)

lemma error_from_method_fields [simp]:
  "rs_id (error_from_method i e) = null_id i" "rs_jsonrpc (error_from_method i e) = JSONRPCVersion"
  "rs_result (error_from_method i e) = []" "rs_error (error_from_method i e) \<noteq> None"
  by (simp_all add: error_from_method_def split: option.splits)

definition well_formed_reply :: "bytes \<Rightarrow> response \<Rightarrow> bool" where
  "well_formed_reply i resp \<longleftrightarrow> rs_id resp = i \<and> rs_jsonrpc resp = JSONRPCVersion
     \<and> (rs_error resp = None \<longleftrightarrow> rs_result resp \<noteq> [])"

lemma not_notification_id: "\<not> is_notification req \<Longrightarrow> null_id (rq_id req) = rq_id req"
  by (simp add: is_notification_def null_id_def)

text \<open>
  The server answers as JSON-RPC requires. As long as the random ids it draws include a
  fresh one, handling a line returns; a line that does not decode gets one parse error with
  id \<open>null\<close> and changes nothing; a notification is never answered, whatever it asks for and
  whether it fails; every other request gets exactly one response, which carries the
  request's id and the protocol version and has a result or an error but not both.
\<close>

theorem one_reply_per_request:
  assumes "fresh_supply env d"
  shows "\<exists>reply d'. answer s [] env line d = Some (reply, d') \<and>
    (case c_request (sv_codec s) line of
       Inl err \<Rightarrow> d' = d \<and> reply = Some (error_response [] CodeParseError (''parse error: '' @ err))
     | Inr req \<Rightarrow> (if is_notification req then reply = None
                   else \<exists>resp. reply = Some resp \<and> well_formed_reply (rq_id req) resp))"
proof (cases "c_request (sv_codec s) line")
  case (Inl err)
  then show ?thesis by (simp add: answer_def)
next
  case (Inr req)
  show ?thesis
  proof (cases "rq_jsonrpc req = JSONRPCVersion \<and> rq_method req \<noteq> [] \<and> builtin_method s d (rq_method req) \<noteq> None")
    case False
    then show ?thesis
      using Inr not_notification_id [of req]
      by (auto simp: answer_def find_method_def reply_unless_notification_def well_formed_reply_def)
  next
    case True
    then obtain h where h: "builtin_method s d (rq_method req) = Some h" by auto
    obtain r d' where "h env (rq_params req) d = Some (r, d')"
      using builtin_returns [OF h assms] by blast
    with True h Inr not_notification_id [of req] show ?thesis
      by (cases r) (auto simp: answer_def find_method_def well_formed_reply_def success_response_def)
  qed
qed

section \<open>The gate\<close>

definition book_of :: "'w daemon_state \<Rightarrow> book" where
  "book_of d = (case ds_queue d of None \<Rightarrow> Map.empty | Some q \<Rightarrow> find_entry q)"

definition new_pending_for :: "call_params \<Rightarrow> pending \<Rightarrow> bool" where
  "new_pending_for p e \<longleftrightarrow> p_status e = StatusPending \<and> p_tool e = cp_name p
     \<and> p_params e = cp_arguments p \<and> p_caller e = cp_caller p \<and> p_call_id e = cp_call_id p"

lemma enqueue_call_effect:
  assumes "enqueue_call s env p reason d = Some (r, d')"
    and "\<forall>q. ds_queue d = Some q \<longrightarrow> wf_queue q"
  shows "ds_world d' = ds_world d \<and>
    (book_of d' = book_of d \<or>
     (\<exists>i e. book_of d i = None \<and> book_of d' = (book_of d)(i \<mapsto> e) \<and> new_pending_for p e))"
proof (cases "ds_queue d")
  case None
  with assms(1) show ?thesis by (simp add: enqueue_call_def)
next
  case (Some q)
  then have wf: "wf_queue q" using assms(2) by simp
  then have wfi: "wf_map (q_items q)" by (simp add: wf_queue_def)
  obtain q' r' where e: "enqueue_with_call_id (sv_marshal s) (ce_now env) (ce_io env) (ce_supply env)
      (cp_caller p) (cp_call_id p) (cp_name p) (cp_arguments p) reason q = Some (q', r')"
    using assms(1) Some by (auto simp: enqueue_call_def split: option.splits)
  have d': "d' = d\<lparr>ds_queue := Some q'\<rparr>"
    using assms(1) Some e by (cases r') (auto simp: enqueue_call_def)
  from e wfi show ?thesis
  proof (cases rule: enqueue_cases)
    case 1
    then show ?thesis using refused_find [OF 1] Some by (simp add: d' book_of_def)
  next
    case (2 e)
    then have n: "map_of (q_history q) (p_id e) = None" "find_entry q (p_id e) = None"
      by (auto simp: has_id_def find_entry_def split: option.splits)
    have "find_entry q' = (find_entry q)(p_id e \<mapsto> e)" by (rule replaced_find [OF 2(8) n(1)])
    moreover have "new_pending_for p e" using 2 by (simp add: new_pending_for_def)
    ultimately show ?thesis
      using Some n(2) by (auto simp: d' book_of_def)
  qed
qed

text \<open>
  C1. Under any decider that keeps the gate's contract, a call of a mutating tool by
  anyone but the command line runs nothing: the world the tools act on is untouched, and the
  only thing that can have happened is that one new pending entry, for exactly this caller,
  tool, arguments and call id, was added to the approval queue.
\<close>

theorem mutation_is_gated:
  assumes "gating_decider (sv_policy s)" and "\<forall>q. ds_queue d = Some q \<longrightarrow> wf_queue q"
    and "tools_call s env raw d = Some (r, d')" and "c_call (sv_codec s) raw = Inr p"
    and "lookup_tool (sv_registry s) (cp_name p) = Some t" and "t_mutating t" and "cp_caller p \<noteq> caller_cli"
  shows "ds_world d' = ds_world d \<and>
    (book_of d' = book_of d \<or>
     (\<exists>i e. book_of d i = None \<and> book_of d' = (book_of d)(i \<mapsto> e) \<and> new_pending_for p e))"
proof -
  let ?v = "sv_policy s \<lparr>pr_caller = cp_caller p, pr_tool = t, pr_params = cp_arguments p\<rparr>"
  have "v_decision ?v \<noteq> Allow"
    using gating_decider.gates [OF assms(1)] assms(6,7) by simp
  then show ?thesis
    using assms(3-5) enqueue_call_effect [OF _ assms(2)]
    by (auto simp: tools_call_def Let_def split: if_splits decision.splits)
qed

section \<open>An approval runs its tool once\<close>

text \<open>How often approvals of \<open>i\<close> succeed along a history of queue calls.\<close>

fun times_granted :: "marshal \<Rightarrow> (bytes \<Rightarrow> bytes) \<Rightarrow> bytes \<Rightarrow> queue_call list \<Rightarrow> queue \<Rightarrow> nat" where
  "times_granted m h i [] q = 0"
| "times_granted m h i (c # cs) q =
     (case c of
        (now, io, Op_approve j) \<Rightarrow>
          (if j = i then (case snd (approve m now io j q) of Inr _ \<Rightarrow> 1 | Inl _ \<Rightarrow> 0) else 0)
      | _ \<Rightarrow> 0) + times_granted m h i cs (queue_step m h c q)"

definition decided :: "queue \<Rightarrow> bytes \<Rightarrow> bool" where
  "decided q i \<longleftrightarrow> (\<exists>p. find_entry q i = Some p \<and> p_status p \<noteq> StatusPending)"

lemma decided_stays: "wf_queue q \<Longrightarrow> decided q i \<Longrightarrow> decided (queue_step m h c q) i"
  using queue_step_advances [of q i _ m h c] by (fastforce simp: decided_def advances_def is_terminal_def)

lemma decided_not_granted:
  assumes "wf_queue q" and "decided q i"
  shows "\<exists>err. snd (approve m now io i q) = Inl err"
proof -
  obtain q' r where qr: "approve m now io i q = (q', r)" by fastforce
  from qr assms(1) show ?thesis
  proof (cases rule: approve_cases)
    case 1
    then show ?thesis using qr by simp
  next
    case (2 p)
    then show ?thesis using assms(2) find_entry_item [OF 2(1)] by (simp add: decided_def)
  qed
qed

lemma granted_decides:
  assumes "wf_queue q" and "snd (approve m now io i q) = Inr p"
  shows "decided (fst (approve m now io i q)) i"
proof -
  obtain q' r where qr: "approve m now io i q = (q', r)" by fastforce
  from qr assms(1) show ?thesis
  proof (cases rule: approve_cases)
    case 1
    then show ?thesis using qr assms(2) by simp
  next
    case (2 p0)
    then show ?thesis
      using qr wf_queue_item [OF assms(1) 2(1)] replaced_find [OF 2(3)] by (simp add: decided_def)
  qed
qed

lemma times_granted_decided: "wf_queue q \<Longrightarrow> decided q i \<Longrightarrow> times_granted m h i cs q = 0"
proof (induction cs arbitrary: q)
  case (Cons c cs)
  have "times_granted m h i cs (queue_step m h c q) = 0"
    using Cons approvals.step_inv decided_stays by blast
  then show ?case
    using decided_not_granted [OF Cons.prems, of m]
    by (auto split: prod.splits queue_op.splits sum.splits) (metis sum.distinct(1))
qed simp

text \<open>
  C2. However many clients send \<open>approval.approve\<close> for one id, and however their handlers
  interleave with each other and with every other queue operation (each handler runs the
  tool only after its own \<open>Queue.Approve\<close> succeeded), at most one of them is granted the
  approval: an approved call runs at most once.
\<close>

theorem approval_granted_at_most_once:
  assumes "wf_queue q"
  shows "times_granted m h i calls q \<le> 1"
  using assms
proof (induction calls arbitrary: q)
  case (Cons c calls)
  obtain now io op where c: "c = (now, io, op)" by (cases c) auto
  have wf: "wf_queue (queue_step m h c q)" using Cons.prems by (rule approvals.step_inv)
  show ?case
  proof (cases "\<exists>p. op = Op_approve i \<and> snd (approve m now io i q) = Inr p")
    case True
    then have "decided (queue_step m h c q) i" using granted_decides [OF Cons.prems] c by auto
    then show ?thesis using times_granted_decided [OF wf] True c by auto
  next
    case False
    then show ?thesis using Cons.IH [OF wf] c by (auto split: queue_op.splits sum.splits)
  qed
qed simp


section \<open>A server\<close>

definition sample_call :: call_params where
  "sample_call = \<lparr>cp_name = ''task.add'', cp_arguments = ''{}'', cp_caller = ''agent'', cp_call_id = []\<rparr>"

definition sample_codec :: codec where
  "sample_codec = \<lparr>c_request = (\<lambda>b. if b = ''call'' then Inr \<lparr>rq_jsonrpc = ''2.0'', rq_method = ''tools.call'',
       rq_params = ''x'', rq_id = ''1''\<rparr> else Inl ''bad''),
     c_call = (\<lambda>_. Inr sample_call), c_status = (\<lambda>b. Inr b), c_id = (\<lambda>b. Inr b), c_deny = (\<lambda>b. Inr (b, [])),
     c_tools = (\<lambda>_. Inr ''[]''), c_queued = (\<lambda>i r. Inr i), c_pending = (\<lambda>p. Inr (p_id p)),
     c_pendings = (\<lambda>_. Inr ''[]''), c_response = (\<lambda>r. Some (rs_id r))\<rparr>"

definition sample_server :: "unit server" where
  "sample_server = \<lparr>sv_registry = sample_registry, sv_policy = default_decide, sv_marshal = (\<lambda>_. Inr ''{}''),
     sv_hash = sample_hash, sv_codec = sample_codec\<rparr>"

definition sample_env :: call_env where
  "sample_env = \<lparr>ce_now = 5, ce_io = calm, ce_supply = [7], ce_now2 = 6, ce_io2 = calm\<rparr>"

definition sample_state :: "unit daemon_state" where
  "sample_state = \<lparr>ds_world = (), ds_queue = Some (new_queue None)\<rparr>"

definition waiting_queue :: queue where
  "waiting_queue = \<lparr>q_items = [(''00000007'', sample_pending\<lparr>p_tool := ''task.add''\<rparr>)], q_history = [], q_audit = None\<rparr>"

lemma wf_waiting_queue: "wf_queue waiting_queue"
  by (simp add: wf_queue_def waiting_queue_def wf_map_def entry_shape_def sample_pending_def unsettled_def)

lemma fresh_sample: "fresh_supply sample_env sample_state"
  by (simp add: fresh_supply_def sample_env_def sample_state_def has_id_def new_queue_def)

lemma one_reply_per_request_witness:
  "\<exists>reply d'. answer sample_server [] sample_env ''call'' sample_state = Some (reply, d') \<and>
     (\<exists>resp. reply = Some resp \<and> well_formed_reply ''1'' resp)"
  using one_reply_per_request [OF fresh_sample, of sample_server "''call''"]
  by (simp add: sample_server_def sample_codec_def is_notification_def)

lemma mutation_is_gated_witness:
  "\<exists>r d'. tools_call sample_server sample_env ''x'' sample_state = Some (r, d') \<and>
     ds_world d' = ds_world sample_state \<and>
    (book_of d' = book_of sample_state \<or>
     (\<exists>i e. book_of sample_state i = None \<and> book_of d' = (book_of sample_state)(i \<mapsto> e) \<and> new_pending_for sample_call e))"
proof -
  obtain r d' where c: "tools_call sample_server sample_env ''x'' sample_state = Some (r, d')"
    using tools_call_returns [OF fresh_sample] by blast
  have look: "lookup_tool (sv_registry sample_server) (cp_name sample_call) = Some sample_tool"
    unfolding sample_server_def server.simps by code_simp
  have g: "gating_decider (sv_policy sample_server)"
    using default_policy.gating_decider_axioms by (simp add: sample_server_def)
  have wf: "\<forall>q. ds_queue sample_state = Some q \<longrightarrow> wf_queue q" by (simp add: sample_state_def)
  have "ds_world d' = ds_world sample_state \<and>
    (book_of d' = book_of sample_state \<or>
     (\<exists>i e. book_of sample_state i = None \<and> book_of d' = (book_of sample_state)(i \<mapsto> e) \<and> new_pending_for sample_call e))"
    by (rule mutation_is_gated [OF g wf c _ look])
      (simp_all add: sample_server_def sample_codec_def sample_tool_def sample_call_def caller_cli_def)
  with c show ?thesis by blast
qed

lemma approval_granted_at_most_once_witness:
  "times_granted (\<lambda>_. Inr ''{}'') sample_hash ''00000007''
     [(8, calm, Op_approve ''00000007''), (9, calm, Op_approve ''00000007'')] waiting_queue \<le> 1"
  by (rule approval_granted_at_most_once [OF wf_waiting_queue])


end
