(* ===== verification/GoDate.thy ===== *)
theory GoDate
  imports GoText
begin

text \<open>
  The parts of Go's \<open>time\<close> package the modelled code uses: civil dates of the proleptic
  Gregorian calendar, day numbers (days since 1970-01-01), \<open>time.Date\<close>'s normalisation,
  \<open>AddDate\<close>, and the layout \<open>2006-01-02\<close>.

  A \<open>time.Time\<close> is an instant in nanoseconds together with the offset of its location
  from UTC. Locations whose offset changes (daylight saving) are outside the model.
\<close>

section \<open>Civil dates and day numbers\<close>

type_synonym civil = "int \<times> int \<times> int"

text \<open>
  Years are counted from March, so that the leap day is the last day of its year:
  \<open>mp\<close> is the month from March, \<open>doy\<close> the day of that year, \<open>doe\<close> the day of the
  400-year era.
\<close>

definition month_start :: "int \<Rightarrow> int" where
  "month_start mp = (153 * mp + 2) div 5"

definition days_from_civil :: "civil \<Rightarrow> int" where
  "days_from_civil c =
     (case c of (y, m, d) \<Rightarrow>
        let my = (if m \<le> 2 then y - 1 else y);
            mp = (if m \<le> 2 then m + 9 else m - 3);
            era = my div 400; yoe = my mod 400
        in era * 146097 + 365 * yoe + yoe div 4 - yoe div 100 + month_start mp + d - 1 - 719468)"

definition civil_from_days :: "int \<Rightarrow> civil" where
  "civil_from_days n =
     (let z = n + 719468; era = z div 146097; doe = z mod 146097;
          c = min 3 (doe div 36524); r = doe - c * 36524;
          q = r div 1461; r2 = r - q * 1461;
          yr = min 3 (r2 div 365); doy = r2 - yr * 365;
          mp = (5 * doy + 2) div 153;
          m = (if mp < 10 then mp + 3 else mp - 9);
          my = era * 400 + 100 * c + 4 * q + yr
      in ((if m \<le> 2 then my + 1 else my), m, doy - month_start mp + 1))"

lemma era_parts:
  fixes doe :: int
  assumes "0 \<le> doe" "doe < 146097"
  defines "c \<equiv> min 3 (doe div 36524)" and "r \<equiv> doe - min 3 (doe div 36524) * 36524"
  shows "0 \<le> c" "c \<le> 3" "0 \<le> r" "r < 36525"
  using assms unfolding c_def r_def by (auto simp: min_def) 

lemma days_from_march:
  assumes "0 \<le> mp" "mp \<le> 11" "0 \<le> yoe" "yoe < 400"
  defines "m \<equiv> (if mp < 10 then mp + 3 else mp - 9)"
  shows "days_from_civil (if m \<le> 2 then era * 400 + yoe + 1 else era * 400 + yoe, m, d)
     = era * 146097 + 365 * yoe + yoe div 4 - yoe div 100 + month_start mp + d - 1 - 719468"
proof -
  have e: "(era * 400 + yoe) div 400 = era" "(era * 400 + yoe) mod 400 = yoe" using assms by auto
  show ?thesis
  proof (cases "mp < 10")
    case True
    then have "m = mp + 3" "\<not> m \<le> 2" "m - 3 = mp" using assms(1) by (auto simp: m_def)
    then show ?thesis by (simp only: days_from_civil_def prod.case Let_def if_False e)
  next
    case False
    then have "m = mp - 9" "m \<le> 2" "m + 9 = mp" using assms(2) by (auto simp: m_def)
    then show ?thesis by (simp only: days_from_civil_def prod.case Let_def if_True add_diff_cancel_right' e)
  qed
qed

lemma days_of_civil_from_days [simp]: "days_from_civil (civil_from_days n) = n"
proof -
  define z where "z = n + 719468"
  define era doe where "era = z div 146097" and "doe = z mod 146097"
  have z: "z = era * 146097 + doe" "0 \<le> doe" "doe < 146097" by (auto simp: era_def doe_def)
  define c where "c = min 3 (doe div 36524)"
  define r where "r = doe - c * 36524"
  have c: "0 \<le> c" "c \<le> 3" "0 \<le> r" "r < 36525" using era_parts [OF z(2,3)] by (auto simp: c_def r_def)
  define q where "q = r div 1461"
  define r2 where "r2 = r - q * 1461"
  have q: "0 \<le> q" "q \<le> 24" "0 \<le> r2" "r2 < 1461"
    using c by (auto simp: q_def r2_def minus_div_mult_eq_mod)
  define yr where "yr = min 3 (r2 div 365)"
  define doy where "doy = r2 - yr * 365"
  have yr: "0 \<le> yr" "yr \<le> 3" "0 \<le> doy" "doy < 366"
    using q by (auto simp: yr_def doy_def min_def)
  define mp where "mp = (5 * doy + 2) div 153"
  have mp: "0 \<le> mp" "mp \<le> 11" using yr by (auto simp: mp_def)
  define yoe where "yoe = 100 * c + 4 * q + yr"
  have yoe: "0 \<le> yoe" "yoe < 400" "yoe div 4 = 25 * c + q" "yoe div 100 = c"
    using c q yr by (auto simp: yoe_def)
  define m where "m = (if mp < 10 then mp + 3 else mp - 9)"
  have civ: "civil_from_days n = (if m \<le> 2 then era * 400 + yoe + 1 else era * 400 + yoe, m, doy - month_start mp + 1)"
    unfolding civil_from_days_def Let_def z_def [symmetric] era_def [symmetric] doe_def [symmetric]
      c_def [symmetric] r_def [symmetric] q_def [symmetric] r2_def [symmetric] yr_def [symmetric]
      doy_def [symmetric] mp_def [symmetric] m_def [symmetric] by (simp add: yoe_def)
  have "doe = 365 * yoe + yoe div 4 - yoe div 100 + doy"
    unfolding yoe(3,4) by (simp add: yoe_def doy_def r2_def r_def)
  then show ?thesis
    unfolding civ m_def days_from_march [OF mp yoe(1,2)] using z(1) z_def by linarith
qed

definition leap_year :: "int \<Rightarrow> bool" where
  "leap_year y \<longleftrightarrow> y mod 4 = 0 \<and> (y mod 100 \<noteq> 0 \<or> y mod 400 = 0)"

definition days_in_month :: "int \<Rightarrow> int \<Rightarrow> int" where
  "days_in_month y m =
     (if m = 2 then (if leap_year y then 29 else 28)
      else if m = 4 \<or> m = 6 \<or> m = 9 \<or> m = 11 then 30 else 31)"

definition valid_civil :: "civil \<Rightarrow> bool" where
  "valid_civil c = (case c of (y, m, d) \<Rightarrow> 1 \<le> m \<and> m \<le> 12 \<and> 1 \<le> d \<and> d \<le> days_in_month y m)"

lemma month_cases:
  fixes m :: int
  assumes "1 \<le> m" "m \<le> 12"
  obtains "m = 1" | "m = 2" | "m = 3" | "m = 4" | "m = 5" | "m = 6" | "m = 7" | "m = 8"
    | "m = 9" | "m = 10" | "m = 11" | "m = 12"
  using assms by atomize_elim presburger

text \<open>A month and a day of it determine the day of the March year and are determined by it.\<close>

lemma day_of_year:
  assumes "1 \<le> m" "m \<le> 12" "1 \<le> d" "d \<le> days_in_month y m"
  defines "mp \<equiv> (if m \<le> 2 then m + 9 else m - 3)"
    and "doy \<equiv> month_start (if m \<le> 2 then m + 9 else m - 3) + d - 1"
  shows "0 \<le> doy" "doy \<le> 365" "(5 * doy + 2) div 153 = mp"
    "doy = 365 \<Longrightarrow> leap_year y \<and> m = 2"
proof -
  have d31: "d \<le> 31" using assms(4) by (auto simp: days_in_month_def split: if_splits)
  have "0 \<le> doy \<and> doy \<le> 365 \<and> (5 * doy + 2) div 153 = mp \<and> (doy = 365 \<longrightarrow> leap_year y \<and> m = 2)"
    using assms(1,2)
    by (cases rule: month_cases; use assms(3,4) d31 in \<open>simp add: mp_def doy_def month_start_def days_in_month_def split: if_splits\<close>)
  then show "0 \<le> doy" "doy \<le> 365" "(5 * doy + 2) div 153 = mp" "doy = 365 \<Longrightarrow> leap_year y \<and> m = 2"
    by auto
qed

lemma capped_quotient:
  fixes c R N :: int
  assumes "0 < N" "0 \<le> R" "R \<le> N" "R = N \<Longrightarrow> c = 3" "c \<le> 3"
  shows "min 3 ((c * N + R) div N) = c"
proof (cases "R = N")
  case False
  then have "(c * N + R) div N = c" using assms(1-3) by (simp add: div_add1_eq)
  with assms(5) show ?thesis by simp
qed (use assms in simp)

lemma civil_of_era_day:
  fixes c q yr doy era :: int
  assumes "0 \<le> c" "c \<le> 3" "0 \<le> q" "q \<le> 24" "0 \<le> yr" "yr \<le> 3" "0 \<le> doy" "doy \<le> 365"
    and "doy = 365 \<Longrightarrow> yr = 3 \<and> (q = 24 \<longrightarrow> c = 3)"
  defines "mp \<equiv> (5 * doy + 2) div 153"
    and "m \<equiv> (if (5 * doy + 2) div 153 < 10 then (5 * doy + 2) div 153 + 3 else (5 * doy + 2) div 153 - 9)"
    and "my \<equiv> era * 400 + 100 * c + 4 * q + yr"
  shows "civil_from_days (era * 146097 + (c * 36524 + q * 1461 + yr * 365 + doy) - 719468)
     = ((if m \<le> 2 then my + 1 else my), m, doy - month_start mp + 1)"
proof -
  let ?doe = "c * 36524 + q * 1461 + yr * 365 + doy"
  have r2: "0 \<le> yr * 365 + doy" "yr * 365 + doy < 1461" using assms(5-9) by auto
  have r: "0 \<le> q * 1461 + (yr * 365 + doy)" "q * 1461 + (yr * 365 + doy) \<le> 36524"
    using assms(3-8) r2 by auto
  have r3: "c = 3" if "q * 1461 + (yr * 365 + doy) = 36524"
  proof -
    have "q = 24" using that r2 assms(4) by linarith
    with that have "yr * 365 + doy = 1460" by simp
    then have "doy = 365" using assms(5-8) by presburger
    with assms(9) \<open>q = 24\<close> show ?thesis by simp
  qed
  have doe: "0 \<le> ?doe" "?doe < 146097" using r assms(1,2) by auto
  have e: "(era * 146097 + ?doe) div 146097 = era" "(era * 146097 + ?doe) mod 146097 = ?doe"
    using doe by auto
  have c: "min 3 (?doe div 36524) = c"
    using capped_quotient [of 36524, OF _ r(1,2) r3 assms(2)] by (simp add: add.assoc)
  have q: "(q * 1461 + (yr * 365 + doy)) div 1461 = q" using r2 by auto
  have yr: "min 3 ((yr * 365 + doy) div 365) = yr"
    by (rule capped_quotient) (use assms(6-9) in auto)
  have rest: "?doe - c * 36524 = q * 1461 + (yr * 365 + doy)"
    "q * 1461 + (yr * 365 + doy) - q * 1461 = yr * 365 + doy" "yr * 365 + doy - yr * 365 = doy" by auto
  show ?thesis
    unfolding civil_from_days_def Let_def diff_add_cancel e c rest q yr mp_def m_def my_def by (rule refl)
qed

lemma civil_of_days_from_civil:
  assumes "valid_civil c"
  shows "civil_from_days (days_from_civil c) = c"
proof -
  obtain y m d where c: "c = (y, m, d)" by (cases c) auto
  have v: "1 \<le> m" "m \<le> 12" "1 \<le> d" "d \<le> days_in_month y m" using assms by (auto simp: valid_civil_def c)
  define my where "my = (if m \<le> 2 then y - 1 else y)"
  define mp where "mp = (if m \<le> 2 then m + 9 else m - 3)"
  define doy where "doy = month_start mp + d - 1"
  define era yoe where "era = my div 400" and "yoe = my mod 400"
  define cc q yr where "cc = yoe div 100" and "q = (yoe mod 100) div 4" and "yr = yoe mod 4"
  note doy = day_of_year [OF v, folded mp_def, folded doy_def]
  have yoe: "0 \<le> yoe" "yoe < 400" by (auto simp: yoe_def)
  have "yoe = 100 * cc + yoe mod 100" "yoe mod 100 = 4 * q + (yoe mod 100) mod 4" "(yoe mod 100) mod 4 = yr"
    unfolding cc_def q_def yr_def by (simp_all only: mult_div_mod_eq) (simp add: mod_mod_cancel)
  then have sum: "yoe = 100 * cc + 4 * q + yr" by linarith
  have bounds: "0 \<le> cc" "cc \<le> 3" "0 \<le> q" "q \<le> 24" "0 \<le> yr" "yr \<le> 3"
    using yoe by (auto simp: cc_def q_def yr_def)
  have divs: "yoe div 4 = 25 * cc + q" "yoe div 100 = cc"
    using bounds unfolding sum by auto
  note parts = bounds sum divs
  have my: "my = era * 400 + yoe" by (simp add: era_def yoe_def)
  have leap: "doy = 365 \<Longrightarrow> yr = 3 \<and> (q = 24 \<longrightarrow> cc = 3)"
  proof -
    assume "doy = 365"
    then have l: "leap_year (my + 1)" using doy(4) by (simp add: my_def)
    have y1: "my + 1 = era * 400 + (100 * cc + 4 * q + yr + 1)" using my sum by linarith
    then have "my + 1 = (yr + 1) + 4 * (era * 100 + 25 * cc + q)" by simp
    then have "(my + 1) mod 4 = (yr + 1) mod 4" by (simp only: mod_mult_self2)
    then have "(yr + 1) mod 4 = 0" using l unfolding leap_year_def by simp
    moreover have "yr = 0 \<or> yr = 1 \<or> yr = 2 \<or> yr = 3" using bounds(5,6) by linarith
    ultimately have y3: "yr = 3" by auto
    have "cc = 3" if "q = 24"
    proof -
      have "my + 1 = 0 + 100 * (era * 4 + (cc + 1))" using y1 y3 that by simp
      then have "(my + 1) mod 100 = 0 mod 100" by (simp only: mod_mult_self2)
      then have z: "(my + 1) mod 400 = 0" using l unfolding leap_year_def by auto
      have "my + 1 = 100 * (cc + 1) + 400 * era" using y1 y3 that by simp
      then have "(my + 1) mod 400 = (100 * (cc + 1)) mod 400" by (simp only: mod_mult_self2)
      with z have "(100 * (cc + 1)) mod 400 = 0" by simp
      moreover have "cc = 0 \<or> cc = 1 \<or> cc = 2 \<or> cc = 3" using bounds(1,2) by linarith
      ultimately show ?thesis by auto
    qed
    with y3 show ?thesis by simp
  qed
  have "days_from_civil c = era * 146097 + 365 * yoe + yoe div 4 - yoe div 100 + month_start mp + d - 1 - 719468"
    unfolding c days_from_civil_def era_def yoe_def my_def mp_def by (simp only: prod.case Let_def)
  then have n: "days_from_civil c = era * 146097 + (cc * 36524 + q * 1461 + yr * 365 + doy) - 719468"
    unfolding doy_def divs using sum by linarith
  note E = civil_of_era_day [OF bounds doy(1,2), of era, unfolded doy(3)]
  have "(if mp < 10 then mp + 3 else mp - 9) = m" using v(1,2) by (simp add: mp_def)
  moreover have "era * 400 + 100 * cc + 4 * q + yr = my" using my sum by linarith
  moreover have "doy - month_start mp + 1 = d" by (simp add: doy_def)
  moreover have "(if m \<le> 2 then my + 1 else my) = y" by (simp add: my_def)
  moreover have "civil_from_days (days_from_civil c) =
     ((if (if mp < 10 then mp + 3 else mp - 9) \<le> 2 then era * 400 + 100 * cc + 4 * q + yr + 1
       else era * 400 + 100 * cc + 4 * q + yr), (if mp < 10 then mp + 3 else mp - 9), doy - month_start mp + 1)"
    unfolding n by (rule E) (rule leap)
  ultimately show ?thesis by (simp only: c)
qed

text \<open>Every day number has a valid date.\<close>

lemma days_from_civil_inject:
  "valid_civil a \<Longrightarrow> valid_civil b \<Longrightarrow> days_from_civil a = days_from_civil b \<longleftrightarrow> a = b"
  using civil_of_days_from_civil by metis

lemma valid_civil_from_days_example: "civil_from_days 0 = (1970, 1, 1)" "civil_from_days 19782 = (2024, 2, 29)"
  by code_simp+

section \<open>Instants with a location\<close>

record gotime =
  gt_ns :: int
  gt_off :: int

definition day_ns :: int where "day_ns = 86400000000000"

definition day_of :: "gotime \<Rightarrow> int" where
  "day_of t = (gt_ns t + gt_off t) div day_ns"

definition clock_of :: "gotime \<Rightarrow> int" where
  "clock_of t = (gt_ns t + gt_off t) mod day_ns"

text \<open>\<open>Year\<close>, \<open>Month\<close>, \<open>Day\<close> (\<open>Date\<close>) in the instant's own location.\<close>

definition civil_of :: "gotime \<Rightarrow> civil" where
  "civil_of t = civil_from_days (day_of t)"

text \<open>\<open>time.Date\<close> carries months outside 1 to 12 and days outside the month over.\<close>

definition norm_day :: "int \<Rightarrow> int \<Rightarrow> int \<Rightarrow> int" where
  "norm_day y m d = days_from_civil (y + (m - 1) div 12, (m - 1) mod 12 + 1, 1) + d - 1"

definition at_day :: "int \<Rightarrow> int \<Rightarrow> int \<Rightarrow> gotime" where
  "at_day day clock off = \<lparr>gt_ns = day * day_ns + clock - off, gt_off = off\<rparr>"

definition utc_midnight :: "civil \<Rightarrow> gotime" where
  "utc_midnight c = at_day (days_from_civil c) 0 0"

definition add_date :: "int \<Rightarrow> int \<Rightarrow> int \<Rightarrow> gotime \<Rightarrow> gotime" where
  "add_date dy dm dd t =
     (case civil_of t of (y, m, d) \<Rightarrow> at_day (norm_day (y + dy) (m + dm) (d + dd)) (clock_of t) (gt_off t))"

definition add_ns :: "int \<Rightarrow> gotime \<Rightarrow> gotime" where
  "add_ns d t = t\<lparr>gt_ns := gt_ns t + d\<rparr>"

definition sub_ns :: "gotime \<Rightarrow> gotime \<Rightarrow> int" where
  "sub_ns a b = gt_ns a - gt_ns b"

lemma day_ns_pos [simp]: "0 < day_ns" "day_ns \<noteq> 0"
  by (simp_all add: day_ns_def)

lemma day_of_at_day [simp]: "0 \<le> clock \<Longrightarrow> clock < day_ns \<Longrightarrow> day_of (at_day day clock off) = day"
  by (simp add: day_of_def at_day_def)

lemma clock_of_at_day [simp]: "0 \<le> clock \<Longrightarrow> clock < day_ns \<Longrightarrow> clock_of (at_day day clock off) = clock"
  by (simp add: clock_of_def at_day_def)

lemma gt_off_at_day [simp]: "gt_off (at_day day clock off) = off"
  by (simp add: at_day_def)

lemma clock_bounds [simp]: "0 \<le> clock_of t" "clock_of t < day_ns"
  by (simp_all add: clock_of_def)

lemma civil_of_utc_midnight [simp]: "valid_civil c \<Longrightarrow> civil_of (utc_midnight c) = c"
  by (simp add: civil_of_def utc_midnight_def civil_of_days_from_civil)

lemma norm_day_valid: "1 \<le> m \<Longrightarrow> m \<le> 12 \<Longrightarrow> norm_day y m d = days_from_civil (y, m, d)"
  by (simp add: norm_day_def days_from_civil_def Let_def)

lemma civil_from_days_month:
  "case civil_from_days n of (y, m, d) \<Rightarrow> 1 \<le> m \<and> m \<le> 12"
proof -
  define z where "z = n + 719468"
  define era doe where "era = z div 146097" and "doe = z mod 146097"
  have z: "0 \<le> doe" "doe < 146097" by (auto simp: doe_def)
  define c where "c = min 3 (doe div 36524)"
  define r where "r = doe - c * 36524"
  have c: "0 \<le> r" "r < 36525" using era_parts [OF z] by (auto simp: c_def r_def)
  define q where "q = r div 1461"
  define r2 where "r2 = r - q * 1461"
  have q: "0 \<le> r2" "r2 < 1461"
    by (auto simp: q_def r2_def minus_div_mult_eq_mod)
  define yr where "yr = min 3 (r2 div 365)"
  define doy where "doy = r2 - yr * 365"
  have yr: "0 \<le> doy" "doy < 366"
    using q by (auto simp: yr_def doy_def min_def)
  define mp where "mp = (5 * doy + 2) div 153"
  have mp: "0 \<le> mp" "mp \<le> 11" using yr by (auto simp: mp_def)
  show ?thesis
    unfolding civil_from_days_def Let_def z_def [symmetric] era_def [symmetric] doe_def [symmetric]
      c_def [symmetric] r_def [symmetric] q_def [symmetric] r2_def [symmetric] yr_def [symmetric]
      doy_def [symmetric] mp_def [symmetric]
    using mp by auto
qed

lemma days_from_civil_add: "days_from_civil (y, m, d + k) = days_from_civil (y, m, d) + k"
  by (simp add: days_from_civil_def Let_def)

text \<open>Adding days moves the calendar day by exactly that many and keeps the clock.\<close>

lemma add_days: "add_date 0 0 k t = at_day (day_of t + k) (clock_of t) (gt_off t)"
proof -
  obtain y m d where c: "civil_from_days (day_of t) = (y, m, d)" by (cases "civil_from_days (day_of t)") auto
  have "norm_day y m (d + k) = day_of t + k"
    using civil_from_days_month [of "day_of t"] c days_of_civil_from_days [of "day_of t"]
    by (simp add: norm_day_valid days_from_civil_add)
  then show ?thesis by (simp add: add_date_def civil_of_def c)
qed

section \<open>The layout 2006-01-02\<close>

definition two_digits :: "int \<Rightarrow> bytes" where
  "two_digits n = [digit_char (nat n div 10 mod 10), digit_char (nat n mod 10)]"

definition four_digits :: "int \<Rightarrow> bytes" where
  "four_digits n =
     (if 0 \<le> n \<and> n \<le> 9999
      then [digit_char (nat n div 1000), digit_char (nat n div 100 mod 10),
            digit_char (nat n div 10 mod 10), digit_char (nat n mod 10)]
      else itoa n)"

definition format_date :: "civil \<Rightarrow> bytes" where
  "format_date c = (case c of (y, m, d) \<Rightarrow> four_digits y @ ''-'' @ two_digits m @ ''-'' @ two_digits d)"

definition num :: "bytes \<Rightarrow> int" where
  "num s = int (digits_val s)"

text \<open>The shape of the layout, and the date if the month and the day are in range.\<close>

definition date_shape :: "bytes \<Rightarrow> bool" where
  "date_shape s \<longleftrightarrow> length s = 10 \<and> s ! 4 = CHR ''-'' \<and> s ! 7 = CHR ''-''
     \<and> list_all is_digit (take 4 s) \<and> list_all is_digit (take 2 (drop 5 s)) \<and> list_all is_digit (drop 8 s)"

definition shape_date :: "bytes \<Rightarrow> civil" where
  "shape_date s = (num (take 4 s), num (take 2 (drop 5 s)), num (drop 8 s))"

definition parse_date :: "bytes \<Rightarrow> civil option" where
  "parse_date s = (if date_shape s \<and> valid_civil (shape_date s) then Some (shape_date s) else None)"

text \<open>The \<open>time.ParseError\<close> of a string that has the shape.\<close>

definition date_range_error :: "bytes \<Rightarrow> go_error" where
  "date_range_error s =
     (case shape_date s of (y, m, d) \<Rightarrow>
        new_error (''parsing time '' @ go_quote s @
          (if m < 1 \<or> 12 < m then '': month out of range'' else '': day out of range'')))"

lemma digits_table: "list_all (\<lambda>n. is_digit (digit_char n) \<and> digit_val (digit_char n) = n) [0..<10]"
  by code_simp

lemma digit_lemmas [simp]:
  "n < 10 \<Longrightarrow> is_digit (digit_char n)" "n < 10 \<Longrightarrow> digit_val (digit_char n) = n"
  using digits_table by (auto simp: list_all_iff)

lemma four_digits_split:
  fixes n :: nat
  assumes "n \<le> 9999"
  shows "10 * (10 * (10 * (n div 1000) + n div 100 mod 10) + n div 10 mod 10) + n mod 10 = n"
    "n div 1000 < 10"
proof -
  have "n div 100 = n div 10 div 10" "n div 1000 = n div 10 div 10 div 10"
    by (simp_all add: div_mult2_eq [symmetric])
  then show "10 * (10 * (10 * (n div 1000) + n div 100 mod 10) + n div 10 mod 10) + n mod 10 = n"
    by (simp only: mult_div_mod_eq)
  show "n div 1000 < 10" using assms by simp
qed

lemma two_digits_split: "(n :: nat) \<le> 99 \<Longrightarrow> 10 * (n div 10 mod 10) + n mod 10 = n"
  by simp

lemma days_in_month_le: "days_in_month y m \<le> 31"
  by (simp add: days_in_month_def)

lemma parse_format_date [simp]:
  assumes "valid_civil (y, m, d)" "0 \<le> y" "y \<le> 9999"
  shows "parse_date (format_date (y, m, d)) = Some (y, m, d)" and "date_shape (format_date (y, m, d))"
    and "length (format_date (y, m, d)) = 10"
proof -
  have md: "0 \<le> m" "m \<le> 99" "0 \<le> d" "d \<le> 99"
    using assms(1) days_in_month_le [of y m] by (auto simp: valid_civil_def)
  have y: "num (four_digits y) = y"
    using assms(2,3) four_digits_split [of "nat y"] by (simp add: num_def four_digits_def digits_val_def)
  have two: "num (two_digits n) = n" if "0 \<le> n" "n \<le> 99" for n
    using that two_digits_split [of "nat n"] by (simp add: num_def two_digits_def digits_val_def)
  have f: "format_date (y, m, d) = four_digits y @ ''-'' @ two_digits m @ ''-'' @ two_digits d"
    by (simp add: format_date_def)
  have len: "length (four_digits y) = 4" "\<And>n. length (two_digits n) = 2"
    using assms(2,3) by (simp_all add: four_digits_def two_digits_def)
  have dig: "list_all is_digit (four_digits y)" "\<And>n. list_all is_digit (two_digits n)"
    using assms(2,3) four_digits_split(2) [of "nat y"] by (simp_all add: four_digits_def two_digits_def)
  show sh: "date_shape (format_date (y, m, d))"
    using dig by (simp add: date_shape_def f len nth_append)
  show "length (format_date (y, m, d)) = 10" by (simp add: f len)
  have "shape_date (format_date (y, m, d)) = (y, m, d)"
    by (simp add: shape_date_def f len y two md)
  with sh assms(1) show "parse_date (format_date (y, m, d)) = Some (y, m, d)"
    by (simp add: parse_date_def)
qed

end
