(* ===== verification/Recurrence.thy ===== *)
theory Recurrence
  imports GoDate
begin

text \<open>
  \<open>internal/vault/recurrence.go\<close>: the supported recurrence grammar and the next occurrence
  of a recurring task.

  The regular expression \<open>recurrenceRuleRe\<close> is a hand-written parser. \<open>time.Duration\<close> is a
  64-bit count of nanoseconds, and \<open>Time.Sub\<close> saturates at its ends.
\<close>

datatype recur_unit = Unit_day | Unit_week | Unit_month | Unit_year

record recur_rule =
  rr_count :: bytes
  rr_unit :: recur_unit
  rr_when_done :: bool

definition skip_spaces :: "bytes \<Rightarrow> bytes" where
  "skip_spaces s = dropWhile re_space s"

text \<open>\<open>\s+\<close> in front of the rest.\<close>

definition spaces1 :: "bytes \<Rightarrow> bytes option" where
  "spaces1 s = (case s of c # _ \<Rightarrow> if re_space c then Some (skip_spaces s) else None | [] \<Rightarrow> None)"

definition expect :: "bytes \<Rightarrow> bytes \<Rightarrow> bytes option" where
  "expect p s = (if has_prefix s p then Some (drop (length p) s) else None)"

definition parse_unit :: "bytes \<Rightarrow> (recur_unit \<times> bytes) option" where
  "parse_unit s =
     (case expect ''day'' s of Some r \<Rightarrow> Some (Unit_day, r) | None \<Rightarrow>
     (case expect ''week'' s of Some r \<Rightarrow> Some (Unit_week, r) | None \<Rightarrow>
     (case expect ''month'' s of Some r \<Rightarrow> Some (Unit_month, r) | None \<Rightarrow>
     (case expect ''year'' s of Some r \<Rightarrow> Some (Unit_year, r) | None \<Rightarrow> None))))"

text \<open>The tail \<open>s?(\s+when\s+done)?$\<close>: whether it has the \<open>when done\<close>.\<close>

definition parse_tail :: "bytes \<Rightarrow> bool option" where
  "parse_tail s0 =
     (let s = (case expect ''s'' s0 of Some r \<Rightarrow> r | None \<Rightarrow> s0) in
      if s = [] then Some False
      else (case Option.bind (Option.bind (Option.bind (spaces1 s) (expect ''when'')) spaces1) (expect ''done'') of
          Some [] \<Rightarrow> Some True
        | _ \<Rightarrow> None))"

text \<open>The optional count \<open>(?:(\d+)\s+)?\<close>: digits only count when white space follows.\<close>

definition parse_count :: "bytes \<Rightarrow> bytes \<times> bytes" where
  "parse_count s =
     (let ds = takeWhile is_digit s; r = dropWhile is_digit s in
      if ds = [] then ([], s) else (case spaces1 r of Some r' \<Rightarrow> (ds, r') | None \<Rightarrow> ([], s)))"

definition parse_rule :: "bytes \<Rightarrow> recur_rule option" where
  "parse_rule s =
     (case Option.bind (expect ''every'' s) spaces1 of
        None \<Rightarrow> None
      | Some r \<Rightarrow>
          (case parse_count r of (ds, r1) \<Rightarrow>
             (case parse_unit r1 of
                None \<Rightarrow> None
              | Some (u, r2) \<Rightarrow>
                  (case parse_tail r2 of
                     None \<Rightarrow> None
                   | Some w \<Rightarrow> Some \<lparr>rr_count = ds, rr_unit = u, rr_when_done = w\<rparr>))))"

definition date_only :: "gotime \<Rightarrow> gotime" where
  "date_only t = (case civil_of t of (y, m, d) \<Rightarrow> at_day (norm_day y m d) 0 (gt_off t))"

definition duration_sub :: "gotime \<Rightarrow> gotime \<Rightarrow> int" where
  "duration_sub a b = max (- (2 ^ 63)) (min (2 ^ 63 - 1) (sub_ns a b))"

definition advance :: "recur_unit \<Rightarrow> int \<Rightarrow> gotime \<Rightarrow> gotime" where
  "advance u n t =
     (case u of
        Unit_day \<Rightarrow> add_date 0 0 n t
      | Unit_week \<Rightarrow> add_date 0 0 (7 * n) t
      | Unit_month \<Rightarrow> add_date 0 n 0 t
      | Unit_year \<Rightarrow> add_date n 0 0 t)"

definition rule_count :: "recur_rule \<Rightarrow> int option" where
  "rule_count r =
     (if rr_count r = [] then Some 1
      else (case atoi (rr_count r) of None \<Rightarrow> None | Some n \<Rightarrow> if n < 1 then None else Some n))"

definition next_recurrence ::
  "bytes \<Rightarrow> gotime option \<Rightarrow> gotime option \<Rightarrow> gotime \<Rightarrow> (gotime option \<times> gotime option) option" where
  "next_recurrence rule due scheduled completed_on =
     (case parse_rule (trim_space (to_lower rule)) of
        None \<Rightarrow> None
      | Some r \<Rightarrow>
          (case rule_count r of
             None \<Rightarrow> None
           | Some n \<Rightarrow>
               (case (case due of Some d \<Rightarrow> Some d | None \<Rightarrow> scheduled) of
                  None \<Rightarrow> None
                | Some ref \<Rightarrow>
                    (let new_ref = (if rr_when_done r then advance (rr_unit r) n (date_only completed_on)
                                    else advance (rr_unit r) n ref);
                         delta = duration_sub new_ref ref
                     in Some (map_option (add_ns delta) due, map_option (add_ns delta) scheduled)))))"

section \<open>Properties\<close>

lemma add_ns_off [simp]: "gt_off (add_ns k t) = gt_off t" "gt_ns (add_ns k t) = gt_ns t + k"
  by (simp_all add: add_ns_def)

lemma add_ns_sub: "- (2 ^ 63) \<le> sub_ns a b \<Longrightarrow> sub_ns a b < 2 ^ 63 \<Longrightarrow> gt_off a = gt_off b \<Longrightarrow>
  add_ns (duration_sub a b) b = a"
  by (cases a; cases b) (simp add: add_ns_def duration_sub_def sub_ns_def)

text \<open>
  The next occurrence of a recurring task. It exists exactly when the rule is in the
  supported grammar with a count of at least one that fits an \<open>int\<close>, and the task has a
  date; it has the same kinds of dates as the task; and scheduled and due dates are moved by
  the same amount, so the time between them is kept.
\<close>

theorem next_recurrence_shape:
  "case next_recurrence rule due scheduled completed_on of
     None \<Rightarrow> (due, scheduled) = (None, None)
       \<or> Option.bind (parse_rule (trim_space (to_lower rule))) rule_count = None
   | Some (due', scheduled') \<Rightarrow>
       (due, scheduled) \<noteq> (None, None)
       \<and> Option.bind (parse_rule (trim_space (to_lower rule))) rule_count \<noteq> None
       \<and> (due' = None \<longleftrightarrow> due = None) \<and> (scheduled' = None \<longleftrightarrow> scheduled = None)
       \<and> (\<exists>delta. due' = map_option (add_ns delta) due \<and> scheduled' = map_option (add_ns delta) scheduled)"
  by (auto simp: next_recurrence_def Let_def split: option.splits)

text \<open>
  A rule \<open>every N days\<close> or \<open>every N weeks\<close> moves the due date by exactly that many
  calendar days, in the due date's own location and at the same time of day, whenever the
  step is less than 106,000 days (where a 64-bit duration still holds it).
\<close>

theorem next_recurrence_days:
  assumes "parse_rule (trim_space (to_lower rule)) = Some r" and "rule_count r = Some n"
    and "\<not> rr_when_done r" and "rr_unit r = Unit_day \<and> k = n \<or> rr_unit r = Unit_week \<and> k = 7 * n"
    and "k < 106000"
  shows "\<exists>due' scheduled'. next_recurrence rule (Some due) scheduled completed_on = Some (Some due', scheduled')
     \<and> day_of due' = day_of due + k \<and> clock_of due' = clock_of due \<and> gt_off due' = gt_off due"
proof -
  have n: "1 \<le> n" using assms(2) by (auto simp: rule_count_def split: if_splits option.splits)
  then have k: "0 < k" using assms(4) by auto
  have adv: "advance (rr_unit r) n due = at_day (day_of due + k) (clock_of due) (gt_off due)"
    using assms(4) by (auto simp: advance_def add_days)
  let ?t = "at_day (day_of due + k) (clock_of due) (gt_off due)"
  have "gt_ns due = day_of due * day_ns + clock_of due - gt_off due"
    by (simp add: day_of_def clock_of_def)
  then have "sub_ns ?t due = k * day_ns"
    by (simp add: sub_ns_def at_day_def distrib_right)
  then have "add_ns (duration_sub ?t due) due = ?t"
    using k assms(5) by (intro add_ns_sub) (auto simp: day_ns_def)
  then show ?thesis
    using assms(1-3) by (simp add: next_recurrence_def Let_def adv)
qed

lemma next_recurrence_days_witness:
  "\<exists>due' scheduled'. next_recurrence ''Every 2 weeks'' (Some (utc_midnight (2024, 2, 20))) None (utc_midnight (2024, 2, 21))
       = Some (Some due', scheduled')
     \<and> day_of due' = day_of (utc_midnight (2024, 2, 20)) + 14
     \<and> clock_of due' = clock_of (utc_midnight (2024, 2, 20)) \<and> gt_off due' = gt_off (utc_midnight (2024, 2, 20))"
proof (rule next_recurrence_days)
  show "parse_rule (trim_space (to_lower ''Every 2 weeks'')) = Some \<lparr>rr_count = ''2'', rr_unit = Unit_week, rr_when_done = False\<rparr>"
    by code_simp
  show "rule_count \<lparr>rr_count = ''2'', rr_unit = Unit_week, rr_when_done = False\<rparr> = Some 2" by code_simp
qed simp_all

text \<open>
  A \<open>when done\<close> rule takes the local midnight of the completion, while due dates are UTC
  midnights: nine hours east of UTC, a task due daily and completed on 10 January is due
  again on 10 January.
\<close>

lemma when_done_east_of_utc:
  "case next_recurrence ''every day when done'' (Some (utc_midnight (2024, 1, 10))) None
       (at_day (days_from_civil (2024, 1, 10)) 43200000000000 32400000000000) of
     Some (Some due', None) \<Rightarrow> civil_of due' = (2024, 1, 10)
   | _ \<Rightarrow> False"
  by code_simp

text \<open>A step of 300 years does not fit a duration: the occurrence is 292 years on.\<close>

lemma long_step_saturates:
  "case next_recurrence ''every 300 years'' (Some (utc_midnight (2024, 1, 10))) None (utc_midnight (2024, 1, 10)) of
     Some (Some due', None) \<Rightarrow> civil_of due' = (2316, 4, 20)
   | _ \<Rightarrow> False"
  by code_simp

end
