(* ===== verification/TaskLine.thy ===== *)
theory TaskLine
  imports GoDate
begin

text \<open>
  The markdown task line of \<open>internal/vault\<close> (\<open>task_format.go\<close>, \<open>tasks.go\<close>) and
  \<open>internal/domain\<close> (\<open>task.go\<close>, \<open>tag.go\<close>): formatting, parsing, and the operations on task
  files (append a line, update a line behind its guard, read all tasks).

  Each regular expression is a matcher: given the text from some position on, the text of
  its capture group and the length of the match, or \<open>None\<close>. Leftmost search, search for all
  matches and replacement by the empty text are the same for every matcher.
\<close>

section \<open>Tasks\<close>

record task =
  tk_id :: bytes
  tk_text :: bytes
  tk_project :: bytes
  tk_tags :: "bytes list"
  tk_due :: "gotime option"
  tk_scheduled :: "gotime option"
  tk_recurrence :: bytes
  tk_parent :: bytes
  tk_priority :: bytes
  tk_completed :: bool
  tk_completed_at :: "gotime option"
  tk_file :: bytes
  tk_line :: int

definition tag_char :: "char \<Rightarrow> bool" where
  "tag_char c \<longleftrightarrow> is_upper c \<or> is_lower c \<or> is_digit c \<or> c = CHR ''_'' \<or> c = CHR ''-'' \<or> c = CHR ''/''"

text \<open>\<open>IsTag\<close> and \<open>IsNumericTag\<close>.\<close>

definition is_tag :: "bytes \<Rightarrow> bool" where
  "is_tag s \<longleftrightarrow> list_all tag_char s \<and> list_ex (\<lambda>c. \<not> is_digit c) s"

definition is_numeric_tag :: "bytes \<Rightarrow> bool" where
  "is_numeric_tag s \<longleftrightarrow> s \<noteq> [] \<and> list_all is_digit s"

section \<open>Matchers\<close>

type_synonym matcher = "bytes \<Rightarrow> (bytes \<times> nat) option"

fun find_sub :: "matcher \<Rightarrow> bytes \<Rightarrow> bytes option" where
  "find_sub m [] = map_option fst (m [])"
| "find_sub m (c # cs) = (case m (c # cs) of Some (g, _) \<Rightarrow> Some g | None \<Rightarrow> find_sub m cs)"

definition matches :: "matcher \<Rightarrow> bytes \<Rightarrow> bool" where
  "matches m s \<longleftrightarrow> find_sub m s \<noteq> None"

function remove_all :: "matcher \<Rightarrow> bytes \<Rightarrow> bytes" where
  "remove_all m [] = []"
| "remove_all m (c # cs) =
     (case m (c # cs) of
        Some (_, n) \<Rightarrow> if n = 0 then c # remove_all m cs else remove_all m (drop n (c # cs))
      | None \<Rightarrow> c # remove_all m cs)"
  by pat_completeness auto
termination
  by (relation "measure (\<lambda>(m, s). length s)") auto

function find_all :: "matcher \<Rightarrow> bytes \<Rightarrow> bytes list" where
  "find_all m [] = []"
| "find_all m (c # cs) =
     (case m (c # cs) of
        Some (g, n) \<Rightarrow> g # (if n = 0 then find_all m cs else find_all m (drop n (c # cs)))
      | None \<Rightarrow> find_all m cs)"
  by pat_completeness auto
termination
  by (relation "measure (\<lambda>(m, s). length s)") auto

text \<open>Backtracking over a greedy run of white space: the longest prefix that lets the rest match.\<close>

fun try_spaces :: "nat \<Rightarrow> (nat \<Rightarrow> (bytes \<times> nat) option) \<Rightarrow> (bytes \<times> nat) option" where
  "try_spaces n f = (case f n of Some r \<Rightarrow> Some r | None \<Rightarrow> (if n = 0 then None else try_spaces (n - 1) f))"

declare try_spaces.simps [simp del]

definition space_run :: "bytes \<Rightarrow> nat" where
  "space_run s = length (takeWhile re_space s)"

definition emoji :: "nat list \<Rightarrow> bytes" where
  "emoji ns = map char_of ns"

definition calendar_mark :: bytes where "calendar_mark = emoji [0xF0, 0x9F, 0x93, 0x85]"
definition hourglass_mark :: bytes where "hourglass_mark = emoji [0xE2, 0x8F, 0xB3]"
definition check_mark :: bytes where "check_mark = emoji [0xE2, 0x9C, 0x85]"
definition repeat_mark :: bytes where "repeat_mark = emoji [0xF0, 0x9F, 0x94, 0x81]"

lemma mark_literals [code]:
  "calendar_mark = [CHR 0xF0, CHR 0x9F, CHR 0x93, CHR 0x85]" "hourglass_mark = [CHR 0xE2, CHR 0x8F, CHR 0xB3]"
  "check_mark = [CHR 0xE2, CHR 0x9C, CHR 0x85]" "repeat_mark = [CHR 0xF0, CHR 0x9F, CHR 0x94, CHR 0x81]"
  by code_simp+

lemmas mark_defs = calendar_mark_def hourglass_mark_def check_mark_def repeat_mark_def emoji_def

text \<open>A mark, white space (at least \<open>k\<close>), a date.\<close>

definition date_field :: "bytes \<Rightarrow> nat \<Rightarrow> matcher" where
  "date_field mark k s =
     (if \<not> has_prefix s mark then None
      else
        (let r = drop (length mark) s; n = space_run r; d = take 10 (drop n r)
         in if k \<le> n \<and> date_shape d then Some (d, length mark + n + 10) else None))"

definition due_re :: matcher where "due_re = date_field calendar_mark 1"
definition scheduled_re :: matcher where "scheduled_re = date_field hourglass_mark 0"
definition done_re :: matcher where "done_re = date_field check_mark 0"

definition recurrence_stop :: "bytes \<Rightarrow> bool" where
  "recurrence_stop s = (case s of [] \<Rightarrow> True | c # _ \<Rightarrow>
     c = CHR ''#'' \<or> c = CHR ''^'' \<or> c = CHR ''['' \<or> c = newline
     \<or> has_prefix s calendar_mark \<or> has_prefix s hourglass_mark \<or> has_prefix s check_mark \<or> has_prefix s repeat_mark)"

fun recurrence_run :: "bytes \<Rightarrow> bytes" where
  "recurrence_run [] = []"
| "recurrence_run (c # cs) = (if recurrence_stop (c # cs) then [] else c # recurrence_run cs)"

definition recurrence_re :: matcher where
  "recurrence_re s =
     (if \<not> has_prefix s repeat_mark then None
      else
        (let r = drop (length repeat_mark) s in
         try_spaces (space_run r) (\<lambda>k.
           (let g = recurrence_run (drop k r)
            in if g = [] then None else Some (g, length repeat_mark + k + length g)))))"

definition tag_re :: matcher where
  "tag_re s =
     (case s of [] \<Rightarrow> None | c # cs \<Rightarrow>
        (let body = takeWhile tag_char cs in
         if c = CHR ''#'' \<and> list_ex (\<lambda>c. \<not> is_digit c) body then Some (body, Suc (length body)) else None))"

definition hex_char :: "char \<Rightarrow> bool" where
  "hex_char c \<longleftrightarrow> is_digit c \<or> between (CHR ''a'') (CHR ''f'') c"

text \<open>The shape \<open>qi-\<close> and eight hexadecimal digits, at the head of a text.\<close>

definition qi_id_head :: "bytes \<Rightarrow> bytes option" where
  "qi_id_head s =
     (if has_prefix s ''qi-'' \<and> 11 \<le> length s \<and> list_all hex_char (take 8 (drop 3 s)) then Some (take 11 s) else None)"

definition parent_re :: matcher where
  "parent_re s =
     (if \<not> has_prefix s ''[parent::'' then None
      else
        (let r = drop 9 s; n = space_run r in
         case qi_id_head (drop n r) of
           None \<Rightarrow> None
         | Some i \<Rightarrow> if has_prefix (drop (n + 11) r) '']'' then Some (i, 9 + n + 12) else None))"

definition priority_re :: matcher where
  "priority_re s =
     (if to_lower (take 11 s) \<noteq> ''[priority::'' then None
      else
        (let r = drop 11 s in
         try_spaces (space_run r) (\<lambda>k.
           (let g = takeWhile (\<lambda>c. c \<noteq> CHR '']'' \<and> c \<noteq> CHR 0x0D \<and> c \<noteq> newline) (drop k r)
            in if g \<noteq> [] \<and> has_prefix (drop (k + length g) r) '']''
               then Some (g, 11 + k + length g + 1) else None))))"

definition id_re :: matcher where
  "id_re s =
     (case s of [] \<Rightarrow> None | c # cs \<Rightarrow>
        if c \<noteq> CHR ''^'' then None
        else (case qi_id_head cs of
            None \<Rightarrow> None
          | Some i \<Rightarrow> if list_all re_space (drop 11 cs) then Some (i, length s) else None))"

definition block_char :: "char \<Rightarrow> bool" where
  "block_char c \<longleftrightarrow> is_upper c \<or> is_lower c \<or> is_digit c \<or> c = CHR ''_'' \<or> c = CHR ''-''"

definition any_block_re :: matcher where
  "any_block_re s =
     (case s of [] \<Rightarrow> None | c # cs \<Rightarrow>
        (let body = takeWhile block_char cs in
         if c = CHR ''^'' \<and> body \<noteq> [] \<and> list_all re_space (dropWhile block_char cs)
         then Some (body, length s) else None))"

section \<open>Formatting\<close>

text \<open>The loop over \<open>task.Tags\<close>: the parts it adds and whether it saw the project's tag.\<close>

fun tag_parts :: "bytes \<Rightarrow> bytes list \<Rightarrow> bytes list \<Rightarrow> bytes list \<times> bool \<times> bytes list" where
  "tag_parts project inline [] = ([], False, inline)"
| "tag_parts project inline (t0 # ts) =
     (let t = trim_space t0 in
      if t = [] then tag_parts project inline ts
      else if t \<in> set inline
      then (case tag_parts project inline ts of (ps, seen, i') \<Rightarrow> (ps, t = project \<or> seen, i'))
      else (case tag_parts project (t # inline) ts of (ps, seen, i') \<Rightarrow> ((CHR ''#'' # t) # ps, t = project \<or> seen, i')))"

definition date_part :: "bytes \<Rightarrow> gotime option \<Rightarrow> bytes list" where
  "date_part mark d = (case d of None \<Rightarrow> [] | Some t \<Rightarrow> [mark @ '' '' @ format_date (civil_of t)])"

definition format_parts :: "task \<Rightarrow> bytes list" where
  "format_parts t =
     (let text = trim_space (tk_text t);
          status = (if tk_completed t then ''x'' else '' '')
      in case tag_parts (tk_project t) (find_all tag_re text) (tk_tags t) of
           (tags, has_project, inline) \<Rightarrow>
             [''- ['' @ status @ ''] '' @ text] @ tags
             @ (if tk_project t \<noteq> [] \<and> \<not> has_project \<and> tk_project t \<notin> set inline
                then [CHR ''#'' # tk_project t] else [])
             @ (if tk_recurrence t \<noteq> [] then [repeat_mark @ '' '' @ trim_space (tk_recurrence t)] else [])
             @ date_part hourglass_mark (tk_scheduled t)
             @ date_part calendar_mark (tk_due t)
             @ date_part check_mark (tk_completed_at t)
             @ (if tk_parent t \<noteq> [] then [''[parent:: '' @ tk_parent t @ '']''] else []))"

definition format_task_line :: "task \<Rightarrow> go_error + bytes" where
  "format_task_line t =
     (if trim_space (tk_text t) = [] then Inl (new_error ''task text is required'')
      else
        (let joined = join '' '' (format_parts t) in
         if tk_id t = [] then Inr joined
         else if matches any_block_re joined \<and> \<not> matches id_re joined then Inr joined
         else Inr (trim_space (remove_all id_re joined) @ '' ^'' @ tk_id t)))"

section \<open>Parsing\<close>

text \<open>What follows the prefix \<open>- [ ] \<close> of a task line.\<close>

definition strip_task_prefix :: "bytes \<Rightarrow> bytes option" where
  "strip_task_prefix s0 =
     (let s = dropWhile re_space s0 in
      case s of
        d # sp # b # m # e # sp' # rest \<Rightarrow>
          if d = CHR ''-'' \<and> re_space sp \<and> b = CHR ''['' \<and> (m = CHR '' '' \<or> m = CHR ''x'') \<and> e = CHR '']'' \<and> re_space sp'
          then Some (dropWhile re_space rest) else None
      | _ \<Rightarrow> None)"

text \<open>Extract a date field: the date and the text without it.\<close>

definition take_date :: "bytes \<Rightarrow> matcher \<Rightarrow> bytes \<Rightarrow> go_error + (gotime option \<times> bytes)" where
  "take_date what m content =
     (case find_sub m content of
        None \<Rightarrow> Inr (None, content)
      | Some d \<Rightarrow>
          (case parse_date d of
             None \<Rightarrow> Inl (wrap_error what (date_range_error d))
           | Some c \<Rightarrow> Inr (Some (utc_midnight c), trim_space (remove_all m content))))"

definition take_field :: "matcher \<Rightarrow> bytes \<Rightarrow> bytes \<times> bytes" where
  "take_field m content =
     (case find_sub m content of
        None \<Rightarrow> ([], content)
      | Some g \<Rightarrow> (g, trim_space (remove_all m content)))"

definition parse_content :: "bool \<Rightarrow> bytes \<Rightarrow> go_error + task option" where
  "parse_content completed content0 =
     (case take_field id_re content0 of (tid, c1) \<Rightarrow>
      (case take_date ''parse due date: '' due_re c1 of Inl e \<Rightarrow> Inl e | Inr (due, c2) \<Rightarrow>
      (case take_date ''parse scheduled date: '' scheduled_re c2 of Inl e \<Rightarrow> Inl e | Inr (sched, c3) \<Rightarrow>
      (case take_date ''parse done date: '' done_re c3 of Inl e \<Rightarrow> Inl e | Inr (done, c4) \<Rightarrow>
      (case take_field recurrence_re c4 of (rec, c5) \<Rightarrow>
      (case take_field parent_re c5 of (parent, c6) \<Rightarrow>
       let prio = (case find_sub priority_re c6 of None \<Rightarrow> [] | Some g \<Rightarrow> trim_space g);
           tags = find_all tag_re c6
       in Inr (Some \<lparr>tk_id = tid, tk_text = trim_space c6,
            tk_project = (case tags of [] \<Rightarrow> [] | t # _ \<Rightarrow> t), tk_tags = tags,
            tk_due = due, tk_scheduled = sched, tk_recurrence = trim_space rec, tk_parent = parent,
            tk_priority = prio, tk_completed = completed, tk_completed_at = done,
            tk_file = [], tk_line = 0\<rparr>)))))))"

definition parse_task_line :: "bytes \<Rightarrow> go_error + task option" where
  "parse_task_line line =
     (let trimmed = trim_space line in
      case strip_task_prefix trimmed of
        None \<Rightarrow> Inr None
      | Some content \<Rightarrow> parse_content (has_prefix trimmed ''- [x]'') content)"

section \<open>Task files\<close>

text \<open>\<open>AppendTask\<close> on the file's content; the write happens under the file lock.\<close>

definition append_task :: "task \<Rightarrow> bytes \<Rightarrow> go_error + bytes" where
  "append_task t content =
     (case format_task_line t of Inl e \<Rightarrow> Inl e | Inr line \<Rightarrow> Inr (content @ line @ [newline]))"

definition line_changed_error :: "int \<Rightarrow> bytes \<Rightarrow> bytes \<Rightarrow> bytes \<Rightarrow> go_error" where
  "line_changed_error n what have_text want =
     new_error (''line '' @ itoa n @ what @ '' changed since read (have '' @ go_quote have_text
       @ '', want '' @ go_quote want @ ''); refusing to overwrite'')"

definition guard_line :: "int \<Rightarrow> task \<Rightarrow> bytes \<Rightarrow> go_error option" where
  "guard_line n t line =
     (case parse_task_line line of
        Inl e \<Rightarrow> Some (wrap_error (''verify line '' @ itoa n @ '': '') e)
      | Inr None \<Rightarrow> Some (new_error (''line '' @ itoa n @ '' is no longer a task line; refusing to overwrite''))
      | Inr (Some existing) \<Rightarrow>
          if tk_id t \<noteq> []
          then (if tk_id existing \<noteq> tk_id t then Some (line_changed_error n '' ID'' (tk_id existing) (tk_id t)) else None)
          else (if tk_text existing \<noteq> tk_text t then Some (line_changed_error n [] (tk_text existing) (tk_text t)) else None))"

definition update_task_line :: "int \<Rightarrow> task \<Rightarrow> bytes \<Rightarrow> go_error + bytes" where
  "update_task_line n t content =
     (if n < 1 then Inl (new_error (''invalid line number: '' @ itoa n))
      else
        (let lines = split_on newline content; i = nat (n - 1) in
         if length lines \<le> i
         then Inl (new_error (''line '' @ itoa n @ '' out of range (file has '' @ itoa (int (length lines)) @ '' lines)''))
         else (case guard_line n t (lines ! i) of
             Some e \<Rightarrow> Inl e
           | None \<Rightarrow> (case format_task_line t of
                 Inl e \<Rightarrow> Inl e
               | Inr line \<Rightarrow> Inr (join [newline] (lines[i := line]))))))"

text \<open>
  The lines \<open>bufio.Scanner\<close> delivers: without the newline and one carriage return before it,
  and without an empty line after the last newline. A line of 65536 bytes or more stops it.
\<close>

definition drop_cr :: "bytes \<Rightarrow> bytes" where
  "drop_cr l = trim_suffix l [CHR 0x0D]"

definition scan_lines :: "bytes \<Rightarrow> bytes list" where
  "scan_lines content =
     (let ls = split_on newline content in if last ls = [] then butlast ls else ls)"

fun read_lines :: "bytes \<Rightarrow> int \<Rightarrow> bytes list \<Rightarrow> go_error + task list" where
  "read_lines path n [] = Inr []"
| "read_lines path n (l # ls) =
     (if 65536 \<le> length l then Inl (new_error ''scan task file: bufio.Scanner: token too long'')
      else (case parse_task_line (drop_cr l) of
          Inl e \<Rightarrow> Inl (wrap_error (''parse line '' @ itoa (n + 1) @ '': '') e)
        | Inr r \<Rightarrow>
            (case read_lines path (n + 1) ls of
               Inl e \<Rightarrow> Inl e
             | Inr ts \<Rightarrow>
                 Inr (case r of None \<Rightarrow> ts | Some t \<Rightarrow> t\<lparr>tk_file := path, tk_line := n + 1\<rparr> # ts))))"

definition read_tasks :: "bytes \<Rightarrow> bytes \<Rightarrow> go_error + task list" where
  "read_tasks path content = read_lines path 0 (scan_lines content)"

end
