(* ===== verification/TaskMatch.thy ===== *)
theory TaskMatch
  imports TaskLine
begin

text \<open>
  How the matchers of task lines behave on the text the formatter writes: search and removal
  past text without a match, and one step lemma for each field of a line, which says that the
  parser takes the field out and leaves the rest of the line as it was.
\<close>

section \<open>Trimming text with solid ends\<close>

definition solid :: "char \<Rightarrow> bool" where
  "solid c \<longleftrightarrow> is_ascii c \<and> \<not> (9 \<le> (of_char c :: nat) \<and> of_char c \<le> (13 :: nat)) \<and> c \<noteq> CHR '' ''"

abbreviation space :: char where "space \<equiv> CHR '' ''"

lemma spaces_not_solid: "list_all (\<lambda>p. p \<noteq> [] \<and> \<not> solid (hd p) \<and> \<not> solid (last p)) unicode_spaces"
  by code_simp

lemma strip_seq_solid: "\<forall>p \<in> set ps. p \<noteq> [] \<longrightarrow> \<not> solid (hd p) \<Longrightarrow> s = [] \<or> solid (hd s) \<Longrightarrow> strip_seq ps s = None"
  by (induction ps) (cases s; auto simp: has_prefix_def neq_Nil_conv)+

lemma trim_left_solid: "\<forall>p \<in> set ps. p \<noteq> [] \<longrightarrow> \<not> solid (hd p) \<Longrightarrow> s = [] \<or> solid (hd s) \<Longrightarrow> trim_left_seqs ps s = s"
  by (subst trim_left_seqs.simps) (simp add: strip_seq_solid)

lemma trim_left_space:
  assumes "hd ps = [space]" "ps \<noteq> []"
  shows "trim_left_seqs ps (space # s) = trim_left_seqs ps s"
proof -
  have "strip_seq ps (space # s) = Some s" using assms by (cases ps) (auto simp: has_prefix_def)
  then show ?thesis by (subst trim_left_seqs.simps) simp
qed

definition trim_right :: "bytes \<Rightarrow> bytes" where
  "trim_right s = trim_right_seqs unicode_spaces s"

lemma unicode_spaces_head: "hd unicode_spaces = [space]" "unicode_spaces \<noteq> []"
  by (simp_all add: unicode_spaces_literal)

lemma trim_space_right: "s = [] \<or> solid (hd s) \<Longrightarrow> trim_space s = trim_right s"
  using spaces_not_solid by (simp add: trim_space_def trim_right_def trim_left_solid list_all_iff)

lemma trim_right_space: "trim_right (s @ [space]) = trim_right s"
proof -
  obtain us where u: "unicode_spaces = [space] # us"
    using unicode_spaces_head by (metis list.collapse)
  have "hd (map rev unicode_spaces) = [space]" "map rev unicode_spaces \<noteq> []"
    unfolding u by simp_all
  then show ?thesis by (simp add: trim_right_def trim_right_seqs_def trim_left_space)
qed

lemma trim_right_spaces: "trim_right (s @ replicate k space) = trim_right s"
proof (induction k)
  case (Suc k)
  have "s @ replicate (Suc k) space = (s @ replicate k space) @ [space]"
    by (simp add: replicate_append_same)
  then show ?case using Suc trim_right_space by metis
qed simp

lemma trim_right_solid: "s = [] \<or> solid (last s) \<Longrightarrow> trim_right s = s"
proof -
  assume "s = [] \<or> solid (last s)"
  moreover have "\<forall>p \<in> set (map rev unicode_spaces). p \<noteq> [] \<longrightarrow> \<not> solid (hd p)"
    using spaces_not_solid by (auto simp: list_all_iff hd_rev)
  ultimately show ?thesis
    by (simp add: trim_right_def trim_right_seqs_def trim_left_solid hd_rev del: set_map)
qed

lemma trim_space_solid: "s = [] \<or> solid (hd s) \<and> solid (last s) \<Longrightarrow> trim_space s = s"
  using trim_space_right [of s] trim_right_solid [of s] by auto

section \<open>Searching past text without a match\<close>

definition quiet :: "matcher \<Rightarrow> bytes \<Rightarrow> bytes \<Rightarrow> bool" where
  "quiet m pre post \<longleftrightarrow> (\<forall>k < length pre. m (drop k (pre @ post)) = None)"

lemma quiet_Nil [simp]: "quiet m [] post"
  by (simp add: quiet_def)

lemma quiet_Cons: "quiet m (c # pre) post \<longleftrightarrow> m (c # pre @ post) = None \<and> quiet m pre post"
  unfolding quiet_def
proof (intro iffI conjI allI impI)
  fix k
  assume *: "\<forall>k < length (c # pre). m (drop k ((c # pre) @ post)) = None"
  show "m (c # pre @ post) = None" using * [rule_format, of 0] by simp
  assume "k < length pre"
  then show "m (drop k (pre @ post)) = None" using * [rule_format, of "Suc k"] by simp
next
  fix k
  assume *: "m (c # pre @ post) = None \<and> (\<forall>k < length pre. m (drop k (pre @ post)) = None)"
    and "k < length (c # pre)"
  then show "m (drop k ((c # pre) @ post)) = None" by (cases k) auto
qed

lemma quiet_append: "quiet m (a @ b) post \<longleftrightarrow> quiet m a (b @ post) \<and> quiet m b post"
  by (induction a) (auto simp: quiet_Cons)

lemma find_sub_quiet: "quiet m pre post \<Longrightarrow> find_sub m (pre @ post) = find_sub m post"
  by (induction pre) (auto simp: quiet_Cons)

lemma remove_all_quiet: "quiet m pre post \<Longrightarrow> remove_all m (pre @ post) = pre @ remove_all m post"
  by (induction pre) (auto simp: quiet_Cons)

lemma find_all_quiet: "quiet m pre post \<Longrightarrow> find_all m (pre @ post) = find_all m post"
  by (induction pre) (auto simp: quiet_Cons)

lemma quiet_all:
  assumes "quiet m s []"
  shows "m [] = None \<Longrightarrow> find_sub m s = None" "remove_all m s = s" "find_all m s = []"
  using find_sub_quiet [OF assms] remove_all_quiet [OF assms] find_all_quiet [OF assms] by simp_all

lemma match_here:
  assumes "m (f @ post) = Some (g, length f)" "f \<noteq> []"
  shows "find_sub m (f @ post) = Some g" "remove_all m (f @ post) = remove_all m post"
    "find_all m (f @ post) = g # find_all m post"
  using assms by (cases f; simp)+

text \<open>A matcher whose matches all begin with one byte is quiet on text without that byte.\<close>

definition leads :: "matcher \<Rightarrow> char \<Rightarrow> bool" where
  "leads m c \<longleftrightarrow> m [] = None \<and> (\<forall>x xs. x \<noteq> c \<longrightarrow> m (x # xs) = None)"

lemma leads_quiet: "leads m c \<Longrightarrow> c \<notin> set pre \<Longrightarrow> quiet m pre post"
  by (induction pre) (auto simp: quiet_Cons leads_def)

lemma leads_tag: "leads tag_re (CHR ''#'')"
  by (simp add: leads_def tag_re_def)

lemma leads_id: "leads id_re (CHR ''^'')"
  by (simp add: leads_def id_re_def)

lemma leads_any_block: "leads any_block_re (CHR ''^'')"
  by (simp add: leads_def any_block_re_def)

lemma leads_parent: "leads parent_re (CHR ''['')"
  by (simp add: leads_def parent_re_def has_prefix_def)

lemma lower_char_bracket: "lower_char x = CHR ''['' \<longleftrightarrow> x = CHR ''[''"
proof (cases "is_upper x")
  case True
  then have x: "65 \<le> (of_char x :: nat)" "(of_char x :: nat) \<le> 90"
    by (simp_all add: between_def less_eq_char_def)
  have "lower_char x \<noteq> CHR ''[''"
  proof
    assume "lower_char x = CHR ''[''"
    then have "(of_char (lower_char x) :: nat) = 91" by simp
    with True x show False by (simp add: lower_char_def)
  qed
  moreover have "x \<noteq> CHR ''[''" using x by auto
  ultimately show ?thesis by simp
qed (simp add: lower_char_def)

lemma leads_priority: "leads priority_re (CHR ''['')"
  by (simp add: leads_def priority_re_def to_lower_def lower_char_bracket)

section \<open>Marks\<close>

text \<open>\<open>free mark s\<close>: the mark does not occur in \<open>s\<close>.\<close>

definition free :: "bytes \<Rightarrow> bytes \<Rightarrow> bool" where
  "free mark s \<longleftrightarrow> (\<forall>k < length s. \<not> has_prefix (drop k s) mark)"

definition high :: "bytes \<Rightarrow> bool" where
  "high mark \<longleftrightarrow> mark \<noteq> [] \<and> list_all (\<lambda>c. \<not> is_ascii c) mark"

lemma high_marks [simp]: "high calendar_mark" "high hourglass_mark" "high check_mark" "high repeat_mark"
  by code_simp+

lemma has_prefix_split:
  assumes "high mark" "has_prefix (a @ b) mark" "b = [] \<or> is_ascii (hd b)"
  shows "has_prefix a mark"
proof (cases "length mark \<le> length a")
  case True
  with assms(2) show ?thesis by (simp add: has_prefix_def)
next
  case False
  have m: "mark = take (length mark) (a @ b)" using assms(2) by (simp add: has_prefix_def)
  have "b \<noteq> []"
  proof
    assume "b = []"
    with m have "length mark \<le> length a" by (metis append_Nil2 length_take min.cobounded1)
    with False show False by simp
  qed
  then have "hd b \<in> set (take (length mark) (a @ b))" using False
    by (cases b) (auto simp: take_Cons' not_le)
  then have "hd b \<in> set mark" using m by metis
  then show ?thesis using assms(1,3) \<open>b \<noteq> []\<close> by (auto simp: high_def list_all_iff)
qed

lemma has_prefix_ascii: "high mark \<Longrightarrow> is_ascii c \<Longrightarrow> \<not> has_prefix (c # s) mark"
  by (cases mark) (auto simp: high_def has_prefix_def)

lemma free_Nil [simp]: "free mark []"
  by (simp add: free_def)

lemma free_Cons: "free mark (c # s) \<longleftrightarrow> \<not> has_prefix (c # s) mark \<and> free mark s"
  unfolding free_def
proof (intro iffI conjI allI impI)
  assume *: "\<forall>k < length (c # s). \<not> has_prefix (drop k (c # s)) mark"
  show "\<not> has_prefix (c # s) mark" using * [rule_format, of 0] by simp
  show "\<not> has_prefix (drop k s) mark" if "k < length s" for k using * [rule_format, of "Suc k"] that by simp
next
  fix k
  assume "\<not> has_prefix (c # s) mark \<and> (\<forall>k < length s. \<not> has_prefix (drop k s) mark)" "k < length (c # s)"
  then show "\<not> has_prefix (drop k (c # s)) mark" by (cases k) auto
qed

lemma free_ascii: "high mark \<Longrightarrow> list_all is_ascii s \<Longrightarrow> free mark s"
  by (induction s) (auto simp: free_Cons has_prefix_ascii)

lemma free_append_ascii: "high mark \<Longrightarrow> list_all is_ascii a \<Longrightarrow> free mark b \<Longrightarrow> free mark (a @ b)"
  by (induction a) (auto simp: free_Cons has_prefix_ascii)

lemma free_append: "high mark \<Longrightarrow> free mark a \<Longrightarrow> free mark b \<Longrightarrow> b = [] \<or> is_ascii (hd b) \<Longrightarrow> free mark (a @ b)"
proof (induction a)
  case (Cons c a)
  then show ?case using has_prefix_split [of mark "c # a" b] by (auto simp: free_Cons)
qed simp

lemma free_quiet: "high mark \<Longrightarrow> free mark pre \<Longrightarrow> post = [] \<or> is_ascii (hd post) \<Longrightarrow> quiet (date_field mark k) pre post"
proof (induction pre)
  case (Cons c pre)
  then show ?case using has_prefix_split [of mark "c # pre" post] by (auto simp: quiet_Cons free_Cons date_field_def)
qed simp

lemma free_marks [simp]:
  "free calendar_mark hourglass_mark" "free calendar_mark check_mark" "free calendar_mark repeat_mark"
  "free hourglass_mark calendar_mark" "free hourglass_mark check_mark" "free hourglass_mark repeat_mark"
  "free check_mark calendar_mark" "free check_mark hourglass_mark" "free check_mark repeat_mark"
  by (simp_all add: mark_literals free_Cons has_prefix_def)

section \<open>Date fields\<close>

definition iso_date :: "civil \<Rightarrow> bool" where
  "iso_date c \<longleftrightarrow> valid_civil c \<and> 0 \<le> fst c \<and> fst c \<le> 9999"

lemma iso_date_facts:
  assumes "iso_date c"
  shows "parse_date (format_date c) = Some c" "date_shape (format_date c)" "length (format_date c) = 10"
  using assms by (cases c; simp add: iso_date_def)+

lemma digit_solid: "is_digit c \<Longrightarrow> solid c"
  by (auto simp: between_def less_eq_char_def solid_def is_ascii_def)

lemma format_date_chars: "iso_date c \<Longrightarrow> x \<in> set (format_date c) \<Longrightarrow> is_digit x \<or> x = CHR ''-''"
proof (cases c)
  case (fields y m d)
  assume "iso_date c" "x \<in> set (format_date c)"
  moreover have "nat y \<le> 9999 \<Longrightarrow> nat y div 1000 < 10" by simp
  ultimately show ?thesis
    using fields by (auto simp: iso_date_def format_date_def four_digits_def two_digits_def)
qed

lemma dash_solid: "solid (CHR ''-'')"
  by (simp add: solid_def is_ascii_def)

lemma solid_ascii: "solid c \<Longrightarrow> is_ascii c"
  by (simp add: solid_def)

lemma format_date_solid: "iso_date c \<Longrightarrow> list_all solid (format_date c)"
  using format_date_chars [of c] digit_solid dash_solid unfolding list_all_iff by metis

lemma space_ascii: "is_ascii space"
  by (simp add: is_ascii_def)

text \<open>A field as the formatter writes it, and as the parser finds it.\<close>

definition date_text :: "bytes \<Rightarrow> civil \<Rightarrow> bytes" where
  "date_text mark c = mark @ [space] @ format_date c"

lemma date_field_here:
  assumes "iso_date c" and "k \<le> 1"
  shows "date_field mark k (date_text mark c @ post) = Some (format_date c, length (date_text mark c))"
proof -
  have "solid (hd (format_date c @ post))" "format_date c \<noteq> []"
    using format_date_solid [OF assms(1)] iso_date_facts(3) [OF assms(1)]
    by (cases "format_date c"; simp)+
  then have "takeWhile re_space (format_date c @ post) = []"
    by (cases "format_date c") (auto simp: solid_def re_space_def)
  then show ?thesis
    using assms(2) iso_date_facts [OF assms(1)]
    by (simp add: date_field_def date_text_def has_prefix_def space_run_def Let_def re_space_def)
qed

definition opt_field :: "bytes \<Rightarrow> civil option \<Rightarrow> bytes" where
  "opt_field mark d = (case d of None \<Rightarrow> [] | Some c \<Rightarrow> space # date_text mark c)"

definition opt_gap :: "civil option \<Rightarrow> bytes" where
  "opt_gap d = (case d of None \<Rightarrow> [] | Some _ \<Rightarrow> [space])"

text \<open>
  One step of the parser: the field of mark \<open>mark\<close> between \<open>a\<close> and \<open>post\<close>, which are free of
  that mark, is taken out and leaves its space.
\<close>

lemma solid_append: "b \<noteq> [] \<Longrightarrow> solid (last (a @ b)) = solid (last b)"
  by simp

lemma trim_space_padded:
  "s \<noteq> [] \<Longrightarrow> solid (hd s) \<Longrightarrow> solid (last s) \<Longrightarrow> trim_space (s @ replicate n space) = s"
  using trim_space_right [of "s @ replicate n space"] trim_right_spaces trim_right_solid by simp

lemma take_date_step:
  assumes m: "m = date_field mark k" "k \<le> 1" "high mark"
    and a: "a = a0 @ replicate j space" "a0 \<noteq> []" "solid (hd a0)" "solid (last a0)" "free mark a0"
    and post: "post = q @ replicate n space" "q = [] \<or> solid (last q) \<and> hd q = space" "free mark q"
    and d: "\<forall>c. d = Some c \<longrightarrow> iso_date c"
  shows "take_date what m (trim_space (a @ opt_field mark d @ post))
     = Inr (map_option utc_midnight d, trim_space (a @ opt_gap d @ post))"
proof (cases d)
  case None
  have "trim_space (a @ post) = (if q = [] then a0 else a @ q)"
  proof (cases "q = []")
    case True
    then have "a @ post = a0 @ replicate (j + n) space" by (simp add: a(1) post(1) replicate_add)
    with True show ?thesis using trim_space_padded [OF a(2-4)] by simp
  next
    case False
    then show ?thesis
      using trim_space_padded [of "a @ q" n] a post by simp
  qed
  moreover have "free mark a"
    unfolding a(1) using free_append [OF m(3) a(5)] free_ascii [OF m(3), of "replicate j space"] space_ascii a(5)
    by (cases j) (auto simp: list_all_iff)
  ultimately have "free mark (trim_space (a @ post))"
    using free_append [OF m(3) _ post(3), of a] post(2) a(5) space_ascii by auto
  then have "quiet m (trim_space (a @ post)) []"
    unfolding m(1) by (intro free_quiet [OF m(3)]) auto
  moreover have "m [] = None" using m(1,3) by (auto simp: date_field_def high_def has_prefix_def)
  ultimately show ?thesis
    using quiet_all(1) by (simp add: None opt_field_def opt_gap_def take_date_def)
next
  case (Some c)
  then have c: "iso_date c" using d by simp
  let ?f = "date_text mark c"
  have nf: "format_date c \<noteq> []" using iso_date_facts(3) [OF c] by auto
  then have f: "?f \<noteq> []" "solid (last ?f)"
    using format_date_solid [OF c] by (auto simp: date_text_def list_all_iff)
  have fa: "free mark a"
    unfolding a(1) using free_append [OF m(3) a(5)] free_ascii [OF m(3), of "replicate j space"] space_ascii a(5)
    by (cases j) (auto simp: list_all_iff)
  have "trim_space ((a @ [space] @ ?f @ q) @ replicate n space) = a @ [space] @ ?f @ q"
    by (rule trim_space_padded) (use a f post(2) in \<open>auto simp: last_append\<close>)
  then have t: "trim_space (a @ opt_field mark d @ post) = (a @ [space]) @ ?f @ q"
    by (simp add: Some opt_field_def post(1))
  have q: "quiet m (a @ [space]) (?f @ q)"
    using free_quiet [OF m(3) fa, of "[space] @ ?f @ q" k] space_ascii has_prefix_ascii [OF m(3) space_ascii]
    by (simp add: quiet_append m(1) quiet_Cons date_field_def)
  have here: "m (?f @ q) = Some (format_date c, length ?f)"
    unfolding m(1) by (rule date_field_here [OF c m(2)])
  have "quiet m q []" unfolding m(1) by (intro free_quiet [OF m(3) post(3)]) simp
  then have rq: "remove_all m q = q" using quiet_all(2) m(1,3) by (simp add: date_field_def high_def has_prefix_def)
  have fs: "find_sub m ((a @ [space]) @ ?f @ q) = Some (format_date c)"
    unfolding find_sub_quiet [OF q] by (rule match_here(1) [of m ?f q, OF here f(1)])
  have ra: "remove_all m ((a @ [space]) @ ?f @ q) = a @ [space] @ q"
    unfolding remove_all_quiet [OF q] match_here(2) [of m ?f q, OF here f(1)] rq by simp
  have "trim_space (a @ [space] @ q) = trim_space (a @ [space] @ q @ replicate n space)"
    using a trim_right_spaces [of "a @ [space] @ q" n] by (subst (1 2) trim_space_right) auto
  then show ?thesis
    unfolding t by (simp add: take_date_def fs ra iso_date_facts(1) [OF c] Some opt_gap_def post(1) del: append_assoc)
qed

section \<open>Recurrence, parent and id fields\<close>

definition clean_text :: "bytes \<Rightarrow> bool" where
  "clean_text s \<longleftrightarrow> s \<noteq> [] \<and> solid (hd s) \<and> solid (last s)
     \<and> list_all (\<lambda>c. is_ascii c \<and> c \<noteq> CHR ''#'' \<and> c \<noteq> CHR ''^'' \<and> c \<noteq> CHR ''['' \<and> c \<noteq> newline) s"

definition valid_qi_id :: "bytes \<Rightarrow> bool" where
  "valid_qi_id i \<longleftrightarrow> length i = 11 \<and> qi_id_head i = Some i"

text \<open>The part of a line that stays in the text: no brackets, no carets, solid ends.\<close>

definition base_text :: "bytes \<Rightarrow> bool" where
  "base_text s \<longleftrightarrow> s \<noteq> [] \<and> solid (hd s) \<and> solid (last s)
     \<and> list_all (\<lambda>c. is_ascii c \<and> c \<noteq> CHR ''^'' \<and> c \<noteq> CHR ''['') s"

lemma hex_solid: "hex_char c \<Longrightarrow> solid c \<and> c \<noteq> CHR ''^'' \<and> c \<noteq> CHR ''[''"
  by (auto simp: hex_char_def between_def less_eq_char_def solid_def is_ascii_def)

lemma valid_qi_id_chars:
  assumes "valid_qi_id i"
  shows "list_all (\<lambda>c. solid c \<and> c \<noteq> CHR ''^'' \<and> c \<noteq> CHR ''['') i" "i \<noteq> []"
proof -
  have p: "take 3 i = ''qi-''" and h: "list_all hex_char (take 8 (drop 3 i))" "length i = 11"
    using assms by (auto simp: valid_qi_id_def qi_id_head_def has_prefix_def numeral_3_eq_3 split: if_splits)
  have "take 3 i @ drop 3 i = i" by (rule append_take_drop_id)
  then have i: "i = ''qi-'' @ drop 3 i" unfolding p by (rule sym)
  note i = i h
  then have "list_all hex_char (drop 3 i)" by simp
  then have "list_all (\<lambda>c. solid c \<and> c \<noteq> CHR ''^'' \<and> c \<noteq> CHR ''['') (''qi-'' @ drop 3 i)"
    using hex_solid by (auto simp: list_all_iff solid_def is_ascii_def)
  then show "list_all (\<lambda>c. solid c \<and> c \<noteq> CHR ''^'' \<and> c \<noteq> CHR ''['') i" unfolding i(1) [symmetric] .
  show "i \<noteq> []" using i(3) by auto
qed

lemma qi_id_head_append: "valid_qi_id i \<Longrightarrow> qi_id_head (i @ x) = Some i"
  by (auto simp: valid_qi_id_def qi_id_head_def has_prefix_def split: if_splits)

lemma id_re_here: "valid_qi_id i \<Longrightarrow> id_re (CHR ''^'' # i) = Some (i, 12)"
  using qi_id_head_append [of i "[]"] by (simp add: id_re_def valid_qi_id_def)

lemma take_id_step:
  assumes "CHR ''^'' \<notin> set x" "x \<noteq> []" "solid (hd x)" "solid (last x)" "i = [] \<or> valid_qi_id i"
  shows "take_field id_re (x @ (if i = [] then [] else [space, CHR ''^''] @ i)) = (i, x)"
proof (cases "i = []")
  case True
  then show ?thesis
    using quiet_all(1) [OF leads_quiet [OF leads_id assms(1)]] by (simp add: take_field_def id_re_def)
next
  case False
  then have v: "valid_qi_id i" using assms(5) by simp
  have q: "quiet id_re (x @ [space]) (CHR ''^'' # i)"
    by (rule leads_quiet [OF leads_id]) (use assms(1) in auto)
  have here: "id_re ((CHR ''^'' # i) @ []) = Some (i, length (CHR ''^'' # i))"
    using id_re_here [OF v] v by (simp add: valid_qi_id_def)
  have "find_sub id_re ((x @ [space]) @ CHR ''^'' # i) = Some i"
    unfolding find_sub_quiet [OF q] using match_here(1) [of id_re "CHR ''^'' # i" "[]", OF here] by simp
  moreover have "remove_all id_re ((x @ [space]) @ CHR ''^'' # i) = x @ [space]"
    unfolding remove_all_quiet [OF q] using match_here(2) [of id_re "CHR ''^'' # i" "[]", OF here] by simp
  moreover have "trim_space (x @ replicate 1 space) = x" by (rule trim_space_padded [OF assms(2-4)])
  ultimately show ?thesis using False by (simp add: take_field_def)
qed

definition parent_text :: "bytes \<Rightarrow> bytes" where
  "parent_text i = ''[parent:: '' @ i @ '']''"

lemma solid_not_re_space: "solid c \<Longrightarrow> \<not> re_space c"
  by (auto simp: solid_def re_space_def)

lemma takeWhile_solid: "r \<noteq> [] \<Longrightarrow> solid (hd r) \<Longrightarrow> takeWhile re_space (r @ x) = []"
  by (cases r) (simp_all add: solid_not_re_space)

lemma base_ascii: "base_text b \<Longrightarrow> list_all is_ascii b"
  by (simp add: base_text_def list_all_iff)

lemma spaces_ascii: "list_all is_ascii (replicate n space)"
  using space_ascii by (induction n) simp_all

lemma parent_re_here:
  assumes "valid_qi_id i"
  shows "parent_re (parent_text i @ x) = Some (i, length (parent_text i))"
proof -
  have "takeWhile re_space (i @ '']'' @ x) = []"
    using valid_qi_id_chars [OF assms] by (intro takeWhile_solid) (cases i; simp)+
  then show ?thesis
    using qi_id_head_append [OF assms, of "'']'' @ x"] assms
    by (simp add: parent_re_def parent_text_def has_prefix_def space_run_def Let_def re_space_def valid_qi_id_def)
qed

lemma base_no_bracket: "base_text b \<Longrightarrow> CHR ''['' \<notin> set b"
  by (auto simp: base_text_def list_all_iff)

lemma take_parent_step:
  assumes b: "base_text b" and i: "i = [] \<or> valid_qi_id i"
  shows "take_field parent_re (if i = [] then b else b @ replicate n space @ parent_text i) = (i, b)"
proof (cases "i = []")
  case True
  have "find_sub parent_re b = None"
    using quiet_all(1) [OF leads_quiet [OF leads_parent base_no_bracket [OF b]]]
    by (simp add: parent_re_def has_prefix_def)
  with True show ?thesis by (simp add: take_field_def)
next
  case False
  then have v: "valid_qi_id i" using i by simp
  have q: "quiet parent_re (b @ replicate n space) (parent_text i)"
    by (rule leads_quiet [OF leads_parent]) (use base_no_bracket [OF b] in auto)
  have here: "parent_re (parent_text i @ []) = Some (i, length (parent_text i))" by (rule parent_re_here [OF v])
  have ne: "parent_text i \<noteq> []" by (simp add: parent_text_def)
  have "find_sub parent_re ((b @ replicate n space) @ parent_text i) = Some i"
    unfolding find_sub_quiet [OF q] using match_here(1) [of parent_re "parent_text i" "[]", OF here ne] by simp
  moreover have "remove_all parent_re ((b @ replicate n space) @ parent_text i) = b @ replicate n space"
    unfolding remove_all_quiet [OF q] using match_here(2) [of parent_re "parent_text i" "[]", OF here ne] by simp
  moreover have "trim_space (b @ replicate n space) = b"
    using b by (intro trim_space_padded) (auto simp: base_text_def)
  ultimately show ?thesis using False by (simp add: take_field_def)
qed

lemma recurrence_run_clean:
  "list_all (\<lambda>c. is_ascii c \<and> c \<noteq> CHR ''#'' \<and> c \<noteq> CHR ''^'' \<and> c \<noteq> CHR ''['' \<and> c \<noteq> newline) s \<Longrightarrow>
   recurrence_run (s @ x) = s @ recurrence_run x"
  by (induction s) (auto simp: recurrence_stop_def has_prefix_ascii)

definition recurrence_text :: "bytes \<Rightarrow> bytes" where
  "recurrence_text r = repeat_mark @ [space] @ r"

lemma repeat_mark_head: "repeat_mark \<noteq> []" "hd repeat_mark = CHR 0xF0" "CHR 0xF0 \<notin> set (tl repeat_mark)"
  by (simp_all add: mark_literals)

lemma leads_recurrence: "leads recurrence_re (CHR 0xF0)"
  by (simp add: leads_def recurrence_re_def has_prefix_def mark_literals)

lemma ascii_no_lead: "list_all is_ascii s \<Longrightarrow> CHR 0xF0 \<notin> set s"
  by (auto simp: list_all_iff is_ascii_def)

lemma recurrence_re_here:
  assumes r: "clean_text r" and x: "x = [] \<or> x = replicate n space @ CHR ''['' # y"
  shows "recurrence_re (recurrence_text r @ x)
    = Some (r @ (if x = [] then [] else replicate n space), length (recurrence_text r) + (if x = [] then 0 else n))"
proof -
  have "takeWhile re_space (r @ x) = []"
    using r by (intro takeWhile_solid) (simp_all add: clean_text_def)
  then have n1: "space_run (space # r @ x) = 1" by (simp add: space_run_def re_space_def)
  have "recurrence_run (r @ x) = r @ recurrence_run x"
    using r by (intro recurrence_run_clean) (simp add: clean_text_def)
  moreover have "recurrence_run x = (if x = [] then [] else replicate n space)"
  proof (cases "x = []")
    case False
    then have "recurrence_run x = replicate n space @ recurrence_run (CHR ''['' # y)"
      using x space_ascii recurrence_run_clean [of "replicate n space"] by (auto simp: list_all_iff)
    with False show ?thesis by (simp add: recurrence_stop_def)
  qed simp
  ultimately show ?thesis
    using r x unfolding recurrence_re_def recurrence_text_def
    by (auto simp: has_prefix_def Let_def n1 try_spaces.simps [of "Suc 0"] clean_text_def)
qed

lemma take_recurrence_step:
  assumes b: "base_text b" and r: "r = [] \<or> clean_text r" and p: "p = [] \<or> (\<exists>y. p = CHR ''['' # y) \<and> solid (last p)"
    and pa: "list_all is_ascii p"
  shows "\<exists>k. (case take_field recurrence_re (b @ (if r = [] then [] else space # recurrence_text r)
            @ (if p = [] then [] else replicate n space @ p)) of (g, c) \<Rightarrow>
      trim_space g = r \<and> c = b @ (if p = [] then [] else replicate k space @ p))"
proof (cases "r = []")
  case True
  have "list_all is_ascii (b @ (if p = [] then [] else replicate n space @ p))"
    using base_ascii [OF b] pa spaces_ascii [of n] by simp
  from quiet_all(1) [OF leads_quiet [OF leads_recurrence ascii_no_lead [OF this]]]
  have "find_sub recurrence_re (b @ (if p = [] then [] else replicate n space @ p)) = None"
    by (simp add: recurrence_re_def has_prefix_def mark_literals)
  with True show ?thesis by (intro exI [of _ n]) (simp add: take_field_def trim_space_solid)
next
  case False
  then have r': "clean_text r" using r by simp
  let ?x = "if p = [] then [] else replicate n space @ p"
  let ?g = "r @ (if ?x = [] then [] else replicate n space)"
  have x: "?x = [] \<or> ?x = replicate n space @ CHR ''['' # tl p" using p by auto
  have q: "quiet recurrence_re (b @ [space]) z" for z
    by (rule leads_quiet [OF leads_recurrence]) (use b ascii_no_lead [of b] in \<open>auto simp: base_text_def list_all_iff\<close>)
  let ?f = "recurrence_text r @ (if ?x = [] then [] else replicate n space)"
  have f: "recurrence_text r @ ?x = ?f @ p" by simp
  have ne: "?f \<noteq> []" by (simp add: recurrence_text_def)
  have here: "recurrence_re (?f @ p) = Some (?g, length ?f)"
    using recurrence_re_here [OF r' x] unfolding f by auto
  have "quiet recurrence_re p []" by (rule leads_quiet [OF leads_recurrence ascii_no_lead [OF pa]])
  then have rp: "remove_all recurrence_re p = p"
    by (intro quiet_all(2)) (simp add: recurrence_re_def has_prefix_def mark_literals)
  have fs: "find_sub recurrence_re ((b @ [space]) @ ?f @ p) = Some ?g"
    unfolding find_sub_quiet [OF q] by (rule match_here(1) [of recurrence_re ?f p, OF here ne])
  have ra: "remove_all recurrence_re ((b @ [space]) @ ?f @ p) = (b @ [space]) @ p"
    unfolding remove_all_quiet [OF q] match_here(2) [of recurrence_re ?f p, OF here ne] rp ..
  have tg: "trim_space ?g = r"
    using r' trim_space_padded [of r n] trim_space_solid [of r] by (auto simp: clean_text_def)
  have tc: "trim_space ((b @ [space]) @ p) = b @ (if p = [] then [] else replicate 1 space @ p)"
    using b p trim_space_padded [of b 1] trim_space_solid [of "b @ space # p"] by (auto simp: base_text_def)
  have e: "b @ (if r = [] then [] else space # recurrence_text r) @ ?x = (b @ [space]) @ ?f @ p"
    using False f by simp
  show ?thesis
    unfolding e by (intro exI [of _ 1]) (simp only: take_field_def fs ra option.case prod.case tg tc)
qed

end
