(* ===== verification/TaskFile.thy ===== *)
theory TaskFile
  imports TaskMatch
begin

text \<open>
  What formatting and parsing a task line guarantee together, and what the operations on
  task files guarantee: the round trip of a task through its line, the guarded update of one
  line, and the append.
\<close>

section \<open>Tags\<close>

definition tag_suffix :: "bytes list \<Rightarrow> bytes" where
  "tag_suffix ts = concat (map (\<lambda>g. [space, CHR ''#''] @ g) ts)"

lemma tag_char_solid: "tag_char c \<Longrightarrow> solid c \<and> c \<noteq> CHR ''^'' \<and> c \<noteq> CHR ''['' \<and> c \<noteq> CHR ''#''"
  by (auto simp: tag_char_def between_def less_eq_char_def solid_def is_ascii_def)

lemma is_tag_facts:
  assumes "is_tag g"
  shows "g \<noteq> []" "list_all solid g" "list_all tag_char g" "trim_space g = g" "list_ex (\<lambda>c. \<not> is_digit c) g"
proof -
  show a: "g \<noteq> []" "list_all tag_char g" "list_ex (\<lambda>c. \<not> is_digit c) g" using assms by (auto simp: is_tag_def)
  then show b: "list_all solid g" using tag_char_solid by (simp add: list_all_iff)
  show "trim_space g = g" using a(1) b by (intro trim_space_solid) (simp add: list_all_iff)
qed

lemma tag_re_here:
  assumes "is_tag g" and "x = [] \<or> hd x = space"
  shows "tag_re ((CHR ''#'' # g) @ x) = Some (g, length (CHR ''#'' # g))"
proof -
  have "\<not> tag_char space" by (simp add: tag_char_def between_def)
  then have "takeWhile tag_char x = []" using assms(2) by (cases x) auto
  moreover have "\<forall>c \<in> set g. tag_char c" using is_tag_facts(3) [OF assms(1)] by (simp add: list_all_iff)
  ultimately have "takeWhile tag_char (g @ x) = g" by (simp add: takeWhile_append2)
  then show ?thesis using is_tag_facts(5) [OF assms(1)] by (simp add: tag_re_def)
qed

lemma find_all_tag_suffix: "\<forall>g \<in> set ts. is_tag g \<Longrightarrow> find_all tag_re (tag_suffix ts) = ts"
proof (induction ts)
  case Nil
  show ?case by (simp add: tag_suffix_def)
next
  case (Cons g ts)
  let ?x = "tag_suffix ts"
  have x: "?x = [] \<or> hd ?x = space" by (cases ts) (simp_all add: tag_suffix_def)
  have q: "quiet tag_re [space] z" for z by (rule leads_quiet [OF leads_tag]) simp
  have "tag_suffix (g # ts) = [space] @ (CHR ''#'' # g) @ ?x" by (simp add: tag_suffix_def)
  then have "find_all tag_re (tag_suffix (g # ts)) = find_all tag_re ((CHR ''#'' # g) @ ?x)"
    by (simp only: find_all_quiet [OF q])
  also have "\<dots> = g # find_all tag_re ?x"
    using Cons.prems by (intro match_here(3) [of tag_re "CHR ''#'' # g" ?x] tag_re_here x) auto
  finally show ?case using Cons by simp
qed

lemma tag_parts_new:
  "distinct ts \<Longrightarrow> set ts \<inter> set inl = {} \<Longrightarrow> \<forall>g \<in> set ts. is_tag g \<Longrightarrow>
   \<exists>inl'. tag_parts p inl ts = (map (Cons (CHR ''#'')) ts, p \<in> set ts, inl') \<and> set inl' = set ts \<union> set inl"
proof (induction ts arbitrary: inl)
  case (Cons g ts)
  have "distinct ts" "set ts \<inter> set (g # inl) = {}" "\<forall>g \<in> set ts. is_tag g" using Cons.prems by auto
  from Cons.IH [OF this] obtain inl' where
    i: "tag_parts p (g # inl) ts = (map (Cons (CHR ''#'')) ts, p \<in> set ts, inl')"
    "set inl' = set ts \<union> set (g # inl)" by (elim exE conjE)
  have "g \<notin> set inl" "trim_space g = g" "g \<noteq> []" using Cons.prems is_tag_facts(1,4) [of g] by auto
  with i show ?case by auto
qed simp

lemma tag_parts_old:
  "set ts \<subseteq> set inl \<Longrightarrow> \<forall>g \<in> set ts. is_tag g \<Longrightarrow> tag_parts p inl ts = ([], p \<in> set ts, inl)"
proof (induction ts)
  case (Cons g ts)
  then show ?case using is_tag_facts(1,4) [of g] by auto
qed simp

lemma join_space: "join [space] (x # xs) = x @ concat (map (Cons space) xs)"
  by (induction xs arbitrary: x) auto

lemma tag_suffix_parts: "concat (map (Cons space) (map (Cons (CHR ''#'')) ts)) = tag_suffix ts"
  by (simp add: tag_suffix_def comp_def)

lemma base_text_tagged:
  assumes "clean_text x" and "\<forall>g \<in> set ts. is_tag g"
  shows "base_text (x @ tag_suffix ts)" and "find_all tag_re (x @ tag_suffix ts) = ts"
proof -
  have "CHR ''#'' \<notin> set x" using assms(1) by (auto simp: clean_text_def list_all_iff)
  then show "find_all tag_re (x @ tag_suffix ts) = ts"
    using find_all_quiet [OF leads_quiet [OF leads_tag]] find_all_tag_suffix [OF assms(2)] by simp
  have "solid (last (x @ tag_suffix ts))"
  proof (cases ts rule: rev_cases)
    case Nil
    then show ?thesis using assms(1) by (simp add: tag_suffix_def clean_text_def)
  next
    case (snoc ts' g)
    then have "g \<noteq> []" "list_all solid g" using assms(2) is_tag_facts by auto
    then show ?thesis by (simp add: snoc tag_suffix_def list_all_iff)
  qed
  moreover have "list_all (\<lambda>c. is_ascii c \<and> c \<noteq> CHR ''^'' \<and> c \<noteq> CHR ''['') (tag_suffix ts)"
  proof -
    have "is_ascii c \<and> c \<noteq> CHR ''^'' \<and> c \<noteq> CHR ''[''" if "g \<in> set ts" "c \<in> set g" for g c
      using is_tag_facts(3) [of g] assms(2) that tag_char_solid [of c] solid_ascii by (auto simp: list_all_iff)
    moreover have "is_ascii (CHR ''#'')" by (simp add: is_ascii_def)
    ultimately show ?thesis using space_ascii by (auto simp: list_all_iff tag_suffix_def)
  qed
  ultimately show "base_text (x @ tag_suffix ts)"
    using assms(1) by (auto simp: base_text_def clean_text_def list_all_iff)
qed

section \<open>The round trip\<close>

definition whole_days :: "gotime option \<Rightarrow> bool" where
  "whole_days d \<longleftrightarrow> (\<exists>c. d = map_option utc_midnight c \<and> (\<forall>x. c = Some x \<longrightarrow> iso_date x))"

text \<open>
  A task whose line can be read back: its text is one line of ASCII without markdown marks
  and without surrounding white space; its tags are tags, without repetition, the first of
  them its project; its dates are days of the years 0 to 9999; its recurrence, parent and id
  are absent or well-formed.
\<close>

definition clean_task :: "task \<Rightarrow> bool" where
  "clean_task t \<longleftrightarrow> clean_text (tk_text t) \<and> (tk_recurrence t = [] \<or> clean_text (tk_recurrence t))
     \<and> (tk_parent t = [] \<or> valid_qi_id (tk_parent t)) \<and> (tk_id t = [] \<or> valid_qi_id (tk_id t))
     \<and> distinct (tk_tags t) \<and> (\<forall>g \<in> set (tk_tags t). is_tag g)
     \<and> tk_project t = (case tk_tags t of [] \<Rightarrow> [] | g # _ \<Rightarrow> g)
     \<and> whole_days (tk_due t) \<and> whole_days (tk_scheduled t) \<and> whole_days (tk_completed_at t)"

definition tagged_text :: "task \<Rightarrow> bytes" where
  "tagged_text t = tk_text t @ tag_suffix (tk_tags t)"

definition as_read :: "task \<Rightarrow> task" where
  "as_read t = t\<lparr>tk_text := tagged_text t, tk_priority := [], tk_file := [], tk_line := 0\<rparr>"

definition check_box :: "bool \<Rightarrow> bytes" where
  "check_box done = ''- ['' @ (if done then ''x'' else '' '') @ ''] ''"

definition line_body :: "bytes \<Rightarrow> bytes \<Rightarrow> civil option \<Rightarrow> civil option \<Rightarrow> civil option \<Rightarrow> bytes \<Rightarrow> bytes" where
  "line_body b r s d c p = b @ (if r = [] then [] else space # recurrence_text r)
     @ opt_field hourglass_mark s @ opt_field calendar_mark d @ opt_field check_mark c
     @ (if p = [] then [] else space # parent_text p)"

lemma date_part_text:
  "\<forall>x. c = Some x \<longrightarrow> iso_date x \<Longrightarrow>
   concat (map (Cons space) (date_part mark (map_option utc_midnight c))) = opt_field mark c"
  by (cases c) (simp_all add: date_part_def opt_field_def date_text_def iso_date_def)

lemma format_clean_parts:
  assumes "clean_task t" and "x = tk_text t \<or> x = tagged_text t"
    and "tk_due t = map_option utc_midnight d" "tk_scheduled t = map_option utc_midnight s"
      "tk_completed_at t = map_option utc_midnight c"
    and "\<forall>y. d = Some y \<longrightarrow> iso_date y" "\<forall>y. s = Some y \<longrightarrow> iso_date y" "\<forall>y. c = Some y \<longrightarrow> iso_date y"
  shows "join [space] (format_parts (t\<lparr>tk_text := x\<rparr>)) = check_box (tk_completed t)
     @ line_body (tagged_text t) (tk_recurrence t) s d c (tk_parent t)"
proof -
  have ct: "clean_text (tk_text t)" and tg: "distinct (tk_tags t)" "\<forall>g \<in> set (tk_tags t). is_tag g"
    and pr: "tk_project t = (case tk_tags t of [] \<Rightarrow> [] | g # _ \<Rightarrow> g)"
    and rc: "tk_recurrence t = [] \<or> clean_text (tk_recurrence t)"
    using assms(1) by (auto simp: clean_task_def)
  note b = base_text_tagged [OF ct tg(2), folded tagged_text_def]
  have rec: "trim_space (tk_recurrence t) = tk_recurrence t"
    using rc by (intro trim_space_solid) (auto simp: clean_text_def)
  have proj: "tk_project t \<noteq> [] \<Longrightarrow> tk_project t \<in> set (tk_tags t)"
    using pr by (auto split: list.splits)
  note tail = date_part_text [OF assms(6)] date_part_text [OF assms(7)] date_part_text [OF assms(8)]
  have "find_all tag_re (tk_text t) = []"
    using quiet_all(3) [OF leads_quiet [OF leads_tag]] ct by (auto simp: clean_text_def list_all_iff)
  moreover have "trim_space (tk_text t) = tk_text t" "trim_space (tagged_text t) = tagged_text t"
    using ct b(1) by (auto intro!: trim_space_solid simp: clean_text_def base_text_def)
  moreover obtain inl where "tag_parts (tk_project t) [] (tk_tags t)
      = (map (Cons (CHR ''#'')) (tk_tags t), tk_project t \<in> set (tk_tags t), inl)"
    using tag_parts_new [OF tg(1) _ tg(2), of "[]"] by auto
  moreover have "tag_parts (tk_project t) (tk_tags t) (tk_tags t) = ([], tk_project t \<in> set (tk_tags t), tk_tags t)"
    by (rule tag_parts_old [OF subset_refl tg(2)])
  ultimately have parts: "format_parts (t\<lparr>tk_text := x\<rparr>) = [check_box (tk_completed t) @ x]
      @ (if x = tk_text t then map (Cons (CHR ''#'')) (tk_tags t) else [])
      @ (if tk_recurrence t \<noteq> [] then [recurrence_text (tk_recurrence t)] else [])
      @ date_part hourglass_mark (tk_scheduled t) @ date_part calendar_mark (tk_due t)
      @ date_part check_mark (tk_completed_at t)
      @ (if tk_parent t \<noteq> [] then [parent_text (tk_parent t)] else [])"
    using assms(2) proj b(2)
    by (cases "x = tk_text t")
      (auto simp: format_parts_def Let_def rec check_box_def recurrence_text_def parent_text_def)
  have whole: "x @ concat (map (Cons space) (if x = tk_text t then map (Cons (CHR ''#'')) (tk_tags t) else []))
      = tagged_text t"
    using assms(2) by (cases "x = tk_text t") (simp_all add: tagged_text_def tag_suffix_parts [symmetric])
  have one: "concat (map (Cons space) (if b then [w] else [])) = (if b then space # w else [])" for b w by simp
  have no: "(if a \<noteq> [] then u else v) = (if a = [] then v else u)" for a :: bytes and u v :: bytes by simp
  show ?thesis
    unfolding parts append_Cons append_Nil join_space map_append concat_append one assms(3-5) tail
    by (simp only: whole [symmetric] line_body_def append_assoc no)
qed

text \<open>The pieces of a line: what a text without a mark begins with, and what may follow it.\<close>

definition rooted :: "bytes \<Rightarrow> bytes \<Rightarrow> bool" where
  "rooted mark a \<longleftrightarrow> a \<noteq> [] \<and> solid (hd a) \<and> solid (last a) \<and> free mark a"

definition piece :: "bytes \<Rightarrow> bytes \<Rightarrow> bool" where
  "piece mark x \<longleftrightarrow> free mark x \<and> (x = [] \<or> hd x = space \<and> solid (last x))"

lemma rooted_append: "high mark \<Longrightarrow> rooted mark a \<Longrightarrow> piece mark x \<Longrightarrow> rooted mark (a @ x)"
  using free_append [of mark a x] space_ascii by (auto simp: rooted_def piece_def last_append)

lemma piece_append: "high mark \<Longrightarrow> piece mark x \<Longrightarrow> piece mark y \<Longrightarrow> piece mark (x @ y)"
  using free_append [of mark x y] space_ascii by (auto simp: piece_def last_append hd_append)

lemma piece_mark:
  assumes "high mark" and "free mark other" and "list_all is_ascii y" and "y \<noteq> []" and "solid (last y)"
  shows "piece mark (space # other @ [space] @ y)"
proof -
  have "free mark ([space] @ y)" using assms(1,3) space_ascii by (intro free_ascii) auto
  then have "free mark (other @ [space] @ y)" using free_append [OF assms(1,2)] space_ascii by simp
  then show ?thesis
    using assms has_prefix_ascii [OF assms(1) space_ascii] by (auto simp: piece_def free_Cons)
qed

lemma piece_field:
  assumes "high mark" and "free mark other" and "\<forall>c. d = Some c \<longrightarrow> iso_date c"
  shows "piece mark (opt_field other d)"
proof (cases d)
  case (Some c)
  then have "list_all solid (format_date c)" "format_date c \<noteq> []"
    using assms(3) format_date_solid [of c] iso_date_facts(3) [of c] by auto
  then show ?thesis
    using piece_mark [OF assms(1,2), of "format_date c"] solid_ascii
    by (auto simp: Some opt_field_def date_text_def list_all_iff)
qed (simp add: opt_field_def piece_def)

lemma piece_recurrence:
  assumes "high mark" and "free mark repeat_mark" and "r = [] \<or> clean_text r"
  shows "piece mark (if r = [] then [] else space # recurrence_text r)"
proof (cases "r = []")
  case False
  with assms(3) show ?thesis
    using piece_mark [OF assms(1,2), of r] by (auto simp: recurrence_text_def clean_text_def list_all_iff)
qed (simp add: piece_def)

lemma parent_text_facts:
  assumes "valid_qi_id p"
  shows "list_all is_ascii (parent_text p)" "solid (last (parent_text p))" "CHR ''^'' \<notin> set (parent_text p)"
    "\<exists>y. parent_text p = CHR ''['' # y"
  using valid_qi_id_chars [OF assms] solid_ascii
  by (auto simp: parent_text_def list_all_iff is_ascii_def solid_def)

lemma piece_parent:
  assumes "high mark" and "p = [] \<or> valid_qi_id p"
  shows "piece mark (if p = [] then [] else space # parent_text p)"
proof (cases "p = []")
  case False
  with assms(2) have v: "valid_qi_id p" by simp
  have "free mark (space # parent_text p)"
    using parent_text_facts(1) [OF v] space_ascii by (intro free_ascii assms(1)) simp
  then show ?thesis using False parent_text_facts(2) [OF v] by (simp add: piece_def parent_text_def)
qed (simp add: piece_def)

lemma rooted_base: "high mark \<Longrightarrow> base_text b \<Longrightarrow> rooted mark b"
  using base_ascii [of b] free_ascii [of mark b] by (simp add: rooted_def base_text_def)

definition gap_len :: "civil option \<Rightarrow> nat" where
  "gap_len d = (case d of None \<Rightarrow> 0 | Some _ \<Rightarrow> 1)"

lemma opt_gap_replicate: "opt_gap d = replicate (gap_len d) space"
  by (simp add: opt_gap_def gap_len_def split: option.splits)

text \<open>What follows a field: a piece, or only spaces.\<close>

lemma spaces_then_piece:
  assumes "high mark" and "piece mark x"
  shows "\<exists>q m. replicate n space @ x = q @ replicate m space \<and> (q = [] \<or> solid (last q) \<and> hd q = space) \<and> free mark q"
proof (cases "x = []")
  case True
  then show ?thesis by (intro exI [of _ "[]"] exI [of _ n]) simp
next
  case False
  have "free mark (replicate n space @ x)"
    using assms by (intro free_append_ascii spaces_ascii) (simp_all add: piece_def)
  then show ?thesis
    using False assms(2) by (intro exI [of _ "replicate n space @ x"] exI [of _ 0]) (cases n; auto simp: piece_def)
qed

lemma date_step:
  assumes "m = date_field mark k" "k \<le> 1" "high mark"
    and "rooted mark a" and "piece mark x" and "\<forall>c. d = Some c \<longrightarrow> iso_date c"
  shows "take_date what m (trim_space ((a @ replicate j space) @ opt_field mark d @ replicate n space @ x))
     = Inr (map_option utc_midnight d, trim_space ((a @ replicate j space) @ opt_gap d @ replicate n space @ x))"
proof -
  obtain q l where q: "replicate n space @ x = q @ replicate l space"
    "q = [] \<or> solid (last q) \<and> hd q = space" "free mark q"
    using spaces_then_piece [OF assms(3,5)] by blast
  show ?thesis
    using take_date_step [OF assms(1-3) refl _ _ _ _ q assms(6)] assms(4) by (simp add: rooted_def)
qed

text \<open>The whole chain of the parser on the body of a formatted line.\<close>

lemma line_body_rooted:
  assumes b: "base_text b" and r: "r = [] \<or> clean_text r" and p: "p = [] \<or> valid_qi_id p"
    and "\<forall>y. d = Some y \<longrightarrow> iso_date y" "\<forall>y. s = Some y \<longrightarrow> iso_date y" "\<forall>y. c = Some y \<longrightarrow> iso_date y"
  shows "rooted [CHR 0xFF] (line_body b r s d c p)"
proof -
  let ?m = "[CHR 0xFF]"
  have h: "high ?m" by (simp add: high_def is_ascii_def)
  have m: "free ?m repeat_mark" "free ?m hourglass_mark" "free ?m calendar_mark" "free ?m check_mark"
    by (simp_all add: mark_literals free_Cons has_prefix_def)
  show ?thesis
    unfolding line_body_def
    by (intro rooted_append [OF h] piece_append [OF h] rooted_base [OF h b] piece_recurrence [OF h m(1) r]
        piece_field [OF h m(2)] piece_field [OF h m(3)] piece_field [OF h m(4)] piece_parent [OF h p] assms)
qed

lemma body_dates:
  assumes b: "base_text b" and r: "r = [] \<or> clean_text r" and p: "p = [] \<or> valid_qi_id p"
    and dates: "\<forall>y. d = Some y \<longrightarrow> iso_date y" "\<forall>y. s = Some y \<longrightarrow> iso_date y" "\<forall>y. c = Some y \<longrightarrow> iso_date y"
  defines "R \<equiv> if r = [] then [] else space # recurrence_text r"
    and "P \<equiv> if p = [] then [] else space # parent_text p"
  shows "take_date w due_re (line_body b r s d c p)
      = Inr (map_option utc_midnight d, trim_space ((b @ R) @ opt_field hourglass_mark s @ opt_gap d @ opt_field check_mark c @ P))"
    and "take_date w scheduled_re (trim_space ((b @ R) @ opt_field hourglass_mark s @ opt_gap d @ opt_field check_mark c @ P))
      = Inr (map_option utc_midnight s, trim_space ((b @ R) @ opt_gap s @ opt_gap d @ opt_field check_mark c @ P))"
    and "take_date w done_re (trim_space ((b @ R) @ opt_gap s @ opt_gap d @ opt_field check_mark c @ P))
      = Inr (map_option utc_midnight c, trim_space ((b @ R) @ opt_gap s @ opt_gap d @ opt_gap c @ P))"
proof -
  have root: "rooted mark (b @ R)" if "high mark" "free mark repeat_mark" for mark
    unfolding R_def using that by (intro rooted_append rooted_base b piece_recurrence r)
  have tail: "piece mark P" if "high mark" for mark
    unfolding P_def using that by (rule piece_parent [OF _ p])
  have ct: "piece mark (opt_field check_mark c @ P)" if "high mark" "free mark check_mark" for mark
    using that by (intro piece_append piece_field dates(3) tail)
  have st: "rooted calendar_mark ((b @ R) @ opt_field hourglass_mark s)"
    by (intro rooted_append root piece_field dates(2)) simp_all
  have all: "trim_space (line_body b r s d c p) = line_body b r s d c p"
    using line_body_rooted [OF b r p dates] by (intro trim_space_solid) (simp add: rooted_def)
  show "take_date w due_re (line_body b r s d c p)
      = Inr (map_option utc_midnight d, trim_space ((b @ R) @ opt_field hourglass_mark s @ opt_gap d @ opt_field check_mark c @ P))"
    using date_step [OF due_re_def _ _ st ct dates(1), of w 0 0] all
    by (simp add: line_body_def R_def [symmetric] P_def [symmetric])
  show "take_date w scheduled_re (trim_space ((b @ R) @ opt_field hourglass_mark s @ opt_gap d @ opt_field check_mark c @ P))
      = Inr (map_option utc_midnight s, trim_space ((b @ R) @ opt_gap s @ opt_gap d @ opt_field check_mark c @ P))"
    using date_step [OF scheduled_re_def _ _ root ct dates(2), of w 0 "gap_len d"]
    by (simp add: opt_gap_replicate)
  show "take_date w done_re (trim_space ((b @ R) @ opt_gap s @ opt_gap d @ opt_field check_mark c @ P))
      = Inr (map_option utc_midnight c, trim_space ((b @ R) @ opt_gap s @ opt_gap d @ opt_gap c @ P))"
    using date_step [OF done_re_def _ _ root tail dates(3), of w "gap_len s + gap_len d" 0]
    by (simp add: opt_gap_replicate replicate_add)
qed

text \<open>No caret, so no block id, in the body; and no line break.\<close>

lemma line_body_without:
  assumes z: "z = CHR ''^'' \<or> z = newline" and "z \<notin> set b" "z \<notin> set r" "z \<notin> set p"
    and "\<forall>y. d = Some y \<longrightarrow> iso_date y" "\<forall>y. s = Some y \<longrightarrow> iso_date y" "\<forall>y. c = Some y \<longrightarrow> iso_date y"
  shows "z \<notin> set (line_body b r s d c p)"
proof -
  have date: "z \<notin> set (format_date y)" if "iso_date y" for y
    using format_date_chars [OF that, of z] z by (auto simp: between_def)
  have "z \<notin> set (opt_field mark e)" if "z \<notin> set mark" "\<forall>y. e = Some y \<longrightarrow> iso_date y" for mark e
    using that date z by (cases e) (auto simp: opt_field_def date_text_def)
  from this have "z \<notin> set (opt_field calendar_mark d)" "z \<notin> set (opt_field hourglass_mark s)"
      "z \<notin> set (opt_field check_mark c)"
    using assms(5-7) z by (elim disjE; simp add: mark_literals)+
  then show ?thesis
    using assms(1-4) by (elim disjE; simp add: line_body_def recurrence_text_def parent_text_def mark_literals)
qed

lemma line_body_no_caret:
  assumes "base_text b" and "r = [] \<or> clean_text r" and "p = [] \<or> valid_qi_id p"
    and "\<forall>y. d = Some y \<longrightarrow> iso_date y" "\<forall>y. s = Some y \<longrightarrow> iso_date y" "\<forall>y. c = Some y \<longrightarrow> iso_date y"
  shows "CHR ''^'' \<notin> set (line_body b r s d c p)"
proof (rule line_body_without [OF _ _ _ _ assms(4-6)])
  show "CHR ''^'' \<notin> set b" using assms(1) by (auto simp: base_text_def list_all_iff)
  show "CHR ''^'' \<notin> set r" using assms(2) by (auto simp: clean_text_def list_all_iff)
  show "CHR ''^'' \<notin> set p"
  proof (cases "p = []")
    case False
    then have "list_all (\<lambda>c. solid c \<and> c \<noteq> CHR ''^'' \<and> c \<noteq> CHR ''['') p"
      using assms(3) valid_qi_id_chars(1) by blast
    then show ?thesis by (auto simp: list_all_iff)
  qed simp
qed simp

lemma parse_body:
  assumes b: "base_text b" and r: "r = [] \<or> clean_text r" and p: "p = [] \<or> valid_qi_id p" and i: "i = [] \<or> valid_qi_id i"
    and dates: "\<forall>y. d = Some y \<longrightarrow> iso_date y" "\<forall>y. s = Some y \<longrightarrow> iso_date y" "\<forall>y. c = Some y \<longrightarrow> iso_date y"
  shows "parse_content x (line_body b r s d c p @ (if i = [] then [] else [space, CHR ''^''] @ i))
    = Inr (Some \<lparr>tk_id = i, tk_text = b,
        tk_project = (case find_all tag_re b of [] \<Rightarrow> [] | t # _ \<Rightarrow> t), tk_tags = find_all tag_re b,
        tk_due = map_option utc_midnight d, tk_scheduled = map_option utc_midnight s,
        tk_recurrence = r, tk_parent = p, tk_priority = [], tk_completed = x,
        tk_completed_at = map_option utc_midnight c, tk_file = [], tk_line = 0\<rparr>)"
proof -
  let ?X = "line_body b r s d c p"
  let ?R = "if r = [] then [] else space # recurrence_text r"
  let ?n = "gap_len s + gap_len d + gap_len c"
  have "?X \<noteq> []" "solid (hd ?X)" "solid (last ?X)"
    using line_body_rooted [OF b r p dates] by (auto simp: rooted_def)
  note id_step = take_id_step [OF line_body_no_caret [OF b r p dates] this i]
  note steps = body_dates [OF b r p dates]
  let ?P = "if p = [] then [] else replicate (?n + 1) space @ parent_text p"
  have h: "high [CHR 0xFF]" "free [CHR 0xFF] repeat_mark"
    by (simp_all add: high_def is_ascii_def mark_literals free_Cons has_prefix_def)
  have root: "rooted [CHR 0xFF] (b @ ?R)"
    by (intro rooted_append rooted_base piece_recurrence b r h)
  have gaps: "(b @ ?R) @ opt_gap s @ opt_gap d @ opt_gap c @ (if p = [] then [] else space # parent_text p)
      = (if p = [] then (b @ ?R) @ replicate ?n space else (b @ ?R) @ ?P)"
    by (simp add: opt_gap_replicate replicate_add replicate_append_same)
  have rest: "trim_space ((b @ ?R) @ opt_gap s @ opt_gap d @ opt_gap c @ (if p = [] then [] else space # parent_text p))
      = b @ ?R @ ?P"
  proof (cases "p = []")
    case True
    then show ?thesis unfolding gaps using trim_space_padded [of "b @ ?R" ?n] root by (simp add: rooted_def)
  next
    case False
    then have "solid (last ((b @ ?R) @ ?P))" using p parent_text_facts(2) by (simp add: parent_text_def)
    then have "trim_space ((b @ ?R) @ ?P) = (b @ ?R) @ ?P"
      using root b by (intro trim_space_solid) (auto simp: rooted_def base_text_def hd_append)
    then show ?thesis unfolding gaps using False by simp
  qed
  let ?p = "if p = [] then [] else parent_text p"
  have "?p = [] \<or> (\<exists>y. ?p = CHR ''['' # y) \<and> solid (last ?p)" "list_all is_ascii ?p"
    using p parent_text_facts by auto
  note ts = take_recurrence_step [OF b r this, of "?n + 1"]
  have pp: "(if ?p = [] then [] else replicate n space @ ?p) = (if p = [] then [] else replicate n space @ parent_text p)"
    for n by (simp add: parent_text_def)
  obtain g y where gy: "take_field recurrence_re (b @ ?R @ ?P) = (g, y)" by fastforce
  from ts obtain k where rec: "take_field recurrence_re (b @ ?R @ ?P) =
      (g, b @ (if p = [] then [] else replicate k space @ parent_text p))" "trim_space g = r"
    unfolding pp gy prod.case by blast
  have par: "take_field parent_re (b @ (if p = [] then [] else replicate k space @ parent_text p)) = (p, b)"
    using take_parent_step [OF b p, of k] by (cases "p = []") simp_all
  have prio: "find_sub priority_re b = None"
    using quiet_all(1) [OF leads_quiet [OF leads_priority base_no_bracket [OF b]]]
    by (simp add: priority_re_def to_lower_def)
  have tb: "trim_space b = b" using b by (intro trim_space_solid) (simp add: base_text_def)
  show ?thesis
    unfolding parse_content_def
    by (simp only: id_step prod.case steps sum.case rest rec par prio tb option.case Let_def)
qed

text \<open>The box at the head of the line.\<close>

lemma strip_check_box:
  assumes "solid (hd x)" and "x \<noteq> []"
  shows "strip_task_prefix (check_box done @ x) = Some x" "has_prefix (check_box done @ x) ''- [x]'' = done"
proof -
  have "dropWhile re_space x = x" using assms solid_not_re_space by (cases x) auto
  then show "strip_task_prefix (check_box done @ x) = Some x"
    by (simp add: strip_task_prefix_def check_box_def re_space_def)
  show "has_prefix (check_box done @ x) ''- [x]'' = done"
    by (simp add: check_box_def has_prefix_def)
qed

text \<open>The line of a clean task.\<close>

definition task_line :: "task \<Rightarrow> bytes" where
  "task_line t = check_box (tk_completed t)
     @ line_body (tagged_text t) (tk_recurrence t) (map_option civil_of (tk_scheduled t))
         (map_option civil_of (tk_due t)) (map_option civil_of (tk_completed_at t)) (tk_parent t)
     @ (if tk_id t = [] then [] else [space, CHR ''^''] @ tk_id t)"

lemma clean_task_line:
  assumes "clean_task t"
  shows "format_task_line t = Inr (task_line t)" "parse_task_line (task_line t) = Inr (Some (as_read t))"
    "format_task_line (as_read t) = Inr (task_line t)" "solid (last (task_line t))" "task_line t \<noteq> []"
proof -
  have c: "clean_text (tk_text t)" "\<forall>g \<in> set (tk_tags t). is_tag g" "tk_id t = [] \<or> valid_qi_id (tk_id t)"
      "tk_recurrence t = [] \<or> clean_text (tk_recurrence t)" "tk_parent t = [] \<or> valid_qi_id (tk_parent t)"
      "tk_project t = (case tk_tags t of [] \<Rightarrow> [] | g # _ \<Rightarrow> g)"
    and w: "whole_days (tk_due t)" "whole_days (tk_scheduled t)" "whole_days (tk_completed_at t)"
    using assms by (auto simp: clean_task_def)
  obtain d s k where dates: "tk_due t = map_option utc_midnight d" "tk_scheduled t = map_option utc_midnight s"
      "tk_completed_at t = map_option utc_midnight k"
    and iso: "\<forall>y. d = Some y \<longrightarrow> iso_date y" "\<forall>y. s = Some y \<longrightarrow> iso_date y" "\<forall>y. k = Some y \<longrightarrow> iso_date y"
    using w unfolding whole_days_def by blast
  note b = base_text_tagged [OF c(1,2), folded tagged_text_def]
  let ?X = "line_body (tagged_text t) (tk_recurrence t) s d k (tk_parent t)"
  let ?I = "if tk_id t = [] then [] else [space, CHR ''^''] @ tk_id t"
  let ?L = "check_box (tk_completed t) @ ?X @ ?I"
  have X: "?X \<noteq> []" "solid (hd ?X)" "solid (last ?X)"
    using line_body_rooted [OF b(1) c(4,5) iso] by (auto simp: rooted_def)
  have solidL: "solid (hd (check_box (tk_completed t) @ y))" for y
    by (simp add: check_box_def solid_def is_ascii_def)
  have "solid (last (check_box (tk_completed t) @ ?X))" using X by simp
  then have tX: "trim_space (check_box (tk_completed t) @ ?X) = check_box (tk_completed t) @ ?X"
    using solidL by (intro trim_space_solid) simp
  have caret: "CHR ''^'' \<notin> set (check_box (tk_completed t) @ ?X)"
    using line_body_no_caret [OF b(1) c(4,5) iso] by (simp add: check_box_def)
  have form: "format_task_line (u\<lparr>tk_priority := q, tk_file := f, tk_line := l\<rparr>) = Inr ?L"
    if "u = t\<lparr>tk_text := x\<rparr>" "x = tk_text t \<or> x = tagged_text t" for u x q f l
  proof -
    have "trim_space x = x" "x \<noteq> []"
      using that(2) c(1) b(1) by (auto intro!: trim_space_solid simp: clean_text_def base_text_def)
    moreover have "format_parts (u\<lparr>tk_priority := q, tk_file := f, tk_line := l\<rparr>) = format_parts (t\<lparr>tk_text := x\<rparr>)"
      by (simp add: that(1) format_parts_def Let_def cong: if_cong)
    moreover note format_clean_parts [OF assms that(2) dates iso]
    moreover have "find_sub any_block_re (check_box (tk_completed t) @ ?X) = None"
      using quiet_all(1) [OF leads_quiet [OF leads_any_block caret]] by (simp add: any_block_re_def)
    moreover have "remove_all id_re (check_box (tk_completed t) @ ?X) = check_box (tk_completed t) @ ?X"
      using quiet_all(2) [OF leads_quiet [OF leads_id caret]] by (simp add: id_re_def)
    ultimately show ?thesis
      by (simp add: format_task_line_def Let_def that(1) matches_def tX)
  qed
  have "solid (last ?L)"
  proof (cases "tk_id t = []")
    case False
    then have "list_all (\<lambda>c. solid c \<and> c \<noteq> CHR ''^'' \<and> c \<noteq> CHR ''['') (tk_id t)"
      using c(3) valid_qi_id_chars(1) by blast
    then show ?thesis using False by (simp add: list_all_iff)
  qed (use X in simp)
  then have tL: "trim_space ?L = ?L" using solidL by (intro trim_space_solid) simp
  have hd: "solid (hd (?X @ ?I))" "?X @ ?I \<noteq> []" using X by simp_all
  have "parse_task_line ?L = Inr (Some (as_read t))"
    unfolding parse_task_line_def Let_def tL strip_check_box [OF hd] option.case
      parse_body [OF b(1) c(4,5,3) iso] b(2)
    by (simp add: as_read_def dates c(6))
  moreover have "?L = task_line t"
    using iso by (cases d; cases s; cases k) (simp_all add: task_line_def dates iso_date_def)
  ultimately show "format_task_line t = Inr (task_line t)" "parse_task_line (task_line t) = Inr (Some (as_read t))"
    "format_task_line (as_read t) = Inr (task_line t)" "solid (last (task_line t))" "task_line t \<noteq> []"
    using \<open>solid (last ?L)\<close> solidL [of "?X @ ?I"] form [where u = t and x = "tk_text t" and q = "tk_priority t" and f = "tk_file t" and l = "tk_line t"]
      form [where x = "tagged_text t" and q = "[]" and f = "[]" and l = 0, OF refl]
    by (simp_all add: as_read_def) (simp add: task_line_def check_box_def)
qed

text \<open>The line of a clean task is one line that ends in a visible character.\<close>

lemma newline_not_solid: "\<not> solid newline" "\<not> solid (CHR 0x0D)"
  by (simp_all add: solid_def)

lemma solid_no_newline: "list_all solid x \<Longrightarrow> newline \<notin> set x"
  using newline_not_solid(1) unfolding list_all_iff by blast

lemma valid_qi_id_solid: "i = [] \<or> valid_qi_id i \<Longrightarrow> list_all solid i"
  using valid_qi_id_chars(1) [of i] by (auto simp: list_all_iff)

lemma iso_of_whole:
  assumes "whole_days d"
  shows "\<forall>y. map_option civil_of d = Some y \<longrightarrow> iso_date y"
proof -
  obtain c where c: "d = map_option utc_midnight c" "\<forall>x. c = Some x \<longrightarrow> iso_date x"
    using assms whole_days_def by blast
  then show ?thesis by (cases c) (auto simp: iso_date_def)
qed

lemma task_line_no_newline:
  assumes "clean_task t"
  shows "newline \<notin> set (task_line t)"
proof -
  have c: "clean_text (tk_text t)" "\<forall>g \<in> set (tk_tags t). is_tag g" "tk_id t = [] \<or> valid_qi_id (tk_id t)"
      "tk_recurrence t = [] \<or> clean_text (tk_recurrence t)" "tk_parent t = [] \<or> valid_qi_id (tk_parent t)"
    and w: "whole_days (tk_due t)" "whole_days (tk_scheduled t)" "whole_days (tk_completed_at t)"
    using assms by (auto simp: clean_task_def)
  have "newline \<notin> set g" if "g \<in> set (tk_tags t)" for g
    using that c(2) is_tag_facts(2) solid_no_newline by blast
  then have "newline \<notin> set (tag_suffix (tk_tags t))" by (auto simp: tag_suffix_def)
  then have "newline \<notin> set (tagged_text t)"
    using c(1) by (auto simp: tagged_text_def clean_text_def list_all_iff)
  moreover have "newline \<notin> set (tk_recurrence t)" using c(4) by (auto simp: clean_text_def list_all_iff)
  moreover note solid_no_newline [OF valid_qi_id_solid [OF c(5)]]
  ultimately have "newline \<notin> set (line_body (tagged_text t) (tk_recurrence t) (map_option civil_of (tk_scheduled t))
      (map_option civil_of (tk_due t)) (map_option civil_of (tk_completed_at t)) (tk_parent t))"
    using w by (intro line_body_without iso_of_whole) simp_all
  then show ?thesis
    using solid_no_newline [OF valid_qi_id_solid [OF c(3)]] by (simp add: task_line_def check_box_def)
qed

text \<open>
  C11. A task survives its line: every clean task formats without error, the parser reads
  back from the line exactly the task's fields (id, due, scheduled and completion dates,
  recurrence, parent, completion, tags, project, and as the text the task's text followed
  by its tags, which is how the line shows it), and a task that was read and is written
  again without a change yields the same line, so that rewriting never grows a line.
\<close>

theorem format_parse_roundtrip:
  assumes "clean_task t"
  shows "\<exists>line. format_task_line t = Inr line \<and> parse_task_line line = Inr (Some (as_read t))
     \<and> format_task_line (as_read t) = Inr line"
  using clean_task_line [OF assms] by blast

definition plain_task :: "bytes \<Rightarrow> bytes \<Rightarrow> task" where
  "plain_task i text = \<lparr>tk_id = i, tk_text = text, tk_project = [], tk_tags = [], tk_due = None,
     tk_scheduled = None, tk_recurrence = [], tk_parent = [], tk_priority = [], tk_completed = False,
     tk_completed_at = None, tk_file = [], tk_line = 0\<rparr>"

lemma whole_days_simps [simp]: "whole_days None" "iso_date c \<Longrightarrow> whole_days (Some (utc_midnight c))"
  unfolding whole_days_def by (rule exI [of _ None], simp) (rule exI [of _ "Some c"], simp)

definition sample_task :: task where
  "sample_task = (plain_task ''qi-0a1b2c3d'' ''Pay rent'')\<lparr>tk_project := ''home'', tk_tags := [''home'', ''bill''],
     tk_due := Some (utc_midnight (2026, 8, 1)), tk_recurrence := ''every 2 weeks'', tk_parent := ''qi-00000001''\<rparr>"

lemma qi_id_samples: "valid_qi_id ''qi-0a1b2c3d''" "valid_qi_id ''qi-00000001''"
  by (simp_all add: valid_qi_id_def qi_id_head_def has_prefix_def hex_char_def between_def)

lemma sample_task_clean: "clean_task sample_task"
proof -
  have "clean_text ''Pay rent''" "clean_text ''every 2 weeks''"
    by (simp_all add: clean_text_def solid_def is_ascii_def)
  moreover have "is_tag ''home''" "is_tag ''bill''" by (simp_all add: is_tag_def tag_char_def between_def)
  moreover have "iso_date (2026, 8, 1)" by (simp add: iso_date_def valid_civil_def days_in_month_def)
  ultimately show ?thesis
    using qi_id_samples by (simp add: clean_task_def sample_task_def plain_task_def)
qed

lemma format_parse_roundtrip_witness:
  "\<exists>line. format_task_line sample_task = Inr line \<and> parse_task_line line = Inr (Some (as_read sample_task))
     \<and> format_task_line (as_read sample_task) = Inr line"
  by (rule format_parse_roundtrip [OF sample_task_clean])

section \<open>Writing to task files\<close>

text \<open>
  C12. \<open>UpdateTaskLine\<close> never overwrites a line it did not mean to. When it succeeds (and the
  formatted task is a single line), the new content has the same lines as the old one except
  line \<open>n\<close>, which now is the formatted task; and the line it replaced was a task line that
  still parsed to the task the caller read: the same id if the task has one, otherwise the
  same text. Whatever else changed in the file since it was read is kept.
\<close>

theorem update_changes_one_line:
  assumes "update_task_line n t content = Inr content'" and "format_task_line t = Inr line" and "newline \<notin> set line"
  shows "\<exists>i old. n = int i + 1 \<and> i < length (split_on newline content)
     \<and> split_on newline content' = (split_on newline content)[i := line]
     \<and> parse_task_line (split_on newline content ! i) = Inr (Some old)
     \<and> (if tk_id t \<noteq> [] then tk_id old = tk_id t else tk_text old = tk_text t)"
proof -
  let ?ls = "split_on newline content"
  let ?i = "nat (n - 1)"
  have n: "1 \<le> n" and i: "?i < length ?ls" and g: "guard_line n t (?ls ! ?i) = None"
    and c: "content' = join [newline] (?ls[?i := line])"
    using assms(1,2) by (auto simp: update_task_line_def Let_def split: if_splits option.splits)
  have "newline \<notin> set l" if "l \<in> set (?ls[?i := line])" for l
    using set_update_subset_insert [of ?ls ?i line] that assms(3) split_on_no_sep [of l newline content] by auto
  then have "split_on newline content' = ?ls[?i := line]"
    unfolding c by (intro split_on_join) auto
  moreover obtain old where "parse_task_line (?ls ! ?i) = Inr (Some old)"
    "if tk_id t \<noteq> [] then tk_id old = tk_id t else tk_text old = tk_text t"
    using g by (auto simp: guard_line_def split: sum.splits option.splits if_splits)
  ultimately show ?thesis using n i by (intro exI [of _ ?i] exI [of _ old]) auto
qed

definition open_task :: task where "open_task = plain_task ''qi-00000001'' ''a''"
definition done_task :: task where "done_task = open_task\<lparr>tk_completed := True\<rparr>"

definition sample_file :: bytes where
  "sample_file = join [newline] [''# n'', ''- [ ] a ^qi-00000001'', []]"

lemma plain_tasks_clean: "clean_task open_task" "clean_task done_task"
  "task_line open_task = ''- [ ] a ^qi-00000001''" "task_line done_task = ''- [x] a ^qi-00000001''"
proof -
  have "clean_text ''a''" by (simp add: clean_text_def solid_def is_ascii_def)
  with qi_id_samples show "clean_task open_task" "clean_task done_task"
    by (simp_all add: clean_task_def open_task_def done_task_def plain_task_def)
  show "task_line open_task = ''- [ ] a ^qi-00000001''" "task_line done_task = ''- [x] a ^qi-00000001''"
    by (simp_all add: task_line_def check_box_def line_body_def tagged_text_def tag_suffix_def opt_field_def
        open_task_def done_task_def plain_task_def)
qed

lemma sample_file_lines: "split_on newline sample_file = [''# n'', task_line open_task, []]"
  unfolding sample_file_def plain_tasks_clean by (rule split_on_join) auto

lemma update_changes_one_line_witness:
  "\<exists>i old. (2 :: int) = int i + 1 \<and> i < length (split_on newline sample_file)
     \<and> split_on newline (join [newline] [''# n'', task_line done_task, []])
         = (split_on newline sample_file)[i := task_line done_task]
     \<and> parse_task_line (split_on newline sample_file ! i) = Inr (Some old)
     \<and> (if tk_id done_task \<noteq> [] then tk_id old = tk_id done_task else tk_text old = tk_text done_task)"
proof (rule update_changes_one_line)
  note o = clean_task_line [OF plain_tasks_clean(1)] and d = clean_task_line [OF plain_tasks_clean(2)]
  have "guard_line 2 done_task (task_line open_task) = None"
    unfolding guard_line_def o(2) by (simp add: as_read_def done_task_def open_task_def plain_task_def)
  then show "update_task_line 2 done_task sample_file = Inr (join [newline] [''# n'', task_line done_task, []])"
    by (simp add: update_task_line_def sample_file_lines d(1))
  show "format_task_line done_task = Inr (task_line done_task)" by (rule d(1))
  show "newline \<notin> set (task_line done_task)" by (rule task_line_no_newline [OF plain_tasks_clean(2)])
qed

lemma drop_cr_solid: "solid (last l) \<Longrightarrow> drop_cr l = l"
  using newline_not_solid(2)
  by (cases l rule: rev_cases) (auto simp: drop_cr_def trim_suffix_def has_suffix_def)

text \<open>Reading line by line composes over complete lines.\<close>

lemma read_lines_snoc:
  assumes "read_lines path n ls = Inr ts" and "length l < 65536" and "parse_task_line (drop_cr l) = Inr r"
  shows "read_lines path n (ls @ [l]) =
    Inr (ts @ (case r of None \<Rightarrow> [] | Some t \<Rightarrow> [t\<lparr>tk_file := path, tk_line := n + int (length ls) + 1\<rparr>]))"
  using assms(1)
proof (induction ls arbitrary: n ts)
  case Nil
  with assms(2,3) show ?case by (simp split: option.splits)
next
  case (Cons l' ls)
  then obtain r' ts' where "parse_task_line (drop_cr l') = Inr r'" "read_lines path (n + 1) ls = Inr ts'"
    "\<not> 65536 \<le> length l'" "ts = (case r' of None \<Rightarrow> ts' | Some t \<Rightarrow> t\<lparr>tk_file := path, tk_line := n + 1\<rparr> # ts')"
    by (auto split: if_splits sum.splits)
  with Cons.IH [of "n + 1" ts'] show ?case by (auto split: option.splits simp: algebra_simps)
qed

lemma scan_lines_snoc:
  assumes "content = [] \<or> last content = newline" and "newline \<notin> set l" and "l \<noteq> []"
  shows "scan_lines (content @ l @ [newline]) = scan_lines content @ [l]"
proof (cases "content = []")
  case True
  then show ?thesis using assms(2) by (simp add: scan_lines_def split_on_append)
next
  case False
  with assms(1) obtain c where c: "content = c @ [newline]" by (metis append_butlast_last_id)
  have "split_on newline (c @ newline # []) = split_on newline c @ [[]]" by (simp only: split_on_sep split_on.simps)
  moreover have "split_on newline (c @ newline # (l @ newline # [])) = split_on newline c @ [l, []]"
    using split_on_append [OF assms(2), of "[]"] by (simp only: split_on_sep) simp
  ultimately show ?thesis using assms(3) by (simp add: scan_lines_def c butlast_append)
qed

lemma read_sample_file: "read_tasks p sample_file = Inr [(as_read open_task)\<lparr>tk_file := p, tk_line := 2\<rparr>]"
proof -
  have "parse_task_line (drop_cr ''# n'') = Inr None"
    by (simp add: parse_task_line_def drop_cr_def trim_suffix_def has_suffix_def
        trim_space_solid solid_def is_ascii_def strip_task_prefix_def re_space_def)
  moreover have "drop_cr (task_line open_task) = task_line open_task"
    by (rule drop_cr_solid [OF clean_task_line(4) [OF plain_tasks_clean(1)]])
  moreover have "length (task_line open_task) < 65536" by (simp add: plain_tasks_clean)
  moreover note clean_task_line(2) [OF plain_tasks_clean(1)]
  ultimately show ?thesis by (simp add: read_tasks_def scan_lines_def sample_file_lines)
qed

lemma append_read:
  assumes "read_tasks path content = Inr ts" and "content = [] \<or> last content = newline"
    and "clean_task t" and "format_task_line t = Inr line" and "length line < 65536"
  shows "\<exists>content'. append_task t content = Inr content' \<and> read_tasks path content' =
    Inr (ts @ [(as_read t)\<lparr>tk_file := path, tk_line := int (length (scan_lines content)) + 1\<rparr>])"
proof -
  note t = clean_task_line [OF assms(3)]
  have l: "line = task_line t" using assms(4) t(1) by simp
  have "drop_cr line = line"
    using drop_cr_solid [OF t(4)] by (simp add: l)
  then have p: "parse_task_line (drop_cr line) = Inr (Some (as_read t))" using t(2) l by simp
  note s = scan_lines_snoc [OF assms(2) task_line_no_newline [OF assms(3)] t(5)]
  show ?thesis
    using read_lines_snoc [OF assms(1) [unfolded read_tasks_def] assms(5) p] s
    by (simp add: append_task_def assms(4) read_tasks_def l)
qed

text \<open>
  A task appended to a task file is there when the file is read next, after all the
  tasks that were there before, and none of those is disturbed: if the file's last line is
  complete, appending a clean task succeeds and reading the file again yields the old tasks
  followed by the new one, with the file and its line number. The line must be shorter than
  the 65536 bytes of the line reader.
\<close>

theorem append_then_read:
  assumes "read_tasks path content = Inr ts" and "content = [] \<or> last content = newline"
    and "clean_task t" and "format_task_line t = Inr line" and "length line < 65536"
  shows "\<exists>content'. append_task t content = Inr content' \<and> read_tasks path content' =
    Inr (ts @ [(as_read t)\<lparr>tk_file := path, tk_line := int (length (scan_lines content)) + 1\<rparr>])"
  by (rule append_read [OF assms])

lemma append_then_read_witness:
  "\<exists>content'. append_task done_task sample_file = Inr content' \<and> read_tasks ''inbox.md'' content' =
    Inr ([(as_read open_task)\<lparr>tk_file := ''inbox.md'', tk_line := 2\<rparr>]
      @ [(as_read done_task)\<lparr>tk_file := ''inbox.md'', tk_line := int (length (scan_lines sample_file)) + 1\<rparr>])"
proof (rule append_then_read [OF _ _ plain_tasks_clean(2)])
  show "read_tasks ''inbox.md'' sample_file = Inr [(as_read open_task)\<lparr>tk_file := ''inbox.md'', tk_line := 2\<rparr>]"
    by (rule read_sample_file)
  show "sample_file = [] \<or> last sample_file = newline" by (simp add: sample_file_def)
  show "format_task_line done_task = Inr (task_line done_task)" by (rule clean_task_line(1) [OF plain_tasks_clean(2)])
  show "length (task_line done_task) < 65536" by (simp add: plain_tasks_clean)
qed

text \<open>
  The premise about the last line matters: a file whose last line lacks its newline (an
  editor may leave it so) has the new task glued to that line, and the file then holds one
  line where the reader expects two.
\<close>

lemma split_on_glue: "c \<notin> set t \<Longrightarrow> split_on c (s @ t) = butlast (split_on c s) @ [last (split_on c s) @ t]"
proof (induction s)
  case (Cons x s)
  obtain l ls where l: "split_on c s = l # ls" by (cases "split_on c s") auto
  with Cons show ?case by (cases ls) auto
qed (simp add: split_on_single)

lemma last_split_on: "s \<noteq> [] \<Longrightarrow> last s \<noteq> c \<Longrightarrow> last (split_on c s) \<noteq> []"
  by (cases s rule: rev_cases) (simp_all add: split_on_glue)

lemma append_to_open_line:
  assumes "content \<noteq> []" and "last content \<noteq> newline" and "clean_task t"
  shows "append_task t content = Inr (content @ task_line t @ [newline])"
    and "scan_lines (content @ task_line t @ [newline])
      = butlast (scan_lines content) @ [last (scan_lines content) @ task_line t]"
proof -
  show "append_task t content = Inr (content @ task_line t @ [newline])"
    by (simp add: append_task_def clean_task_line(1) [OF assms(3)])
  show "scan_lines (content @ task_line t @ [newline])
      = butlast (scan_lines content) @ [last (scan_lines content) @ task_line t]"
    using last_split_on [OF assms(1,2)] split_on_sep [of newline "content @ task_line t" "[]"]
    by (simp add: scan_lines_def split_on_glue butlast_append task_line_no_newline [OF assms(3)])
qed

end
