(* ===== verification/SyncEngine.thy ===== *)
theory SyncEngine
  imports TaskFile
begin

text \<open>
  The three-way merge of task sync (\<open>internal/sync/engine.go\<close>), with the row type of its
  ancestor table (\<open>internal/index/index.go\<close>). \<open>decide\<close> is the pure decision: from the tasks of
  the main vault, the tasks of the project vaults and the ancestor rows, the task set of
  every managed file and the changes to the ancestor table.
\<close>

section \<open>Data\<close>

definition SyncConflictTag :: bytes where
  "SyncConflictTag = ''sync-conflict''"

record sync_base =
  sb_id :: bytes
  sb_project :: bytes
  sb_line :: bytes

record conflict =
  cf_id :: bytes
  cf_project :: bytes

record plan =
  pl_canon :: "(bytes, task list) gomap"
  pl_proj :: "(bytes, task list) gomap"
  pl_upserts :: "sync_base list"
  pl_deletes :: "bytes list"
  pl_conflicts :: "conflict list"

definition empty_plan :: plan where
  "empty_plan = \<lparr>pl_canon = [], pl_proj = [], pl_upserts = [], pl_deletes = [], pl_conflicts = []\<rparr>"

text \<open>Reading a Go map of slices: an absent key is the empty slice.\<close>

definition tasks_of :: "(bytes, task list) gomap \<Rightarrow> bytes \<Rightarrow> task list" where
  "tasks_of m p = (case map_of m p of None \<Rightarrow> [] | Some ts \<Rightarrow> ts)"

definition canonicalize :: "task \<Rightarrow> bytes" where
  "canonicalize t = (case format_task_line t of Inl _ \<Rightarrow> [] | Inr line \<Rightarrow> line)"

definition tagged :: "task \<Rightarrow> task" where
  "tagged t = (if SyncConflictTag \<in> set (tk_tags t) then t
     else t\<lparr>tk_tags := tk_tags t @ [SyncConflictTag]\<rparr>)"

section \<open>The decision\<close>

definition put_canon :: "task \<Rightarrow> plan \<Rightarrow> plan" where
  "put_canon t pl = pl\<lparr>pl_canon := AList.update (tk_project t) (tasks_of (pl_canon pl) (tk_project t) @ [t]) (pl_canon pl)\<rparr>"

definition put_proj :: "bytes list \<Rightarrow> task \<Rightarrow> plan \<Rightarrow> plan" where
  "put_proj synced t pl =
     (if tk_project t \<in> set synced
      then pl\<lparr>pl_proj := AList.update (tk_project t) (tasks_of (pl_proj pl) (tk_project t) @ [t]) (pl_proj pl)\<rparr>
      else pl)"

definition upsert_base :: "task \<Rightarrow> plan \<Rightarrow> plan" where
  "upsert_base t pl =
     pl\<lparr>pl_upserts := pl_upserts pl @ [\<lparr>sb_id = tk_id t, sb_project = tk_project t, sb_line = canonicalize t\<rparr>]\<rparr>"

definition delete_base :: "bytes \<Rightarrow> plan \<Rightarrow> plan" where
  "delete_base i pl = pl\<lparr>pl_deletes := pl_deletes pl @ [i]\<rparr>"

definition place :: "bytes list \<Rightarrow> task \<Rightarrow> plan \<Rightarrow> plan" where
  "place synced t pl = put_proj synced t (put_canon t pl)"

definition keep_both :: "bytes list \<Rightarrow> bytes \<Rightarrow> task \<Rightarrow> task \<Rightarrow> plan \<Rightarrow> plan" where
  "keep_both synced i c p pl =
     (let pl' = put_proj synced (tagged p) (put_proj synced c (put_canon (tagged p) (put_canon c pl)))
      in pl'\<lparr>pl_conflicts := pl_conflicts pl' @ [\<lparr>cf_id = i, cf_project = tk_project c\<rparr>]\<rparr>)"

text \<open>The body of the loop over the ids.\<close>

definition decide_id ::
  "bytes list \<Rightarrow> bytes \<Rightarrow> task option \<Rightarrow> task option \<Rightarrow> sync_base option \<Rightarrow> plan \<Rightarrow> plan" where
  "decide_id synced i oc op ob pl =
     (case (oc, op, ob) of
        (Some c, _, _) \<Rightarrow>
          if tk_project c \<notin> set synced
          then (case ob of None \<Rightarrow> put_canon c pl | Some _ \<Rightarrow> delete_base i (put_canon c pl))
          else (case (op, ob) of
              (None, None) \<Rightarrow> upsert_base c (place synced c pl)
            | (Some p, None) \<Rightarrow>
                if canonicalize c = canonicalize p then upsert_base c (place synced c pl)
                else keep_both synced i c p pl
            | (_, Some b) \<Rightarrow>
                if tk_project c \<noteq> sb_project b then upsert_base c (place synced c pl)
                else (case op of
                    None \<Rightarrow> delete_base i pl
                  | Some p \<Rightarrow>
                      (let mine = canonicalize c; theirs = canonicalize p
                       in if mine = theirs
                          then (let pl' = place synced c pl
                                in if mine \<noteq> sb_line b then upsert_base c pl' else pl')
                          else if sb_line b = mine then upsert_base p (place synced p pl)
                          else if sb_line b = theirs then upsert_base c (place synced c pl)
                          else keep_both synced i c p pl)))
      | (None, Some p, None) \<Rightarrow> upsert_base p (place synced p pl)
      | (None, _, Some b) \<Rightarrow> delete_base i pl
      | (None, None, None) \<Rightarrow> pl)"

text \<open>\<open>sort.Strings\<close> of the keys of the three maps, without repetition.\<close>

definition all_ids :: "(bytes, task) gomap \<Rightarrow> (bytes, task) gomap \<Rightarrow> (bytes, sync_base) gomap \<Rightarrow> bytes list" where
  "all_ids canon proj base =
     stable_sort (\<lambda>a b. a < b) (remdups (map fst canon @ map fst proj @ map fst base))"

definition decide ::
  "(bytes, task) gomap \<Rightarrow> (bytes, task) gomap \<Rightarrow> (bytes, sync_base) gomap \<Rightarrow> bytes list \<Rightarrow> plan" where
  "decide canon proj base synced =
     fold (\<lambda>i. decide_id synced i (map_of canon i) (map_of proj i) (map_of base i))
       (all_ids canon proj base) empty_plan"

text \<open>\<open>CommitSyncState\<close> on the rows: the upserts, then the deletes.\<close>

definition commit_sync_state ::
  "sync_base list \<Rightarrow> bytes list \<Rightarrow> (bytes, sync_base) gomap \<Rightarrow> (bytes, sync_base) gomap" where
  "commit_sync_state ups dels base =
     fold AList.delete dels (fold (\<lambda>b. AList.update (sb_id b) b) ups base)"

section \<open>What one id gets\<close>

text \<open>
  The decision for an id, apart from the plan it is added to: nothing, drop its ancestor
  row, pass a task of an unsynced project through, settle on one version (with or without a
  new ancestor row), or keep both versions.
\<close>

datatype ruling = Ignore | Drop | Pass task bool | Settle task bool | Both task task

definition ruling_of :: "bytes list \<Rightarrow> task option \<Rightarrow> task option \<Rightarrow> sync_base option \<Rightarrow> ruling" where
  "ruling_of synced oc op ob =
     (case oc of
        Some c \<Rightarrow>
          if tk_project c \<notin> set synced then Pass c (ob \<noteq> None)
          else (case ob of
              None \<Rightarrow> (case op of
                  Some p \<Rightarrow> if canonicalize c = canonicalize p then Settle c True else Both c p
                | None \<Rightarrow> Settle c True)
            | Some b \<Rightarrow>
                if tk_project c \<noteq> sb_project b then Settle c True
                else (case op of
                    None \<Rightarrow> Drop
                  | Some p \<Rightarrow>
                      if canonicalize c = canonicalize p then Settle c (canonicalize c \<noteq> sb_line b)
                      else if sb_line b = canonicalize c then Settle p True
                      else if sb_line b = canonicalize p then Settle c True
                      else Both c p))
      | None \<Rightarrow> (case ob of Some _ \<Rightarrow> Drop | None \<Rightarrow> (case op of Some p \<Rightarrow> Settle p True | None \<Rightarrow> Ignore)))"

fun enact :: "bytes list \<Rightarrow> bytes \<Rightarrow> ruling \<Rightarrow> plan \<Rightarrow> plan" where
  "enact synced i Ignore pl = pl"
| "enact synced i Drop pl = delete_base i pl"
| "enact synced i (Pass c stale) pl = (if stale then delete_base i (put_canon c pl) else put_canon c pl)"
| "enact synced i (Settle t new) pl = (if new then upsert_base t (place synced t pl) else place synced t pl)"
| "enact synced i (Both c p) pl = keep_both synced i c p pl"

lemma decide_id_enact: "decide_id synced i oc op ob pl = enact synced i (ruling_of synced oc op ob) pl"
  unfolding decide_id_def ruling_of_def
  by (cases oc; cases op; cases ob) (simp_all add: Let_def)

fun ruled_canon :: "ruling \<Rightarrow> task list" where
  "ruled_canon (Pass c _) = [c]"
| "ruled_canon (Settle t _) = [t]"
| "ruled_canon (Both c p) = [c, tagged p]"
| "ruled_canon _ = []"

fun ruled_proj :: "bytes list \<Rightarrow> ruling \<Rightarrow> task list" where
  "ruled_proj synced (Settle t _) = filter (\<lambda>t. tk_project t \<in> set synced) [t]"
| "ruled_proj synced (Both c p) = filter (\<lambda>t. tk_project t \<in> set synced) [c, tagged p]"
| "ruled_proj synced _ = []"

fun ruled_upserts :: "ruling \<Rightarrow> sync_base list" where
  "ruled_upserts (Settle t True) = [\<lparr>sb_id = tk_id t, sb_project = tk_project t, sb_line = canonicalize t\<rparr>]"
| "ruled_upserts _ = []"

fun ruled_deletes :: "bytes \<Rightarrow> ruling \<Rightarrow> bytes list" where
  "ruled_deletes i Drop = [i]"
| "ruled_deletes i (Pass _ True) = [i]"
| "ruled_deletes i _ = []"

fun ruled_conflicts :: "bytes \<Rightarrow> ruling \<Rightarrow> conflict list" where
  "ruled_conflicts i (Both c p) = [\<lparr>cf_id = i, cf_project = tk_project c\<rparr>]"
| "ruled_conflicts i _ = []"

lemma tasks_of_Nil: "tasks_of [] p = []"
  by (simp add: tasks_of_def)

lemma tasks_of_update: "tasks_of (AList.update k ts m) p = (if p = k then ts else tasks_of m p)"
  by (simp add: tasks_of_def map_simps)

lemmas plan_ops = put_canon_def put_proj_def upsert_base_def delete_base_def place_def keep_both_def

lemma enact_parts:
  "tasks_of (pl_canon (enact synced i v pl)) p = tasks_of (pl_canon pl) p @ filter (\<lambda>t. tk_project t = p) (ruled_canon v)"
  "tasks_of (pl_proj (enact synced i v pl)) p = tasks_of (pl_proj pl) p @ filter (\<lambda>t. tk_project t = p) (ruled_proj synced v)"
  "pl_upserts (enact synced i v pl) = pl_upserts pl @ ruled_upserts v"
  "pl_deletes (enact synced i v pl) = pl_deletes pl @ ruled_deletes i v"
  "pl_conflicts (enact synced i v pl) = pl_conflicts pl @ ruled_conflicts i v"
  by (cases v; auto simp: plan_ops tasks_of_update Let_def)+

text \<open>The plan is the rulings of the ids, in the order of the ids.\<close>

definition rulings ::
  "(bytes, task) gomap \<Rightarrow> (bytes, task) gomap \<Rightarrow> (bytes, sync_base) gomap \<Rightarrow> bytes list \<Rightarrow> bytes \<Rightarrow> ruling" where
  "rulings canon proj base synced i = ruling_of synced (map_of canon i) (map_of proj i) (map_of base i)"

lemma decide_fold:
  fixes R :: "bytes \<Rightarrow> ruling" and synced :: "bytes list"
  defines "F \<equiv> fold (\<lambda>i. enact synced i (R i))"
  shows "tasks_of (pl_canon (F ids pl)) p = tasks_of (pl_canon pl) p @ filter (\<lambda>t. tk_project t = p) (concat (map (ruled_canon \<circ> R) ids))"
    and "tasks_of (pl_proj (F ids pl)) p = tasks_of (pl_proj pl) p @ filter (\<lambda>t. tk_project t = p) (concat (map (ruled_proj synced \<circ> R) ids))"
    and "pl_upserts (F ids pl) = pl_upserts pl @ concat (map (ruled_upserts \<circ> R) ids)"
    and "pl_deletes (F ids pl) = pl_deletes pl @ concat (map (\<lambda>i. ruled_deletes i (R i)) ids)"
    and "pl_conflicts (F ids pl) = pl_conflicts pl @ concat (map (\<lambda>i. ruled_conflicts i (R i)) ids)"
  unfolding F_def by (induction ids arbitrary: pl) (simp_all add: enact_parts)

lemma decide_parts:
  fixes canon proj :: "(bytes, task) gomap" and base :: "(bytes, sync_base) gomap" and synced :: "bytes list"
  defines "R \<equiv> rulings canon proj base synced" and "ids \<equiv> all_ids canon proj base"
    and "pl \<equiv> decide canon proj base synced"
  shows "tasks_of (pl_canon pl) p = filter (\<lambda>t. tk_project t = p) (concat (map (ruled_canon \<circ> R) ids))"
    and "tasks_of (pl_proj pl) p = filter (\<lambda>t. tk_project t = p) (concat (map (ruled_proj synced \<circ> R) ids))"
    and "pl_upserts pl = concat (map (ruled_upserts \<circ> R) ids)"
    and "pl_deletes pl = concat (map (\<lambda>i. ruled_deletes i (R i)) ids)"
    and "pl_conflicts pl = concat (map (\<lambda>i. ruled_conflicts i (R i)) ids)"
proof -
  have "pl = fold (\<lambda>i. enact synced i (R i)) ids empty_plan"
    unfolding pl_def decide_def ids_def R_def rulings_def by (simp add: decide_id_enact [abs_def])
  then show "tasks_of (pl_canon pl) p = filter (\<lambda>t. tk_project t = p) (concat (map (ruled_canon \<circ> R) ids))"
    "tasks_of (pl_proj pl) p = filter (\<lambda>t. tk_project t = p) (concat (map (ruled_proj synced \<circ> R) ids))"
    "pl_upserts pl = concat (map (ruled_upserts \<circ> R) ids)"
    "pl_deletes pl = concat (map (\<lambda>i. ruled_deletes i (R i)) ids)"
    "pl_conflicts pl = concat (map (\<lambda>i. ruled_conflicts i (R i)) ids)"
    by (simp_all add: decide_fold tasks_of_Nil) (simp_all add: empty_plan_def tasks_of_Nil)
qed

lemma all_ids_set: "i \<in> set (all_ids canon proj base) \<longleftrightarrow>
    map_of canon i \<noteq> None \<or> map_of proj i \<noteq> None \<or> map_of base i \<noteq> None"
  by (auto simp: all_ids_def map_of_eq_None_iff simp del: not_None_eq)

lemma all_ids_distinct: "distinct (all_ids canon proj base)"
  by (simp add: all_ids_def)

lemma rulings_ids: "i \<notin> set (all_ids canon proj base) \<Longrightarrow> rulings canon proj base synced i = Ignore"
  by (simp add: all_ids_set rulings_def ruling_of_def)

lemma planned_canon:
  "t \<in> set (tasks_of (pl_canon (decide canon proj base synced)) p) \<longleftrightarrow>
     tk_project t = p \<and> (\<exists>i. t \<in> set (ruled_canon (rulings canon proj base synced i)))"
  using rulings_ids [of _ canon proj base synced] by (auto simp: decide_parts) fastforce

lemma planned_proj:
  "t \<in> set (tasks_of (pl_proj (decide canon proj base synced)) p) \<longleftrightarrow>
     tk_project t = p \<and> (\<exists>i. t \<in> set (ruled_proj synced (rulings canon proj base synced i)))"
  using rulings_ids [of _ canon proj base synced] by (auto simp: decide_parts) fastforce

lemma planned_upserts:
  "b \<in> set (pl_upserts (decide canon proj base synced)) \<longleftrightarrow> (\<exists>i. b \<in> set (ruled_upserts (rulings canon proj base synced i)))"
  using rulings_ids [of _ canon proj base synced] by (auto simp: decide_parts) fastforce

section \<open>Against the textbook merge\<close>

text \<open>
  The textbook three-way merge of a value that either side may have changed since the
  ancestor; absence is a value too.
\<close>

datatype 'a merged = Take 'a | Clash

definition merge3 :: "'a \<Rightarrow> 'a \<Rightarrow> 'a \<Rightarrow> 'a merged" where
  "merge3 mine theirs anc =
     (if mine = theirs then Take mine else if theirs = anc then Take mine
      else if mine = anc then Take theirs else Clash)"

text \<open>The canonical lines a plan writes for an id on one side.\<close>

definition lines_for :: "(bytes, task list) gomap \<Rightarrow> bytes \<Rightarrow> bytes set" where
  "lines_for m i = {canonicalize t | t. tk_id t = i \<and> t \<in> set (tasks_of m (tk_project t))}"

text \<open>A map from ids to the tasks with these ids, and the ancestor rows likewise.\<close>

definition keyed :: "('a \<Rightarrow> bytes) \<Rightarrow> (bytes, 'a) gomap \<Rightarrow> bool" where
  "keyed key m \<longleftrightarrow> (\<forall>i x. map_of m i = Some x \<longrightarrow> key x = i)"

lemma tagged_simps [simp]: "tk_id (tagged t) = tk_id t" "tk_project (tagged t) = tk_project t"
  by (simp_all add: tagged_def)

lemma ruled_ids:
  assumes "keyed tk_id canon" "keyed tk_id proj"
  shows "t \<in> set (ruled_canon (rulings canon proj base synced i)) \<Longrightarrow> tk_id t = i"
    and "t \<in> set (ruled_proj synced (rulings canon proj base synced i)) \<Longrightarrow> tk_id t = i"
  using assms unfolding keyed_def rulings_def ruling_of_def
  by (auto split: option.splits if_splits)

lemma lines_for_canon:
  assumes "keyed tk_id canon" "keyed tk_id proj"
  shows "lines_for (pl_canon (decide canon proj base synced)) i
      = canonicalize ` set (ruled_canon (rulings canon proj base synced i))"
  using ruled_ids(1) [OF assms] unfolding lines_for_def planned_canon by blast

lemma lines_for_proj:
  assumes "keyed tk_id canon" "keyed tk_id proj"
  shows "lines_for (pl_proj (decide canon proj base synced)) i
      = canonicalize ` set (ruled_proj synced (rulings canon proj base synced i))"
  using ruled_ids(2) [OF assms] unfolding lines_for_def planned_proj by blast

lemma conflict_listed:
  "(\<exists>x \<in> set (pl_conflicts (decide canon proj base synced)). cf_id x = i) \<longleftrightarrow>
     (\<exists>c p. rulings canon proj base synced i = Both c p)"
proof -
  have c: "x \<in> set (ruled_conflicts j r) \<longleftrightarrow> (\<exists>c p. r = Both c p \<and> x = \<lparr>cf_id = j, cf_project = tk_project c\<rparr>)" for x j r
    by (cases r) auto
  show ?thesis
    using rulings_ids [of i canon proj base synced] by (auto simp: decide_parts c) force
qed


definition row_of :: "task \<Rightarrow> sync_base" where
  "row_of t = \<lparr>sb_id = tk_id t, sb_project = tk_project t, sb_line = canonicalize t\<rparr>"

lemma sample_lines:
  "canonicalize open_task = ''- [ ] a ^qi-00000001''" "canonicalize done_task = ''- [x] a ^qi-00000001''"
  using clean_task_line(1) plain_tasks_clean by (simp_all add: canonicalize_def)

definition other_task :: task where "other_task = open_task\<lparr>tk_text := ''b''\<rparr>"

lemma other_task_line: "clean_task other_task" "canonicalize other_task = ''- [ ] b ^qi-00000001''"
proof -
  have "clean_text ''b''" by (simp add: clean_text_def solid_def is_ascii_def)
  then show c: "clean_task other_task"
    using qi_id_samples by (simp add: clean_task_def other_task_def open_task_def plain_task_def)
  show "canonicalize other_task = ''- [ ] b ^qi-00000001''"
    using clean_task_line(1) [OF c]
    by (simp add: canonicalize_def task_line_def check_box_def line_body_def tagged_text_def tag_suffix_def
        opt_field_def other_task_def open_task_def plain_task_def)
qed


text \<open>The ancestor row of an id after the commit.\<close>

lemma fold_delete: "map_of (fold AList.delete ks m) i = (if i \<in> set ks then None else map_of m i)"
  by (induction ks arbitrary: m) (auto simp: map_simps)

lemma fold_upsert:
  "map_of (fold (\<lambda>b. AList.update (sb_id b) b) bs m) i
    = (case filter (\<lambda>b. sb_id b = i) bs of [] \<Rightarrow> map_of m i | xs \<Rightarrow> Some (last xs))"
  by (induction bs arbitrary: m) (auto simp: map_simps split: list.splits)

fun ruled_row :: "ruling \<Rightarrow> sync_base option \<Rightarrow> sync_base option" where
  "ruled_row (Settle t new) b = (if new then Some (row_of t) else b)"
| "ruled_row (Pass _ _) b = None"
| "ruled_row Drop b = None"
| "ruled_row _ b = b"

lemma ruled_flags:
  "ruled_upserts (Settle t new) = (if new then [row_of t] else [])"
  "ruled_deletes i (Pass c stale) = (if stale then [i] else [])"
  by (cases new; simp add: row_of_def) (cases stale; simp)

lemma upsert_of_canon: "b \<in> set (ruled_upserts v) \<Longrightarrow> \<exists>t \<in> set (ruled_canon v). b = row_of t"
  by (induction v rule: ruled_upserts.induct) (auto simp: row_of_def)

lemma filter_concat_one:
  assumes "distinct is" and "\<And>j x. x \<in> set (f j) \<Longrightarrow> P x \<Longrightarrow> j = i"
  shows "filter P (concat (map f is)) = (if i \<in> set is then filter P (f i) else [])"
  using assms(1)
proof (induction "is")
  case (Cons j js)
  have "filter P (f j) = []" if "j \<noteq> i" using assms(2) that by (auto simp: filter_empty_conv)
  with Cons show ?case by auto
qed simp

lemma committed_row:
  fixes canon proj :: "(bytes, task) gomap" and base :: "(bytes, sync_base) gomap" and synced :: "bytes list"
  assumes "keyed tk_id canon" "keyed tk_id proj"
  defines "plan \<equiv> decide canon proj base synced"
  shows "map_of (commit_sync_state (pl_upserts plan) (pl_deletes plan) base) i
     = ruled_row (rulings canon proj base synced i) (map_of base i)"
proof -
  let ?R = "rulings canon proj base synced" and ?ids = "all_ids canon proj base"
  have up: "sb_id b = j" if "b \<in> set (ruled_upserts (?R j))" for b j
    using upsert_of_canon [OF that] ruled_ids(1) [OF assms(1,2)] by (auto simp: row_of_def)
  have "filter (\<lambda>b. sb_id b = i) (pl_upserts plan) = (if i \<in> set ?ids then filter (\<lambda>b. sb_id b = i) (ruled_upserts (?R i)) else [])"
    unfolding plan_def decide_parts comp_def using up by (intro filter_concat_one all_ids_distinct) auto
  also have "\<dots> = ruled_upserts (?R i)"
    using up [of _ i] rulings_ids [of i canon proj base synced] by (auto simp: filter_id_conv)
  finally have u: "filter (\<lambda>b. sb_id b = i) (pl_upserts plan) = ruled_upserts (?R i)" .
  have d: "i \<in> set (pl_deletes plan) \<longleftrightarrow> i \<in> set (ruled_deletes i (?R i))"
  proof -
    have "j = i" if "i \<in> set (ruled_deletes j v)" for j v
      using that by (induction j v rule: ruled_deletes.induct) auto
    then show ?thesis
      using rulings_ids [of i canon proj base synced] by (auto simp: plan_def decide_parts) fastforce
  qed
  have "\<exists>b. map_of base i = Some b" if "?R i = Pass c True \<or> ?R i = Drop" for c
    using that by (auto simp: rulings_def ruling_of_def split: option.splits if_splits)
  moreover have "map_of base i = None" if "?R i = Pass c False" for c
    using that by (auto simp: rulings_def ruling_of_def split: option.splits if_splits)
  ultimately show ?thesis
    by (cases "?R i") (auto simp: commit_sync_state_def fold_delete fold_upsert u d ruled_flags)
qed

text \<open>
  A task of a project without a projection is outside sync's authority: it is planned
  for its main vault file exactly as it is, it is planned for no projection, and no ancestor
  row is written for it (a row left from earlier is removed). So no later pass can take it
  for a task deleted in its projection.
\<close>

theorem unsynced_task_untouched:
  fixes base :: "(bytes, sync_base) gomap"
  assumes "keyed tk_id canon" and "keyed tk_id proj"
    and "map_of canon i = Some c" and "tk_project c \<notin> set synced"
  defines "plan \<equiv> decide canon proj base synced"
  shows "c \<in> set (tasks_of (pl_canon plan) (tk_project c)) \<and> lines_for (pl_canon plan) i = {canonicalize c}
     \<and> lines_for (pl_proj plan) i = {}
     \<and> map_of (commit_sync_state (pl_upserts plan) (pl_deletes plan) base) i = None"
proof -
  have r: "rulings canon proj base synced i = Pass c (map_of base i \<noteq> None)"
    using assms(3,4) by (simp add: rulings_def ruling_of_def)
  have "lines_for (pl_canon plan) i = {canonicalize c}" "lines_for (pl_proj plan) i = {}"
    unfolding plan_def lines_for_canon [OF assms(1,2)] lines_for_proj [OF assms(1,2)] r by simp_all
  moreover have "c \<in> set (tasks_of (pl_canon plan) (tk_project c))"
    unfolding plan_def planned_canon using r by (intro conjI refl exI [of _ i]) simp
  moreover have "map_of (commit_sync_state (pl_upserts plan) (pl_deletes plan) base) i = None"
    unfolding plan_def committed_row [OF assms(1,2)] r by simp
  ultimately show ?thesis by simp
qed


lemma unsynced_task_untouched_witness:
  "open_task \<in> set (tasks_of (pl_canon (decide [(''qi-00000001'', open_task)] [] [] [''work''])) [])"
proof -
  have "keyed tk_id [(''qi-00000001'', open_task)]" "keyed tk_id ([] :: (bytes, task) gomap)" "tk_project open_task = []"
    by (simp_all add: keyed_def open_task_def plain_task_def)
  then show ?thesis
    using unsynced_task_untouched [where canon = "[(''qi-00000001'', open_task)]" and proj = "[]" and base = "[]"
        and i = "''qi-00000001''" and c = open_task and synced = "[''work'']"]
    by simp
qed

section \<open>Steady state\<close>

text \<open>
  Reading the tasks of files back into the map from ids: the last task with an id wins
  (\<open>canon[t.ID] = t\<close> in the gathering loop).
\<close>

definition by_id :: "task list \<Rightarrow> (bytes, task) gomap" where
  "by_id ts = fold (\<lambda>t. AList.update (tk_id t) t) ts []"

lemma by_id_lookup:
  "map_of (by_id ts) i = (case filter (\<lambda>t. tk_id t = i) ts of [] \<Rightarrow> None | xs \<Rightarrow> Some (last xs))"
proof -
  have "map_of (fold (\<lambda>t. AList.update (tk_id t) t) ts m) i
      = (case filter (\<lambda>t. tk_id t = i) ts of [] \<Rightarrow> map_of m i | xs \<Rightarrow> Some (last xs))" for m
    by (induction ts arbitrary: m) (auto simp: map_simps split: list.splits)
  from this [of "[]"] show ?thesis by (cases "filter (\<lambda>t. tk_id t = i) ts") (simp_all add: by_id_def)
qed

lemma last_filter:
  assumes "filter P ts = x # xs"
  shows "last (x # xs) \<in> set ts" "P (last (x # xs))"
proof -
  have "last (x # xs) \<in> set (filter P ts)" unfolding assms by (intro last_in_set) simp
  then show "last (x # xs) \<in> set ts" "P (last (x # xs))" by auto
qed

lemma keyed_by_id: "keyed tk_id (by_id ts)"
  unfolding keyed_def by_id_lookup
  using last_filter(2) [of "\<lambda>t. tk_id t = _" ts] by (auto split: list.splits)

lemma by_id_unique:
  assumes "\<And>x. x \<in> set ts \<Longrightarrow> tk_id x = i \<Longrightarrow> x = t"
  shows "map_of (by_id ts) i = (if t \<in> set ts \<and> tk_id t = i then Some t else None)"
proof (cases "filter (\<lambda>t. tk_id t = i) ts")
  case Nil
  then show ?thesis by (auto simp: by_id_lookup filter_empty_conv)
next
  case (Cons x xs)
  then have "last (x # xs) = t" "t \<in> set ts \<and> tk_id t = i"
    using assms last_filter [OF Cons] by auto
  then show ?thesis using Cons by (simp add: by_id_lookup)
qed

definition all_tasks :: "(bytes, task list) gomap \<Rightarrow> task list" where
  "all_tasks m = concat (map snd m)"

lemma wf_plan: "wf_map (pl_canon (decide canon proj base synced)) \<and> wf_map (pl_proj (decide canon proj base synced))"
proof -
  have e: "wf_map (pl_canon pl) \<and> wf_map (pl_proj pl)
      \<Longrightarrow> wf_map (pl_canon (enact synced i v pl)) \<and> wf_map (pl_proj (enact synced i v pl))" for i v pl
    by (cases v) (auto simp: plan_ops Let_def)
  have "wf_map (pl_canon pl) \<and> wf_map (pl_proj pl) \<Longrightarrow>
      wf_map (pl_canon (fold (\<lambda>i. enact synced i (R i)) ids pl)) \<and> wf_map (pl_proj (fold (\<lambda>i. enact synced i (R i)) ids pl))"
    for ids R pl
    by (induction ids arbitrary: pl) (auto simp: e)
  then show ?thesis
    by (simp add: decide_def decide_id_enact [abs_def] empty_plan_def)
qed

lemma set_all_tasks: "wf_map m \<Longrightarrow> t \<in> set (all_tasks m) \<longleftrightarrow> (\<exists>p. t \<in> set (tasks_of m p))"
proof -
  assume w: "wf_map m"
  have "t \<in> set (all_tasks m) \<longleftrightarrow> (\<exists>p ts. map_of m p = Some ts \<and> t \<in> set ts)"
    by (auto simp: all_tasks_def wf_map_Some_iff [OF w] Bex_def)
  moreover have "t \<in> set (tasks_of m p) \<longleftrightarrow> (\<exists>ts. map_of m p = Some ts \<and> t \<in> set ts)" for p
    by (cases "map_of m p") (simp_all add: tasks_of_def)
  ultimately show ?thesis by simp
qed

lemma next_maps:
  fixes canon proj :: "(bytes, task) gomap" and base :: "(bytes, sync_base) gomap" and synced :: "bytes list"
  assumes k: "keyed tk_id canon" "keyed tk_id proj"
  defines "plan \<equiv> decide canon proj base synced" and "R \<equiv> rulings canon proj base synced"
  assumes nb: "\<forall>c p. R i \<noteq> Both c p"
  shows "map_of (by_id (all_tasks (pl_canon plan))) i = (case ruled_canon (R i) of [] \<Rightarrow> None | t # _ \<Rightarrow> Some t)"
    and "map_of (by_id (all_tasks (pl_proj plan))) i = (case ruled_proj synced (R i) of [] \<Rightarrow> None | t # _ \<Rightarrow> Some t)"
proof -
  have c: "t \<in> set (all_tasks (pl_canon plan)) \<and> tk_id t = i \<longleftrightarrow> t \<in> set (ruled_canon (R i))" for t
    using ruled_ids(1) [OF k] wf_plan [of canon proj base synced]
    unfolding plan_def R_def by (auto simp: set_all_tasks planned_canon)
  have p: "t \<in> set (all_tasks (pl_proj plan)) \<and> tk_id t = i \<longleftrightarrow> t \<in> set (ruled_proj synced (R i))" for t
    using ruled_ids(2) [OF k] wf_plan [of canon proj base synced]
    unfolding plan_def R_def by (auto simp: set_all_tasks planned_proj)
  have one: "(case xs of [] \<Rightarrow> None | t # _ \<Rightarrow> Some t) = map_of (by_id ts) i"
    if "\<And>t. t \<in> set ts \<and> tk_id t = i \<longleftrightarrow> t \<in> set xs" "length xs \<le> 1" for xs ts
  proof (cases xs)
    case Nil
    then show ?thesis using that by (auto simp: by_id_lookup filter_empty_conv)
  next
    case (Cons t ys)
    with that show ?thesis by (subst by_id_unique [of ts i t]) auto
  qed
  have l: "length (ruled_canon (R i)) \<le> 1" "length (ruled_proj synced (R i)) \<le> 1" using nb by (cases "R i"; simp)+
  show "map_of (by_id (all_tasks (pl_canon plan))) i = (case ruled_canon (R i) of [] \<Rightarrow> None | t # _ \<Rightarrow> Some t)"
    using one [OF c l(1)] by simp
  show "map_of (by_id (all_tasks (pl_proj plan))) i = (case ruled_proj synced (R i) of [] \<Rightarrow> None | t # _ \<Rightarrow> Some t)"
    using one [OF p l(2)] by simp
qed

text \<open>What the same id gets in the next pass.\<close>

fun settled :: "ruling \<Rightarrow> ruling" where
  "settled Drop = Ignore"
| "settled (Pass c _) = Pass c False"
| "settled (Settle t _) = Settle t False"
| "settled v = v"

lemma next_ruling:
  fixes canon proj :: "(bytes, task) gomap" and base :: "(bytes, sync_base) gomap" and synced :: "bytes list"
  assumes k: "keyed tk_id canon" "keyed tk_id proj"
    and p: "\<forall>p. map_of proj i = Some p \<longrightarrow> tk_project p \<in> set synced"
  defines "plan \<equiv> decide canon proj base synced" and "R \<equiv> rulings canon proj base synced"
  assumes nb: "\<forall>c p. R i \<noteq> Both c p"
  shows "rulings (by_id (all_tasks (pl_canon plan))) (by_id (all_tasks (pl_proj plan)))
      (commit_sync_state (pl_upserts plan) (pl_deletes plan) base) synced i = settled (R i)"
proof -
  note m = next_maps [OF k nb [unfolded R_def]] committed_row [OF k, of base synced i]
  show ?thesis
  proof (cases "R i")
    case (Settle t new)
    have "tk_project t \<in> set synced"
      using Settle p unfolding R_def rulings_def ruling_of_def by (auto split: option.splits if_splits)
    moreover have "\<exists>b. map_of base i = Some b \<and> sb_line b = canonicalize t \<and> sb_project b = tk_project t" if "\<not> new"
      using Settle that unfolding R_def rulings_def ruling_of_def by (auto split: option.splits if_splits)
    ultimately show ?thesis
      using Settle unfolding plan_def R_def
      by (subst rulings_def) (auto simp: m ruling_of_def row_of_def)
  next
    case (Pass c stale)
    have "tk_project c \<notin> set synced"
      using Pass unfolding R_def rulings_def ruling_of_def by (auto split: option.splits if_splits)
    then show ?thesis
      using Pass unfolding plan_def R_def by (subst rulings_def) (auto simp: m ruling_of_def)
  next
    case Ignore
    then have "map_of base i = None"
      unfolding R_def rulings_def ruling_of_def by (auto split: option.splits if_splits)
    with Ignore show ?thesis
      unfolding plan_def R_def by (subst rulings_def) (auto simp: m ruling_of_def)
  next
    case Drop
    then show ?thesis unfolding plan_def R_def by (subst rulings_def) (auto simp: m ruling_of_def)
  next
    case (Both c p)
    then show ?thesis using nb by simp
  qed
qed

lemma decide_quiet:
  assumes "\<And>i. ruled_upserts (rulings canon proj base synced i) = [] \<and> ruled_deletes i (rulings canon proj base synced i) = []
      \<and> ruled_conflicts i (rulings canon proj base synced i) = []"
  shows "pl_upserts (decide canon proj base synced) = [] \<and> pl_deletes (decide canon proj base synced) = []
      \<and> pl_conflicts (decide canon proj base synced) = []"
  using assms by (simp add: decide_parts)

text \<open>
  C16. Sync settles in one pass. If a pass has no conflict, then the next pass over what the
  first one planned, with the ancestor rows it committed and no edit in between, plans
  exactly the same tasks for every file, changes no ancestor row and reports no conflict.
\<close>

theorem sync_settles:
  fixes canon proj :: "(bytes, task) gomap" and base :: "(bytes, sync_base) gomap" and synced :: "bytes list"
  assumes "keyed tk_id canon" and "keyed tk_id proj"
    and "\<forall>i p. map_of proj i = Some p \<longrightarrow> tk_project p \<in> set synced"
  defines "plan \<equiv> decide canon proj base synced"
  defines "again \<equiv> decide (by_id (all_tasks (pl_canon plan))) (by_id (all_tasks (pl_proj plan)))
      (commit_sync_state (pl_upserts plan) (pl_deletes plan) base) synced"
  assumes "pl_conflicts plan = []"
  shows "pl_upserts again = [] \<and> pl_deletes again = [] \<and> pl_conflicts again = []
     \<and> (\<forall>p. set (tasks_of (pl_canon again) p) = set (tasks_of (pl_canon plan) p)
          \<and> set (tasks_of (pl_proj again) p) = set (tasks_of (pl_proj plan) p))"
proof -
  let ?R = "rulings canon proj base synced"
  have nb: "\<forall>c p. ?R i \<noteq> Both c p" for i
    using conflict_listed [of canon proj base synced i] assms(6) unfolding plan_def by auto
  have r: "rulings (by_id (all_tasks (pl_canon plan))) (by_id (all_tasks (pl_proj plan)))
      (commit_sync_state (pl_upserts plan) (pl_deletes plan) base) synced i = settled (?R i)" for i
    unfolding plan_def using assms(3) by (intro next_ruling assms(1,2) nb) simp
  have q: "ruled_upserts (settled (?R i)) = []" "ruled_deletes i (settled (?R i)) = []"
      "ruled_conflicts i (settled (?R i)) = []"
      "ruled_canon (settled (?R i)) = ruled_canon (?R i)" "ruled_proj synced (settled (?R i)) = ruled_proj synced (?R i)"
    for i using nb [of i] by (cases "?R i"; simp)+
  note r = r [unfolded plan_def]
  have "pl_upserts again = [] \<and> pl_deletes again = [] \<and> pl_conflicts again = []"
    unfolding again_def plan_def by (intro decide_quiet) (simp only: r q)
  moreover have "set (tasks_of (pl_canon again) p) = set (tasks_of (pl_canon plan) p)" for p
    unfolding again_def plan_def by (intro set_eqI) (simp only: planned_canon r q)
  moreover have "set (tasks_of (pl_proj again) p) = set (tasks_of (pl_proj plan) p)" for p
    unfolding again_def plan_def by (intro set_eqI) (simp only: planned_proj r q)
  ultimately show ?thesis by blast
qed

definition sample_plan :: plan where
  "sample_plan = decide [(''qi-00000001'', open_task)] [] [] [[]]"

lemma sync_settles_witness:
  "pl_upserts (decide (by_id (all_tasks (pl_canon sample_plan))) (by_id (all_tasks (pl_proj sample_plan)))
     (commit_sync_state (pl_upserts sample_plan) (pl_deletes sample_plan) []) [[]]) = []"
proof -
  have k: "keyed tk_id [(''qi-00000001'', open_task)]" "keyed tk_id ([] :: (bytes, task) gomap)"
    by (simp_all add: keyed_def open_task_def plain_task_def)
  have "rulings [(''qi-00000001'', open_task)] [] [] [[]] ''qi-00000001'' = Settle open_task True"
    by (simp add: rulings_def ruling_of_def open_task_def plain_task_def)
  then have "pl_conflicts (decide [(''qi-00000001'', open_task)] [] [] [[]]) = []"
    by (simp add: decide_parts all_ids_def)
  from sync_settles [OF k _ this] show ?thesis by (simp add: sample_plan_def)
qed

section \<open>What becomes of a conflict\<close>

lemma filter_all_tasks:
  assumes "wf_map m" and "\<And>p t. t \<in> set (tasks_of m p) \<Longrightarrow> P t \<Longrightarrow> p = q"
  shows "filter P (all_tasks m) = filter P (tasks_of m q)"
proof -
  have d: "distinct m" using assms(1) by (simp add: wf_map_def distinct_map)
  have t: "tasks_of m (fst x) = snd x" if "x \<in> set m" for x
    using map_of_set_eq [OF assms(1), of "fst x" "snd x"] that by (simp add: tasks_of_def)
  have "filter P (concat (map snd xs)) = (if (q, tasks_of m q) \<in> set xs then filter P (tasks_of m q) else [])"
    if "set xs \<subseteq> set m" "distinct xs" for xs
    using that
  proof (induction xs)
    case (Cons x xs)
    show ?case
    proof (cases "fst x = q")
      case True
      then have x: "x = (q, tasks_of m q)" using t [of x] Cons.prems by (cases x) auto
      then have "filter P (concat (map snd xs)) = []" using Cons by simp
      with x show ?thesis by simp
    next
      case False
      then have "filter P (snd x) = []"
        using assms(2) [of _ "fst x"] t [of x] Cons.prems by (auto simp: filter_empty_conv)
      with False Cons show ?thesis by auto
    qed
  qed simp
  from this [of m] d have f: "filter P (all_tasks m) = (if (q, tasks_of m q) \<in> set m then filter P (tasks_of m q) else [])"
    by (simp add: all_tasks_def)
  show ?thesis
  proof (cases "(q, tasks_of m q) \<in> set m")
    case False
    then have "tasks_of m q = []"
      by (cases "map_of m q") (auto simp: tasks_of_def dest: map_of_SomeD)
    with f False show ?thesis by simp
  qed (simp add: f)
qed

lemma both_next:
  fixes canon proj :: "(bytes, task) gomap" and base :: "(bytes, sync_base) gomap" and synced :: "bytes list"
  assumes k: "keyed tk_id canon" "keyed tk_id proj"
  defines "plan \<equiv> decide canon proj base synced"
  assumes r: "rulings canon proj base synced i = Both c p" and q: "tk_project p = tk_project c" "tk_project c \<in> set synced"
  shows "map_of (by_id (all_tasks (pl_canon plan))) i = Some (tagged p)"
    and "map_of (by_id (all_tasks (pl_proj plan))) i = Some (tagged p)"
proof -
  let ?q = "tk_project c" and ?P = "\<lambda>t. tk_id t = i"
  note ids = ruled_ids [OF k, where base = base and synced = synced]
  have i: "i \<in> set (all_ids canon proj base)" using rulings_ids [of i canon proj base synced] r by auto
  have own: "j = i" if "t \<in> set (ruled_canon (rulings canon proj base synced j))" "tk_id t = i" for t j
    using ids(1) [OF that(1)] that(2) by simp
  have own': "j = i" if "t \<in> set (ruled_proj synced (rulings canon proj base synced j))" "tk_id t = i" for t j
    using ids(2) [OF that(1)] that(2) by simp
  have "tk_id c = i" "tk_id (tagged p) = i" by (rule ids(1), simp add: r)+
  then have id: "tk_id c = i" "tk_id p = i" by simp_all
  have w: "wf_map (pl_canon plan)" "wf_map (pl_proj plan)" using wf_plan unfolding plan_def by auto
  have oc: "x = ?q" if t: "t \<in> set (tasks_of (pl_canon plan) x)" "?P t" for t x
  proof -
    obtain j where "t \<in> set (ruled_canon (rulings canon proj base synced j))" "tk_project t = x"
      using t(1) unfolding plan_def planned_canon by blast
    with own [OF this(1) t(2)] r q show ?thesis by auto
  qed
  have op: "x = ?q" if t: "t \<in> set (tasks_of (pl_proj plan) x)" "?P t" for t x
  proof -
    obtain j where "t \<in> set (ruled_proj synced (rulings canon proj base synced j))" "tk_project t = x"
      using t(1) unfolding plan_def planned_proj by blast
    with own' [OF this(1) t(2)] r q show ?thesis by (auto split: if_splits)
  qed
  have f: "filter ?P (filter (\<lambda>t. tk_project t = ?q) xs) = filter (\<lambda>t. tk_project t = ?q) (filter ?P xs)" for xs
    by (simp add: conj_commute)
  have "filter ?P (concat (map (\<lambda>j. ruled_canon (rulings canon proj base synced j)) (all_ids canon proj base)))
      = filter ?P (ruled_canon (rulings canon proj base synced i))"
    using i own by (subst filter_concat_one [where i = i]) (simp_all add: all_ids_distinct)
  then have "filter ?P (tasks_of (pl_canon plan) ?q) = [c, tagged p]"
    unfolding plan_def decide_parts f by (simp add: comp_def r id q)
  then show "map_of (by_id (all_tasks (pl_canon plan))) i = Some (tagged p)"
    using filter_all_tasks [OF w(1) oc] by (simp add: by_id_lookup)
  have "filter ?P (concat (map (\<lambda>j. ruled_proj synced (rulings canon proj base synced j)) (all_ids canon proj base)))
      = filter ?P (ruled_proj synced (rulings canon proj base synced i))"
    using i own' by (subst filter_concat_one [where i = i]) (simp_all add: all_ids_distinct)
  then have "filter ?P (tasks_of (pl_proj plan) ?q) = [c, tagged p]"
    unfolding plan_def decide_parts f by (simp add: comp_def r id q)
  then show "map_of (by_id (all_tasks (pl_proj plan))) i = Some (tagged p)"
    using filter_all_tasks [OF w(2) op] by (simp add: by_id_lookup)
qed

text \<open>
  A conflict is kept for one pass only. When both sides have edited a task, the pass
  plans both versions; but they share their id, and reading the files back keeps the last
  line of an id. So the next pass, with no edit in between, sees only the tagged version of
  the projection on both sides, plans that alone, and reports no conflict: the edit made in
  the main vault is gone from every file.
\<close>

theorem conflict_lasts_one_pass:
  fixes canon proj :: "(bytes, task) gomap" and base :: "(bytes, sync_base) gomap" and synced :: "bytes list"
  assumes "keyed tk_id canon" and "keyed tk_id proj"
    and "map_of canon i = Some c" and "map_of proj i = Some p"
    and "tk_project p = tk_project c" and "tk_project c \<in> set synced"
    and "canonicalize c \<noteq> canonicalize p"
    and "\<forall>b. map_of base i = Some b \<longrightarrow> sb_project b = tk_project c \<and> sb_line b \<notin> {canonicalize c, canonicalize p}"
  defines "plan \<equiv> decide canon proj base synced"
  defines "again \<equiv> decide (by_id (all_tasks (pl_canon plan))) (by_id (all_tasks (pl_proj plan)))
      (commit_sync_state (pl_upserts plan) (pl_deletes plan) base) synced"
  shows "lines_for (pl_canon plan) i = {canonicalize c, canonicalize (tagged p)}
     \<and> lines_for (pl_canon again) i = {canonicalize (tagged p)}
     \<and> lines_for (pl_proj again) i = {canonicalize (tagged p)}
     \<and> (\<forall>x \<in> set (pl_conflicts again). cf_id x \<noteq> i)"
proof -
  have r: "rulings canon proj base synced i = Both c p"
    using assms(3-8) by (cases "map_of base i") (auto simp: rulings_def ruling_of_def)
  note n = both_next [OF assms(1,2) r assms(5,6), folded plan_def]
  have b: "map_of (commit_sync_state (pl_upserts plan) (pl_deletes plan) base) i = map_of base i"
    unfolding plan_def committed_row [OF assms(1,2)] r by simp
  have "\<exists>new. rulings (by_id (all_tasks (pl_canon plan))) (by_id (all_tasks (pl_proj plan)))
      (commit_sync_state (pl_upserts plan) (pl_deletes plan) base) synced i = Settle (tagged p) new"
    using assms(5,6,8) by (cases "map_of base i") (auto simp: rulings_def ruling_of_def n b)
  then obtain new where r2: "rulings (by_id (all_tasks (pl_canon plan))) (by_id (all_tasks (pl_proj plan)))
      (commit_sync_state (pl_upserts plan) (pl_deletes plan) base) synced i = Settle (tagged p) new" ..
  have "lines_for (pl_canon plan) i = {canonicalize c, canonicalize (tagged p)}"
    unfolding plan_def lines_for_canon [OF assms(1,2)] r by simp
  moreover have "lines_for (pl_canon again) i = {canonicalize (tagged p)}"
    unfolding again_def lines_for_canon [OF keyed_by_id keyed_by_id] r2 by simp
  moreover have "lines_for (pl_proj again) i = {canonicalize (tagged p)}"
    unfolding again_def lines_for_proj [OF keyed_by_id keyed_by_id] r2 using assms(5,6) by simp
  moreover have "\<not> (\<exists>x \<in> set (pl_conflicts again). cf_id x = i)"
    unfolding again_def conflict_listed r2 by simp
  ultimately show ?thesis by blast
qed

definition sample_conflict :: plan where
  "sample_conflict = decide [(''qi-00000001'', done_task)] [(''qi-00000001'', other_task)]
     [(''qi-00000001'', row_of open_task)] [[]]"

lemma conflict_lasts_one_pass_witness:
  "lines_for (pl_canon sample_conflict) ''qi-00000001'' = {canonicalize done_task, canonicalize (tagged other_task)}
   \<and> lines_for (pl_canon (decide (by_id (all_tasks (pl_canon sample_conflict))) (by_id (all_tasks (pl_proj sample_conflict)))
       (commit_sync_state (pl_upserts sample_conflict) (pl_deletes sample_conflict) [(''qi-00000001'', row_of open_task)]) [[]]))
     ''qi-00000001'' = {canonicalize (tagged other_task)}"
proof -
  have k: "keyed tk_id [(''qi-00000001'', done_task)]" "keyed tk_id [(''qi-00000001'', other_task)]"
    by (simp_all add: keyed_def done_task_def other_task_def open_task_def plain_task_def)
  have p: "tk_project done_task = []" "tk_project other_task = []" "tk_project open_task = []"
    by (simp_all add: done_task_def other_task_def open_task_def plain_task_def)
  let ?i = "''qi-00000001''" and ?b = "[(''qi-00000001'', row_of open_task)]"
  have "map_of [(?i, done_task)] ?i = Some done_task" "map_of [(?i, other_task)] ?i = Some other_task"
    "tk_project other_task = tk_project done_task" "tk_project done_task \<in> set [[]]"
    "canonicalize done_task \<noteq> canonicalize other_task"
    "\<forall>b. map_of ?b ?i = Some b \<longrightarrow> sb_project b = tk_project done_task \<and> sb_line b \<notin> {canonicalize done_task, canonicalize other_task}"
    by (simp_all add: p row_of_def sample_lines other_task_line)
  from conflict_lasts_one_pass [OF k this, folded sample_conflict_def] show ?thesis by blast
qed

end
