(* ===== verification/SyncRun.thy ===== *)
theory SyncRun
  imports SyncEngine
begin

text \<open>
  One reconcile (\<open>internal/sync/reconcile.go\<close>, \<open>render.go\<close>, \<open>internal/vault/guarded.go\<close>):
  gather the files, decide, render, write behind the guard, commit the ancestor rows last.

  The disk is a map from paths to files; a path is not cleaned, so the tasks directory is
  given without a trailing slash. Everything outside qi is a parameter of a pass: what other
  programs do to the disk before each file is compared and before it is written, faults of
  the writes and of the database, the clock of the writes, and the supply of minted ids.
\<close>

section \<open>Rendering\<close>

definition prior_pos :: "task list \<Rightarrow> bytes \<Rightarrow> nat option" where
  "prior_pos prior i = (if i = [] then None else map_of (zip (map tk_id prior) [0..<length prior]) i)"

text \<open>Duplicate lines collapse, and lines that do not format are dropped.\<close>

fun first_lines :: "bytes list \<Rightarrow> task list \<Rightarrow> task list" where
  "first_lines seen [] = []"
| "first_lines seen (t # ts) =
     (let line = canonicalize t in
      if line = [] \<or> line \<in> set seen then first_lines seen ts else t # first_lines (line # seen) ts)"

definition file_order :: "task list \<Rightarrow> task \<Rightarrow> task \<Rightarrow> bool" where
  "file_order prior a b =
     (case (prior_pos prior (tk_id a), prior_pos prior (tk_id b)) of
        (Some x, Some y) \<Rightarrow> x < y
      | (Some _, None) \<Rightarrow> True
      | (None, Some _) \<Rightarrow> False
      | (None, None) \<Rightarrow> canonicalize a < canonicalize b)"

definition ordered_tasks :: "task list \<Rightarrow> task list \<Rightarrow> task list" where
  "ordered_tasks prior desired = stable_sort (file_order prior) (first_lines [] desired)"

definition render_file :: "task list \<Rightarrow> task list \<Rightarrow> bytes \<times> nat" where
  "render_file prior desired =
     (let ts = ordered_tasks prior desired
      in (concat (map (\<lambda>t. canonicalize t @ [newline]) ts), length ts))"

definition line_delta :: "task list \<Rightarrow> task list \<Rightarrow> nat \<times> nat" where
  "line_delta prior desired =
     (let ps = map canonicalize prior; ds = filter (\<lambda>l. l \<noteq> []) (map canonicalize desired)
      in (sum_list (map (\<lambda>l. count_list ds l - count_list ps l) (remdups ds)),
          sum_list (map (\<lambda>l. count_list ps l - count_list ds l) (remdups ps))))"

section \<open>Files\<close>

record disk_file =
  f_content :: bytes
  f_mtime :: instant

type_synonym disk = "(bytes, disk_file) gomap"

definition ErrConcurrentModification :: go_error where
  "ErrConcurrentModification = new_error ''vault: file modified concurrently since read''"

definition read_file_mtime :: "disk \<Rightarrow> bytes \<Rightarrow> instant" where
  "read_file_mtime d p = (case map_of d p of None \<Rightarrow> zero_time | Some f \<Rightarrow> f_mtime f)"

definition read_file_bytes :: "disk \<Rightarrow> bytes \<Rightarrow> bytes" where
  "read_file_bytes d p = (case map_of d p of None \<Rightarrow> [] | Some f \<Rightarrow> f_content f)"

definition needs_write :: "disk \<Rightarrow> bytes \<Rightarrow> bytes \<Rightarrow> bool" where
  "needs_write d p content = (read_file_bytes d p \<noteq> content)"

text \<open>The write at \<open>now\<close>, which may fail with a fault of the file system.\<close>

definition write_guarded ::
  "instant \<Rightarrow> go_error option \<Rightarrow> bytes \<Rightarrow> bytes \<Rightarrow> instant \<Rightarrow> disk \<Rightarrow> disk \<times> go_error option" where
  "write_guarded now fault p content expected d =
     (if read_file_mtime d p \<noteq> expected then (d, Some ErrConcurrentModification)
      else (case fault of
          Some e \<Rightarrow> (d, Some e)
        | None \<Rightarrow> (AList.update p \<lparr>f_content = content, f_mtime = now\<rparr> d, None)))"

section \<open>Gathering\<close>

record project_config =
  pc_project :: bytes
  pc_file :: bytes

record file_state =
  fs_mtime :: instant
  fs_tasks :: "task list"

definition is_sync_conflict :: "bytes \<Rightarrow> bool" where
  "is_sync_conflict name =
     (let l = to_lower name in contains l ''sync-conflict'' \<or> contains l ''conflicted copy'')"

definition flatten_project :: "bytes \<Rightarrow> bytes" where
  "flatten_project p = (if p = [] then ''inbox'' else replace_all ''/'' ''-'' p)"

definition read_file_state :: "disk \<Rightarrow> bytes \<Rightarrow> go_error + file_state" where
  "read_file_state d p =
     (case map_of d p of
        None \<Rightarrow> Inr \<lparr>fs_mtime = read_file_mtime d p, fs_tasks = []\<rparr>
      | Some f \<Rightarrow>
          (case read_tasks p (f_content f) of
             Inl e \<Rightarrow> Inl (wrap_error (''read '' @ p @ '': '') e)
           | Inr ts \<Rightarrow> Inr \<lparr>fs_mtime = read_file_mtime d p, fs_tasks = ts\<rparr>))"

text \<open>The names of the files in a directory, in the order of \<open>os.ReadDir\<close>.\<close>

definition dir_names :: "bytes \<Rightarrow> disk \<Rightarrow> bytes list" where
  "dir_names dir d =
     stable_sort (\<lambda>a b. a < b)
       (filter (\<lambda>n. n \<noteq> [] \<and> CHR ''/'' \<notin> set n)
          (map (\<lambda>p. drop (length dir + 1) p) (filter (\<lambda>p. has_prefix p (dir @ ''/'')) (map fst d))))"

fun gather :: "disk \<Rightarrow> bytes list \<Rightarrow> (bytes, file_state) gomap \<Rightarrow> go_error + (bytes, file_state) gomap" where
  "gather d [] acc = Inr acc"
| "gather d (p # ps) acc =
     (case read_file_state d p of Inl e \<Rightarrow> Inl e | Inr fs \<Rightarrow> gather d ps (AList.update p fs acc))"

definition canon_path :: "bytes \<Rightarrow> bytes \<Rightarrow> bytes" where
  "canon_path dir name = dir @ ''/'' @ name"

definition gather_canon_files :: "bytes \<Rightarrow> disk \<Rightarrow> go_error + (bytes, file_state) gomap" where
  "gather_canon_files dir d =
     gather d (map (canon_path dir)
       (filter (\<lambda>n. has_suffix n ''.md'' \<and> \<not> is_sync_conflict n) (dir_names dir d))) []"

definition base_name :: "bytes \<Rightarrow> bytes" where
  "base_name p = last (split_on (CHR ''/'') p)"

definition gather_projection_files :: "project_config list \<Rightarrow> disk \<Rightarrow> go_error + (bytes, file_state) gomap" where
  "gather_projection_files vs d =
     gather d (map pc_file (filter (\<lambda>v. \<not> is_sync_conflict (base_name (pc_file v))) vs)) []"

definition force_project :: "bytes \<Rightarrow> task \<Rightarrow> task" where
  "force_project p t = t\<lparr>tk_project := p, tk_tags := p # filter (\<lambda>g. g \<noteq> p) (tk_tags t)\<rparr>"

text \<open>Lines without an id take the next minted one.\<close>

fun mint_ids :: "bytes \<Rightarrow> task list \<Rightarrow> bytes list \<Rightarrow> task list \<times> bytes list" where
  "mint_ids p [] ms = ([], ms)"
| "mint_ids p (t # ts) ms =
     (let (i, ms') = (if tk_id t = [] then (hd ms, tl ms) else (tk_id t, ms));
          (us, ms'') = mint_ids p ts ms'
      in (force_project p (t\<lparr>tk_id := i\<rparr>) # us, ms''))"

definition tasks_at :: "(bytes, file_state) gomap \<Rightarrow> bytes \<Rightarrow> task list" where
  "tasks_at m p = (case map_of m p of None \<Rightarrow> [] | Some fs \<Rightarrow> fs_tasks fs)"

fun projected_tasks :: "(bytes, file_state) gomap \<Rightarrow> project_config list \<Rightarrow> bytes list \<Rightarrow> task list \<times> bytes list" where
  "projected_tasks files [] ms = ([], ms)"
| "projected_tasks files (v # vs) ms =
     (let (ts, ms') = mint_ids (pc_project v) (tasks_at files (pc_file v)) ms;
          (us, ms'') = projected_tasks files vs ms'
      in (ts @ us, ms''))"

section \<open>Targets\<close>

record target =
  tg_mtime :: instant
  tg_content :: bytes
  tg_added :: nat
  tg_removed :: nat
  tg_total :: nat

definition append_tasks :: "bytes \<Rightarrow> task list \<Rightarrow> (bytes, task list) gomap \<Rightarrow> (bytes, task list) gomap" where
  "append_tasks p ts m = AList.update p (tasks_of m p @ ts) m"

definition proj_file_for :: "project_config list \<Rightarrow> (bytes, bytes) gomap" where
  "proj_file_for vs = fold (\<lambda>v. AList.update (pc_project v) (pc_file v)) vs []"

definition render_targets ::
  "bytes \<Rightarrow> project_config list \<Rightarrow> plan \<Rightarrow> (bytes, task list) gomap \<times> (bytes, task list) gomap" where
  "render_targets dir vs plan =
     (fold (\<lambda>(p, ts). append_tasks (canon_path dir (flatten_project p @ ''.md'')) ts) (pl_canon plan) [],
      fold (\<lambda>(p, ts) m. case map_of (proj_file_for vs) p of None \<Rightarrow> m | Some path \<Rightarrow> append_tasks path ts m)
        (pl_proj plan) [])"

definition add_target ::
  "bytes \<Rightarrow> instant \<Rightarrow> task list \<Rightarrow> task list \<Rightarrow> (bytes, target) gomap \<Rightarrow> (bytes, target) gomap" where
  "add_target p mtime prior desired known =
     (case (render_file prior desired, line_delta prior desired) of ((content, n), (added, removed)) \<Rightarrow>
        AList.update p \<lparr>tg_mtime = mtime, tg_content = content, tg_added = added,
          tg_removed = removed, tg_total = n\<rparr> known)"

text \<open>The files that were read, then the planned ones that had no file.\<close>

definition add_read_targets ::
  "(bytes, file_state) gomap \<Rightarrow> (bytes, task list) gomap \<Rightarrow> (bytes, target) gomap \<Rightarrow> (bytes, target) gomap" where
  "add_read_targets files by_path known =
     fold (\<lambda>(p, fs). add_target p (fs_mtime fs) (fs_tasks fs) (tasks_of by_path p)) files known"

definition add_new_targets ::
  "(bytes, task list) gomap \<Rightarrow> (bytes, target) gomap \<Rightarrow> (bytes, target) gomap" where
  "add_new_targets by_path known =
     fold (\<lambda>(p, ts) k. if map_of k p \<noteq> None then k else add_target p zero_time [] ts k) by_path known"

definition all_targets ::
  "(bytes, file_state) gomap \<Rightarrow> (bytes, file_state) gomap \<Rightarrow> (bytes, task list) gomap \<Rightarrow> (bytes, task list) gomap
   \<Rightarrow> (bytes, target) gomap" where
  "all_targets canon_files proj_files canon_by_path proj_by_path =
     add_new_targets proj_by_path (add_read_targets proj_files proj_by_path
       (add_new_targets canon_by_path (add_read_targets canon_files canon_by_path [])))"

section \<open>One pass\<close>

record file_change =
  fc_added :: nat
  fc_removed :: nat
  fc_total :: nat

record sync_report =
  rp_files :: "(bytes, file_change) gomap"
  rp_conflicts :: "conflict list"
  rp_skipped :: "bytes list"
  rp_dry_run :: bool

definition change_of :: "target \<Rightarrow> file_change" where
  "change_of t = \<lparr>fc_added = tg_added t, fc_removed = tg_removed t, fc_total = tg_total t\<rparr>"

text \<open>
  What surrounds a pass: other programs change the disk before a file is compared
  (\<open>en_check\<close>) and again before it is written (\<open>en_write\<close>); writes and the database fail.
\<close>

record sync_env =
  en_check :: "bytes \<Rightarrow> disk \<Rightarrow> disk"
  en_write :: "bytes \<Rightarrow> disk \<Rightarrow> disk"
  en_now :: "bytes \<Rightarrow> instant"
  en_fault :: "bytes \<Rightarrow> go_error option"
  en_load :: "go_error option"
  en_commit :: "go_error option"

datatype write_end = Wrote_all | Raced bytes | Write_failed go_error

fun write_targets ::
  "sync_env \<Rightarrow> (bytes \<times> target) list \<Rightarrow> disk \<Rightarrow> (bytes, file_change) gomap
   \<Rightarrow> disk \<times> (bytes, file_change) gomap \<times> write_end" where
  "write_targets env [] d changes = (d, changes, Wrote_all)"
| "write_targets env ((p, t) # ts) d changes =
     (let d1 = en_check env p d in
      if \<not> needs_write d1 p (tg_content t) then write_targets env ts d1 changes
      else
        (case write_guarded (en_now env p) (en_fault env p) p (tg_content t) (tg_mtime t) (en_write env p d1) of
           (d2, None) \<Rightarrow> write_targets env ts d2 (AList.update p (change_of t) changes)
         | (d2, Some e) \<Rightarrow>
             if e = ErrConcurrentModification then (d2, changes, Raced p)
             else (d2, changes, Write_failed (wrap_error (''write '' @ p @ '': '') e))))"

text \<open>The state a pass changes: the disk, the ancestor table, and the ids still to be minted.\<close>

record sync_state =
  ss_disk :: disk
  ss_base :: "(bytes, sync_base) gomap"
  ss_mint :: "bytes list"

datatype pass_end = Pass_failed go_error | Pass_retry sync_report | Pass_done sync_report

definition dry_changes :: "(bytes, target) gomap \<Rightarrow> (bytes, file_change) gomap" where
  "dry_changes known =
     map (\<lambda>(p, t). (p, change_of t)) (filter (\<lambda>(_, t). tg_added t \<noteq> 0 \<or> tg_removed t \<noteq> 0) known)"

definition write_and_commit ::
  "sync_env \<Rightarrow> plan \<Rightarrow> (bytes, target) gomap \<Rightarrow> sync_state \<Rightarrow> sync_state \<times> pass_end" where
  "write_and_commit env plan known s =
     (case write_targets env (stable_sort (\<lambda>a b. fst a < fst b) known) (ss_disk s) [] of
        (d, changes, Raced p) \<Rightarrow>
          (s\<lparr>ss_disk := d\<rparr>, Pass_retry \<lparr>rp_files = changes, rp_conflicts = pl_conflicts plan,
             rp_skipped = [p], rp_dry_run = False\<rparr>)
      | (d, changes, Write_failed e) \<Rightarrow> (s\<lparr>ss_disk := d\<rparr>, Pass_failed e)
      | (d, changes, Wrote_all) \<Rightarrow>
          (case en_commit env of
             Some e \<Rightarrow> (s\<lparr>ss_disk := d\<rparr>, Pass_failed (wrap_error ''commit sync state: '' e))
           | None \<Rightarrow>
               (s\<lparr>ss_disk := d, ss_base := commit_sync_state (pl_upserts plan) (pl_deletes plan) (ss_base s)\<rparr>,
                Pass_done \<lparr>rp_files = changes, rp_conflicts = pl_conflicts plan, rp_skipped = [], rp_dry_run = False\<rparr>)))"

definition reconcile_once ::
  "bytes \<Rightarrow> project_config list \<Rightarrow> bool \<Rightarrow> sync_env \<Rightarrow> sync_state \<Rightarrow> sync_state \<times> pass_end" where
  "reconcile_once dir vs dry env s =
     (case gather_canon_files dir (ss_disk s) of
        Inl e \<Rightarrow> (s, Pass_failed e)
      | Inr canon_files \<Rightarrow>
          (case gather_projection_files vs (ss_disk s) of
             Inl e \<Rightarrow> (s, Pass_failed e)
           | Inr proj_files \<Rightarrow>
               (let (proj_tasks, mint) = projected_tasks proj_files vs (ss_mint s);
                    s' = s\<lparr>ss_mint := mint\<rparr>
                in case en_load env of
                     Some e \<Rightarrow> (s', Pass_failed (wrap_error ''load sync state: '' e))
                   | None \<Rightarrow>
                       (let canon = by_id (concat (map (fs_tasks \<circ> snd) canon_files));
                            plan = decide canon (by_id proj_tasks) (ss_base s) (map pc_project vs);
                            (canon_by_path, proj_by_path) = render_targets dir vs plan;
                            known = all_targets canon_files proj_files canon_by_path proj_by_path
                        in if dry
                           then (s', Pass_done \<lparr>rp_files = dry_changes known, rp_conflicts = pl_conflicts plan,
                                   rp_skipped = [], rp_dry_run = True\<rparr>)
                           else write_and_commit env plan known s'))))"

text \<open>The retries: one environment per attempt, \<open>maxRetries\<close> attempts.\<close>

fun reconcile ::
  "bytes \<Rightarrow> project_config list \<Rightarrow> bool \<Rightarrow> sync_env list \<Rightarrow> sync_state \<Rightarrow> sync_state \<times> (go_error + sync_report) option" where
  "reconcile dir vs dry [] s = (s, None)"
| "reconcile dir vs dry (env # envs) s =
     (case reconcile_once dir vs dry env s of
        (s', Pass_failed e) \<Rightarrow> (s', Some (Inl e))
      | (s', Pass_done r) \<Rightarrow> (s', Some (Inr r))
      | (s', Pass_retry r) \<Rightarrow>
          if envs = [] then (s', Some (Inr (r\<lparr>rp_dry_run := dry\<rparr>))) else reconcile dir vs dry envs s')"

definition maxRetries :: nat where "maxRetries = 3"

section \<open>The order of a file\<close>

lemma first_lines_new:
  "t \<in> set (first_lines seen ts) \<Longrightarrow> t \<in> set ts \<and> canonicalize t \<notin> set seen"
proof (induction ts arbitrary: seen)
  case (Cons u ts)
  show ?case
  proof (cases "canonicalize u = [] \<or> canonicalize u \<in> set seen")
    case True
    with Cons.prems have "t \<in> set (first_lines seen ts)" by (simp add: Let_def)
    with Cons.IH [of seen] show ?thesis by simp
  next
    case False
    with Cons.prems have "t = u \<or> t \<in> set (first_lines (canonicalize u # seen) ts)" by (simp add: Let_def)
    with False Cons.IH [of "canonicalize u # seen"] show ?thesis by auto
  qed
qed simp

lemma first_lines_distinct: "distinct (map canonicalize (first_lines seen ts))"
proof (induction ts arbitrary: seen)
  case (Cons u ts)
  have "canonicalize u \<notin> canonicalize ` set (first_lines (canonicalize u # seen) ts)"
    using first_lines_new [of _ "canonicalize u # seen" ts] by force
  with Cons show ?case by (simp add: Let_def)
qed simp

lemma first_lines_all:
  "distinct (map canonicalize ts) \<Longrightarrow> \<forall>t \<in> set ts. canonicalize t \<noteq> [] \<and> canonicalize t \<notin> set seen \<Longrightarrow> first_lines seen ts = ts"
proof (induction ts arbitrary: seen)
  case (Cons t ts)
  have "canonicalize t \<notin> canonicalize ` set ts" using Cons.prems(1) by simp
  then have "\<forall>u \<in> set ts. canonicalize u \<noteq> canonicalize t" by (metis imageI)
  then have "first_lines (canonicalize t # seen) ts = ts" using Cons by simp
  then show ?case using Cons.prems(2) by (simp add: Let_def)
qed simp

lemma ordered_set: "set (ordered_tasks prior desired) = set (first_lines [] desired)"
  by (simp add: ordered_tasks_def)

lemma ordered_lines: "distinct (map canonicalize (ordered_tasks prior desired))"
  by (simp add: ordered_tasks_def distinct_map_stable_sort first_lines_distinct)

lemma prior_pos_nth:
  assumes "distinct (map tk_id ts)" and "k < length ts" and "tk_id (ts ! k) \<noteq> []"
  shows "prior_pos ts (tk_id (ts ! k)) = Some k"
proof -
  have "(tk_id (ts ! k), k) \<in> set (zip (map tk_id ts) [0..<length ts])"
    using assms(2) by (auto simp: set_zip intro!: exI [of _ k])
  then show ?thesis using assms by (simp add: prior_pos_def)
qed

lemma prior_pos_ids: "map tk_id ts = map tk_id us \<Longrightarrow> prior_pos ts i = prior_pos us i"
  using map_eq_imp_length_eq [of tk_id ts tk_id us] by (simp add: prior_pos_def)

text \<open>A file whose tasks have different ids is in its own order.\<close>

lemma own_order:
  assumes "distinct (map tk_id ts)" and "[] \<notin> set (map tk_id ts)"
  shows "in_order (file_order ts) ts"
  unfolding in_order_def sorted_wrt_iff_nth_less
proof (intro allI impI)
  fix i j
  assume "i < j" "j < length ts"
  moreover have "tk_id (ts ! k) \<noteq> []" if "k < length ts" for k
    using assms(2) nth_mem [OF that] by (metis image_eqI list.set_map)
  ultimately have "prior_pos ts (tk_id (ts ! i)) = Some i" "prior_pos ts (tk_id (ts ! j)) = Some j"
    by (simp_all add: prior_pos_nth [OF assms(1)])
  with \<open>i < j\<close> show "\<not> file_order ts (ts ! j) (ts ! i)" by (simp add: file_order_def)
qed

lemma file_order_ids: "map tk_id ts = map tk_id us \<Longrightarrow> file_order ts = file_order us"
  by (intro ext) (simp add: file_order_def prior_pos_ids [of ts us])

lemma render_own:
  assumes "distinct (map tk_id ts)" and "[] \<notin> set (map tk_id ts)"
    and "distinct (map canonicalize ts)" and "\<forall>t \<in> set ts. canonicalize t \<noteq> []"
  shows "render_file ts ts = (concat (map (\<lambda>t. canonicalize t @ [newline]) ts), length ts)"
  using first_lines_all [OF assms(3), of "[]"] assms(4) own_order [OF assms(1,2)]
  by (simp add: render_file_def ordered_tasks_def stable_sort_id)

section \<open>Reading a rendered file back\<close>

lemma canonicalize_clean: "clean_task t \<Longrightarrow> canonicalize t = task_line t"
  by (simp add: canonicalize_def clean_task_line(1))

fun numbered :: "bytes \<Rightarrow> int \<Rightarrow> task list \<Rightarrow> task list" where
  "numbered p n [] = []"
| "numbered p n (t # ts) = (as_read t)\<lparr>tk_file := p, tk_line := n + 1\<rparr> # numbered p (n + 1) ts"

lemma read_numbered:
  assumes "\<forall>t \<in> set ts. clean_task t \<and> length (task_line t) < 65536"
  shows "read_lines p n (map task_line ts) = Inr (numbered p n ts)"
  using assms
proof (induction ts arbitrary: n)
  case (Cons t ts)
  then have "drop_cr (task_line t) = task_line t" "parse_task_line (task_line t) = Inr (Some (as_read t))"
    using drop_cr_solid clean_task_line by auto
  with Cons show ?case by simp
qed simp

lemma scan_rendered:
  assumes "\<forall>t \<in> set ts. clean_task t"
  shows "scan_lines (concat (map (\<lambda>t. canonicalize t @ [newline]) ts)) = map task_line ts"
proof -
  have "split_on newline (concat (map (\<lambda>t. task_line t @ [newline]) ts)) = map task_line ts @ [[]]"
    using assms by (induction ts) (auto simp: split_on_append task_line_no_newline)
  moreover have "concat (map (\<lambda>t. canonicalize t @ [newline]) ts) = concat (map (\<lambda>t. task_line t @ [newline]) ts)"
    using assms by (induction ts) (auto simp: canonicalize_clean)
  ultimately show ?thesis by (simp add: scan_lines_def)
qed

lemma canonicalize_numbered:
  assumes "\<forall>t \<in> set ts. clean_task t"
  shows "map canonicalize (numbered p n ts) = map canonicalize ts" "map tk_id (numbered p n ts) = map tk_id ts"
proof -
  have "canonicalize ((as_read t)\<lparr>tk_file := p, tk_line := n\<rparr>) = canonicalize t" if "clean_task t" for t n
  proof -
    have "format_task_line ((as_read t)\<lparr>tk_file := p, tk_line := n\<rparr>) = format_task_line (as_read t)"
      by (simp add: format_task_line_def format_parts_def Let_def cong: if_cong)
    then show ?thesis using clean_task_line(1,3) [OF that] by (simp add: canonicalize_def)
  qed
  then show "map canonicalize (numbered p n ts) = map canonicalize ts"
    using assms by (induction ts arbitrary: n) auto
  show "map tk_id (numbered p n ts) = map tk_id ts"
    by (induction ts arbitrary: n) (auto simp: as_read_def)
qed

lemma as_read_id [simp]: "tk_id (as_read t) = tk_id t"
  by (simp add: as_read_def)



section \<open>The ancestor table is committed last\<close>

text \<open>Nobody else touches the disk.\<close>

definition quiet_env :: "sync_env \<Rightarrow> bool" where
  "quiet_env env \<longleftrightarrow> (\<forall>p d. en_check env p d = d \<and> en_write env p d = d)"

lemma read_bytes_update: "read_file_bytes (AList.update p f d) q = (if q = p then f_content f else read_file_bytes d q)"
  by (simp add: read_file_bytes_def map_simps)

lemma write_targets_quiet:
  assumes "quiet_env env" and "distinct (map fst ts)" and "write_targets env ts d ch = (d', ch', Wrote_all)"
  shows "(\<forall>(p, t) \<in> set ts. read_file_bytes d' p = tg_content t)
     \<and> (\<forall>q. q \<notin> fst ` set ts \<longrightarrow> read_file_bytes d' q = read_file_bytes d q)"
  using assms(2,3)
proof (induction ts arbitrary: d ch)
  case (Cons x ts)
  obtain p t where x: "x = (p, t)" by (cases x)
  have q: "en_check env p d = d" "en_write env p d = d" using assms(1) by (auto simp: quiet_env_def)
  obtain d2 ch2 where d2: "write_targets env ts d2 ch2 = (d', ch', Wrote_all)"
    "read_file_bytes d2 p = tg_content t" "\<forall>r. r \<noteq> p \<longrightarrow> read_file_bytes d2 r = read_file_bytes d r"
    using Cons.prems(2) unfolding x
    by (auto simp: q Let_def needs_write_def write_guarded_def read_bytes_update split: if_splits option.splits)
  have "p \<notin> fst ` set ts" "distinct (map fst ts)" using Cons.prems(1) x by auto
  with Cons.IH [OF _ d2(1)] d2(2,3) show ?case unfolding x by auto
qed simp

text \<open>
  C15. The ancestor table is committed last. Whatever other programs do to the files and
  whichever writes fail, a pass changes the ancestor table only if it ends well, which it
  does only after it has been through every file; a pass that raced with another writer or
  failed leaves the table as it was, so that the next pass decides from the same ancestor.
  And if nobody else wrote, a pass that ends well has left in every file exactly the bytes
  rendered for it, and the table holds the rows of the plan.
\<close>

theorem base_committed_last:
  assumes "distinct (map fst known)" and "write_and_commit env plan known s = (s', r)"
  shows "case r of
       Pass_done _ \<Rightarrow> ss_base s' = commit_sync_state (pl_upserts plan) (pl_deletes plan) (ss_base s)
         \<and> (if quiet_env env then \<forall>(p, t) \<in> set known. read_file_bytes (ss_disk s') p = tg_content t else True)
     | _ \<Rightarrow> ss_base s' = ss_base s"
proof -
  let ?ts = "stable_sort (\<lambda>a b. fst a < fst b) known"
  obtain d ch e where w: "write_targets env ?ts (ss_disk s) [] = (d, ch, e)" by (cases "write_targets env ?ts (ss_disk s) []") auto
  show ?thesis
  proof (cases e)
    case Wrote_all
    have "distinct (map fst ?ts)" using assms(1) by (simp add: distinct_map_stable_sort)
    with write_targets_quiet [OF _ this, of env "ss_disk s" "[]" d ch] w Wrote_all assms(2)
    show ?thesis by (auto simp: write_and_commit_def split: option.splits)
  qed (use w assms(2) in \<open>auto simp: write_and_commit_def\<close>)
qed

definition sample_env_sync :: sync_env where
  "sample_env_sync = \<lparr>en_check = (\<lambda>_ d. d), en_write = (\<lambda>_ d. d), en_now = (\<lambda>_. 7),
     en_fault = (\<lambda>_. None), en_load = None, en_commit = None\<rparr>"

definition sample_targets :: "(bytes, target) gomap" where
  "sample_targets = [(''t/a.md'', \<lparr>tg_mtime = zero_time, tg_content = ''x'', tg_added = 1, tg_removed = 0, tg_total = 1\<rparr>)]"

definition sample_sync_state :: sync_state where
  "sample_sync_state = \<lparr>ss_disk = [], ss_base = [], ss_mint = []\<rparr>"

lemma base_committed_last_witness:
  "read_file_bytes (ss_disk (fst (write_and_commit sample_env_sync empty_plan sample_targets sample_sync_state))) ''t/a.md'' = ''x''"
proof -
  let ?r = "write_and_commit sample_env_sync empty_plan sample_targets sample_sync_state"
  have d: "distinct (map fst sample_targets)" by (simp add: sample_targets_def)
  have fin: "\<exists>rep. snd ?r = Pass_done rep"
    by (simp add: write_and_commit_def sample_targets_def sample_env_sync_def sample_sync_state_def Let_def
        needs_write_def read_file_bytes_def write_guarded_def read_file_mtime_def)
  have "quiet_env sample_env_sync" by (simp add: quiet_env_def sample_env_sync_def)
  moreover have "?r = (fst ?r, snd ?r)" by simp
  note base_committed_last [OF d this]
  ultimately show ?thesis using fin by (auto simp: sample_targets_def)
qed

section \<open>Edits by other programs\<close>

lemma write_guarded_other: "q \<noteq> p \<Longrightarrow> write_guarded now fault p c m d = (d', e) \<Longrightarrow> map_of d' q = map_of d q"
  by (auto simp: write_guarded_def map_simps split: if_splits option.splits)

lemma write_targets_other:
  assumes "\<forall>p d. p \<noteq> q \<longrightarrow> map_of (en_check env p d) q = map_of d q"
    and "\<forall>p d. p \<noteq> q \<longrightarrow> map_of (en_write env p d) q = map_of d q"
    and "q \<notin> fst ` set ts" and "write_targets env ts d ch = (d', ch', e)"
  shows "map_of d' q = map_of d q"
  using assms(3,4)
proof (induction ts arbitrary: d ch)
  case (Cons x ts)
  obtain p t where x: "x = (p, t)" by (cases x)
  let ?d1 = "en_check env p d"
  obtain d2 r where w: "write_guarded (en_now env p) (en_fault env p) p (tg_content t) (tg_mtime t) (en_write env p ?d1) = (d2, r)"
    by fastforce
  have "q \<noteq> p" using Cons.prems(1) x by auto
  then have "map_of d2 q = map_of d q" "map_of ?d1 q = map_of d q"
    using write_guarded_other [OF _ w] assms(1,2) by auto
  with Cons x w show ?case by (auto simp: Let_def split: if_splits option.splits)
qed simp


definition editor_env :: sync_env where
  "editor_env = sample_env_sync\<lparr>en_write := (\<lambda>p d. if p = ''t/a.md''
     then AList.update p \<lparr>f_content = ''edited'', f_mtime = 9\<rparr> d else d)\<rparr>"


section \<open>Tasks without an id\<close>

text \<open>
  Tasks of the main vault without an id lose each other. All lines without an id that
  the pass has read from the files of the main vault, of whatever project, meet under the
  empty id, and only the last of them is planned: every other one is in no file when the
  pass has written, unless its line is the same.
\<close>

theorem tasks_without_id_collapse:
  fixes synced :: "bytes list"
  assumes "filter (\<lambda>t. tk_id t = []) ts \<noteq> []"
    and "keyed tk_id proj" and "map_of proj [] = None" and "map_of base [] = None"
  defines "plan \<equiv> decide (by_id ts) proj base synced"
  shows "lines_for (pl_canon plan) [] = {canonicalize (last (filter (\<lambda>t. tk_id t = []) ts))}
     \<and> lines_for (pl_proj plan) [] \<subseteq> {canonicalize (last (filter (\<lambda>t. tk_id t = []) ts))}"
proof -
  let ?t = "last (filter (\<lambda>t. tk_id t = []) ts)"
  have "map_of (by_id ts) [] = Some ?t"
    using assms(1) by (simp add: by_id_lookup split: list.splits)
  then have "rulings (by_id ts) proj base synced [] \<in> {Pass ?t False, Settle ?t True}"
    using assms(3,4) by (simp add: rulings_def ruling_of_def)
  then show ?thesis
    unfolding plan_def lines_for_canon [OF keyed_by_id assms(2)] lines_for_proj [OF keyed_by_id assms(2)]
    by (auto split: if_splits)
qed

lemma tasks_without_id_collapse_witness:
  "lines_for (pl_canon (decide (by_id [plain_task [] ''a'', plain_task [] ''b'']) [] [] [])) []
     = {canonicalize (plain_task [] ''b'')}"
proof -
  have "keyed tk_id ([] :: (bytes, task) gomap)" "map_of ([] :: (bytes, sync_base) gomap) [] = None" by (simp_all add: keyed_def)
  then show ?thesis
    using tasks_without_id_collapse [where ts = "[plain_task [] ''a'', plain_task [] ''b'']" and proj = "[]" and base = "[]" and synced = "[]"]
    by (simp add: plain_task_def)
qed

end
