(* ===== verification/SortFacts.thy ===== *)
theory SortFacts
  imports Prelude "HOL-Library.Multiset"
begin

text \<open>
  The stable sort of the prelude permutes a list and keeps the order of the elements that do
  not precede each other.
\<close>

lemma mset_insert_by: "mset (insert_by lt x xs) = add_mset x (mset xs)"
  by (induction xs) auto

lemma mset_stable_sort: "mset (stable_sort lt xs) = mset xs"
  by (induction xs) (auto simp: mset_insert_by)

lemma filter_insert_by:
  assumes "\<And>y. P y \<Longrightarrow> \<not> lt y x" and "P x"
  shows "filter P (insert_by lt x xs) = x # filter P xs"
  using assms by (induction xs) auto

lemma filter_insert_by_other: "\<not> P x \<Longrightarrow> filter P (insert_by lt x xs) = filter P xs"
  by (induction xs) auto

text \<open>Stability: elements that do not precede each other keep their order.\<close>

lemma stable_sort_stable:
  assumes "\<And>x y. P x \<Longrightarrow> P y \<Longrightarrow> \<not> lt x y"
  shows "filter P (stable_sort lt xs) = filter P xs"
proof (induction xs)
  case (Cons x xs)
  show ?case
  proof (cases "P x")
    case True
    then have "filter P (insert_by lt x (stable_sort lt xs)) = x # filter P (stable_sort lt xs)"
      using assms by (intro filter_insert_by) auto
    with Cons True show ?thesis by simp
  qed (use Cons in \<open>simp add: filter_insert_by_other\<close>)
qed simp

end
