(* ===== verification/TaskService.thy ===== *)
theory TaskService
  imports SyncRun Recurrence SortFacts
begin

text \<open>
  The task operations the commands, tools and the drain share (\<open>internal/service\<close>:
  \<open>task_service.go\<close>, \<open>task_filter.go\<close>, \<open>validate.go\<close>, \<open>due_today.go\<close>), over the disk of
  task files.

  The state is the disk, the supply of minted ids, the clock, and the faults of appends and
  rewrites. A task file that is read and does not exist is created empty, as
  \<open>EnsureTaskFile\<close> does.
\<close>

section \<open>Matching and validation\<close>

definition fuzzy_match :: "bytes \<Rightarrow> task list \<Rightarrow> task list" where
  "fuzzy_match query ts =
     (if query = [] then ts
      else filter (\<lambda>t. contains (to_lower (tk_text t)) (to_lower (trim_space query))) ts)"

definition project_file_name :: "bytes \<Rightarrow> bytes" where
  "project_file_name project = replace_all ''/'' ''-'' project @ ''.md''"

record add_task_input =
  ai_text :: bytes
  ai_project :: bytes
  ai_due :: "gotime option"
  ai_scheduled :: "gotime option"
  ai_recurrence :: bytes
  ai_parent :: bytes
  ai_id :: bytes

definition has_control_char :: "bytes \<Rightarrow> bool" where
  "has_control_char s \<longleftrightarrow> list_ex (\<lambda>c. (of_char c :: nat) < 0x20 \<or> (of_char c :: nat) = 0x7F) s"

definition project_tag_re :: "bytes \<Rightarrow> bool" where
  "project_tag_re s \<longleftrightarrow> s \<noteq> [] \<and> list_all tag_char s"

definition validate_add_input :: "bytes \<Rightarrow> bytes \<Rightarrow> bytes \<Rightarrow> (bytes \<Rightarrow> bool) option \<Rightarrow> go_error option" where
  "validate_add_input text project0 client0 is_client =
     (if trim_space text = [] then Some (new_error ''text is empty'')
      else if has_control_char text then Some (new_error ''text contains control characters'')
      else
        (let project = trim_space project0; client = trim_space client0 in
         if project \<noteq> [] \<and> client \<noteq> [] then Some (new_error ''project and client are mutually exclusive'')
         else if project \<noteq> [] \<and> \<not> project_tag_re project
         then Some (new_error (''invalid project '' @ go_quote project @ '' (allowed: letters, digits, _-/)''))
         else if project \<noteq> [] \<and> is_numeric_tag project
         then Some (new_error (''invalid project '' @ go_quote project @ '' (must contain a non-digit)''))
         else if client \<noteq> [] \<and> (case is_client of None \<Rightarrow> True | Some f \<Rightarrow> \<not> f client)
         then Some (new_error (''unknown client '' @ go_quote client))
         else None))"

section \<open>The vault\<close>

record vault =
  vt_disk :: disk
  vt_mint :: "bytes list"
  vt_now :: gotime
  vt_fault :: "bytes \<Rightarrow> go_error option"

record task_service =
  ts_file :: bytes
  ts_dir :: bytes

definition put_file :: "bytes \<Rightarrow> bytes \<Rightarrow> vault \<Rightarrow> vault" where
  "put_file p content v =
     v\<lparr>vt_disk := AList.update p \<lparr>f_content = content, f_mtime = gt_ns (vt_now v)\<rparr> (vt_disk v)\<rparr>"

definition ensure_task_file :: "bytes \<Rightarrow> vault \<Rightarrow> vault" where
  "ensure_task_file p v = (if map_of (vt_disk v) p = None then put_file p [] v else v)"

text \<open>\<open>AppendTask\<close> and \<open>UpdateTaskLine\<close> on the disk.\<close>

definition append_task_file :: "bytes \<Rightarrow> task \<Rightarrow> vault \<Rightarrow> vault \<times> go_error option" where
  "append_task_file p t v0 =
     (let v = ensure_task_file p v0 in
      case append_task t (read_file_bytes (vt_disk v) p) of
        Inl e \<Rightarrow> (v, Some e)
      | Inr content \<Rightarrow>
          (case vt_fault v p of
             Some e \<Rightarrow> (v, Some (wrap_error ''append task: '' e))
           | None \<Rightarrow> (put_file p content v, None)))"

definition update_task_file :: "bytes \<Rightarrow> int \<Rightarrow> task \<Rightarrow> vault \<Rightarrow> vault \<times> go_error option" where
  "update_task_file p n t v =
     (if n < 1 then (v, Some (new_error (''invalid line number: '' @ itoa n)))
      else (case map_of (vt_disk v) p of
          None \<Rightarrow> (v, Some (new_error ''read task file: no such file or directory''))
        | Some f \<Rightarrow>
            (case update_task_line n t (f_content f) of
               Inl e \<Rightarrow> (v, Some e)
             | Inr content \<Rightarrow>
                 (case vt_fault v p of Some e \<Rightarrow> (v, Some e) | None \<Rightarrow> (put_file p content v, None)))))"

definition mint_id :: "vault \<Rightarrow> bytes \<times> vault" where
  "mint_id v = (hd (vt_mint v), v\<lparr>vt_mint := tl (vt_mint v)\<rparr>)"

section \<open>Listing\<close>

fun read_all :: "disk \<Rightarrow> bytes list \<Rightarrow> go_error + task list" where
  "read_all d [] = Inr []"
| "read_all d (p # ps) =
     (case read_tasks p (read_file_bytes d p) of
        Inl e \<Rightarrow> Inl e
      | Inr ts \<Rightarrow> (case read_all d ps of Inl e \<Rightarrow> Inl e | Inr us \<Rightarrow> Inr (ts @ us)))"

definition task_paths :: "bytes \<Rightarrow> disk \<Rightarrow> bytes list" where
  "task_paths dir d =
     map (canon_path dir) (filter (\<lambda>n. has_suffix n ''.md'' \<and> \<not> is_sync_conflict n) (dir_names dir d))"

definition list_all_tasks :: "task_service \<Rightarrow> vault \<Rightarrow> vault \<times> (go_error + task list)" where
  "list_all_tasks s v =
     (if ts_dir s = []
      then (let v' = ensure_task_file (ts_file s) v
            in (v', read_tasks (ts_file s) (read_file_bytes (vt_disk v') (ts_file s))))
      else (v, read_all (vt_disk v) (task_paths (ts_dir s) (vt_disk v))))"

definition subtasks_of :: "task_service \<Rightarrow> bytes \<Rightarrow> vault \<Rightarrow> vault \<times> (go_error + task list)" where
  "subtasks_of s parent v =
     (if trim_space parent = [] then (v, Inr [])
      else (case list_all_tasks s v of
          (v', Inl e) \<Rightarrow> (v', Inl e)
        | (v', Inr ts) \<Rightarrow> (v', Inr (filter (\<lambda>t. tk_parent t = parent) ts))))"

definition list_open_tasks :: "task_service \<Rightarrow> vault \<Rightarrow> vault \<times> (go_error + task list)" where
  "list_open_tasks s v =
     (case list_all_tasks s v of
        (v', Inl e) \<Rightarrow> (v', Inl e)
      | (v', Inr ts) \<Rightarrow> (v', Inr (filter (\<lambda>t. \<not> tk_completed t) ts)))"

definition find_by_id :: "task_service \<Rightarrow> bytes \<Rightarrow> vault \<Rightarrow> vault \<times> (go_error + task option)" where
  "find_by_id s i v =
     (if i = [] then (v, Inr None)
      else (case list_all_tasks s v of
          (v', Inl e) \<Rightarrow> (v', Inl e)
        | (v', Inr ts) \<Rightarrow> (v', Inr (find (\<lambda>t. tk_id t = i) ts))))"

section \<open>Creating and completing\<close>

definition task_text_matches :: "task \<Rightarrow> bytes \<Rightarrow> bool" where
  "task_text_matches existing text =
     (let stored = trim_space (tk_text existing) in
      stored = text
      \<or> tk_project existing \<noteq> []
        \<and> trim_space (trim_suffix stored (CHR ''#'' # tk_project existing)) = text)"

definition new_task_path :: "task_service \<Rightarrow> bytes \<Rightarrow> bytes" where
  "new_task_path s project =
     (if project \<noteq> [] \<and> ts_dir s \<noteq> [] then canon_path (ts_dir s) (project_file_name project) else ts_file s)"

definition new_task :: "bytes \<Rightarrow> add_task_input \<Rightarrow> task" where
  "new_task i inp = \<lparr>tk_id = i, tk_text = trim_space (ai_text inp), tk_project = trim_space (ai_project inp),
     tk_tags = [], tk_due = ai_due inp, tk_scheduled = ai_scheduled inp,
     tk_recurrence = trim_space (ai_recurrence inp), tk_parent = trim_space (ai_parent inp),
     tk_priority = [], tk_completed = False, tk_completed_at = None, tk_file = [], tk_line = 0\<rparr>"

definition write_new_task :: "task_service \<Rightarrow> add_task_input \<Rightarrow> bytes \<Rightarrow> vault \<Rightarrow> vault \<times> (go_error + task)" where
  "write_new_task s inp given v0 =
     (let (i, v) = (if given = [] then mint_id v0 else (given, v0));
          t = new_task i inp;
          path = new_task_path s (tk_project t)
      in case append_task_file path t v of
           (v', Some e) \<Rightarrow> (v', Inl e)
         | (v', None) \<Rightarrow> (v', Inr (t\<lparr>tk_file := path\<rparr>)))"

definition create_task :: "task_service \<Rightarrow> add_task_input \<Rightarrow> vault \<Rightarrow> vault \<times> (go_error + task)" where
  "create_task s inp v =
     (let project = trim_space (ai_project inp) in
      if is_numeric_tag project
      then (v, Inl (new_error (''invalid project '' @ go_quote project
             @ '': an all-digit tag is not an Obsidian tag'')))
      else (case find_by_id s (ai_id inp) v of
          (v', Inl e) \<Rightarrow> (v', Inl e)
        | (v', Inr None) \<Rightarrow> write_new_task s inp (ai_id inp) v'
        | (v', Inr (Some existing)) \<Rightarrow>
            if task_text_matches existing (trim_space (ai_text inp)) then (v', Inr existing)
            else write_new_task s inp [] v'))"

definition complete_task :: "task \<Rightarrow> vault \<Rightarrow> vault \<times> go_error option" where
  "complete_task t0 v =
     (let t = t0\<lparr>tk_completed := True, tk_completed_at := Some (vt_now v)\<rparr> in
      case update_task_file (tk_file t) (tk_line t) t v of
        (v', Some e) \<Rightarrow> (v', Some e)
      | (v', None) \<Rightarrow>
          if tk_recurrence t = [] then (v', None)
          else (case next_recurrence (tk_recurrence t) (tk_due t) (tk_scheduled t) (vt_now v') of
              None \<Rightarrow> (v', None)
            | Some (due, scheduled) \<Rightarrow>
                (case mint_id v' of (i, v'') \<Rightarrow>
                   (case append_task_file (tk_file t)
                      \<lparr>tk_id = i, tk_text = tk_text t, tk_project = tk_project t, tk_tags = tk_tags t,
                       tk_due = due, tk_scheduled = scheduled, tk_recurrence = tk_recurrence t,
                       tk_parent = [], tk_priority = [], tk_completed = False, tk_completed_at = None,
                       tk_file = [], tk_line = 0\<rparr> v'' of
                      (v3, None) \<Rightarrow> (v3, None)
                    | (v3, Some e) \<Rightarrow>
                        (v3, Some (wrap_error ''recurring task completed but next instance failed: '' e))))))"

definition reschedule_task :: "task \<Rightarrow> gotime option \<Rightarrow> vault \<Rightarrow> vault \<times> go_error option" where
  "reschedule_task t d v = update_task_file (tk_file t) (tk_line t) (t\<lparr>tk_scheduled := d\<rparr>) v"

section \<open>Filtering\<close>

definition same_day :: "gotime \<Rightarrow> gotime \<Rightarrow> bool" where
  "same_day a b \<longleftrightarrow> civil_of a = civil_of b"

definition day_before :: "gotime \<Rightarrow> gotime \<Rightarrow> bool" where
  "day_before a b \<longleftrightarrow>
     (case (civil_of a, civil_of b) of ((ay, am, ad), (by, bm, bd)) \<Rightarrow>
        if ay \<noteq> by then ay < by else if am \<noteq> bm then am < bm else ad < bd)"

definition filter_for_day :: "task list \<Rightarrow> gotime \<Rightarrow> task list" where
  "filter_for_day ts day =
     filter (\<lambda>t. \<not> tk_completed t
       \<and> ((case tk_due t of None \<Rightarrow> False | Some d \<Rightarrow> same_day d day)
          \<or> (case tk_scheduled t of None \<Rightarrow> False | Some d \<Rightarrow> same_day d day))) ts"

definition filter_due_today :: "task list \<Rightarrow> gotime \<Rightarrow> task list" where
  "filter_due_today ts now = filter_for_day ts now"

definition any_date :: "task \<Rightarrow> (gotime \<Rightarrow> bool) \<Rightarrow> bool" where
  "any_date t f \<longleftrightarrow> (case tk_scheduled t of None \<Rightarrow> False | Some d \<Rightarrow> f d) \<or> (case tk_due t of None \<Rightarrow> False | Some d \<Rightarrow> f d)"

definition actionable_on :: "task \<Rightarrow> gotime \<Rightarrow> bool" where
  "actionable_on t day \<longleftrightarrow> \<not> tk_completed t
     \<and> (case tk_due t of None \<Rightarrow> True | Some d \<Rightarrow> \<not> day_before day d)
     \<and> (case tk_scheduled t of None \<Rightarrow> True | Some d \<Rightarrow> \<not> day_before day d)"

text \<open>A priority: absent, a decimal number \<open>m / 10 ^ k\<close>, or a text.\<close>

datatype priority_key = Priority_empty | Priority_number int nat | Priority_text bytes

definition maxNumericPriorityLength :: nat where
  "maxNumericPriorityLength = 128"

text \<open>\<open>^-?[0-9]+(\.[0-9]+)?$\<close> with the value it denotes.\<close>

definition dataview_number :: "bytes \<Rightarrow> (int \<times> nat) option" where
  "dataview_number s =
     (let neg = has_prefix s ''-''; body = (if neg then tl s else s);
          whole = takeWhile is_digit body; rest = drop (length whole) body;
          sign = (if neg then - 1 else 1 :: int)
      in if whole = [] then None
         else (case rest of
             [] \<Rightarrow> Some (sign * int (digits_val whole), 0)
           | c # frac \<Rightarrow>
               if c = CHR ''.'' \<and> frac \<noteq> [] \<and> list_all is_digit frac
               then Some (sign * int (digits_val (whole @ frac)), length frac) else None))"

definition new_priority_key :: "bytes \<Rightarrow> priority_key" where
  "new_priority_key raw =
     (if raw = [] then Priority_empty
      else if length raw \<le> maxNumericPriorityLength
      then (case dataview_number raw of Some (m, k) \<Rightarrow> Priority_number m k | None \<Rightarrow> Priority_text raw)
      else Priority_text raw)"

fun priority_rank :: "priority_key \<Rightarrow> nat" where
  "priority_rank Priority_empty = 0"
| "priority_rank (Priority_number _ _) = 1"
| "priority_rank (Priority_text _) = 2"

text \<open>\<open>comparePrioritySortKeys\<close> is negative: \<open>a\<close> sorts before \<open>b\<close>.\<close>

fun priority_before :: "priority_key \<Rightarrow> priority_key \<Rightarrow> bool" where
  "priority_before (Priority_number m j) (Priority_number n k) \<longleftrightarrow> n * 10 ^ j < m * 10 ^ k"
| "priority_before (Priority_text a) (Priority_text b) \<longleftrightarrow> b < a"
| "priority_before a b \<longleftrightarrow> priority_rank b < priority_rank a"

record task_filter =
  tf_project :: bytes
  tf_status :: bytes
  tf_date :: bytes
  tf_before :: "gotime option"
  tf_after :: "gotime option"
  tf_actionable :: "gotime option"
  tf_now :: "gotime option"

definition date_matcher :: "task_filter \<Rightarrow> gotime \<Rightarrow> go_error + (task \<Rightarrow> bool)" where
  "date_matcher f now =
     (let d = to_lower (trim_space (tf_date f)) in
      if d = [] then Inr (\<lambda>_. True)
      else if d = ''today'' then Inr (\<lambda>t. any_date t (\<lambda>x. same_day x now))
      else if d = ''overdue'' then Inr (\<lambda>t. any_date t (\<lambda>x. day_before x now))
      else
        (let raw = trim_space (tf_date f); e = new_error (''invalid date '' @ go_quote (tf_date f)
               @ '': use today, overdue, or YYYY-MM-DD'')
         in case parse_date raw of
              None \<Rightarrow> Inl e
            | Some c \<Rightarrow> Inr (\<lambda>t. any_date t (\<lambda>x. same_day x (utc_midnight c)))))"

definition filter_status :: "task_filter \<Rightarrow> bytes" where
  "filter_status f = (let st = to_lower (trim_space (tf_status f)) in if st = [] then ''open'' else st)"

definition keeps :: "task_filter \<Rightarrow> (task \<Rightarrow> bool) \<Rightarrow> task \<Rightarrow> bool" where
  "keeps f date_ok t \<longleftrightarrow>
     (if filter_status f = ''open'' then \<not> tk_completed t
      else if filter_status f = ''done'' then tk_completed t else True)
     \<and> (let p = to_lower (trim_space (tf_project f)) in p = [] \<or> to_lower (tk_project t) = p)
     \<and> date_ok t
     \<and> (case tf_before f of None \<Rightarrow> True | Some b \<Rightarrow> any_date t (\<lambda>d. day_before d b))
     \<and> (case tf_after f of None \<Rightarrow> True | Some a \<Rightarrow> any_date t (\<lambda>d. day_before a d))
     \<and> (case tf_actionable f of None \<Rightarrow> True | Some day \<Rightarrow> actionable_on t day)"

definition by_priority :: "task \<Rightarrow> task \<Rightarrow> bool" where
  "by_priority a b = priority_before (new_priority_key (tk_priority a)) (new_priority_key (tk_priority b))"

definition list_tasks :: "task_service \<Rightarrow> task_filter \<Rightarrow> vault \<Rightarrow> vault \<times> (go_error + task list)" where
  "list_tasks s f v =
     (case list_all_tasks s v of
        (v', Inl e) \<Rightarrow> (v', Inl e)
      | (v', Inr all) \<Rightarrow>
          (v',
           if filter_status f \<notin> {''open'', ''done'', ''all''}
           then Inl (new_error (''invalid status '' @ go_quote (tf_status f) @ '': use open, done, or all''))
           else (case date_matcher f (case tf_now f of None \<Rightarrow> vt_now v' | Some n \<Rightarrow> n) of
               Inl e \<Rightarrow> Inl e
             | Inr date_ok \<Rightarrow>
                 (let out = filter (keeps f date_ok) all
                  in Inr (if tf_actionable f \<noteq> None then stable_sort by_priority out else out)))))"

section \<open>The listing order\<close>

text \<open>Numbers are compared by value: the comparison is an order of the fractions.\<close>

lemma number_order:
  fixes a b c :: int
  assumes "b * 10 ^ i < a * 10 ^ j" and "c * 10 ^ j < b * 10 ^ k"
  shows "c * 10 ^ i < a * 10 ^ k"
proof -
  have p: "(0 :: int) < 10 ^ i" "(0 :: int) < 10 ^ j" "(0 :: int) < 10 ^ k" by simp_all
  have "(c * 10 ^ j) * 10 ^ i < (b * 10 ^ k) * 10 ^ i" using assms(2) p(1) by (rule mult_strict_right_mono)
  also have "\<dots> = (b * 10 ^ i) * 10 ^ k" by simp
  also have "\<dots> < (a * 10 ^ j) * 10 ^ k" using assms(1) p(3) by (rule mult_strict_right_mono)
  finally have "(c * 10 ^ i) * 10 ^ j < (a * 10 ^ k) * 10 ^ j" by (simp add: algebra_simps)
  then show ?thesis using p(2) by (simp add: mult_less_cancel_right)
qed

lemma number_order_neg:
  fixes a b c :: int
  assumes "\<not> b * 10 ^ i < a * 10 ^ j" and "\<not> c * 10 ^ j < b * 10 ^ k"
  shows "\<not> c * 10 ^ i < a * 10 ^ k"
proof -
  have p: "(0 :: int) < 10 ^ i" "(0 :: int) < 10 ^ j" "(0 :: int) < 10 ^ k" by simp_all
  have "(a * 10 ^ k) * 10 ^ j = (a * 10 ^ j) * 10 ^ k" by simp
  also have "\<dots> \<le> (b * 10 ^ i) * 10 ^ k" using assms(1) p(3) by (intro mult_right_mono) auto
  also have "\<dots> = (b * 10 ^ k) * 10 ^ i" by simp
  also have "\<dots> \<le> (c * 10 ^ j) * 10 ^ i" using assms(2) p(1) by (intro mult_right_mono) auto
  also have "\<dots> = (c * 10 ^ i) * 10 ^ j" by simp
  finally show ?thesis using p(2) by (simp add: mult_le_cancel_right)
qed

lemma weak_order_priority: "weak_order by_priority"
proof -
  have "priority_before a b \<Longrightarrow> priority_before b c \<Longrightarrow> priority_before a c" for a b c
    by (cases a; cases b; cases c) (auto intro: number_order)
  moreover have "\<not> priority_before a b \<Longrightarrow> \<not> priority_before b c \<Longrightarrow> \<not> priority_before a c" for a b c
    by (cases a; cases b; cases c) (auto dest: number_order_neg)
  moreover have "\<not> priority_before a a" for a by (cases a) auto
  ultimately show ?thesis unfolding weak_order_def by_priority_def by blast
qed


definition sample_service :: task_service where
  "sample_service = \<lparr>ts_file = ''t/inbox.md'', ts_dir = ''t''\<rparr>"

definition sample_vault :: vault where
  "sample_vault = \<lparr>vt_disk = [(''t/inbox.md'', \<lparr>f_content = sample_file, f_mtime = 1\<rparr>)],
     vt_mint = [''qi-000000aa''], vt_now = utc_midnight (2026, 7, 1), vt_fault = (\<lambda>_. None)\<rparr>"

definition sample_filter :: task_filter where
  "sample_filter = \<lparr>tf_project = [], tf_status = [], tf_date = [], tf_before = None, tf_after = None,
     tf_actionable = Some (utc_midnight (2026, 7, 1)), tf_now = None\<rparr>"

lemma sample_vault_tasks:
  "list_all_tasks sample_service sample_vault
     = (sample_vault, Inr [(as_read open_task)\<lparr>tk_file := ''t/inbox.md'', tk_line := 2\<rparr>])"
proof -
  have "task_paths ''t'' (vt_disk sample_vault) = [''t/inbox.md'']"
    by (simp add: task_paths_def dir_names_def sample_vault_def canon_path_def has_prefix_def has_suffix_def
        is_sync_conflict_def contains_def to_lower_def)
  then show ?thesis
    by (simp add: list_all_tasks_def sample_service_def)
      (simp add: sample_vault_def read_file_bytes_def read_sample_file)
qed


section \<open>Validated input stays on its line\<close>

lemma strip_seq_subset: "strip_seq ps s = Some r \<Longrightarrow> set r \<subseteq> set s"
  by (induction ps) (auto split: if_splits dest: in_set_dropD)

lemma trim_left_seqs_subset: "set (trim_left_seqs ps s) \<subseteq> set s"
proof (induction ps s rule: trim_left_seqs.induct)
  case (1 ps s)
  show ?case
  proof (cases "strip_seq ps s")
    case (Some r)
    with 1 strip_seq_subset [OF Some] show ?thesis by (subst trim_left_seqs.simps) auto
  qed (subst trim_left_seqs.simps, simp)
qed

lemma trim_space_subset: "set (trim_space s) \<subseteq> set s"
  using trim_left_seqs_subset [of "map rev unicode_spaces" "rev (trim_left_seqs unicode_spaces s)"]
    trim_left_seqs_subset [of unicode_spaces s]
  by (auto simp: trim_space_def trim_right_seqs_def)

lemma remove_all_subset: "set (remove_all m s) \<subseteq> set s"
proof (induction "length s" arbitrary: s rule: less_induct)
  case less
  show ?case
  proof (cases s)
    case (Cons c cs)
    have "set (remove_all m cs) \<subseteq> set cs" using less [of cs] Cons by simp
    moreover have "set (remove_all m (drop n s)) \<subseteq> set s" if "n \<noteq> 0" for n
      using less [of "drop n s"] set_drop_subset [of n s] that Cons by auto
    ultimately show ?thesis using Cons by (auto split: option.splits)
  qed simp
qed

definition control :: "char \<Rightarrow> bool" where
  "control c \<longleftrightarrow> (of_char c :: nat) < 0x20 \<or> (of_char c :: nat) = 0x7F"

lemma has_control_char_iff: "has_control_char s \<longleftrightarrow> (\<exists>c \<in> set s. control c)"
  by (simp add: has_control_char_def list_ex_iff control_def)

lemma no_control_subset: "set a \<subseteq> set b \<Longrightarrow> \<not> has_control_char b \<Longrightarrow> \<not> has_control_char a"
  by (auto simp: has_control_char_iff)

lemma no_control_append [simp]: "has_control_char (a @ b) \<longleftrightarrow> has_control_char a \<or> has_control_char b"
  by (auto simp: has_control_char_iff)

lemma no_control_simps [simp]:
  "\<not> has_control_char []" "has_control_char (c # s) \<longleftrightarrow> control c \<or> has_control_char s"
  by (auto simp: has_control_char_iff)

lemma tag_char_no_control: "tag_char c \<Longrightarrow> \<not> control c"
  by (auto simp: tag_char_def between_def less_eq_char_def control_def)

lemma digit_no_control: "is_digit c \<or> c = CHR ''-'' \<Longrightarrow> \<not> control c"
  by (auto simp: between_def less_eq_char_def control_def)

lemma date_part_no_control:
  assumes "whole_days d" and "\<not> has_control_char mark" and "x \<in> set (date_part mark d)"
  shows "\<not> has_control_char x"
proof -
  obtain c where c: "d = map_option utc_midnight c" "\<forall>y. c = Some y \<longrightarrow> iso_date y"
    using assms(1) whole_days_def by blast
  show ?thesis
  proof (cases c)
    case (Some y)
    then have "iso_date y" "civil_of (utc_midnight y) = y" using c(2) by (auto simp: iso_date_def)
    then have "\<not> has_control_char (format_date y)"
      using format_date_chars digit_no_control by (auto simp: has_control_char_iff)
    then show ?thesis
      using assms(2,3) Some c(1) \<open>civil_of (utc_midnight y) = y\<close> by (simp add: date_part_def control_def)
  qed (use assms(3) c(1) in \<open>simp add: date_part_def\<close>)
qed

lemma join_no_control: "\<forall>x \<in> set ps. \<not> has_control_char x \<Longrightarrow> \<not> has_control_char (join '' '' ps)"
  by (cases ps) (auto simp: join_space has_control_char_iff control_def)

lemma marks_no_control:
  "\<not> has_control_char hourglass_mark" "\<not> has_control_char calendar_mark" "\<not> has_control_char check_mark"
  by (simp_all add: mark_literals control_def)

text \<open>
  Input that passes the vault's validation stays on its line: whatever a remote caller
  puts in the text and the project, the line written for the task contains no newline and no
  other control character, so it cannot forge a second task. This needs the id it is given,
  and the names of the configured clients, to be free of control characters: the validation
  checks neither.
\<close>

theorem validated_task_is_one_line:
  assumes "validate_add_input (ai_text inp) project client is_client = None"
    and "\<forall>f c. is_client = Some f \<and> f c \<longrightarrow> \<not> has_control_char c"
    and "ai_project inp = (if trim_space client \<noteq> [] then trim_space client else trim_space project)"
    and "ai_recurrence inp = [] \<and> ai_parent inp = []" and "whole_days (ai_due inp)" and "whole_days (ai_scheduled inp)"
    and "\<not> has_control_char i" and "format_task_line (new_task i inp) = Inr line"
  shows "\<not> has_control_char line \<and> newline \<notin> set line"
proof -
  let ?t = "new_task i inp"
  have v: "\<not> has_control_char (ai_text inp)" "trim_space project = [] \<or> list_all tag_char (trim_space project)"
    "trim_space client = [] \<or> (\<exists>f. is_client = Some f \<and> f (trim_space client))"
    using assms(1) by (auto simp: validate_add_input_def Let_def project_tag_re_def split: if_splits option.splits)
  have nc: "\<not> has_control_char (trim_space project)" if "trim_space project \<noteq> []"
    using v(2) that tag_char_no_control by (auto simp: list_all_iff has_control_char_iff)
  have "\<not> has_control_char (ai_project inp)"
    using assms(2) v(3) nc unfolding assms(3) by (cases "trim_space project = []") auto
  then have proj: "\<not> has_control_char (trim_space (ai_project inp))"
    by (rule no_control_subset [OF trim_space_subset])
  have tx: "\<not> has_control_char (trim_space (trim_space (ai_text inp)))"
    using trim_space_subset no_control_subset v(1) by metis
  have "\<forall>x \<in> set (date_part hourglass_mark (ai_scheduled inp)). \<not> has_control_char x"
    using date_part_no_control [OF assms(6) marks_no_control(1)] by blast
  moreover have "\<forall>x \<in> set (date_part calendar_mark (ai_due inp)). \<not> has_control_char x"
    using date_part_no_control [OF assms(5) marks_no_control(2)] by blast
  moreover have "trim_space [] = []" by (simp add: trim_space_solid)
  ultimately have "\<forall>x \<in> set (format_parts ?t). \<not> has_control_char x"
    using tx proj assms(4)
    by (simp add: format_parts_def new_task_def Let_def control_def date_part_def [of check_mark None] ball_Un)
  then have parts: "\<not> has_control_char (join '' '' (format_parts ?t))" by (rule join_no_control)
  have "\<not> has_control_char line"
  proof -
    have "\<not> has_control_char (trim_space (remove_all id_re (join '' '' (format_parts ?t))))"
      using parts trim_space_subset remove_all_subset no_control_subset by metis
    then show ?thesis
      using assms(7,8) parts
      by (auto simp: format_task_line_def Let_def new_task_def control_def split: if_splits)
  qed
  moreover have "control newline" by (simp add: control_def)
  ultimately show ?thesis by (auto simp: has_control_char_iff)
qed

definition remote_input :: add_task_input where
  "remote_input = \<lparr>ai_text = ''a'', ai_project = [], ai_due = None, ai_scheduled = None,
     ai_recurrence = [], ai_parent = [], ai_id = ''qi-00000001''\<rparr>"

lemma remote_task: "new_task ''qi-00000001'' remote_input = open_task"
  by (simp add: new_task_def remote_input_def open_task_def plain_task_def trim_space_solid solid_def is_ascii_def)

lemma validated_task_is_one_line_witness:
  "\<not> has_control_char ''- [ ] a ^qi-00000001'' \<and> newline \<notin> set ''- [ ] a ^qi-00000001''"
proof (rule validated_task_is_one_line [of remote_input "[]" "[]" None "''qi-00000001''"])
  have "trim_space ''a'' = ''a''" "trim_space [] = []" by (simp_all add: trim_space_solid solid_def is_ascii_def)
  then show "validate_add_input (ai_text remote_input) [] [] None = None"
    "ai_project remote_input = (if trim_space [] \<noteq> [] then trim_space [] else trim_space [])"
    by (simp_all add: validate_add_input_def remote_input_def control_def)
  show "format_task_line (new_task ''qi-00000001'' remote_input) = Inr ''- [ ] a ^qi-00000001''"
    unfolding remote_task using clean_task_line(1) plain_tasks_clean(1,3) by simp
qed (simp_all add: remote_input_def control_def)

text \<open>The id of a task is written as it is given, whatever it contains.\<close>

lemma task_line_no_caret:
  assumes "clean_task t" and "tk_id t = []"
  shows "CHR ''^'' \<notin> set (task_line t)"
proof -
  have c: "clean_text (tk_text t)" "\<forall>g \<in> set (tk_tags t). is_tag g"
      "tk_recurrence t = [] \<or> clean_text (tk_recurrence t)" "tk_parent t = [] \<or> valid_qi_id (tk_parent t)"
    and w: "whole_days (tk_due t)" "whole_days (tk_scheduled t)" "whole_days (tk_completed_at t)"
    using assms by (auto simp: clean_task_def)
  have "base_text (tagged_text t)" using base_text_tagged(1) [OF c(1,2)] by (simp add: tagged_text_def)
  from line_body_no_caret [OF this c(3,4) iso_of_whole [OF w(1)] iso_of_whole [OF w(2)] iso_of_whole [OF w(3)]]
  show ?thesis using assms(2) by (simp add: task_line_def check_box_def)
qed

lemma format_with_id:
  assumes "clean_task t" and "tk_id t = []" and "i \<noteq> []"
  shows "format_task_line (t\<lparr>tk_id := i\<rparr>) = Inr (task_line t @ '' ^'' @ i)"
proof -
  have p: "format_parts (t\<lparr>tk_id := i\<rparr>) = format_parts t" by (simp add: format_parts_def Let_def cong: if_cong)
  have j: "join '' '' (format_parts t) = task_line t" and e: "trim_space (tk_text t) \<noteq> []"
    using clean_task_line(1) [OF assms(1)] assms(2) by (auto simp: format_task_line_def Let_def split: if_splits)
  note q = task_line_no_caret [OF assms(1,2)]
  have "find_sub any_block_re (task_line t) = None"
    using quiet_all(1) [OF leads_quiet [OF leads_any_block q]] by (simp add: any_block_re_def)
  moreover have "remove_all id_re (task_line t) = task_line t"
    using quiet_all(2) [OF leads_quiet [OF leads_id q]] by (simp add: id_re_def)
  moreover have "trim_space (task_line t) = task_line t"
    using clean_task_line(4) [OF assms(1)]
    by (intro trim_space_solid) (simp add: task_line_def check_box_def solid_def is_ascii_def)
  ultimately show ?thesis
    using assms(3) e by (simp add: format_task_line_def p j matches_def)
qed

text \<open>So an id with a newline, which no validation refuses, writes a second line of its own.\<close>

lemma id_can_forge_lines:
  "format_task_line (new_task (''qi-00000001'' @ [newline] @ ''- [x] forged'') remote_input)
     = Inr (''- [ ] a ^qi-00000001'' @ [newline] @ ''- [x] forged'')"
proof -
  let ?t = "open_task\<lparr>tk_id := []\<rparr>"
  have c: "clean_task ?t" using plain_tasks_clean(1) by (simp add: clean_task_def)
  have l: "task_line ?t = ''- [ ] a''"
    by (simp add: task_line_def check_box_def line_body_def tagged_text_def tag_suffix_def opt_field_def
        open_task_def plain_task_def)
  have "new_task i remote_input = ?t\<lparr>tk_id := i\<rparr>" for i
    by (simp add: new_task_def remote_input_def open_task_def plain_task_def trim_space_solid solid_def is_ascii_def)
  then show ?thesis using format_with_id [OF c] l by simp
qed

end
