(* ===== verification/TaskCreate.thy ===== *)
theory TaskCreate
  imports TaskService
begin

text \<open>
  Creating a task under a given id is idempotent (\<open>CreateTask\<close> of
  \<open>internal/service/task_service.go\<close>): what the drain of the remote queue relies on when an
  acknowledgement is lost.
\<close>

section \<open>Reading all files\<close>

definition tasks_in :: "disk \<Rightarrow> bytes \<Rightarrow> task list" where
  "tasks_in d p = (case read_tasks p (read_file_bytes d p) of Inl _ \<Rightarrow> [] | Inr ts \<Rightarrow> ts)"

lemma read_all_iff:
  "read_all d ps = Inr ts \<longleftrightarrow>
     (\<forall>p \<in> set ps. read_tasks p (read_file_bytes d p) = Inr (tasks_in d p)) \<and> ts = concat (map (tasks_in d) ps)"
proof (induction ps arbitrary: ts)
  case (Cons p ps)
  show ?case
  proof (cases "read_tasks p (read_file_bytes d p)")
    case (Inr b)
    then have "tasks_in d p = b" by (simp add: tasks_in_def)
    with Inr Cons.IH [of "concat (map (tasks_in d) ps)"] Cons.IH show ?thesis
      by (cases "read_all d ps") auto
  qed simp
qed auto

definition listed_name :: "bytes \<Rightarrow> bool" where
  "listed_name n \<longleftrightarrow> n \<noteq> [] \<and> CHR ''/'' \<notin> set n \<and> has_suffix n ''.md'' \<and> \<not> is_sync_conflict n"

lemma task_paths_iff:
  "q \<in> set (task_paths dir d) \<longleftrightarrow> (\<exists>n. q = canon_path dir n \<and> listed_name n) \<and> map_of d q \<noteq> None"
proof -
  have "n \<in> set (dir_names dir d) \<longleftrightarrow> n \<noteq> [] \<and> CHR ''/'' \<notin> set n \<and> map_of d (canon_path dir n) \<noteq> None" for n
  proof -
    have "(\<exists>p \<in> fst ` set d. has_prefix p (dir @ ''/'') \<and> n = drop (length dir + 1) p) \<longleftrightarrow> canon_path dir n \<in> fst ` set d"
    proof
      assume "\<exists>p \<in> fst ` set d. has_prefix p (dir @ ''/'') \<and> n = drop (length dir + 1) p"
      then obtain p where p: "p \<in> fst ` set d" "take (length dir + 1) p = dir @ ''/''" "n = drop (length dir + 1) p"
        by (auto simp: has_prefix_def)
      then have "canon_path dir n = take (length dir + 1) p @ drop (length dir + 1) p" by (simp add: canon_path_def)
      with p(1) show "canon_path dir n \<in> fst ` set d" by simp
    next
      assume "canon_path dir n \<in> fst ` set d"
      then show "\<exists>p \<in> fst ` set d. has_prefix p (dir @ ''/'') \<and> n = drop (length dir + 1) p"
        by (intro bexI [of _ "canon_path dir n"]) (simp_all add: canon_path_def has_prefix_def)
    qed
    then show ?thesis
      by (auto simp: dir_names_def map_of_eq_None_iff image_iff simp del: not_None_eq)
  qed
  then show ?thesis
    by (auto simp: task_paths_def listed_name_def canon_path_def simp del: not_None_eq)
qed

section \<open>The task as it is listed\<close>

text \<open>A created task carries its project only in its project field; on its line it is a tag.\<close>

definition listed_task :: "bytes \<Rightarrow> add_task_input \<Rightarrow> task" where
  "listed_task i inp = (new_task i inp)\<lparr>tk_tags := (if ai_project inp = [] then [] else [ai_project inp])\<rparr>"

definition clean_input :: "bytes \<Rightarrow> add_task_input \<Rightarrow> bool" where
  "clean_input i inp \<longleftrightarrow> clean_text (ai_text inp) \<and> (ai_project inp = [] \<or> is_tag (ai_project inp) \<and> ai_project inp \<noteq> [])
     \<and> (ai_recurrence inp = [] \<or> clean_text (ai_recurrence inp)) \<and> (ai_parent inp = [] \<or> valid_qi_id (ai_parent inp))
     \<and> valid_qi_id i \<and> whole_days (ai_due inp) \<and> whole_days (ai_scheduled inp)"

lemma clean_input_trims:
  assumes "clean_input i inp"
  shows "trim_space (ai_text inp) = ai_text inp" "trim_space (ai_project inp) = ai_project inp"
    "trim_space (ai_recurrence inp) = ai_recurrence inp" "trim_space (ai_parent inp) = ai_parent inp"
proof -
  show "trim_space (ai_text inp) = ai_text inp" "trim_space (ai_recurrence inp) = ai_recurrence inp"
    using assms by (auto simp: clean_input_def clean_text_def intro!: trim_space_solid)
  show "trim_space (ai_project inp) = ai_project inp"
    using assms is_tag_facts(4) trim_space_solid [of "[]"] by (auto simp: clean_input_def)
  have "list_all solid (ai_parent inp)" using assms valid_qi_id_solid by (auto simp: clean_input_def)
  then show "trim_space (ai_parent inp) = ai_parent inp"
    by (intro trim_space_solid) (auto simp: list_all_iff)
qed

lemma listed_task_clean:
  assumes "clean_input i inp"
  shows "clean_task (listed_task i inp)"
  using assms clean_input_trims [OF assms]
  by (auto simp: clean_task_def listed_task_def new_task_def clean_input_def)

lemma new_task_line:
  assumes "clean_input i inp"
  shows "format_task_line (new_task i inp) = Inr (task_line (listed_task i inp))"
proof -
  note tr = clean_input_trims [OF assms]
  have tx: "clean_text (ai_text inp)" using assms by (simp add: clean_input_def)
  have q: "find_all tag_re (ai_text inp) = []"
    using quiet_all(3) [OF leads_quiet [OF leads_tag]] tx by (auto simp: clean_text_def list_all_iff)
  have "format_parts (new_task i inp) = format_parts (listed_task i inp)"
    using tr by (simp add: format_parts_def listed_task_def new_task_def Let_def q)
  then have "format_task_line (new_task i inp) = format_task_line (listed_task i inp)"
    by (simp add: format_task_line_def Let_def) (simp add: listed_task_def new_task_def)
  then show ?thesis using clean_task_line(1) [OF listed_task_clean [OF assms]] by simp
qed

lemma listed_text_matches:
  assumes "clean_input i inp"
  shows "task_text_matches ((as_read (listed_task i inp))\<lparr>tk_file := p, tk_line := n\<rparr>) (trim_space (ai_text inp))"
proof -
  note tr = clean_input_trims [OF assms]
  let ?t = "listed_task i inp"
  have x: "tk_text (as_read ?t) = ai_text inp @ (if ai_project inp = [] then [] else [space, CHR ''#''] @ ai_project inp)"
    and p: "tk_project (as_read ?t) = ai_project inp"
    using tr by (simp_all add: as_read_def tagged_text_def listed_task_def new_task_def tag_suffix_def)
  show ?thesis
  proof (cases "ai_project inp = []")
    case True
    then show ?thesis using x tr by (simp add: task_text_matches_def)
  next
    case False
    have "base_text (tk_text (as_read ?t))"
      using base_text_tagged(1) listed_task_clean [OF assms] by (simp add: as_read_def tagged_text_def clean_task_def)
    then have "trim_space (tk_text (as_read ?t)) = tk_text (as_read ?t)"
      by (intro trim_space_solid) (simp add: base_text_def)
    moreover have "trim_suffix (tk_text (as_read ?t)) (CHR ''#'' # ai_project inp) = ai_text inp @ [space]"
      unfolding x using False by (simp add: trim_suffix_def has_suffix_def)
    moreover have "trim_space (ai_text inp @ replicate 1 space) = ai_text inp"
      using assms by (intro trim_space_padded) (auto simp: clean_input_def clean_text_def)
    ultimately show ?thesis using False tr p by (simp add: task_text_matches_def Let_def)
  qed
qed

section \<open>Creating twice\<close>

lemma create_lists:
  assumes c: "clean_input i inp" and s: "ts_dir s \<noteq> []"
    and path: "new_task_path s (ai_project inp) = canon_path (ts_dir s) n" "listed_name n"
    and all: "list_all_tasks s v = (v, Inr ts)"
    and complete: "\<forall>f. map_of (vt_disk v) (canon_path (ts_dir s) n) = Some f
        \<longrightarrow> f_content f = [] \<or> last (f_content f) = newline"
    and short: "length (task_line (listed_task i inp)) < 65536"
    and create: "write_new_task s inp i v = (v1, Inr t1)"
  shows "\<exists>k ts1. list_all_tasks s v1 = (v1, Inr ts1)
      \<and> set ts1 = insert ((as_read (listed_task i inp))\<lparr>tk_file := canon_path (ts_dir s) n, tk_line := k\<rparr>) (set ts)
      \<and> (\<forall>q. q \<noteq> canon_path (ts_dir s) n \<longrightarrow> map_of (vt_disk v1) q = map_of (vt_disk v) q)
      \<and> last (read_file_bytes (vt_disk v1) (canon_path (ts_dir s) n)) = newline"
proof -
  let ?p = "canon_path (ts_dir s) n" and ?d = "vt_disk v" and ?c = "listed_task i inp"
  have i: "i \<noteq> []" using c valid_qi_id_chars(2) by (simp add: clean_input_def)
  have tp: "tk_project (new_task i inp) = ai_project inp"
    using clean_input_trims(2) [OF c] by (simp add: new_task_def)
  let ?old = "read_file_bytes ?d ?p"
  let ?new = "?old @ task_line ?c @ [newline]"
  have b: "read_file_bytes (vt_disk (ensure_task_file ?p v)) ?p = ?old"
    by (auto simp: ensure_task_file_def put_file_def read_file_bytes_def map_simps)
  have app: "append_task (new_task i inp) ?old = Inr ?new" "append_task ?c ?old = Inr ?new"
    using new_task_line [OF c] clean_task_line(1) [OF listed_task_clean [OF c]] by (simp_all add: append_task_def)
  have v1: "v1 = put_file ?p ?new (ensure_task_file ?p v)"
    using create i unfolding write_new_task_def append_task_file_def
    by (auto simp: Let_def tp path b app split: option.splits)
  have look: "map_of (vt_disk v1) q = (if q = ?p then Some \<lparr>f_content = ?new, f_mtime = gt_ns (vt_now v)\<rparr> else map_of ?d q)" for q
    by (auto simp: v1 put_file_def ensure_task_file_def map_simps)
  have other: "read_file_bytes (vt_disk v1) q = read_file_bytes ?d q" if "q \<noteq> ?p" for q
    using that by (simp add: read_file_bytes_def look)
  have at: "read_file_bytes (vt_disk v1) ?p = ?new" by (simp add: read_file_bytes_def look)
  have r0: "read_all ?d (task_paths (ts_dir s) ?d) = Inr ts"
    using all s by (auto simp: list_all_tasks_def split: sum.splits)
  then have ok: "read_tasks q (read_file_bytes ?d q) = Inr (tasks_in ?d q)" if "q \<in> set (task_paths (ts_dir s) ?d)" for q
    using that read_all_iff by blast
  have ts: "ts = concat (map (tasks_in ?d) (task_paths (ts_dir s) ?d))" using r0 read_all_iff by blast
  have absent: "?p \<in> set (task_paths (ts_dir s) ?d) \<or> ?old = []"
    using path(2) by (cases "map_of ?d ?p") (auto simp: task_paths_iff read_file_bytes_def)
  have none: "read_tasks ?p [] = Inr []" by (simp add: read_tasks_def scan_lines_def)
  have old: "read_tasks ?p ?old = Inr (tasks_in ?d ?p)" using absent ok none by (auto simp: tasks_in_def)
  have ends: "?old = [] \<or> last ?old = newline"
    using complete by (cases "map_of ?d ?p") (auto simp: read_file_bytes_def)
  obtain k where new: "read_tasks ?p ?new = Inr (tasks_in ?d ?p @ [(as_read ?c)\<lparr>tk_file := ?p, tk_line := k\<rparr>])"
    using append_read [OF old ends listed_task_clean [OF c] clean_task_line(1) [OF listed_task_clean [OF c]] short] app(2)
    by auto
  let ?ps = "task_paths (ts_dir s) (vt_disk v1)" and ?t = "(as_read ?c)\<lparr>tk_file := ?p, tk_line := k\<rparr>"
  have ps: "q \<in> set ?ps \<longleftrightarrow> q = ?p \<or> q \<in> set (task_paths (ts_dir s) ?d)" for q
    using path(2) by (auto simp: task_paths_iff look)
  have ti: "tasks_in (vt_disk v1) q = (if q = ?p then tasks_in ?d ?p @ [?t] else tasks_in ?d q)" for q
    by (simp add: tasks_in_def [of "vt_disk v1"] at other new) (simp add: tasks_in_def)
  have "read_tasks q (read_file_bytes (vt_disk v1) q) = Inr (tasks_in (vt_disk v1) q)" if "q \<in> set ?ps" for q
    using that ok new by (cases "q = ?p") (auto simp: ps ti at other)
  then have r: "read_all (vt_disk v1) ?ps = Inr (concat (map (tasks_in (vt_disk v1)) ?ps))"
    by (simp add: read_all_iff)
  have "tasks_in ?d ?p = []" if "?p \<notin> set (task_paths (ts_dir s) ?d)"
    using that absent none by (auto simp: tasks_in_def)
  then have p: "set (tasks_in ?d ?p) \<subseteq> set ts" by (cases "?p \<in> set (task_paths (ts_dir s) ?d)") (auto simp: ts)
  have sp: "set ?ps = insert ?p (set (task_paths (ts_dir s) ?d))" using ps by blast
  have "set (concat (map (tasks_in (vt_disk v1)) ?ps)) = insert ?t (set ts)"
  proof (intro equalityI subsetI)
    fix x assume "x \<in> set (concat (map (tasks_in (vt_disk v1)) ?ps))"
    then obtain q where "q \<in> set ?ps" "x \<in> set (tasks_in (vt_disk v1) q)" by auto
    then show "x \<in> insert ?t (set ts)" using p by (cases "q = ?p") (auto simp: sp ti ts)
  next
    fix x assume "x \<in> insert ?t (set ts)"
    then consider "x = ?t" | q where "q \<in> set (task_paths (ts_dir s) ?d)" "x \<in> set (tasks_in ?d q)" by (auto simp: ts)
    then have "\<exists>q \<in> set ?ps. x \<in> set (tasks_in (vt_disk v1) q)"
    proof cases
      case 1
      then show ?thesis unfolding sp by (intro bexI [of _ ?p]) (simp_all add: ti)
    next
      case 2
      then show ?thesis unfolding sp by (intro bexI [of _ q]) (auto simp: ti)
    qed
    then show "x \<in> set (concat (map (tasks_in (vt_disk v1)) ?ps))" by simp
  qed
  with r s at look show ?thesis by (auto simp: list_all_tasks_def)
qed

lemma create_new:
  assumes c: "clean_input i inp" and s: "ts_dir s \<noteq> []"
    and path: "new_task_path s (ai_project inp) = canon_path (ts_dir s) n" "listed_name n"
    and none: "find_by_id s i v = (v, Inr None)"
    and complete: "\<forall>f. map_of (vt_disk v) (canon_path (ts_dir s) n) = Some f
        \<longrightarrow> f_content f = [] \<or> last (f_content f) = newline"
    and short: "length (task_line (listed_task i inp)) < 65536"
    and create: "write_new_task s inp i v = (v1, Inr t1)"
  shows "\<exists>k. find_by_id s i v1 = (v1, Inr (Some ((as_read (listed_task i inp))
      \<lparr>tk_file := canon_path (ts_dir s) n, tk_line := k\<rparr>)))"
proof -
  have i: "i \<noteq> []" using c valid_qi_id_chars(2) by (simp add: clean_input_def)
  obtain ts where all: "list_all_tasks s v = (v, Inr ts)" and absent: "find (\<lambda>t. tk_id t = i) ts = None"
    using none i by (auto simp: find_by_id_def split: sum.splits prod.splits)
  obtain k ts1 where r: "list_all_tasks s v1 = (v1, Inr ts1)"
    and ts1: "set ts1 = insert ((as_read (listed_task i inp))\<lparr>tk_file := canon_path (ts_dir s) n, tk_line := k\<rparr>) (set ts)"
    using create_lists [OF c s path all complete short create] by blast
  let ?t = "(as_read (listed_task i inp))\<lparr>tk_file := canon_path (ts_dir s) n, tk_line := k\<rparr>"
  have tid: "tk_id ?t = i" by (simp add: as_read_def listed_task_def new_task_def)
  then obtain u where u: "find (\<lambda>t. tk_id t = i) ts1 = Some u"
    using find_NoneD [of "\<lambda>t. tk_id t = i" ts1 ?t] ts1 by (cases "find (\<lambda>t. tk_id t = i) ts1") simp_all
  have "u = ?t" using find_SomeD [OF u] ts1 find_NoneD [OF absent] by auto
  then show ?thesis using u r i by (auto simp: find_by_id_def)
qed


definition queue_input :: add_task_input where
  "queue_input = remote_input\<lparr>ai_id := ''qi-0a1b2c3d''\<rparr>"

lemma queue_input_clean: "clean_input ''qi-0a1b2c3d'' queue_input"
proof -
  have a: "clean_text ''a''" by (simp add: clean_text_def solid_def is_ascii_def)
  then show ?thesis using qi_id_samples by (simp add: clean_input_def queue_input_def remote_input_def)
qed

lemma queue_input_place:
  "new_task_path sample_service (ai_project queue_input) = canon_path (ts_dir sample_service) ''inbox.md''"
  "listed_name ''inbox.md''" "ai_id queue_input = ''qi-0a1b2c3d''" "ts_dir sample_service \<noteq> []"
  by (simp_all add: new_task_path_def queue_input_def remote_input_def sample_service_def canon_path_def
      listed_name_def has_suffix_def is_sync_conflict_def contains_def to_lower_def has_prefix_def)

lemma queue_input_line: "task_line (listed_task ''qi-0a1b2c3d'' queue_input) = ''- [ ] a ^qi-0a1b2c3d''"
  using clean_input_trims [OF queue_input_clean]
  by (simp add: task_line_def check_box_def line_body_def tagged_text_def tag_suffix_def opt_field_def
      listed_task_def new_task_def queue_input_def remote_input_def)

lemma sample_vault_complete:
  "map_of (vt_disk sample_vault) p = Some f \<Longrightarrow> f_content f = [] \<or> last (f_content f) = newline"
  by (auto simp: sample_vault_def sample_file_def split: if_splits)

lemma queue_input_new: "find_by_id sample_service ''qi-0a1b2c3d'' sample_vault = (sample_vault, Inr None)"
  by (simp add: find_by_id_def sample_vault_tasks as_read_def open_task_def plain_task_def)

lemma queue_input_created: "\<exists>v1 t1. create_task sample_service queue_input sample_vault = (v1, Inr t1)"
proof -
  let ?i = "''qi-0a1b2c3d''" and ?p = "''t/inbox.md''"
  have "append_task (new_task ?i queue_input) x = Inr (x @ ''- [ ] a ^qi-0a1b2c3d'' @ [newline])" for x
    using new_task_line [OF queue_input_clean] queue_input_line by (simp add: append_task_def)
  moreover have "ensure_task_file ?p sample_vault = sample_vault"
    "read_file_bytes (vt_disk sample_vault) ?p = sample_file" "vt_fault sample_vault ?p = None"
    by (simp_all add: sample_vault_def ensure_task_file_def read_file_bytes_def)
  ultimately have "append_task_file ?p (new_task ?i queue_input) sample_vault
      = (put_file ?p (sample_file @ ''- [ ] a ^qi-0a1b2c3d'' @ [newline]) sample_vault, None)"
    by (simp add: append_task_file_def)
  moreover have q: "trim_space (ai_project queue_input) = []"
    by (simp add: queue_input_def remote_input_def trim_space_solid)
  moreover have "new_task_path sample_service (tk_project (new_task ?i queue_input)) = ?p"
    using q queue_input_place(1) by (simp add: new_task_def queue_input_def remote_input_def canon_path_def sample_service_def)
  ultimately show ?thesis
    using queue_input_new queue_input_place(3) by (simp add: create_task_def is_numeric_tag_def write_new_task_def Let_def)
qed


text \<open>
  The id must have the form of a minted one. Any other id (the queue's own, say) is written
  after the caret but not read back as an id, so the next pass does not find the task.
\<close>

lemma foreign_id_is_not_read:
  "case parse_task_line ''- [ ] a ^task-1'' of Inr (Some t) \<Rightarrow> tk_id t = [] \<and> tk_text t = ''a ^task-1'' | _ \<Rightarrow> False"
  by code_simp

end
