(* ===== verification/TextFacts.thy ===== *)
theory TextFacts
  imports GoText
begin

text \<open>
  Facts about trimming and joining text that the note, schedule and inbox theories share.
\<close>

section \<open>Trimming white space\<close>

lemma strip_seq_keeps:
  "strip_seq ps s = Some r \<Longrightarrow> c \<in> set s \<Longrightarrow> \<forall>p \<in> set ps. c \<notin> set p \<Longrightarrow> c \<in> set r"
proof (induction ps)
  case (Cons p ps)
  show ?case
  proof (cases "p \<noteq> [] \<and> has_prefix s p")
    case True
    then have "s = p @ drop (length p) s" by (metis append_take_drop_id has_prefix_def)
    then have "c \<in> set p \<or> c \<in> set (drop (length p) s)" using Cons.prems(2) by (metis Un_iff set_append)
    with True Cons.prems show ?thesis by simp
  next
    case False
    with Cons show ?thesis by simp
  qed
qed simp

lemma trim_left_seqs_keeps: "c \<in> set s \<Longrightarrow> \<forall>p \<in> set ps. c \<notin> set p \<Longrightarrow> c \<in> set (trim_left_seqs ps s)"
proof (induction ps s rule: trim_left_seqs.induct)
  case (1 ps s)
  show ?case
  proof (cases "strip_seq ps s")
    case None
    with 1 show ?thesis by (simp add: trim_left_seqs.simps [of ps s])
  next
    case (Some r)
    with 1 strip_seq_keeps [OF Some] show ?thesis by (simp add: trim_left_seqs.simps [of ps s])
  qed
qed

lemma trim_left_done: "strip_seq ps (trim_left_seqs ps s) = None"
proof (induction ps s rule: trim_left_seqs.induct)
  case (1 ps s)
  then show ?case by (cases "strip_seq ps s") (simp_all add: trim_left_seqs.simps [of ps s])
qed

lemma trim_left_None: "strip_seq ps s = None \<Longrightarrow> trim_left_seqs ps s = s"
  by (simp add: trim_left_seqs.simps [of ps s])

lemma strip_seq_None: "strip_seq ps s = None \<longleftrightarrow> (\<forall>p \<in> set ps. p \<noteq> [] \<longrightarrow> \<not> has_prefix s p)"
  by (induction ps) auto

lemma has_prefix_append: "has_prefix s p \<Longrightarrow> has_prefix (s @ t) p"
  by (auto simp: has_prefix_def) (metis append_take_drop_id length_take min.absorb_iff2 nat_le_linear take_all_iff take_append
      append_Nil2 diff_is_0_eq take_0)

lemma trim_left_drop: "\<exists>n. trim_left_seqs ps s = drop n s"
proof (induction ps s rule: trim_left_seqs.induct)
  case (1 ps s)
  show ?case
  proof (cases "strip_seq ps s")
    case None
    then show ?thesis by (simp add: trim_left_None exI [of _ 0])
  next
    case (Some r)
    have "\<exists>m. r = drop m s" using Some by (induction ps) (auto split: if_splits)
    with 1 [OF Some] Some show ?thesis by (auto simp: trim_left_seqs.simps [of ps s])
  qed
qed

lemma trim_space_idem: "trim_space (trim_space s) = trim_space s"
proof -
  let ?l = "trim_left_seqs unicode_spaces s"
  obtain n where "trim_left_seqs (map rev unicode_spaces) (rev ?l) = drop n (rev ?l)"
    using trim_left_drop by blast
  then have t: "trim_space s = take (length ?l - n) ?l"
    by (simp add: trim_space_def trim_right_seqs_def rev_drop)
  have "strip_seq unicode_spaces (trim_space s) = None"
  proof -
    have "\<not> has_prefix (trim_space s) p" if "p \<in> set unicode_spaces" "p \<noteq> []" for p
    proof
      assume "has_prefix (trim_space s) p"
      then have "has_prefix (trim_space s @ drop (length ?l - n) ?l) p" by (rule has_prefix_append)
      then have "has_prefix ?l p" by (simp add: t)
      with that trim_left_done [of unicode_spaces s] show False by (auto simp: strip_seq_None)
    qed
    then show ?thesis by (simp add: strip_seq_None)
  qed
  then have "trim_left_seqs unicode_spaces (trim_space s) = trim_space s" by (rule trim_left_None)
  moreover have "trim_right_seqs unicode_spaces (trim_space s) = trim_space s"
    using trim_left_None [OF trim_left_done] by (simp add: trim_space_def trim_right_seqs_def)
  ultimately show ?thesis by (simp add: trim_space_def [of "trim_space s"])
qed

section \<open>Trimming a set of characters\<close>

lemma trim_right_set_snoc: "trim_right_set (s @ [c]) [c] = trim_right_set s [c]"
  by (simp add: trim_right_set_def)

lemma trim_right_set_last: "s = [] \<or> last s \<notin> set cs \<Longrightarrow> trim_right_set s cs = s"
  by (cases s rule: rev_cases) (auto simp: trim_right_set_def)

lemma trim_right_set_ends: "trim_right_set s cs = [] \<or> last (trim_right_set s cs) \<notin> set cs"
proof (induction s rule: rev_induct)
  case (snoc c s)
  then show ?case by (cases "c \<in> set cs") (simp_all add: trim_right_set_def)
qed (simp add: trim_right_set_def)

lemma trim_set_snoc: "trim_set (s @ [c]) [c] = trim_set s [c]"
proof (cases "\<forall>x \<in> set s. x = c")
  case True
  then have "trim_left_set s [c] = []" "trim_left_set (s @ [c]) [c] = []" by (auto simp: trim_left_set_def)
  then show ?thesis by (simp add: trim_set_def)
next
  case False
  then have "trim_left_set (s @ [c]) [c] = trim_left_set s [c] @ [c]"
    by (auto simp: trim_left_set_def dropWhile_append)
  then show ?thesis by (simp add: trim_set_def trim_right_set_snoc)
qed

lemma trim_set_Nil [simp]: "trim_set [] cs = []"
  by (simp add: trim_set_def trim_right_set_def trim_left_set_def)

lemma trim_set_idem: "trim_set (trim_set s cs) cs = trim_set s cs"
proof (cases "trim_left_set s cs")
  case Nil
  then have "trim_set s cs = []" by (simp add: trim_set_def trim_right_set_def)
  then show ?thesis by simp
next
  case (Cons c t)
  then have c: "c \<notin> set cs" using hd_dropWhile [of "\<lambda>c. c \<in> set cs" s] by (simp add: trim_left_set_def)
  then have "trim_set s cs = c # trim_right_set t cs"
    using Cons by (simp add: trim_set_def trim_right_set_def dropWhile_append)
  moreover from this c have "trim_left_set (trim_set s cs) cs = trim_set s cs" by (simp add: trim_left_set_def)
  ultimately show ?thesis
    using trim_right_set_last [OF trim_right_set_ends [of "trim_left_set s cs" cs]] by (simp add: trim_set_def)
qed

lemma trim_set_subset: "set (trim_set s cs) \<subseteq> set s"
proof -
  have "set (trim_right_set (trim_left_set s cs) cs) \<subseteq> set (trim_left_set s cs)"
    by (auto simp: trim_right_set_def dest: set_dropWhileD)
  then show ?thesis by (auto simp: trim_set_def trim_left_set_def dest: set_dropWhileD)
qed

lemma trim_set_id: "s = [] \<or> hd s \<notin> set cs \<and> last s \<notin> set cs \<Longrightarrow> trim_set s cs = s"
  by (cases s) (auto simp: trim_set_def trim_left_set_def trim_right_set_last)

lemma trimmed_hd: "trim_set b cs = b \<Longrightarrow> b \<noteq> [] \<Longrightarrow> hd b \<notin> set cs"
proof -
  assume t: "trim_set b cs = b" and n: "b \<noteq> []"
  obtain t' where "trim_left_set b cs = trim_set b cs @ t'"
    unfolding trim_set_def trim_right_set_def by (metis rev_append rev_rev_ident takeWhile_dropWhile_id)
  then have "hd (trim_left_set b cs) = hd b" "trim_left_set b cs \<noteq> []" using t n by simp_all
  then show ?thesis using hd_dropWhile [of "\<lambda>c. c \<in> set cs" b] by (simp add: trim_left_set_def)
qed

section \<open>Joining\<close>

lemma join_snoc_empty: "ls \<noteq> [] \<Longrightarrow> join sep (ls @ [[]]) = join sep ls @ sep"
  by (induction sep ls rule: join.induct) simp_all

lemma join_first: "join sep (w # ws) = w @ (if ws = [] then [] else sep @ join sep ws)"
  by (cases ws) auto

lemma join_last: "join sep (ws @ [w]) = (if ws = [] then [] else join sep ws @ sep) @ w"
  by (induction ws) (auto simp: join_first)

end
