(* ===== verification/DailyNote.thy ===== *)
theory DailyNote
  imports TextFacts
begin

text \<open>
  The sections of a daily note (\<open>internal/vault/daily.go\<close>) and the atomic replacement of
  a file they are written with (\<open>internal/vault/atomic.go\<close>).

  Reading and replacing the body of a section are the two halves of a lens on the content of
  the note: what was written is read, writing again replaces it without residue, and no line
  with text outside the section changes.
\<close>

section \<open>Sections\<close>

definition logsHeading :: bytes where "logsHeading = ''Logs''"

definition heading_line :: "bytes \<Rightarrow> bytes" where
  "heading_line h = ''## '' @ h"

definition is_heading :: "bytes \<Rightarrow> bytes \<Rightarrow> bool" where
  "is_heading h l \<longleftrightarrow> trim_right_set l [CHR '' '', CHR 0x09] = heading_line h"

fun heading_index :: "bytes list \<Rightarrow> bytes \<Rightarrow> nat option" where
  "heading_index [] h = None"
| "heading_index (l # ls) h = (if is_heading h l then Some 0 else map_option Suc (heading_index ls h))"

definition opens_section :: "bytes \<Rightarrow> bool" where
  "opens_section l \<longleftrightarrow> has_prefix l ''## ''"

text \<open>The start of the section and the number of lines of its body.\<close>

definition section_bounds :: "bytes list \<Rightarrow> bytes \<Rightarrow> (nat \<times> nat) option" where
  "section_bounds ls h =
     (case heading_index ls h of
        None \<Rightarrow> None
      | Some s \<Rightarrow> Some (s, s + 1 + length (takeWhile (Not \<circ> opens_section) (drop (s + 1) ls))))"

text \<open>
  What \<open>os.ReadFile\<close> gives: no file, an error with the bytes read until then, or the content.
\<close>

datatype file_read = Missing | Unreadable go_error bytes | Readable bytes

fun read_data :: "file_read \<Rightarrow> bytes" where
  "read_data Missing = []"
| "read_data (Unreadable e part) = part"
| "read_data (Readable c) = c"

definition section_body :: "bytes \<Rightarrow> bytes \<Rightarrow> bytes option" where
  "section_body h content =
     (let ls = split_on newline content in
      case section_bounds ls h of
        None \<Rightarrow> None
      | Some (s, e) \<Rightarrow> Some (trim_set (join [newline] (drop (s + 1) (take e ls))) [newline]))"

fun read_section :: "file_read \<Rightarrow> bytes \<Rightarrow> go_error + bytes option" where
  "read_section Missing h = Inr None"
| "read_section (Unreadable e part) h = Inl e"
| "read_section (Readable c) h = Inr (section_body h c)"

definition render_section :: "bytes \<Rightarrow> bytes \<Rightarrow> bytes list" where
  "render_section h body =
     (let b = trim_set body [newline]
      in heading_line h # (if b \<noteq> [] then split_on newline b else []) @ [[]])"

abbreviation blank :: "bytes \<Rightarrow> bool" where
  "blank l \<equiv> trim_space l = []"

definition is_blank :: "bytes list \<Rightarrow> bool" where
  "is_blank ls \<longleftrightarrow> list_all blank ls"

definition trim_trailing_blanks :: "bytes list \<Rightarrow> bytes list" where
  "trim_trailing_blanks ls = rev (dropWhile blank (rev ls))"

definition insert_managed :: "bytes list \<Rightarrow> bytes \<Rightarrow> bytes list \<Rightarrow> bytes list" where
  "insert_managed ls h sec =
     (if is_blank ls then sec
      else (case if h \<noteq> logsHeading then heading_index ls logsHeading else None of
          Some i \<Rightarrow> take i ls @ sec @ drop i ls
        | None \<Rightarrow> trim_trailing_blanks ls @ [[]] @ sec))"

definition split_keep :: "bytes \<Rightarrow> bytes list" where
  "split_keep content =
     (if content = [] then []
      else (let ls = split_on newline content in if last ls = [] then butlast ls else ls))"

definition write_lines :: "bytes list \<Rightarrow> bytes" where
  "write_lines ls =
     (let content = join [newline] (trim_trailing_blanks ls)
      in if content \<noteq> [] then content @ [newline] else content)"

text \<open>The new lines of the note, its new content, and the operation with the fault of the write.\<close>

definition replaced_lines :: "bytes \<Rightarrow> bytes \<Rightarrow> bytes list \<Rightarrow> bytes list" where
  "replaced_lines h body ls =
     (case section_bounds ls h of
        None \<Rightarrow> insert_managed ls h (render_section h body)
      | Some (s, e) \<Rightarrow> take s ls @ render_section h body @ drop e ls)"

definition replaced :: "bytes \<Rightarrow> bytes \<Rightarrow> bytes \<Rightarrow> bytes" where
  "replaced h body content = write_lines (replaced_lines h body (split_keep content))"

definition replace_section ::
  "go_error option \<Rightarrow> bytes \<Rightarrow> bytes \<Rightarrow> file_read \<Rightarrow> file_read \<times> go_error option" where
  "replace_section fault h body f =
     (case fault of
        Some e \<Rightarrow> (f, Some e)
      | None \<Rightarrow> (Readable (replaced h body (read_data f)), None))"

definition append_to_section ::
  "go_error option \<Rightarrow> bytes \<Rightarrow> bytes \<Rightarrow> file_read \<Rightarrow> file_read \<times> go_error option" where
  "append_to_section fault h line f =
     (case read_section f h of
        Inl e \<Rightarrow> (f, Some e)
      | Inr found \<Rightarrow>
          replace_section fault h
            (case found of Some body \<Rightarrow> if body \<noteq> [] then body @ [newline] @ line else line | None \<Rightarrow> line) f)"

section \<open>Bounds\<close>

lemma heading_index_None: "heading_index ls h = None \<longleftrightarrow> (\<forall>l \<in> set ls. \<not> is_heading h l)"
  by (induction ls) auto

lemma heading_index_found:
  "\<forall>l \<in> set pre. \<not> is_heading h l \<Longrightarrow> is_heading h l \<Longrightarrow> heading_index (pre @ l # rest) h = Some (length pre)"
  by (induction pre) auto

lemma heading_index_SomeE:
  assumes "heading_index ls h = Some s"
  obtains pre l rest where "ls = pre @ l # rest" and "length pre = s" and "is_heading h l"
    and "\<forall>l \<in> set pre. \<not> is_heading h l"
proof -
  have "\<exists>pre l rest. ls = pre @ l # rest \<and> length pre = s \<and> is_heading h l \<and> (\<forall>l \<in> set pre. \<not> is_heading h l)"
    using assms
  proof (induction ls arbitrary: s)
    case (Cons a ls)
    show ?case
    proof (cases "is_heading h a")
      case True
      with Cons.prems show ?thesis by (intro exI [of _ "[]"] exI [of _ a] exI [of _ ls]) simp
    next
      case False
      with Cons.prems obtain s' where "heading_index ls h = Some s'" "s = Suc s'" by auto
      with Cons.IH obtain pre l rest where "ls = pre @ l # rest" "length pre = s'" "is_heading h l"
        "\<forall>l \<in> set pre. \<not> is_heading h l" by blast
      with False \<open>s = Suc s'\<close> show ?thesis by (intro exI [of _ "a # pre"]) auto
    qed
  qed simp
  then show ?thesis using that by blast
qed

text \<open>A document in three parts around the heading line.\<close>

definition parts :: "bytes \<Rightarrow> bytes list \<Rightarrow> bytes \<Rightarrow> bytes list \<Rightarrow> bytes list \<Rightarrow> bool" where
  "parts h pre l mid post \<longleftrightarrow>
     (\<forall>x \<in> set pre. \<not> is_heading h x) \<and> is_heading h l \<and> list_all (Not \<circ> opens_section) mid
     \<and> (post = [] \<or> opens_section (hd post))"

lemma section_bounds_parts:
  assumes "parts h pre l mid post"
  shows "section_bounds (pre @ l # mid @ post) h = Some (length pre, length pre + 1 + length mid)"
proof -
  have "takeWhile (Not \<circ> opens_section) (mid @ post) = mid"
    using assms by (cases post) (auto simp: parts_def list_all_iff takeWhile_append)
  with assms show ?thesis by (simp add: section_bounds_def heading_index_found parts_def)
qed

lemma section_bounds_SomeE:
  assumes "section_bounds ls h = Some (s, e)"
  obtains pre l mid post where "ls = pre @ l # mid @ post" and "parts h pre l mid post"
    and "s = length pre" and "e = length pre + 1 + length mid"
proof -
  from assms obtain pre l rest where r: "ls = pre @ l # rest" "length pre = s" "is_heading h l"
    "\<forall>l \<in> set pre. \<not> is_heading h l"
    by (auto simp: section_bounds_def split: option.splits elim: heading_index_SomeE)
  let ?m = "takeWhile (Not \<circ> opens_section) rest" and ?p = "dropWhile (Not \<circ> opens_section) rest"
  have "?p = [] \<or> opens_section (hd ?p)" using hd_dropWhile [of "Not \<circ> opens_section" rest] by auto
  then have "parts h pre l ?m ?p" using r by (auto simp: parts_def list_all_iff dest: set_takeWhileD)
  moreover have "e = length pre + 1 + length ?m"
    using assms r heading_index_found [of pre h l rest] by (simp add: section_bounds_def)
  ultimately show ?thesis using that [of pre l ?m ?p] r by simp
qed

section \<open>Blank lines\<close>

lemma mark_not_blank:
  assumes h: "c \<in> set l" and "list_all (\<lambda>p. c \<notin> set p) unicode_spaces"
  shows "\<not> blank l"
proof -
  have n: "\<forall>p \<in> set unicode_spaces. c \<notin> set p" using assms(2) by (simp add: list_all_iff)
  from trim_left_seqs_keeps [OF h n]
  have "c \<in> set (rev (trim_left_seqs unicode_spaces l))" by simp
  from trim_left_seqs_keeps [OF this, of "map rev unicode_spaces"] n
  have "c \<in> set (trim_space l)" by (simp add: trim_space_def trim_right_seqs_def)
  then show "\<not> blank l" by auto
qed

lemma opens_not_blank: "opens_section l \<Longrightarrow> \<not> blank l"
proof (rule mark_not_blank [of "CHR ''#''"])
  show "list_all (\<lambda>p. CHR ''#'' \<notin> set p) unicode_spaces" by code_simp
  assume "opens_section l"
  then have "CHR ''#'' \<in> set (take (length ''## '') l)" by (simp only: opens_section_def has_prefix_def) simp
  then show "CHR ''#'' \<in> set l" by (rule in_set_takeD)
qed

lemma blank_Nil [simp]: "blank []"
  by code_simp

lemma ttb_last: "\<not> blank l \<Longrightarrow> trim_trailing_blanks (ls @ [l]) = ls @ [l]"
  by (simp add: trim_trailing_blanks_def)

lemma ttb_blank [simp]: "blank l \<Longrightarrow> trim_trailing_blanks (ls @ [l]) = trim_trailing_blanks ls"
  by (simp add: trim_trailing_blanks_def)

lemma ttb_Nil [simp]: "trim_trailing_blanks [] = []"
  by (simp add: trim_trailing_blanks_def)

lemma ttb_idem: "ls \<noteq> [] \<Longrightarrow> \<not> blank (last ls) \<Longrightarrow> trim_trailing_blanks ls = ls"
  by (metis append_butlast_last_id ttb_last)

lemma ttb_append: "\<exists>l \<in> set ys. \<not> blank l \<Longrightarrow> trim_trailing_blanks (xs @ ys) = xs @ trim_trailing_blanks ys"
proof (induction ys rule: rev_induct)
  case (snoc y ys)
  show ?case
  proof (cases "blank y")
    case True
    with snoc have "trim_trailing_blanks (xs @ ys) = xs @ trim_trailing_blanks ys" by auto
    with True ttb_blank [of y "xs @ ys"] ttb_blank [of y ys] show ?thesis by (simp del: ttb_blank)
  next
    case False
    with ttb_last [of y "xs @ ys"] ttb_last [of y ys] show ?thesis by simp
  qed
qed simp

lemma ttb_head: "\<not> blank l \<Longrightarrow> trim_trailing_blanks (l # ls) = l # trim_trailing_blanks ls"
proof (induction ls rule: rev_induct)
  case Nil
  then show ?case using ttb_last [of l "[]"] by simp
next
  case (snoc x xs)
  show ?case
  proof (cases "blank x")
    case True
    with snoc ttb_blank [of x "l # xs"] show ?thesis by simp
  next
    case False
    with ttb_last [of x "l # xs"] ttb_last [of x xs] show ?thesis by simp
  qed
qed

lemma ttb_texts: "filter (Not \<circ> blank) (trim_trailing_blanks ls) = filter (Not \<circ> blank) ls"
proof (induction ls rule: rev_induct)
  case (snoc x xs)
  then show ?case by (cases "blank x") (simp_all add: ttb_last)
qed simp

lemma ttb_subset: "set (trim_trailing_blanks ls) \<subseteq> set ls"
  by (metis set_dropWhileD set_rev subsetI trim_trailing_blanks_def)

lemma ttb_last_text: "trim_trailing_blanks ls \<noteq> [] \<Longrightarrow> \<not> blank (last (trim_trailing_blanks ls))"
proof (induction ls rule: rev_induct)
  case (snoc x xs)
  then show ?case by (cases "blank x") (simp_all add: ttb_last)
qed simp

section \<open>Reading what was replaced\<close>

text \<open>
  A heading is clean when the line written for it is recognised; a body is plain when no line
  of it looks like a heading of this level and its last line has text.
\<close>

definition clean_heading :: "bytes \<Rightarrow> bool" where
  "clean_heading h \<longleftrightarrow> h \<noteq> [] \<and> newline \<notin> set h \<and> last h \<noteq> CHR '' '' \<and> last h \<noteq> CHR 0x09"

definition plain_body :: "bytes \<Rightarrow> bool" where
  "plain_body body \<longleftrightarrow>
     (let b = trim_set body [newline]
      in list_all (Not \<circ> opens_section) (split_on newline b) \<and> (b \<noteq> [] \<longrightarrow> \<not> blank (last (split_on newline b))))"

definition body_lines :: "bytes \<Rightarrow> bytes list" where
  "body_lines body = (let b = trim_set body [newline] in if b \<noteq> [] then split_on newline b else [])"

lemma render_section_lines: "render_section h body = heading_line h # body_lines body @ [[]]"
  by (simp add: render_section_def body_lines_def Let_def)

lemma heading_line_facts:
  assumes "clean_heading h"
  shows "is_heading h (heading_line h)" and "opens_section (heading_line h)" and "\<not> blank (heading_line h)"
    and "newline \<notin> set (heading_line h)"
proof -
  show "is_heading h (heading_line h)"
    using assms unfolding is_heading_def
    by (intro trim_right_set_last) (auto simp: heading_line_def clean_heading_def)
  show o: "opens_section (heading_line h)" by (simp add: opens_section_def heading_line_def has_prefix_def)
  then show "\<not> blank (heading_line h)" by (rule opens_not_blank)
  show "newline \<notin> set (heading_line h)" using assms by (simp add: heading_line_def clean_heading_def)
qed

lemma body_lines_facts:
  shows "l \<in> set (body_lines body) \<Longrightarrow> newline \<notin> set l"
    and "plain_body body \<Longrightarrow> list_all (Not \<circ> opens_section) (body_lines body)"
    and "plain_body body \<Longrightarrow> trim_trailing_blanks (body_lines body) = body_lines body"
    and "join [newline] (body_lines body) = trim_set body [newline]"
  using split_on_no_sep [of l newline] join_split_on [of newline]
  by (auto simp: body_lines_def plain_body_def Let_def ttb_idem split: if_splits)

text \<open>The lines with text that are not in the section.\<close>

definition text_outside :: "bytes \<Rightarrow> bytes list \<Rightarrow> bytes list" where
  "text_outside h ls =
     filter (Not \<circ> blank) (case section_bounds ls h of None \<Rightarrow> ls | Some (s, e) \<Rightarrow> take s ls @ drop e ls)"

lemma text_outside_parts:
  "parts h pre l mid post \<Longrightarrow> text_outside h (pre @ l # mid @ post) = filter (Not \<circ> blank) (pre @ post)"
  by (simp add: text_outside_def section_bounds_parts)

lemma blank_texts: "is_blank ls \<Longrightarrow> filter (Not \<circ> blank) ls = []"
  by (auto simp: is_blank_def list_all_iff filter_empty_conv)

text \<open>Every case of the replacement puts the section between the same two parts.\<close>

lemma replaced_lines_parts:
  obtains pre post where "\<And>body. replaced_lines h body ls = pre @ render_section h body @ post"
    and "\<forall>x \<in> set pre. \<not> is_heading h x" and "post = [] \<or> opens_section (hd post)"
    and "\<forall>x \<in> set pre \<union> set post. x = [] \<or> x \<in> set ls"
    and "filter (Not \<circ> blank) (pre @ post) = text_outside h ls"
proof (cases "section_bounds ls h")
  case (Some b)
  then obtain s e where "section_bounds ls h = Some (s, e)" by (cases b) auto
  then obtain pre l mid post where p: "ls = pre @ l # mid @ post" "parts h pre l mid post"
    "s = length pre" "e = length pre + 1 + length mid" by (rule section_bounds_SomeE)
  have "replaced_lines h body ls = pre @ render_section h body @ post" for body
    using section_bounds_parts [OF p(2)] by (simp add: replaced_lines_def p(1))
  moreover have "filter (Not \<circ> blank) (pre @ post) = text_outside h ls"
    using text_outside_parts [OF p(2)] by (simp add: p(1))
  ultimately show ?thesis using p(1,2) by (intro that [of pre post]) (auto simp: parts_def)
next
  case None
  then have n: "\<forall>l \<in> set ls. \<not> is_heading h l"
    by (simp add: section_bounds_def heading_index_None split: option.splits)
  note r = replaced_lines_def insert_managed_def None
  have o: "text_outside h ls = filter (Not \<circ> blank) ls" by (simp add: text_outside_def None)
  consider "is_blank ls"
    | i where "\<not> is_blank ls" "h \<noteq> logsHeading" "heading_index ls logsHeading = Some i"
    | "\<not> is_blank ls" "h = logsHeading \<or> heading_index ls logsHeading = None" by (cases "heading_index ls logsHeading") auto
  then show ?thesis
  proof cases
    case 1
    then show ?thesis by (intro that [of "[]" "[]"]) (simp_all add: r o blank_texts)
  next
    case 2
    from 2(3) obtain pre l rest where p: "ls = pre @ l # rest" "length pre = i" "is_heading logsHeading l"
      by (rule heading_index_SomeE)
    have "opens_section l"
    proof -
      have "take 3 l = take 3 (trim_right_set l [CHR '' '', CHR 0x09])"
      proof -
        have "\<exists>t. l = trim_right_set l cs @ t" for cs
          unfolding trim_right_set_def by (metis rev_append rev_rev_ident takeWhile_dropWhile_id)
        then obtain t where t: "l = trim_right_set l [CHR '' '', CHR 0x09] @ t" by blast
        have "3 \<le> length (trim_right_set l [CHR '' '', CHR 0x09])"
          using p(3) by (simp add: is_heading_def heading_line_def logsHeading_def)
        with t show ?thesis by (metis append_Nil2 diff_is_0_eq take0 take_append)
      qed
      then show ?thesis using p(3)
        by (simp add: is_heading_def heading_line_def logsHeading_def opens_section_def has_prefix_def numeral_3_eq_3)
    qed
    moreover have "replaced_lines h body ls = take i ls @ render_section h body @ drop i ls" for body
      by (simp add: r 2)
    moreover have "filter (Not \<circ> blank) (pre @ l # rest) = text_outside h ls" using o by (simp only: p(1))
    ultimately show ?thesis using p n by (intro that [of pre "l # rest"]) auto
  next
    case 3
    have "\<not> is_heading h []" by (simp add: is_heading_def heading_line_def trim_right_set_def)
    with 3 n ttb_subset [of ls] show ?thesis
      by (intro that [of "trim_trailing_blanks ls @ [[]]" "[]"]) (auto simp: r o ttb_texts)
  qed
qed

lemma split_written:
  assumes "\<forall>l \<in> set ls. newline \<notin> set l" and "trim_trailing_blanks ls \<noteq> []"
  shows "split_on newline (write_lines ls) = trim_trailing_blanks ls @ [[]]"
    and "split_keep (write_lines ls) = trim_trailing_blanks ls"
proof -
  let ?t = "trim_trailing_blanks ls"
  have t: "\<forall>l \<in> set ?t. newline \<notin> set l" using assms(1) ttb_subset [of ls] by auto
  have "join [newline] ?t \<noteq> []"
  proof
    assume "join [newline] ?t = []"
    then have "?t = [[]]" using split_on_join [OF assms(2) t] by simp
    then show False using ttb_last_text [OF assms(2)] by simp
  qed
  then have w: "write_lines ls = join [newline] ?t @ newline # []" by (simp add: write_lines_def)
  show "split_on newline (write_lines ls) = ?t @ [[]]"
    by (simp only: w split_on_sep split_on_join [OF assms(2) t]) simp
  then show "split_keep (write_lines ls) = ?t"
    by (auto simp: split_keep_def w)
qed

text \<open>The lines of a note after its section was replaced, with and without the final newline.\<close>

lemma written_parts:
  assumes "clean_heading h" and "plain_body body" and "\<forall>x \<in> set pre \<union> set post. newline \<notin> set x"
    and "post = [] \<or> opens_section (hd post)"
  defines "out \<equiv> write_lines (pre @ render_section h body @ post)"
  obtains mid where "split_keep out = pre @ heading_line h # mid @ trim_trailing_blanks post"
    and "split_on newline out = (if post = [] then pre @ heading_line h # (mid @ [[]]) @ []
           else pre @ heading_line h # mid @ (trim_trailing_blanks post @ [[]]))"
    and "list_all (Not \<circ> opens_section) mid" and "mid = body_lines body @ (if post = [] then [] else [[]])"
proof -
  note hf = heading_line_facts [OF assms(1)] and bf = body_lines_facts
  let ?mid = "body_lines body @ (if post = [] then [] else [[]])"
  have t: "trim_trailing_blanks (pre @ render_section h body @ post) =
      pre @ heading_line h # ?mid @ trim_trailing_blanks post"
  proof -
    have "trim_trailing_blanks (body_lines body @ [[]] @ post) = ?mid @ trim_trailing_blanks post"
    proof (cases "post = []")
      case True
      then show ?thesis using bf(3) [OF assms(2)] by simp
    next
      case False
      then have "\<exists>l \<in> set post. \<not> blank l" using assms(4) opens_not_blank by (metis hd_in_set)
      from ttb_append [OF this, of "body_lines body @ [[]]"] False show ?thesis by simp
    qed
    moreover have "trim_trailing_blanks (pre @ (heading_line h # body_lines body @ [[]] @ post)) =
        pre @ heading_line h # trim_trailing_blanks (body_lines body @ [[]] @ post)"
      using ttb_append [of "heading_line h # body_lines body @ [[]] @ post" pre] ttb_head hf(3) by simp
    ultimately show ?thesis by (simp add: render_section_lines)
  qed
  have "\<forall>l \<in> set (pre @ render_section h body @ post). newline \<notin> set l"
    using assms(3) hf(4) bf(1) [of _ body] by (auto simp: render_section_lines)
  from split_written [OF this] t
  have "split_keep out = pre @ heading_line h # ?mid @ trim_trailing_blanks post"
    and "split_on newline out = pre @ heading_line h # ?mid @ trim_trailing_blanks post @ [[]]"
    by (simp_all add: out_def)
  moreover have "list_all (Not \<circ> opens_section) ?mid"
    using bf(2) [OF assms(2)] by (simp add: opens_section_def has_prefix_def)
  ultimately show ?thesis by (intro that [of ?mid]) auto
qed

lemma no_newline_parts:
  assumes "\<forall>x \<in> set pre \<union> set post. x = [] \<or> x \<in> set (split_keep content)"
  shows "\<forall>x \<in> set pre \<union> set post. newline \<notin> set x"
proof -
  have "set (split_keep content) \<subseteq> set (split_on newline content)"
    by (auto simp: split_keep_def Let_def dest: in_set_butlastD split: if_splits)
  with assms show ?thesis by (metis empty_iff list.set(1) split_on_no_sep subsetD)
qed

lemma opens_ttb: "post \<noteq> [] \<Longrightarrow> opens_section (hd post) \<Longrightarrow> trim_trailing_blanks post \<noteq> [] \<and> hd (trim_trailing_blanks post) = hd post"
  using opens_not_blank ttb_head by (cases post) auto

lemma opens_Nil [simp]: "\<not> opens_section []"
  by (simp add: opens_section_def has_prefix_def)

lemma read_replaced:
  assumes "clean_heading h" and "plain_body body"
  shows "section_body h (replaced h body content) = Some (trim_set body [newline])"
proof -
  obtain pre post where r: "\<And>body. replaced_lines h body (split_keep content) = pre @ render_section h body @ post"
    and p: "\<forall>x \<in> set pre. \<not> is_heading h x" "post = [] \<or> opens_section (hd post)"
    and n: "\<forall>x \<in> set pre \<union> set post. x = [] \<or> x \<in> set (split_keep content)"
    by (rule replaced_lines_parts) blast
  have w: "replaced h body content = write_lines (pre @ render_section h body @ post)"
    by (simp add: replaced_def r)
  obtain mid where s: "split_on newline (replaced h body content) =
        (if post = [] then pre @ heading_line h # (mid @ [[]]) @ []
         else pre @ heading_line h # mid @ (trim_trailing_blanks post @ [[]]))"
    and m: "list_all (Not \<circ> opens_section) mid" "mid = body_lines body @ (if post = [] then [] else [[]])"
    using written_parts [OF assms no_newline_parts [OF n] p(2)] unfolding w by blast
  have "parts h pre (heading_line h) (body_lines body @ [[]]) (if post = [] then [] else trim_trailing_blanks post @ [[]])"
    using p m heading_line_facts(1) [OF assms(1)] opens_ttb [of post] by (auto simp: parts_def hd_append split: if_splits)
  from section_bounds_parts [OF this]
  have b: "section_bounds (split_on newline (replaced h body content)) h =
      Some (length pre, length pre + 1 + length (body_lines body @ [[]]))"
    by (cases "post = []") (simp_all add: s m(2))
  have "trim_set (join [newline] (body_lines body @ [[]])) [newline] = trim_set body [newline]"
  proof (cases "body_lines body = []")
    case True
    then have "trim_set body [newline] = []" by (simp add: body_lines_def Let_def split: if_splits)
    with True show ?thesis by simp
  next
    case False
    then have "join [newline] (body_lines body @ [[]]) = join [newline] (body_lines body) @ [newline]"
      by (rule join_snoc_empty)
    then show ?thesis by (simp add: trim_set_snoc body_lines_facts(4) trim_set_idem)
  qed
  then show ?thesis unfolding section_body_def Let_def b by (simp add: s m(2))
qed

lemma ttb_within: "trim_trailing_blanks (xs @ trim_trailing_blanks ys) = trim_trailing_blanks (xs @ ys)"
proof (induction ys rule: rev_induct)
  case (snoc y ys)
  show ?case
  proof (cases "blank y")
    case True
    with snoc ttb_blank [of y "xs @ ys"] show ?thesis by simp
  next
    case False
    then show ?thesis by (simp add: ttb_last)
  qed
qed simp

lemma write_lines_within: "write_lines (xs @ trim_trailing_blanks ys) = write_lines (xs @ ys)"
  by (simp add: write_lines_def ttb_within)

text \<open>What a replacement makes of a note, as three parts.\<close>

lemma replaced_parts:
  assumes "clean_heading h" and "plain_body body"
  obtains pre mid post where "\<And>b. replaced h b content = write_lines (pre @ render_section h b @ post)"
    and "parts h pre (heading_line h) mid (trim_trailing_blanks post)"
    and "split_keep (replaced h body content) = pre @ heading_line h # mid @ trim_trailing_blanks post"
    and "filter (Not \<circ> blank) (pre @ post) = text_outside h (split_keep content)"
proof -
  obtain pre post where r: "\<And>body. replaced_lines h body (split_keep content) = pre @ render_section h body @ post"
    and p: "\<forall>x \<in> set pre. \<not> is_heading h x" "post = [] \<or> opens_section (hd post)"
    and n: "\<forall>x \<in> set pre \<union> set post. x = [] \<or> x \<in> set (split_keep content)"
    and o: "filter (Not \<circ> blank) (pre @ post) = text_outside h (split_keep content)"
    by (rule replaced_lines_parts) blast
  have w: "replaced h b content = write_lines (pre @ render_section h b @ post)" for b
    by (simp add: replaced_def r)
  obtain mid where s: "split_keep (replaced h body content) = pre @ heading_line h # mid @ trim_trailing_blanks post"
    and m: "list_all (Not \<circ> opens_section) mid"
    using written_parts [OF assms no_newline_parts [OF n] p(2)] unfolding w by blast
  moreover have "trim_trailing_blanks post = [] \<or> opens_section (hd (trim_trailing_blanks post))"
    using p(2) opens_ttb [of post] by (cases "post = []") simp_all
  then have "parts h pre (heading_line h) mid (trim_trailing_blanks post)"
    using p m heading_line_facts(1) [OF assms(1)] by (simp add: parts_def)
  ultimately show ?thesis using that w o by blast
qed

lemma replaced_twice:
  assumes "clean_heading h" and "plain_body body'"
  shows "replaced h body (replaced h body' content) = replaced h body content"
proof -
  obtain pre mid post where w: "\<And>b. replaced h b content = write_lines (pre @ render_section h b @ post)"
    and p: "parts h pre (heading_line h) mid (trim_trailing_blanks post)"
    and s: "split_keep (replaced h body' content) = pre @ heading_line h # mid @ trim_trailing_blanks post"
    and "filter (Not \<circ> blank) (pre @ post) = text_outside h (split_keep content)"
    by (rule replaced_parts [OF assms, where content = content]) blast
  have "replaced_lines h body (pre @ heading_line h # mid @ trim_trailing_blanks post) =
      pre @ render_section h body @ trim_trailing_blanks post"
    by (simp add: replaced_lines_def section_bounds_parts [OF p])
  then have "replaced h body (replaced h body' content) = write_lines ((pre @ render_section h body) @ trim_trailing_blanks post)"
    by (simp add: replaced_def [of h body "replaced h body' content"] s)
  then show ?thesis unfolding write_lines_within w by simp
qed

lemma text_outside_snoc: "text_outside h (ls @ [[]]) = text_outside h ls"
proof (cases "section_bounds ls h")
  case None
  then have "heading_index (ls @ [[]]) h = None"
    by (auto simp: section_bounds_def heading_index_None is_heading_def heading_line_def trim_right_set_def split: option.splits)
  with None show ?thesis by (simp add: text_outside_def section_bounds_def)
next
  case (Some b)
  then obtain s e where "section_bounds ls h = Some (s, e)" by (cases b) auto
  then obtain pre l mid post where p: "ls = pre @ l # mid @ post" "parts h pre l mid post" by (rule section_bounds_SomeE)
  show ?thesis
  proof (cases "post = []")
    case True
    with p(2) have "parts h pre l (mid @ [[]]) []" by (simp add: parts_def)
    from text_outside_parts [OF this] text_outside_parts [OF p(2)] show ?thesis by (simp add: p(1) True)
  next
    case False
    with p(2) have "parts h pre l mid (post @ [[]])" by (simp add: parts_def)
    from text_outside_parts [OF this] text_outside_parts [OF p(2)] show ?thesis by (simp add: p(1))
  qed
qed

lemma text_outside_keep: "text_outside h (split_keep c) = text_outside h (split_on newline c)"
proof (cases "c = [] \<or> last (split_on newline c) \<noteq> []")
  case True
  have "text_outside h ([] @ [[]]) = text_outside h []" by (rule text_outside_snoc)
  then have "text_outside h (split_keep []) = text_outside h (split_on newline [])" by (simp add: split_keep_def)
  moreover have "split_keep c = split_on newline c" if "c \<noteq> []"
    using True that by (simp add: split_keep_def Let_def)
  ultimately show ?thesis by (cases "c = []") simp_all
next
  case False
  then have "split_on newline c = split_keep c @ [[]]" "c \<noteq> []"
    by (auto simp: split_keep_def) (metis append_butlast_last_id split_on_nonempty)
  then show ?thesis by (simp add: text_outside_snoc)
qed

section \<open>The laws\<close>

text \<open>
  C21. A section of a daily note is a lens on the note. For a clean heading and a plain
  body, reading the section after replacing it gives the body that was written, without
  its leading and trailing newlines, whether the note had the section, had other sections,
  was empty or did not exist; and replacing it a second time gives the same file as
  replacing it once, so repeated writes neither grow the note nor leave anything behind.
\<close>

theorem section_lens:
  assumes "clean_heading h" and "plain_body first"
    and "replace_section None h first f = (f', None)" and "\<forall>e part. f \<noteq> Unreadable e part"
  shows "read_section f' h = Inr (Some (trim_set first [newline]))
     \<and> replace_section None h body f' = replace_section None h body f"
  using assms(3,4) read_replaced [OF assms(1,2)] replaced_twice [OF assms(1,2)]
  by (auto simp: replace_section_def)

text \<open>
  Replacing or creating a section keeps every other line that has text, in order:
  only the section and blank lines change.
\<close>

theorem other_sections_survive:
  assumes "clean_heading h" and "plain_body body"
    and "replace_section fault h body (Readable content) = (Readable content', err)"
  shows "text_outside h (split_on newline content') = text_outside h (split_on newline content)"
proof (cases fault)
  case (Some e)
  with assms(3) show ?thesis by (simp add: replace_section_def)
next
  case None
  then have c: "content' = replaced h body content" using assms(3) by (simp add: replace_section_def)
  obtain pre mid post where "\<And>b. replaced h b content = write_lines (pre @ render_section h b @ post)"
    and p: "parts h pre (heading_line h) mid (trim_trailing_blanks post)"
    and s: "split_keep (replaced h body content) = pre @ heading_line h # mid @ trim_trailing_blanks post"
    and o: "filter (Not \<circ> blank) (pre @ post) = text_outside h (split_keep content)"
    by (rule replaced_parts [OF assms(1,2), where content = content]) blast
  have "text_outside h (split_keep content') = filter (Not \<circ> blank) (pre @ post)"
    unfolding c s text_outside_parts [OF p] by (simp add: ttb_texts)
  with o show ?thesis by (simp only: text_outside_keep)
qed

text \<open>Appending a line.\<close>

lemma lines_trim_left: "set (split_on c (trim_left_set x [c])) \<subseteq> set (split_on c x)"
  by (induction x) (auto simp: trim_left_set_def)

lemma lines_trim_right: "set (split_on c (trim_right_set x [c])) \<subseteq> set (split_on c x) \<union> {[]}"
proof (induction x rule: rev_induct)
  case (snoc a x)
  show ?case
  proof (cases "a = c")
    case True
    then show ?thesis using snoc by (auto simp: trim_right_set_snoc split_on_sep)
  next
    case False
    then show ?thesis using trim_right_set_last [of "x @ [a]" "[c]"] by auto
  qed
qed (simp add: trim_right_set_def)

lemma lines_trim: "set (split_on c (trim_set x [c])) \<subseteq> set (split_on c x) \<union> {[]}"
  using lines_trim_left [of c x] lines_trim_right [of c "trim_left_set x [c]"] by (auto simp: trim_set_def)

lemma section_body_plain:
  assumes "section_body h content = Some b"
  shows "list_all (Not \<circ> opens_section) (split_on newline b)" and "trim_set b [newline] = b"
proof -
  let ?ls = "split_on newline content"
  obtain s e where "section_bounds ?ls h = Some (s, e)"
    and b: "b = trim_set (join [newline] (drop (s + 1) (take e ?ls))) [newline]"
    using assms by (auto simp: section_body_def Let_def split: option.splits)
  then obtain pre l mid post where p: "?ls = pre @ l # mid @ post" "parts h pre l mid post"
    "s = length pre" "e = length pre + 1 + length mid" by (auto elim: section_bounds_SomeE)
  have b': "b = trim_set (join [newline] mid) [newline]" by (simp add: b p(1,3,4))
  show "trim_set b [newline] = b" by (simp add: b' trim_set_idem)
  have n: "\<forall>x \<in> set mid. newline \<notin> set x"
    using split_on_no_sep [of _ newline content] by (auto simp: p(1))
  have "set (split_on newline (join [newline] mid)) \<subseteq> set mid \<union> {[]}"
    by (cases "mid = []") (use split_on_join [OF _ n] in auto)
  then have "set (split_on newline b) \<subseteq> set mid \<union> {[]}" using lines_trim [of newline "join [newline] mid"] by (auto simp: b')
  moreover have "list_all (Not \<circ> opens_section) mid" using p(2) by (simp add: parts_def)
  ultimately show "list_all (Not \<circ> opens_section) (split_on newline b)" by (auto simp: list_all_iff)
qed

text \<open>
  A line appended to a section of a readable note becomes the last line of the body of
  that section, after everything that was there; the section is created if need be.
\<close>

theorem appended_line_is_last:
  assumes "clean_heading h" and "newline \<notin> set line" and "\<not> blank line" and "\<not> opens_section line"
    and "append_to_section None h line f = (f', None)"
  shows "read_section f' h = Inr (Some
     (case read_section f h of
        Inr (Some body) \<Rightarrow> if body = [] then line else body @ [newline] @ line
      | _ \<Rightarrow> line))"
proof -
  have ne: "line \<noteq> []" using assms(3) by auto
  then have l: "line \<noteq> []" "last line \<noteq> newline" "hd line \<noteq> newline"
    using assms(2) last_in_set [of line] hd_in_set [of line] by metis+
  then have plain_line: "plain_body line" "trim_set line [newline] = line"
    using assms(2-4) trim_set_id [of line "[newline]"] by (simp_all add: plain_body_def split_on_single)
  have more: "plain_body (b @ newline # line) \<and> trim_set (b @ newline # line) [newline] = b @ newline # line"
    if "section_body h c = Some b" "b \<noteq> []" for b c
  proof -
    note bf = section_body_plain [OF that(1)]
    have "trim_set (b @ newline # line) [newline] = b @ newline # line"
      using trimmed_hd [OF bf(2) that(2)] l that(2) by (intro trim_set_id) simp
    then show ?thesis using bf(1) assms(2-4)
      by (simp add: plain_body_def Let_def split_on_sep split_on_single)
  qed
  show ?thesis
  proof (cases f)
    case Missing
    then show ?thesis using assms(5) read_replaced [OF assms(1) plain_line(1)] plain_line(2)
      by (auto simp: append_to_section_def replace_section_def)
  next
    case (Unreadable e part)
    with assms(5) show ?thesis by (simp add: append_to_section_def)
  next
    case (Readable c)
    show ?thesis
    proof (cases "\<exists>b. section_body h c = Some b \<and> b \<noteq> []")
      case True
      then obtain b where b: "section_body h c = Some b" "b \<noteq> []" by blast
      with Readable assms(5) more [OF b] read_replaced [OF assms(1), of "b @ newline # line"] show ?thesis
        by (auto simp: append_to_section_def replace_section_def)
    next
      case False
      then have "section_body h c = None \<or> section_body h c = Some []" by (cases "section_body h c") auto
      with Readable assms(5) plain_line(2) read_replaced [OF assms(1) plain_line(1)] show ?thesis
        by (auto simp: append_to_section_def replace_section_def)
    qed
  qed
qed

text \<open>
  \<open>ReplaceSection\<close> does not look at the error of its read: a note that exists and cannot
  be read is replaced by the section alone.
\<close>

lemma unreadable_note_is_lost:
  "replace_section None h body (Unreadable e []) = (Readable (write_lines (render_section h body)), None)"
  by (simp add: replace_section_def replaced_def replaced_lines_def split_keep_def section_bounds_def
      insert_managed_def is_blank_def)

section \<open>Samples\<close>

definition sample_note :: bytes where
  "sample_note = join [newline] [''# Monday'', [], ''## Plan'', ''- old'', [], ''## Logs'', ''- 09:00 woke'', []]"

lemma sample_bodies: "clean_heading ''Plan''" "plain_body ''- new''" "\<not> blank ''- more''" "newline \<notin> set ''- more''"
    "\<not> opens_section ''- more''"
  by code_simp+

lemma section_lens_witness:
  "read_section (fst (replace_section None ''Plan'' ''- new'' (Readable sample_note))) ''Plan'' = Inr (Some ''- new'')
   \<and> replace_section None ''Plan'' [] (fst (replace_section None ''Plan'' ''- new'' (Readable sample_note)))
     = replace_section None ''Plan'' [] (Readable sample_note)"
  using section_lens [OF sample_bodies(1,2), of "Readable sample_note" "fst (replace_section None ''Plan'' ''- new'' (Readable sample_note))" "[]"]
  by (simp add: replace_section_def trim_set_id)

lemma other_sections_survive_witness:
  "text_outside ''Plan'' (split_on newline (replaced ''Plan'' ''- new'' sample_note)) =
     [''# Monday'', ''## Logs'', ''- 09:00 woke'']"
proof -
  have "text_outside ''Plan'' (split_on newline sample_note) = [''# Monday'', ''## Logs'', ''- 09:00 woke'']" by code_simp
  with other_sections_survive [OF sample_bodies(1,2), of None sample_note "replaced ''Plan'' ''- new'' sample_note" None]
  show ?thesis by (simp add: replace_section_def)
qed

lemma appended_line_is_last_witness:
  "read_section (fst (append_to_section None ''Plan'' ''- more'' (Readable sample_note))) ''Plan'' =
     Inr (Some (''- old'' @ [newline] @ ''- more''))"
proof -
  have "section_body ''Plan'' sample_note = Some ''- old''" by code_simp
  with appended_line_is_last [OF sample_bodies(1,4,3,5), of "Readable sample_note"
      "fst (append_to_section None ''Plan'' ''- more'' (Readable sample_note))"]
  show ?thesis by (simp add: append_to_section_def replace_section_def)
qed

section \<open>Atomic replacement\<close>

text \<open>
  \<open>writeFileAtomic\<close> in the steps another process, or a restart after a crash, can observe:
  the temporary file is created, filled byte by byte, synced and renamed; at any point after
  its creation the call may give up, and then the deferred removal deletes the temporary file.
\<close>

datatype write_phase = Starting | Filling nat | Synced | Renamed | Gave_up

type_synonym files = "(bytes, bytes) gomap"

inductive atomic_step ::
  "bytes \<Rightarrow> bytes \<Rightarrow> bytes \<Rightarrow> write_phase \<times> files \<Rightarrow> write_phase \<times> files \<Rightarrow> bool"
  for tmp path content where
  "atomic_step tmp path content (Starting, d) (Filling 0, AList.update tmp [] d)"
| "atomic_step tmp path content (Starting, d) (Gave_up, d)"
| "k < length content \<Longrightarrow>
     atomic_step tmp path content (Filling k, d) (Filling (Suc k), AList.update tmp (take (Suc k) content) d)"
| "k = length content \<Longrightarrow> atomic_step tmp path content (Filling k, d) (Synced, d)"
| "atomic_step tmp path content (Synced, d) (Renamed, AList.update path content (AList.delete tmp d))"
| "ph \<in> {Synced} \<union> range Filling \<Longrightarrow> atomic_step tmp path content (ph, d) (Gave_up, AList.delete tmp d)"

inductive_cases atomic_stepE: "atomic_step tmp path content s s'"

text \<open>The call as a function: where it fails and with which error, or not at all.\<close>

datatype write_fault = At_create go_error | At_write nat go_error | At_sync go_error | At_close go_error | At_chmod go_error | At_rename go_error

fun write_file_atomic ::
  "bytes \<Rightarrow> write_fault option \<Rightarrow> bytes \<Rightarrow> bytes \<Rightarrow> files \<Rightarrow> files \<times> go_error option" where
  "write_file_atomic tmp (Some (At_create e)) path content d = (d, Some (wrap_error ''create temp: '' e))"
| "write_file_atomic tmp fault path content d =
     (let filled = AList.update tmp (case fault of Some (At_write k e) \<Rightarrow> take k content | _ \<Rightarrow> content) d
      in case fault of
           Some (At_write k e) \<Rightarrow> (AList.delete tmp filled, Some (wrap_error ''write temp: '' e))
         | Some (At_sync e) \<Rightarrow> (AList.delete tmp filled, Some (wrap_error ''sync temp: '' e))
         | Some (At_close e) \<Rightarrow> (AList.delete tmp filled, Some (wrap_error ''close temp: '' e))
         | Some (At_chmod e) \<Rightarrow> (AList.delete tmp filled, Some (wrap_error ''chmod temp: '' e))
         | Some (At_rename e) \<Rightarrow> (AList.delete tmp filled, Some (wrap_error ''rename temp: '' e))
         | _ \<Rightarrow> (AList.update path content (AList.delete tmp filled), None))"

definition atomic_reach :: "bytes \<Rightarrow> bytes \<Rightarrow> bytes \<Rightarrow> files \<Rightarrow> write_phase \<Rightarrow> files \<Rightarrow> bool" where
  "atomic_reach tmp path content d ph d' \<longleftrightarrow> (atomic_step tmp path content)\<^sup>*\<^sup>* (Starting, d) (ph, d')"

definition atomic_shape :: "bytes \<Rightarrow> bytes \<Rightarrow> bytes \<Rightarrow> files \<Rightarrow> write_phase \<times> files \<Rightarrow> bool" where
  "atomic_shape tmp path content d s \<longleftrightarrow>
     (case s of (ph, d') \<Rightarrow>
        (\<forall>p. p \<noteq> tmp \<longrightarrow> map_of d' p = (if ph = Renamed \<and> p = path then Some content else map_of d p))
        \<and> (ph \<in> {Starting, Renamed, Gave_up} \<longrightarrow> map_of d' tmp = None)
        \<and> (case ph of Filling k \<Rightarrow> k \<le> length content \<and> map_of d' tmp = Some (take k content)
           | Synced \<Rightarrow> map_of d' tmp = Some content | _ \<Rightarrow> True))"

lemma atomic_step_shape:
  assumes "tmp \<noteq> path" and "atomic_step tmp path content s s'" and "atomic_shape tmp path content d s"
  shows "atomic_shape tmp path content d s'"
  using assms(2,1,3) by cases (auto simp: atomic_shape_def map_of_update map_of_delete)

lemma atomic_shape_reach:
  assumes "tmp \<noteq> path" and "map_of d tmp = None" and "atomic_reach tmp path content d ph d'"
  shows "atomic_shape tmp path content d (ph, d')"
  using assms(3) unfolding atomic_reach_def
proof (induction rule: rtranclp_induct)
  case base
  show ?case using assms(2) by (simp add: atomic_shape_def)
next
  case (step y z)
  then show ?case using atomic_step_shape [OF assms(1)] by blast
qed

lemma atomic_fill:
  "k \<le> length content \<Longrightarrow> (atomic_step tmp path content)\<^sup>*\<^sup>* (Filling 0, AList.update tmp [] d) (Filling k, AList.update tmp (take k content) d)"
proof (induction k)
  case (Suc k)
  have "atomic_step tmp path content (Filling k, AList.update tmp (take k content) d)
      (Filling (Suc k), AList.update tmp (take (Suc k) content) (AList.update tmp (take k content) d))"
    using Suc.prems by (intro atomic_step.intros) simp
  then show ?case using Suc by (simp add: rtranclp.rtrancl_into_rtrancl)
qed simp

text \<open>Every outcome of the function is one the steps allow.\<close>

lemma write_file_atomic_steps:
  assumes "write_file_atomic tmp fault path content d = (d', err)" and "\<forall>k e. fault = Some (At_write k e) \<longrightarrow> k \<le> length content"
  shows "atomic_reach tmp path content d (if err = None then Renamed else Gave_up) d'"
proof -
  let ?R = "atomic_step tmp path content"
  have start: "?R\<^sup>*\<^sup>* (Starting, d) (Filling k, AList.update tmp (take k content) d)" if "k \<le> length content" for k
    using atomic_fill [OF that] atomic_step.intros(1) by (metis converse_rtranclp_into_rtranclp)
  have giveup: "?R\<^sup>*\<^sup>* (Starting, d) (Gave_up, AList.delete tmp (AList.update tmp (take k content) d))"
    if "k \<le> length content" for k
    using start [OF that] by (rule rtranclp.rtrancl_into_rtrancl) (auto intro: atomic_step.intros)
  have full: "?R\<^sup>*\<^sup>* (Starting, d) (Synced, AList.update tmp content d)"
    using start [of "length content"] by (auto intro: rtranclp.rtrancl_into_rtrancl atomic_step.intros)
  have whole: "?R\<^sup>*\<^sup>* (Starting, d) (Renamed, AList.update path content (AList.delete tmp (AList.update tmp content d)))"
    using full by (rule rtranclp.rtrancl_into_rtrancl) (rule atomic_step.intros)
  have none: "?R\<^sup>*\<^sup>* (Starting, d) (Gave_up, d)"
    by (auto intro: atomic_step.intros)
  show ?thesis
  proof (cases fault)
    case None
    with assms(1) whole show ?thesis by (auto simp: atomic_reach_def)
  next
    case (Some f)
    with assms giveup [of "length content"] giveup none show ?thesis
      by (cases f) (auto simp: atomic_reach_def)
  qed
qed

text \<open>
  C22. A file that is replaced atomically is never seen half written. Whatever point the call
  has reached when another process looks or the machine stops, every file but the temporary
  one is as it was before, except that the destination has the whole new content once the
  rename is done; a call that returns leaves no temporary file, reports an error exactly when
  the destination was not replaced, and has then changed nothing.
\<close>

theorem atomic_replacement:
  assumes "tmp \<noteq> path" and "map_of d tmp = None"
  shows "(\<forall>ph d'. atomic_reach tmp path content d ph d' \<longrightarrow>
       (\<forall>p. p \<noteq> tmp \<longrightarrow> map_of d' p = (if ph = Renamed \<and> p = path then Some content else map_of d p)))
     \<and> (\<forall>fault d' err. write_file_atomic tmp fault path content d = (d', err)
          \<and> (\<forall>k e. fault = Some (At_write k e) \<longrightarrow> k \<le> length content) \<longrightarrow>
       map_of d' = (if err = None then (map_of d)(path \<mapsto> content) else map_of d))"
proof (intro conjI allI impI; (elim conjE)?)
  show "map_of d' p = (if ph = Renamed \<and> p = path then Some content else map_of d p)"
    if "atomic_reach tmp path content d ph d'" "p \<noteq> tmp" for ph d' p
    using atomic_shape_reach [OF assms that(1)] that(2) by (simp add: atomic_shape_def)
next
  fix fault d' err
  assume w: "write_file_atomic tmp fault path content d = (d', err)"
    and k: "\<forall>k e. fault = Some (At_write k e) \<longrightarrow> k \<le> length content"
  have s: "atomic_shape tmp path content d (if err = None then Renamed else Gave_up, d')"
    by (rule atomic_shape_reach [OF assms write_file_atomic_steps [OF w k]])
  show "map_of d' = (if err = None then (map_of d)(path \<mapsto> content) else map_of d)"
  proof
    fix x
    show "map_of d' x = (if err = None then (map_of d)(path \<mapsto> content) else map_of d) x"
      using s assms by (cases "x = tmp") (auto simp: atomic_shape_def split: if_splits)
  qed
qed

lemma atomic_replacement_witness:
  "map_of (fst (write_file_atomic ''.n.tmp'' None ''n'' ''new'' [(''n'', ''old'')])) ''n'' = Some ''new''
   \<and> map_of (fst (write_file_atomic ''.n.tmp'' (Some (At_write 1 (new_error ''disk full''))) ''n'' ''new'' [(''n'', ''old'')])) ''n''
       = Some ''old''"
proof -
  have t: "''.n.tmp'' \<noteq> (''n'' :: bytes)" "map_of [(''n'', ''old'' :: bytes)] ''.n.tmp'' = None" by simp_all
  note a = conjunct2 [OF atomic_replacement [OF t, of "''new''"], rule_format]
  from a [of None] a [of "Some (At_write 1 (new_error ''disk full''))"]
  show ?thesis by (simp del: write_file_atomic.simps) (simp add: Let_def wrap_error_def)
qed

end
