(* ===== verification/Notes.thy ===== *)
theory Notes
  imports DailyNote TaskMatch
begin

text \<open>
  Captures and notes (\<open>internal/vault\<close>: \<open>capture.go\<close>, \<open>note.go\<close>; \<open>internal/service\<close>:
  \<open>capture_service.go\<close>, \<open>note_service.go\<close>), on the files of one directory.

  A file is its path and its content. The clock, the random suffixes and the faults of the
  file system are parameters. Lower case is ASCII lower case.
\<close>

section \<open>Stamps\<close>

text \<open>The layouts \<open>15:04:05\<close> and \<open>150405\<close>.\<close>

definition time_fields :: "gotime \<Rightarrow> int \<times> int \<times> int" where
  "time_fields t = (let s = clock_of t div 1000000000 in (s div 3600, s div 60 mod 60, s mod 60))"

definition time_text :: "bytes \<Rightarrow> gotime \<Rightarrow> bytes" where
  "time_text sep t =
     (case time_fields t of (h, m, s) \<Rightarrow> two_digits h @ sep @ two_digits m @ sep @ two_digits s)"

definition in_dir :: "bytes \<Rightarrow> bytes \<Rightarrow> bytes" where
  "in_dir dir name = dir @ ''/'' @ name"

section \<open>Captures\<close>

record capture_io =
  ci_mkdir :: "go_error option"
  ci_suffix :: "nat \<Rightarrow> bytes"
  ci_open :: "bytes \<Rightarrow> go_error option"
  ci_write :: "(nat \<times> go_error) option"
  ci_close :: "go_error option"

definition capture_name :: "capture_io \<Rightarrow> bytes \<Rightarrow> nat \<Rightarrow> bytes" where
  "capture_name io base k = (if 0 < k then base @ ''-'' @ ci_suffix io k @ ''.md'' else base @ ''.md'')"

fun try_capture ::
  "capture_io \<Rightarrow> bytes \<Rightarrow> bytes \<Rightarrow> bytes \<Rightarrow> nat list \<Rightarrow> files \<Rightarrow> files \<times> (go_error + bytes)" where
  "try_capture io dir base content [] d =
     (d, Inl (new_error (''write capture: too many filename collisions in '' @ dir)))"
| "try_capture io dir base content (k # ks) d =
     (let path = in_dir dir (capture_name io base k) in
      if map_of d path \<noteq> None then try_capture io dir base content ks d
      else (case ci_open io path of
          Some e \<Rightarrow> (d, Inl (wrap_error ''create capture: '' e))
        | None \<Rightarrow>
            (case ci_write io of
               Some (n, e) \<Rightarrow> (AList.update path (take n content) d, Inl (wrap_error ''write capture: '' e))
             | None \<Rightarrow>
                 (AList.update path content d,
                  case ci_close io of Some e \<Rightarrow> Inl (wrap_error ''close capture: '' e) | None \<Rightarrow> Inr path))))"

definition capture_attempts :: nat where "capture_attempts = 1000"

definition capture_content :: "gotime \<Rightarrow> bytes \<Rightarrow> bytes" where
  "capture_content now text =
     format_date (civil_of now) @ '' '' @ time_text '':'' now @ [newline, newline] @ trim_space text @ [newline]"

definition write_capture ::
  "capture_io \<Rightarrow> gotime \<Rightarrow> bytes \<Rightarrow> bytes \<Rightarrow> files \<Rightarrow> files \<times> (go_error + bytes)" where
  "write_capture io now dir text d =
     (case ci_mkdir io of
        Some e \<Rightarrow> (d, Inl (wrap_error ''create inbox: '' e))
      | None \<Rightarrow>
          if trim_space text = [] then (d, Inl (new_error ''capture text is empty''))
          else try_capture io dir (format_date (civil_of now) @ ''-'' @ time_text [] now)
                 (capture_content now text) [0..<capture_attempts] d)"

section \<open>Notes\<close>

function dash_runes :: "bytes \<Rightarrow> bytes" where
  "dash_runes s =
     (case s of
        [] \<Rightarrow> []
      | c # cs \<Rightarrow>
          (if is_lower c \<or> is_digit c then c else CHR ''-'')
          # (case rune_len s of None \<Rightarrow> dash_runes cs | Some n \<Rightarrow> dash_runes (drop (n - 1) cs)))"
  by pat_completeness auto
termination
  by (relation "measure length") auto

declare dash_runes.simps [simp del]

definition sanitize_filename :: "bytes \<Rightarrow> bytes" where
  "sanitize_filename title =
     (let s = replace_all ''--'' ''-'' (trim_set (dash_runes (to_lower (trim_space title))) ''-'')
      in if s = [] then ''untitled'' else s)"

definition note_stamp :: "gotime \<Rightarrow> bytes" where
  "note_stamp now = replace_all ''-'' [] (format_date (civil_of now)) @ ''-'' @ time_text [] now"

definition note_path :: "gotime \<Rightarrow> bytes \<Rightarrow> bytes \<Rightarrow> files \<Rightarrow> bytes" where
  "note_path now dir title d =
     (let base = sanitize_filename title; path = in_dir dir (base @ ''.md'')
      in if map_of d path \<noteq> None then in_dir dir (base @ ''-'' @ note_stamp now @ ''.md'') else path)"

definition write_note ::
  "go_error option \<Rightarrow> go_error option \<Rightarrow> gotime \<Rightarrow> bytes \<Rightarrow> bytes \<Rightarrow> bytes \<Rightarrow> files \<Rightarrow> files \<times> (go_error + bytes)" where
  "write_note mkdir fault now dir title0 body d =
     (case mkdir of
        Some e \<Rightarrow> (d, Inl (wrap_error ''create notes directory: '' e))
      | None \<Rightarrow>
          (let title = trim_space title0 in
           if title = [] then (d, Inl (new_error ''note title is empty''))
           else (let path = note_path now dir title d in
                 case fault of
                   Some e \<Rightarrow> (d, Inl (wrap_error ''write note: '' e))
                 | None \<Rightarrow>
                     (AList.update path (''# '' @ title @ [newline, newline] @ trim_space body @ [newline]) d,
                      Inr path))))"

fun first_title :: "bytes list \<Rightarrow> bytes" where
  "first_title [] = []"
| "first_title (l # ls) =
     (let line = trim_space l in
      if has_prefix line ''# '' then trim_space (trim_prefix line ''# '') else first_title ls)"

definition extract_title :: "bytes \<Rightarrow> bytes" where
  "extract_title content = first_title (split_on newline content)"

definition extract_tags :: "bytes \<Rightarrow> bytes list" where
  "extract_tags content = find_all tag_re content"

record note_entry =
  nt_path :: bytes
  nt_title :: bytes
  nt_tags :: "bytes list"

definition not_found :: go_error where
  "not_found = \<lparr>err_chain = [S_NotExist], err_text = ''no such file or directory''\<rparr>"

definition read_note :: "bytes \<Rightarrow> files \<Rightarrow> go_error + note_entry \<times> bytes" where
  "read_note path d =
     (case map_of d path of
        None \<Rightarrow> Inl (wrap_error ''stat note: '' not_found)
      | Some c \<Rightarrow> Inr (\<lparr>nt_path = path, nt_title = extract_title c, nt_tags = extract_tags c\<rparr>, c))"

definition add_note ::
  "go_error option \<Rightarrow> go_error option \<Rightarrow> gotime \<Rightarrow> bytes \<Rightarrow> bytes \<Rightarrow> bytes \<Rightarrow> files \<Rightarrow> files \<times> (go_error + note_entry)" where
  "add_note mkdir fault now dir title body d =
     (case write_note mkdir fault now dir title body d of
        (d', Inl e) \<Rightarrow> (d', Inl e)
      | (d', Inr path) \<Rightarrow>
          (d', case read_note path d' of Inl e \<Rightarrow> Inl (wrap_error ''read back note: '' e) | Inr (n, _) \<Rightarrow> Inr n))"

text \<open>\<open>ListNotes\<close> on the entries of the directory, in their order.\<close>

definition list_notes :: "bytes \<Rightarrow> bytes list \<Rightarrow> note_entry list" where
  "list_notes dir names =
     map (\<lambda>n. \<lparr>nt_path = in_dir dir n, nt_title = replace_all ''-'' '' '' (trim_suffix n ''.md''), nt_tags = []\<rparr>)
       (filter (\<lambda>n. has_suffix n ''.md'') names)"

section \<open>Captures are never lost\<close>

lemma try_capture_keeps:
  "map_of d p = Some c \<Longrightarrow> map_of (fst (try_capture io dir base content ks d)) p = Some c"
proof (induction ks)
  case (Cons k ks)
  then show ?case by (cases "map_of d (in_dir dir (capture_name io base k))") (auto simp: Let_def map_of_update split: option.splits)
qed simp

lemma try_capture_new:
  "try_capture io dir base content ks d = (d', Inr p) \<Longrightarrow> map_of d p = None \<and> map_of d' = (map_of d)(p \<mapsto> content)"
proof (induction ks)
  case (Cons k ks)
  then show ?case
    by (cases "map_of d (in_dir dir (capture_name io base k))")
      (auto simp: Let_def map_of_update fun_eq_iff split: option.splits)
qed simp

definition faultless :: "capture_io \<Rightarrow> bool" where
  "faultless io \<longleftrightarrow> ci_mkdir io = None \<and> (\<forall>p. ci_open io p = None) \<and> ci_write io = None \<and> ci_close io = None"

lemma try_capture_free:
  "faultless io \<Longrightarrow> snd (try_capture io dir base content ks d) = Inl e \<Longrightarrow> k \<in> set ks
   \<Longrightarrow> map_of d (in_dir dir (capture_name io base k)) \<noteq> None"
proof (induction ks)
  case (Cons k' ks)
  then show ?case
    by (cases "map_of d (in_dir dir (capture_name io base k'))") (auto simp: Let_def faultless_def)
qed simp

text \<open>
  A capture never touches an earlier capture. Every file that was there is unchanged
  whatever happens; a capture that reports a path has created that path, which did not
  exist, with the whole trimmed text under its time stamp; and it can only fail for lack of a
  name when the file of the second and all 999 suffixed names exist.
\<close>

theorem capture_loses_nothing:
  assumes "write_capture io now dir text d = (d', r)"
  shows "(\<forall>p c. map_of d p = Some c \<longrightarrow> map_of d' p = Some c)
     \<and> (\<forall>p. r = Inr p \<longrightarrow> map_of d p = None \<and> map_of d' = (map_of d)(p \<mapsto> capture_content now text))
     \<and> (\<forall>k < 1000. \<forall>e. r = Inl e \<and> trim_space text \<noteq> [] \<and> faultless io \<longrightarrow>
          map_of d (in_dir dir (capture_name io (format_date (civil_of now) @ ''-'' @ time_text [] now) k)) \<noteq> None)"
proof (cases "ci_mkdir io \<noteq> None \<or> trim_space text = []")
  case True
  with assms show ?thesis
    by (auto simp: write_capture_def faultless_def simp del: upt_conv_Cons split: option.splits if_splits)
next
  case False
  then have t: "try_capture io dir (format_date (civil_of now) @ ''-'' @ time_text [] now) (capture_content now text)
      [0..<1000] d = (d', r)"
    using assms by (auto simp: write_capture_def capture_attempts_def simp del: upt_conv_Cons upt_rec_numeral)
  have "k \<in> set [0..<1000]" if "k < 1000" for k :: nat using that by simp
  then show ?thesis
    using try_capture_keeps [of d _ _ io dir _ _ "[0..<1000]"] try_capture_new [of io dir _ _ "[0..<1000]" d d']
      try_capture_free [of io dir _ _ "[0..<1000]" d] t
    by (metis fst_conv snd_conv)
qed

definition sample_capture_io :: capture_io where
  "sample_capture_io = \<lparr>ci_mkdir = None, ci_suffix = (\<lambda>k. nat_text k), ci_open = (\<lambda>p. None), ci_write = None, ci_close = None\<rparr>"

lemma capture_loses_nothing_witness:
  "map_of (fst (write_capture sample_capture_io (utc_midnight (2024, 1, 2)) ''inbox'' ''call Ann''
      [(''inbox/2024-01-02-000000.md'', ''earlier'')])) ''inbox/2024-01-02-000000.md'' = Some ''earlier''"
  using capture_loses_nothing [of sample_capture_io "utc_midnight (2024, 1, 2)" "''inbox''" "''call Ann''"
      "[(''inbox/2024-01-02-000000.md'', ''earlier'')]", OF surjective_pairing]
  by simp

section \<open>Notes read back\<close>

text \<open>White space in front of trimmed text does not extend what is trimmed at its end.\<close>

lemma trim_space_after_hash:
  assumes "trim_space t = t" and "t \<noteq> []"
  shows "trim_space (''# '' @ t) = ''# '' @ t"
proof -
  have n: "strip_seq (map rev unicode_spaces) (rev t) = None"
  proof -
    have "t = rev (trim_left_seqs (map rev unicode_spaces) (rev (trim_left_seqs unicode_spaces t)))"
      using assms(1) by (simp add: trim_space_def trim_right_seqs_def)
    then have "rev t = trim_left_seqs (map rev unicode_spaces) (rev (trim_left_seqs unicode_spaces t))"
      by (metis rev_rev_ident)
    then show ?thesis using trim_left_done by metis
  qed
  have short: "list_all (\<lambda>p. CHR '' '' \<notin> set p \<or> length p = 1) unicode_spaces" by code_simp
  have "strip_seq (map rev unicode_spaces) (rev t @ '' #'') = None"
  proof (unfold strip_seq_None, intro ballI impI notI)
    fix p assume p: "p \<in> set (map rev unicode_spaces)" "p \<noteq> []" and h: "has_prefix (rev t @ '' #'') p"
    then have e: "take (length p) (rev t @ '' #'') = p" by (simp add: has_prefix_def)
    show False
    proof (cases "length p \<le> length t")
      case True
      then have "has_prefix (rev t) p" using e by (simp add: has_prefix_def)
      with n p show False by (auto simp: strip_seq_None)
    next
      case False
      then have "p = rev t @ take (length p - length t) '' #''" using e by simp
      moreover have "CHR '' '' \<in> set (take (length p - length t) '' #'')"
        using False by (cases "length p - length t") auto
      ultimately have "CHR '' '' \<in> set p" by (metis Un_iff set_append)
      moreover have "length p > 1" using False assms(2) by (cases t) auto
      ultimately show False using short p(1) by (auto simp: list_all_iff)
    qed
  qed
  then have r: "trim_right_seqs unicode_spaces (''# '' @ t) = ''# '' @ t"
    by (simp add: trim_right_seqs_def trim_left_None)
  have "\<forall>p \<in> set unicode_spaces. p \<noteq> [] \<longrightarrow> \<not> solid (hd p)"
    using spaces_not_solid by (auto simp: list_all_iff)
  then have "trim_left_seqs unicode_spaces (''# '' @ t) = ''# '' @ t"
    by (rule trim_left_solid) (simp add: solid_def is_ascii_def)
  with r show ?thesis by (simp add: trim_space_def)
qed

lemma replace_dashes_chars: "set (replace_all ''--'' ''-'' s) \<subseteq> set s"
proof -
  have "set (replace_all old new s) \<subseteq> set s" if "old = ''--''" "new = ''-''" for old new s
    using that
  proof (induction old new s rule: replace_all.induct)
    case (2 old new c cs)
    show ?case
    proof (cases "has_prefix (c # cs) old")
      case True
      with 2 have "c = CHR ''-''" by (auto simp: has_prefix_def)
      with True 2 have "set (replace_all old new (drop (length old) (c # cs))) \<subseteq> set (c # cs)"
        using set_drop_subset [of "length old" "c # cs"] by (metis list.distinct(1) subset_trans)
      moreover have "replace_all old new (c # cs) = CHR ''-'' # replace_all old new (drop (length old) (c # cs))"
        using True 2(3,4) by simp
      ultimately show ?thesis using \<open>c = CHR ''-''\<close> by simp
    next
      case False
      with 2 show ?thesis by auto
    qed
  qed simp
  then show ?thesis by simp
qed

lemma replace_drop_subset: "set (replace_all old [] s) \<subseteq> set s"
proof -
  have "new = [] \<Longrightarrow> set (replace_all old new s) \<subseteq> set s" for new
  proof (induction old new s rule: replace_all.induct)
    case (2 old new c cs)
    then show ?case using set_drop_subset [of "length old" "c # cs"] by (cases "has_prefix (c # cs) old") auto
  qed simp
  then show ?thesis by simp
qed

definition name_char :: "char \<Rightarrow> bool" where
  "name_char c \<longleftrightarrow> is_lower c \<or> is_digit c \<or> c = CHR ''-''"

lemma dash_runes_chars: "list_all name_char (dash_runes s)"
proof (induction s rule: dash_runes.induct)
  case (1 s)
  have c: "is_lower c \<Longrightarrow> name_char c" "is_digit c \<Longrightarrow> name_char c" "name_char (CHR ''-'')" for c
    by (simp_all add: name_char_def)
  show ?case
  proof (cases s)
    case (Cons a as)
    with 1 c show ?thesis by (subst dash_runes.simps) (simp split: option.split)
  qed (simp add: dash_runes.simps)
qed

text \<open>The name of a note is never empty and has no character that could leave the directory.\<close>

lemma sanitize_filename_chars: "sanitize_filename title \<noteq> [] \<and> list_all name_char (sanitize_filename title)"
proof -
  let ?s = "replace_all ''--'' ''-'' (trim_set (dash_runes (to_lower (trim_space title))) ''-'')"
  have "set ?s \<subseteq> set (dash_runes (to_lower (trim_space title)))"
    using replace_dashes_chars trim_set_subset by blast
  then have "list_all name_char ?s" using dash_runes_chars by (auto simp: list_all_iff)
  moreover have "list_all name_char ''untitled''" by code_simp
  ultimately show ?thesis unfolding sanitize_filename_def Let_def by (simp only: split: if_split) simp
qed

lemma note_stamp_chars: "list_all name_char (note_stamp now)"
proof -
  have d: "name_char (digit_char n)" if "n < 10" for n
    using that by (auto simp: name_char_def digit_char_def between_def less_eq_char_def)
  have two: "list_all name_char (two_digits n)" for n by (simp add: two_digits_def d)
  have nat: "list_all name_char (nat_text n)" for n
    by (induction n rule: nat_text.induct) (subst nat_text.simps, simp add: d)
  have "list_all name_char (four_digits n)" for n
    using nat d by (auto simp: four_digits_def itoa_def name_char_def)
  with two have "list_all name_char (format_date c)" for c
    by (cases c) (simp add: format_date_def name_char_def)
  then have "list_all name_char (replace_all ''-'' [] (format_date (civil_of now)))"
    using replace_drop_subset [of "''-''" "format_date (civil_of now)"] unfolding list_all_iff by blast
  then show ?thesis
    using two by (simp add: note_stamp_def time_text_def name_char_def split: prod.splits)
qed

text \<open>
  A note is written where its title says and read back under its title. When
  \<open>AddNote\<close> succeeds, the file it wrote lies directly in the notes directory, under a name
  made of lower case letters, digits and dashes; every other file is unchanged; and, for a
  title of one line, the note that is read back has that title, trimmed.
\<close>

theorem added_note_has_its_title:
  assumes "add_note mkdir fault now dir title body d = (d', Inr n)" and "newline \<notin> set title"
  shows "nt_title n = trim_space title
     \<and> (\<exists>name. nt_path n = in_dir dir (name @ ''.md'') \<and> name \<noteq> [] \<and> list_all name_char name)
     \<and> (\<forall>p. p \<noteq> nt_path n \<longrightarrow> map_of d' p = map_of d p)"
proof -
  let ?t = "trim_space title" and ?p = "note_path now dir (trim_space title) d"
  let ?c = "''# '' @ ?t @ newline # newline # trim_space body @ [newline]"
  have ne: "?t \<noteq> []" and d': "d' = AList.update ?p ?c d" and np: "nt_path n = ?p" and nt: "nt_title n = extract_title ?c"
    using assms(1)
    by (auto simp: add_note_def write_note_def read_note_def map_of_update Let_def split: option.splits sum.splits if_splits prod.splits)
  have "newline \<notin> set ?t"
    using assms(2) trim_left_drop set_drop_subset
    by (metis (no_types, lifting) set_rev subsetD trim_right_seqs_def trim_space_def)
  then have "split_on newline ?c = (''# '' @ ?t) # split_on newline (newline # trim_space body @ [newline])"
    using split_on_append [of newline "''# '' @ ?t" "newline # trim_space body @ [newline]"] by simp
  then have "nt_title n = ?t"
    using trim_space_after_hash [OF trim_space_idem ne]
    by (simp add: nt extract_title_def has_prefix_def trim_prefix_def trim_space_idem)
  moreover have "\<exists>name. ?p = in_dir dir (name @ ''.md'') \<and> name \<noteq> [] \<and> list_all name_char name"
  proof -
    let ?b = "sanitize_filename ?t"
    have "list_all name_char (?b @ ''-'' @ note_stamp now)"
      using sanitize_filename_chars [of ?t] note_stamp_chars by (simp add: name_char_def)
    moreover have "?p = in_dir dir (?b @ ''.md'') \<or> ?p = in_dir dir ((?b @ ''-'' @ note_stamp now) @ ''.md'')"
      by (simp add: note_path_def Let_def)
    ultimately show ?thesis using sanitize_filename_chars [of ?t] by blast
  qed
  ultimately show ?thesis by (simp add: d' np map_of_update)
qed

lemma added_note_has_its_title_witness:
  "nt_title \<lparr>nt_path = ''notes/road-map.md'', nt_title = ''Road map'', nt_tags = []\<rparr> = trim_space ''Road map ''"
proof -
  have "\<exists>d'. add_note None None (utc_midnight (2024, 1, 2)) ''notes'' ''Road map '' ''first'' [] =
      (d', Inr \<lparr>nt_path = ''notes/road-map.md'', nt_title = ''Road map'', nt_tags = []\<rparr>)" by (rule exI) code_simp
  then obtain d' where a: "add_note None None (utc_midnight (2024, 1, 2)) ''notes'' ''Road map '' ''first'' [] =
      (d', Inr \<lparr>nt_path = ''notes/road-map.md'', nt_title = ''Road map'', nt_tags = []\<rparr>)" by blast
  from added_note_has_its_title [OF a] show ?thesis by simp
qed

text \<open>
  Only the first of the two names is checked: a third note with the title of two others,
  within one second of the second, is written over it.
\<close>

lemma third_note_overwrites:
  fixes now :: gotime and dir title :: bytes
  assumes "trim_space title \<noteq> []"
    and "map_of d (in_dir dir (sanitize_filename (trim_space title) @ ''.md'')) = Some first"
  defines "second_path \<equiv> in_dir dir (sanitize_filename (trim_space title) @ ''-'' @ note_stamp now @ ''.md'')"
  shows "map_of (fst (write_note None None now dir title body d)) second_path =
    Some (''# '' @ trim_space title @ [newline, newline] @ trim_space body @ [newline])"
  using assms by (simp add: write_note_def note_path_def Let_def map_of_update second_path_def)

end
