(* ===== verification/WordFacts.thy ===== *)
theory WordFacts
  imports TextFacts
begin

text \<open>
  Lemmas about \<open>strings.Fields\<close>: words have no white space in them, and words joined by
  single spaces are the words of the result.
\<close>

section \<open>Words\<close>

definition spaceless :: "bytes \<Rightarrow> bool" where
  "spaceless w \<longleftrightarrow> w \<noteq> [] \<and> (\<forall>k \<le> length w. strip_seq unicode_spaces (drop k w) = None)"

lemma short_spaces: "list_all (\<lambda>p. p \<noteq> [] \<and> (CHR '' '' \<in> set p \<longrightarrow> p = '' '')) unicode_spaces"
  by code_simp

lemma has_prefix_before_space:
  assumes "s \<noteq> []" and "p \<in> set unicode_spaces"
  shows "has_prefix (s @ CHR '' '' # r) p = has_prefix s p"
proof
  assume h: "has_prefix (s @ CHR '' '' # r) p"
  show "has_prefix s p"
  proof (cases "length p \<le> length s")
    case True
    with h show ?thesis by (simp add: has_prefix_def)
  next
    case False
    then obtain n where n: "length p = length s + Suc n" by (metis add_Suc_right less_iff_Suc_add not_le)
    then have p: "p = s @ CHR '' '' # take n r" using h by (simp add: has_prefix_def)
    then have "CHR '' '' \<in> set p" by simp
    then have "p = '' ''" using assms(2) short_spaces by (simp add: list_all_iff)
    with p assms(1) show ?thesis by (cases s) auto
  qed
qed (rule has_prefix_append)

lemma strip_seq_before_space:
  "s \<noteq> [] \<Longrightarrow> set ps \<subseteq> set unicode_spaces \<Longrightarrow>
   strip_seq ps (s @ CHR '' '' # r) = map_option (\<lambda>x. x @ CHR '' '' # r) (strip_seq ps s)"
proof (induction ps)
  case (Cons p ps)
  then have h: "has_prefix (s @ CHR '' '' # r) p = has_prefix s p" by (intro has_prefix_before_space) auto
  have "length p \<le> length s" if "has_prefix s p" using that by (metis has_prefix_def length_take min.cobounded1)
  with Cons h show ?case by auto
qed simp

lemma strip_seq_space: "strip_seq unicode_spaces (CHR '' '' # r) = Some r"
  by (simp add: unicode_spaces_literal has_prefix_def)

lemma fields_space: "fields_acc cur (s @ CHR '' '' # r) = fields_acc cur s @ words r"
proof (induction cur s rule: fields_acc.induct)
  case (1 cur s)
  show ?case
  proof (cases s)
    case Nil
    have "strip_seq unicode_spaces [] = None" by code_simp
    then show ?thesis
      by (simp add: Nil fields_acc.simps [of cur "CHR '' '' # r"] fields_acc.simps [of cur "[]"] strip_seq_space words_def)
  next
    case (Cons c cs)
    then have st: "strip_seq unicode_spaces (s @ CHR '' '' # r) = map_option (\<lambda>x. x @ CHR '' '' # r) (strip_seq unicode_spaces s)"
      by (intro strip_seq_before_space) auto
    show ?thesis
    proof (cases "strip_seq unicode_spaces s")
      case None
      with 1(1) [OF refl None Cons] st Cons show ?thesis
        by (simp add: fields_acc.simps [of cur "c # cs @ _"] fields_acc.simps [of cur "c # cs"])
    next
      case (Some x)
      with 1(2) [OF refl Some] st show ?thesis
        by (simp add: fields_acc.simps [of cur "s @ _"] fields_acc.simps [of cur s] Let_def)
    qed
  qed
qed

lemma fields_words:
  assumes "\<forall>k < length cur. strip_seq unicode_spaces (drop k (rev cur) @ s) = None" and "w \<in> set (fields_acc cur s)"
  shows "spaceless w"
  using assms
proof (induction cur s rule: fields_acc.induct)
  case (1 cur s)
  have n: "strip_seq unicode_spaces [] = None" by code_simp
  have cur: "spaceless (rev cur)" if "cur \<noteq> []"
  proof -
    have "strip_seq unicode_spaces (drop k (rev cur)) = None" if "k < length cur" for k
      using 1(3) that has_prefix_append unfolding strip_seq_None by blast
    with that n show ?thesis by (simp add: spaceless_def) (metis drop_all le_eq_less_or_eq length_rev order_refl)
  qed
  show ?case
  proof (cases "strip_seq unicode_spaces s")
    case None
    show ?thesis
    proof (cases s)
      case Nil
      with None 1(4) cur show ?thesis by (auto simp: fields_acc.simps [of cur "[]"] split: if_splits)
    next
      case (Cons c cs)
      have "strip_seq unicode_spaces (drop k (rev (c # cur)) @ cs) = None" if "k < length (c # cur)" for k
        using 1(3) that None Cons by (cases "k = length cur") auto
      with 1(1) [OF refl None Cons] 1(4) None Cons show ?thesis
        by (auto simp: fields_acc.simps [of cur "c # cs"])
    qed
  next
    case (Some r)
    with 1(2) [OF refl Some] 1(4) cur show ?thesis
      by (auto simp: fields_acc.simps [of cur s] Let_def split: if_splits)
  qed
qed

lemma fields_spaceless: "w \<in> set (words s) \<Longrightarrow> spaceless w"
  using fields_words [of "[]" s w] by (simp add: words_def)

text \<open>Words with single spaces between them have nothing to trim.\<close>

lemma trim_space_words:
  assumes "ws \<noteq> []" and "\<forall>w \<in> set ws. spaceless w"
  shows "trim_space (join '' '' ws) = join '' '' ws"
proof -
  let ?s = "join '' '' ws"
  obtain w ws' where w: "ws = w # ws'" using assms(1) by (cases ws) auto
  have w0: "strip_seq unicode_spaces w = None" "w \<noteq> []"
    using assms(2) w by (auto simp: spaceless_def dest: spec [of _ 0])
  then have "strip_seq unicode_spaces ?s = None"
    using strip_seq_before_space [of w unicode_spaces "join '' '' ws'"] by (simp add: w join_first)
  then have l: "trim_left_seqs unicode_spaces ?s = ?s" by (rule trim_left_None)
  obtain v vs where v: "ws = vs @ [v]" using assms(1) by (metis append_butlast_last_id)
  have v0: "spaceless v" using assms(2) v by simp
  have "strip_seq (map rev unicode_spaces) (rev ?s) = None"
  proof (unfold strip_seq_None, intro ballI impI notI)
    fix q assume q: "q \<in> set (map rev unicode_spaces)" "q \<noteq> []" and h: "has_prefix (rev ?s) q"
    obtain pre where pre: "?s = pre @ v" "pre = [] \<or> last pre = CHR '' ''"
      by (simp add: v join_last split: if_splits)
    have e: "take (length q) (rev v @ rev pre) = q" using h pre(1) by (simp add: has_prefix_def)
    show False
    proof (cases "length q \<le> length v")
      case True
      then have "drop (length v - length q) v = rev q" using e by (metis (no_types) append_Nil2 diff_is_0_eq
        length_rev rev_rev_ident rev_take take0 take_append)
      moreover have "rev q \<in> set unicode_spaces" "rev q \<noteq> []" using q by auto
      ultimately have "strip_seq unicode_spaces (drop (length v - length q) v) \<noteq> None"
        by (auto simp: strip_seq_None has_prefix_def)
      with v0 show False by (simp add: spaceless_def)
    next
      case False
      then have "pre \<noteq> []" using e by auto
      then obtain u where "pre = u @ '' ''" using pre(2) by (metis append_butlast_last_id)
      moreover obtain n where n: "length q = length v + Suc n" using False by (metis add_Suc_right less_iff_Suc_add not_le)
      ultimately have "q = rev v @ CHR '' '' # take n (rev u)" using e by simp
      then have "rev q = rev (take n (rev u)) @ '' '' @ v" by simp
      moreover have "v \<noteq> []" using v0 by (simp add: spaceless_def)
      moreover have "rev q \<in> set unicode_spaces" using q by auto
      ultimately show False using short_spaces by (auto simp: list_all_iff append_eq_Cons_conv)
    qed
  qed
  then have "trim_right_seqs unicode_spaces ?s = ?s" by (simp add: trim_right_seqs_def trim_left_None)
  with l show ?thesis by (simp add: trim_space_def)
qed

lemma words_append: "words (s @ CHR '' '' # r) = words s @ words r"
  by (simp add: words_def fields_space)

text \<open>A word of characters that begin no white space.\<close>

lemma spaceless_chars:
  assumes "w \<noteq> []" and "list_all (\<lambda>c. c \<notin> hd ` set unicode_spaces) w"
  shows "spaceless w"
proof -
  have "strip_seq unicode_spaces (drop k w) = None" for k
  proof (cases "drop k w")
    case Nil
    have "strip_seq unicode_spaces [] = None" by code_simp
    then show ?thesis by (simp add: Nil)
  next
    case (Cons c cs)
    then have "c \<in> set w" by (metis in_set_dropD list.set_intros(1))
    then have "c \<notin> hd ` set unicode_spaces" using assms(2) by (auto simp: list_all_iff)
    then show ?thesis by (auto simp: Cons strip_seq_None has_prefix_def neq_Nil_conv image_iff dest: bspec [of _ _ "c # _"])
  qed
  with assms(1) show ?thesis by (simp add: spaceless_def)
qed

lemma fields_spaceless_word:
  assumes "\<forall>k \<le> length s. strip_seq unicode_spaces (drop k s) = None" and "cur \<noteq> [] \<or> s \<noteq> []"
  shows "fields_acc cur s = [rev cur @ s]"
  using assms
proof (induction s arbitrary: cur)
  case Nil
  then show ?case by (subst fields_acc.simps) (simp add: Let_def)
next
  case (Cons c cs)
  have "strip_seq unicode_spaces (c # cs) = None" using Cons.prems(1) by (auto dest: spec [of _ 0])
  moreover have "\<forall>k \<le> length cs. strip_seq unicode_spaces (drop k cs) = None"
    using Cons.prems(1) by (auto dest: spec [of _ "Suc _"])
  ultimately show ?case using Cons.IH [of "c # cur"] by (subst fields_acc.simps) simp
qed

lemma words_spaceless: "spaceless w \<Longrightarrow> words w = [w]"
  using fields_spaceless_word [of w "[]"] by (simp add: words_def spaceless_def)

lemma words_join: "\<forall>w \<in> set ws. spaceless w \<Longrightarrow> words (join '' '' ws) = ws"
proof (induction ws)
  case Nil
  have "words [] = []" by code_simp
  then show ?case by simp
next
  case (Cons w ws)
  then show ?case by (simp add: join_first words_spaceless words_append)
qed

end
