(* ===== verification/Schedule.thy ===== *)
theory Schedule
  imports WordFacts TaskMatch "HOL-Library.Signed_Division"
begin

text \<open>
  The lines of the \<open>## Schedule\<close> section (\<open>internal/calendar/schedule.go\<close>) and the local
  calendar that reads them as events (\<open>internal/calendar/local.go\<close>).

  A line is matched as the two regular expressions of \<open>local.go\<close> match it, white space
  backtracking included. A time of day is parsed twice in the code: as minutes, where every
  two digits are accepted, and as a clock time, where the ranges are checked.
\<close>

section \<open>Lines\<close>

record schedule_entry =
  se_start :: int
  se_end :: int
  se_title :: bytes
  se_project :: bytes

text \<open>\<open>(\d{2}:\d{2})\<close> at the head.\<close>

definition hhmm_re :: matcher where
  "hhmm_re s =
     (if length s \<ge> 5 \<and> list_all is_digit (take 2 s) \<and> s ! 2 = CHR '':'' \<and> list_all is_digit (take 2 (drop 3 s))
      then Some (take 5 s, 5) else None)"

text \<open>\<open>\s+(.+)$\<close>: a rest of white space only gives its last character to the group.\<close>

definition tail_re :: "bytes \<Rightarrow> bytes option" where
  "tail_re s =
     (let sp = takeWhile re_space s; rest = dropWhile re_space s
      in if sp = [] then None
         else if rest \<noteq> [] then Some rest
         else if length sp \<ge> 2 then Some [last sp] else None)"

text \<open>\<open>^-\s+\<close>.\<close>

definition dash_re :: "bytes \<Rightarrow> bytes option" where
  "dash_re s =
     (case s of [] \<Rightarrow> None
      | c # cs \<Rightarrow> if c = CHR ''-'' \<and> takeWhile re_space cs \<noteq> [] then Some (dropWhile re_space cs) else None)"

definition event_range_re :: "bytes \<Rightarrow> (bytes \<times> bytes \<times> bytes) option" where
  "event_range_re line =
     (case dash_re line of None \<Rightarrow> None
      | Some s \<Rightarrow>
          (case hhmm_re s of None \<Rightarrow> None
           | Some (a, n) \<Rightarrow>
               if has_prefix (drop n s) ''-''
               then (case hhmm_re (drop (n + 1) s) of None \<Rightarrow> None
                     | Some (b, k) \<Rightarrow> map_option (\<lambda>t. (a, b, t)) (tail_re (drop (n + 1 + k) s)))
               else None))"

definition event_time_re :: "bytes \<Rightarrow> (bytes \<times> bytes) option" where
  "event_time_re line =
     (case dash_re line of None \<Rightarrow> None
      | Some s \<Rightarrow>
          (case hhmm_re s of None \<Rightarrow> None
           | Some (a, n) \<Rightarrow> map_option (\<lambda>t. (a, t)) (tail_re (drop n s))))"

text \<open>\<open>Sscanf\<close> with \<open>%d:%d\<close> on a text of the shape \<open>dd:dd\<close>, the only texts it is called on.\<close>

definition hhmm_to_min :: "bytes \<Rightarrow> int option" where
  "hhmm_to_min s =
     (if hhmm_re s = None then None else Some (num (take 2 s) * 60 + num (take 2 (drop 3 s))))"

text \<open>\<open>%02d\<close> and Go's truncating division.\<close>

definition pad2 :: "int \<Rightarrow> bytes" where
  "pad2 n = (let t = itoa n in if length t < 2 then CHR ''0'' # t else t)"

definition min_to_hhmm :: "int \<Rightarrow> bytes" where
  "min_to_hhmm m = pad2 (m sdiv 60) @ '':'' @ pad2 (m smod 60)"

text \<open>
  The last word that starts with \<open>#\<close> and is not a number is the project; it and what
  follows it leave the title. \<open>rest\<close> are the words before the one looked at, reversed.
\<close>

fun last_tag :: "bytes list \<Rightarrow> (bytes list \<times> bytes) option" where
  "last_tag [] = None"
| "last_tag (w # rest) =
     (if has_prefix w ''#'' \<and> \<not> is_numeric_tag (trim_prefix w ''#'')
      then Some (rev rest, trim_prefix w ''#'')
      else last_tag rest)"

definition extract_project :: "bytes \<Rightarrow> bytes \<times> bytes" where
  "extract_project s =
     (case last_tag (rev (words s)) of
        None \<Rightarrow> (s, [])
      | Some (ws, project) \<Rightarrow>
          (let title = join '' '' ws in if title = [] then (s, []) else (title, project)))"

definition parse_entry :: "bytes \<Rightarrow> schedule_entry option" where
  "parse_entry line =
     (case event_range_re line of
        Some (a, b, t) \<Rightarrow>
          (case (hhmm_to_min a, hhmm_to_min b, extract_project (trim_space t)) of
             (Some s, Some e, title, project) \<Rightarrow>
               Some \<lparr>se_start = s, se_end = e, se_title = title, se_project = project\<rparr>
           | _ \<Rightarrow> None)
      | None \<Rightarrow>
          (case event_time_re line of
             None \<Rightarrow> None
           | Some (a, t) \<Rightarrow>
               (case (hhmm_to_min a, extract_project (trim_space t)) of
                  (Some s, title, project) \<Rightarrow>
                    Some \<lparr>se_start = s, se_end = s + 60, se_title = title, se_project = project\<rparr>
                | _ \<Rightarrow> None)))"

definition parse_schedule_entries :: "bytes \<Rightarrow> schedule_entry list" where
  "parse_schedule_entries body = List.map_filter parse_entry (split_on newline body)"

definition render_entry :: "schedule_entry \<Rightarrow> bytes" where
  "render_entry e =
     ''- '' @ min_to_hhmm (se_start e) @ ''-'' @ min_to_hhmm (se_end e) @ '' '' @ se_title e
     @ (if se_project e \<noteq> [] then '' #'' @ se_project e else [])"

section \<open>The local calendar\<close>

record event =
  ev_id :: bytes
  ev_source :: bytes
  ev_title :: bytes
  ev_start :: gotime
  ev_end :: gotime
  ev_project :: bytes

definition EventSourceLocal :: bytes where "EventSourceLocal = ''local''"

definition minute_ns :: int where "minute_ns = 60000000000"

text \<open>\<open>time.Parse("15:04")\<close> on a text of the shape, bound to the day.\<close>

definition parse_time_on_day :: "bytes \<Rightarrow> gotime \<Rightarrow> gotime option" where
  "parse_time_on_day s day =
     (let h = num (take 2 s); m = num (take 2 (drop 3 s))
      in if hhmm_re s \<noteq> None \<and> h < 24 \<and> m < 60
         then Some (at_day (day_of day) ((h * 60 + m) * minute_ns) (gt_off day)) else None)"

definition local_id :: "gotime \<Rightarrow> bytes \<Rightarrow> bytes" where
  "local_id day hhmm = ''local-'' @ format_date (civil_of day) @ ''-'' @ hhmm"

definition parse_line :: "bytes \<Rightarrow> gotime \<Rightarrow> event option" where
  "parse_line line day =
     (case event_range_re line of
        Some (a, b, t) \<Rightarrow>
          (case (parse_time_on_day a day, parse_time_on_day b day, extract_project (trim_space t)) of
             (Some s, Some e, title, project) \<Rightarrow>
               Some \<lparr>ev_id = local_id day a, ev_source = EventSourceLocal, ev_title = title,
                 ev_start = s, ev_end = e, ev_project = project\<rparr>
           | _ \<Rightarrow> None)
      | None \<Rightarrow>
          (case event_time_re line of
             None \<Rightarrow> None
           | Some (a, t) \<Rightarrow>
               (case (parse_time_on_day a day, extract_project (trim_space t)) of
                  (Some s, title, project) \<Rightarrow>
                    Some \<lparr>ev_id = local_id day a, ev_source = EventSourceLocal, ev_title = title,
                      ev_start = s, ev_end = add_ns (60 * minute_ns) s, ev_project = project\<rparr>
                | _ \<Rightarrow> None)))"

fun scan_events :: "gotime \<Rightarrow> bool \<Rightarrow> bytes list \<Rightarrow> event list" where
  "scan_events day inside [] = []"
| "scan_events day inside (l # ls) =
     (if has_prefix l ''## '' then scan_events day (trim_space (trim_prefix l ''##'') = ''Schedule'') ls
      else if \<not> inside then scan_events day False ls
      else if has_prefix l ''#'' then scan_events day False ls
      else (case parse_line l day of None \<Rightarrow> [] | Some ev \<Rightarrow> [ev]) @ scan_events day True ls)"

text \<open>A line of 64 KiB stops the scanner with an error.\<close>

definition parse_events_from_note :: "bytes \<Rightarrow> gotime \<Rightarrow> event list option" where
  "parse_events_from_note content day =
     (let ls = scan_lines content
      in if list_ex (\<lambda>l. 65536 \<le> length l) ls then None else Some (scan_events day False (map drop_cr ls)))"

definition events_for_day :: "(gotime \<Rightarrow> bytes option) \<Rightarrow> gotime \<Rightarrow> event list option" where
  "events_for_day note_at day =
     (case note_at day of None \<Rightarrow> None | Some c \<Rightarrow> parse_events_from_note c day)"

definition truncate_to_day :: "gotime \<Rightarrow> gotime" where
  "truncate_to_day t = at_day (day_of t) 0 (gt_off t)"

lemma next_day_later: "gt_ns t < gt_ns (add_date 0 0 1 t)"
proof -
  have "day_of t * day_ns + clock_of t = gt_ns t + gt_off t" by (simp add: day_of_def clock_of_def)
  then show ?thesis by (simp add: add_days at_day_def distrib_right day_ns_def)
qed

function days_until :: "gotime \<Rightarrow> gotime \<Rightarrow> gotime list" where
  "days_until d last_day = (if gt_ns last_day < gt_ns d then [] else d # days_until (add_date 0 0 1 d) last_day)"
  by pat_completeness auto
termination
proof (relation "measure (\<lambda>(d, l). nat (gt_ns l - gt_ns d + 1))")
  show "((add_date 0 0 1 d, l), (d, l)) \<in> measure (\<lambda>(d, l). nat (gt_ns l - gt_ns d + 1))" if "\<not> gt_ns l < gt_ns d" for d l
    using that next_day_later [of d] by simp
qed simp

declare days_until.simps [simp del]

definition filter_by_range :: "event list \<Rightarrow> gotime \<Rightarrow> gotime \<Rightarrow> event list" where
  "filter_by_range evs from_t to_t =
     filter (\<lambda>e. gt_ns from_t \<le> gt_ns (ev_start e) \<and> gt_ns (ev_start e) \<le> gt_ns to_t) evs"

definition local_events :: "(gotime \<Rightarrow> bytes option) \<Rightarrow> gotime \<Rightarrow> gotime \<Rightarrow> event list" where
  "local_events note_at from_t to_t =
     filter_by_range
       (concat (map (\<lambda>d. case events_for_day note_at d of None \<Rightarrow> [] | Some evs \<Rightarrow> evs)
          (days_until (truncate_to_day from_t) (truncate_to_day to_t))))
       from_t to_t"

section \<open>Rendered lines are read back\<close>

text \<open>
  An entry is clean when its minutes have two-digit hours, its title is words with single
  spaces, none of them a tag, and its project is one word that is a tag.
\<close>

definition tag_word :: "bytes \<Rightarrow> bool" where
  "tag_word w \<longleftrightarrow> has_prefix w ''#'' \<and> \<not> is_numeric_tag (trim_prefix w ''#'')"

definition clean_title :: "bytes \<Rightarrow> bool" where
  "clean_title t \<longleftrightarrow> words t \<noteq> [] \<and> join '' '' (words t) = t \<and> list_all (Not \<circ> tag_word) (words t)"

definition clean_entry :: "schedule_entry \<Rightarrow> bool" where
  "clean_entry e \<longleftrightarrow> 0 \<le> se_start e \<and> se_start e < 6000 \<and> 0 \<le> se_end e \<and> se_end e < 6000
     \<and> clean_title (se_title e)
     \<and> (se_project e \<noteq> [] \<longrightarrow> words (''#'' @ se_project e) = [''#'' @ se_project e] \<and> \<not> is_numeric_tag (se_project e))"

definition tail_text :: "schedule_entry \<Rightarrow> bytes" where
  "tail_text e = se_title e @ (if se_project e \<noteq> [] then '' #'' @ se_project e else [])"

lemma last_tag_none: "list_all (Not \<circ> tag_word) ws \<Longrightarrow> last_tag ws = None"
  by (induction ws) (auto simp: tag_word_def)

lemma tail_words: "clean_entry e \<Longrightarrow> words (tail_text e) = words (se_title e)
    @ (if se_project e \<noteq> [] then [''#'' @ se_project e] else [])"
  using words_append [of "se_title e" "''#'' @ se_project e"] by (auto simp: tail_text_def clean_entry_def)

lemma join_snoc: "ws \<noteq> [] \<Longrightarrow> join sep (ws @ [w]) = join sep ws @ sep @ w"
  by (simp add: join_last)

lemma tail_join: "clean_entry e \<Longrightarrow> join '' '' (words (tail_text e)) = tail_text e"
  by (simp add: tail_words) (auto simp: clean_entry_def clean_title_def tail_text_def join_snoc)

lemma tail_nonempty: "clean_entry e \<Longrightarrow> words (tail_text e) \<noteq> []"
  by (simp add: tail_words clean_entry_def clean_title_def)

lemma tail_trim: "clean_entry e \<Longrightarrow> trim_space (tail_text e) = tail_text e"
  using trim_space_words [OF tail_nonempty, of e] tail_join [of e] fields_spaceless by metis

lemma tail_project:
  assumes "clean_entry e"
  shows "extract_project (tail_text e) = (se_title e, se_project e)"
proof -
  have t: "clean_title (se_title e)" using assms by (simp add: clean_entry_def)
  then have n: "last_tag (rev (words (se_title e))) = None"
    by (intro last_tag_none) (simp add: clean_title_def)
  have ne: "se_title e \<noteq> []"
  proof
    assume "se_title e = []"
    moreover have "words [] = []" by code_simp
    ultimately show False using t by (simp add: clean_title_def)
  qed
  show ?thesis
  proof (cases "se_project e = []")
    case True
    then show ?thesis using n by (simp add: extract_project_def tail_words [OF assms]) (simp add: tail_text_def)
  next
    case False
    then have "last_tag (rev (words (tail_text e))) = Some (words (se_title e), se_project e)"
      using assms by (simp add: tail_words has_prefix_def trim_prefix_def clean_entry_def)
    then show ?thesis using t ne by (simp add: extract_project_def clean_title_def)
  qed
qed

lemma tail_head: "clean_entry e \<Longrightarrow> takeWhile re_space (CHR '' '' # tail_text e) = '' ''
    \<and> dropWhile re_space (CHR '' '' # tail_text e) = tail_text e \<and> tail_text e \<noteq> []"
proof -
  assume c: "clean_entry e"
  obtain w ws where w: "words (tail_text e) = w # ws" using tail_nonempty [OF c] by (cases "words (tail_text e)") auto
  then have "spaceless w" by (intro fields_spaceless [of w "tail_text e"]) simp
  then have wn: "w \<noteq> []" "strip_seq unicode_spaces w = None" by (auto simp: spaceless_def dest: spec [of _ 0])
  then obtain a v where a: "w = a # v" by (cases w) auto
  have "\<not> re_space a" using wn(2) a by (auto simp: re_space_def strip_seq_None unicode_spaces_literal has_prefix_def)
  moreover have "tail_text e = a # (v @ (if ws = [] then [] else '' '' @ join '' '' ws))"
    using tail_join [OF c] w a by (simp add: join_first)
  moreover have "re_space (CHR '' '')" by code_simp
  ultimately show ?thesis by simp
qed

lemma digit_char_digit: "n < 10 \<Longrightarrow> is_digit (digit_char n) \<and> digit_val (digit_char n) = n"
  using digits_table by (auto simp: list_all_iff)

lemma pad2_digits: "0 \<le> n \<Longrightarrow> n < 100 \<Longrightarrow> pad2 n = two_digits n"
proof -
  assume n: "0 \<le> n" "n < 100"
  then have k: "nat n div 10 < 10" by simp
  have "nat_text (nat n) = (if nat n < 10 then [digit_char (nat n)] else [digit_char (nat n div 10), digit_char (nat n mod 10)])"
    using k by (simp add: nat_text.simps [of "nat n"] nat_text.simps [of "nat n div 10"])
  moreover have "digit_char 0 = CHR ''0''" by code_simp
  ultimately show ?thesis using n k by (simp add: pad2_def itoa_def two_digits_def)
qed

lemma num_two_digits: "0 \<le> n \<Longrightarrow> n < 100 \<Longrightarrow> num (two_digits n) = n"
proof -
  assume "0 \<le> n" "n < 100"
  moreover from this have "nat n div 10 < 10" by simp
  ultimately show ?thesis using digit_char_digit [of "nat n div 10 mod 10"] digit_char_digit [of "nat n mod 10"]
    by (simp add: num_def two_digits_def digits_val_def)
qed

definition clock :: "int \<Rightarrow> bytes" where
  "clock m = two_digits (m div 60) @ '':'' @ two_digits (m mod 60)"

lemma min_to_hhmm_clock: "0 \<le> m \<Longrightarrow> m < 6000 \<Longrightarrow> min_to_hhmm m = clock m"
proof -
  assume m: "0 \<le> m" "m < 6000"
  have "m sdiv 60 = m div 60" "m smod 60 = m mod 60"
    using m by (auto simp: signed_divide_int_def signed_modulo_int_def sgn_if minus_div_mult_eq_mod [symmetric])
  moreover have "m div 60 < 100" using m by simp
  ultimately show ?thesis using m by (simp add: min_to_hhmm_def clock_def pad2_digits)
qed

lemma length_two_digits [simp]: "length (two_digits n) = 2"
  by (simp add: two_digits_def)

lemma hhmm_re_clock: "0 \<le> m \<Longrightarrow> m < 6000 \<Longrightarrow> hhmm_re (clock m @ rest) = Some (clock m, 5)"
  using digit_char_digit by (simp add: hhmm_re_def clock_def two_digits_def)

lemma clock_facts:
  assumes "0 \<le> m" and "m < 6000"
  shows "length (clock m) = 5" and "hhmm_re (clock m) \<noteq> None" and "hhmm_to_min (clock m) = Some m"
    and "num (take 2 (clock m)) = m div 60" and "num (take 2 (drop 3 (clock m))) = m mod 60"
    and "\<not> re_space (hd (clock m))" and "clock m \<noteq> []"
proof -
  show l: "length (clock m) = 5" by (simp add: clock_def)
  then show "clock m \<noteq> []" by auto
  show h: "hhmm_re (clock m) \<noteq> None" using hhmm_re_clock [OF assms, of "[]"] by simp
  have d: "m div 60 < 100" "m mod 60 < 100" using assms by simp_all
  show n: "num (take 2 (clock m)) = m div 60" "num (take 2 (drop 3 (clock m))) = m mod 60"
    using assms d by (simp_all add: clock_def num_two_digits)
  show "hhmm_to_min (clock m) = Some m" using h by (simp add: hhmm_to_min_def n)
  have "is_digit (hd (clock m))" using digit_char_digit by (simp add: clock_def two_digits_def)
  then show "\<not> re_space (hd (clock m))" by (auto simp: re_space_def between_def less_eq_char_def)
qed

lemma event_range_rendered:
  assumes "clean_entry e"
  shows "event_range_re (render_entry e) = Some (clock (se_start e), clock (se_end e), tail_text e)"
proof -
  have b: "0 \<le> se_start e" "se_start e < 6000" "0 \<le> se_end e" "se_end e < 6000" using assms by (simp_all add: clean_entry_def)
  note f = clock_facts [OF b(1,2)] clock_facts [OF b(3,4)]
  let ?rest = "clock (se_start e) @ ''-'' @ clock (se_end e) @ '' '' @ tail_text e"
  have "render_entry e = ''- '' @ ?rest"
    by (simp add: render_entry_def tail_text_def min_to_hhmm_clock b)
  moreover have "re_space (CHR '' '')" by code_simp
  moreover have "dropWhile re_space ?rest = ?rest" using f(6,7) by (cases "clock (se_start e)") auto
  ultimately have "dash_re (render_entry e) = Some ?rest" by (simp add: dash_re_def)
  moreover have "tail_re ('' '' @ tail_text e) = Some (tail_text e)"
    using tail_head [OF assms] by (simp add: tail_re_def Let_def)
  ultimately show ?thesis
    using hhmm_re_clock [OF b(1,2), of "''-'' @ clock (se_end e) @ '' '' @ tail_text e"]
      hhmm_re_clock [OF b(3,4), of "'' '' @ tail_text e"] f(1,8)
    by (simp add: event_range_re_def has_prefix_def)
qed

lemma parse_rendered: "clean_entry e \<Longrightarrow> parse_entry (render_entry e) = Some e"
proof -
  assume c: "clean_entry e"
  then have b: "0 \<le> se_start e" "se_start e < 6000" "0 \<le> se_end e" "se_end e < 6000" by (simp_all add: clean_entry_def)
  show ?thesis
    by (simp add: parse_entry_def event_range_rendered c clock_facts(3) b tail_trim tail_project)
qed

text \<open>The event a line of the schedule stands for on a day.\<close>

definition event_of :: "gotime \<Rightarrow> schedule_entry \<Rightarrow> event" where
  "event_of day e =
     \<lparr>ev_id = local_id day (clock (se_start e)), ev_source = EventSourceLocal, ev_title = se_title e,
      ev_start = at_day (day_of day) (se_start e * minute_ns) (gt_off day),
      ev_end = at_day (day_of day) (se_end e * minute_ns) (gt_off day), ev_project = se_project e\<rparr>"

lemma parse_time_clock: "0 \<le> m \<Longrightarrow> m < 6000 \<Longrightarrow>
    parse_time_on_day (clock m) day = (if m < 1440 then Some (at_day (day_of day) (m * minute_ns) (gt_off day)) else None)"
proof -
  assume m: "0 \<le> m" "m < 6000"
  have "m div 60 < 24 \<longleftrightarrow> m < 1440" by presburger
  then show ?thesis unfolding parse_time_on_day_def Let_def clock_facts(4,5) [OF m]
    using clock_facts(2) [OF m] by simp
qed

lemma parse_line_rendered:
  assumes "clean_entry e"
  shows "parse_line (render_entry e) day = (if se_start e < 1440 \<and> se_end e < 1440 then Some (event_of day e) else None)"
proof -
  have b: "0 \<le> se_start e" "se_start e < 6000" "0 \<le> se_end e" "se_end e < 6000" using assms by (simp_all add: clean_entry_def)
  show ?thesis
    by (simp add: parse_line_def event_range_rendered assms parse_time_clock b tail_trim tail_project event_of_def)
qed

lemma spaceless_without: "spaceless w \<Longrightarrow> [c] \<in> set unicode_spaces \<Longrightarrow> c \<notin> set w"
proof
  assume w: "spaceless w" and c: "[c] \<in> set unicode_spaces" and "c \<in> set w"
  then obtain k where "k < length w" "w ! k = c" by (metis in_set_conv_nth)
  then have "drop k w = c # drop (Suc k) w" by (metis Cons_nth_drop_Suc)
  then have "has_prefix (drop k w) [c]" by (simp add: has_prefix_def)
  with c have "strip_seq unicode_spaces (drop k w) \<noteq> None" by (auto simp: strip_seq_None)
  with w \<open>k < length w\<close> show False by (simp add: spaceless_def)
qed

lemma join_no_char: "c \<notin> set sep \<Longrightarrow> \<forall>w \<in> set ws. c \<notin> set w \<Longrightarrow> c \<notin> set (join sep ws)"
  by (induction sep ws rule: join.induct) auto

lemma two_digits_chars: "c \<in> set (two_digits n) \<Longrightarrow> is_digit c"
  using digit_char_digit by (auto simp: two_digits_def)

lemma rendered_chars:
  assumes c: "clean_entry e" and sp: "[a] \<in> set unicode_spaces" and a: "a \<noteq> CHR '' ''" "a \<noteq> CHR ''-''" "a \<noteq> CHR '':''" "\<not> is_digit a"
  shows "a \<notin> set (render_entry e)"
proof -
  from c have b: "0 \<le> se_start e" "se_start e < 6000" "0 \<le> se_end e" "se_end e < 6000" by (simp_all add: clean_entry_def)
  have "a \<notin> set (join '' '' (words (tail_text e)))"
    using fields_spaceless spaceless_without sp a(1) by (intro join_no_char) auto
  then have "a \<notin> set (tail_text e)" by (simp add: tail_join [OF c])
  moreover have "a \<notin> set (clock m)" for m using two_digits_chars a by (auto simp: clock_def)
  moreover have "render_entry e = ''- '' @ clock (se_start e) @ ''-'' @ clock (se_end e) @ '' '' @ tail_text e"
    by (simp add: render_entry_def tail_text_def min_to_hhmm_clock b)
  ultimately show ?thesis using a by simp
qed

lemma rendered_line_chars: "clean_entry e \<Longrightarrow> newline \<notin> set (render_entry e) \<and> CHR 0x0D \<notin> set (render_entry e)"
  by (intro conjI rendered_chars) (simp_all add: unicode_spaces_literal between_def less_eq_char_def)

lemma map_filter_parse: "list_all clean_entry es \<Longrightarrow> List.map_filter parse_entry (map render_entry es) = es"
  by (induction es) (simp_all add: List.map_filter_def parse_rendered)

lemma parse_rendered_all:
  assumes "list_all clean_entry es"
  shows "parse_schedule_entries (join [newline] (map render_entry es)) = es"
proof (cases "es = []")
  case True
  have "parse_schedule_entries [] = []" by code_simp
  with True show ?thesis by simp
next
  case False
  have "\<forall>l \<in> set (map render_entry es). newline \<notin> set l"
    using assms rendered_line_chars by (auto simp: list_all_iff)
  with False show ?thesis using map_filter_parse [OF assms]
    by (simp add: parse_schedule_entries_def split_on_join)
qed

text \<open>
  A rendered schedule is read back. For entries whose hours have two digits, with a
  title of plain words and a project of one word, parsing the lines that \<open>Render\<close> writes
  gives the same entries in the same order; and each line is read by the agenda as the event
  of the same times, title and project on that day, exactly when both times are before
  midnight.
\<close>

theorem schedule_roundtrip:
  assumes "list_all clean_entry es"
  shows "parse_schedule_entries (join [newline] (map render_entry es)) = es
     \<and> (\<forall>e \<in> set es. \<forall>day. parse_line (render_entry e) day =
          (if se_start e < 24 * 60 \<and> se_end e < 24 * 60 then Some (event_of day e) else None))"
  using parse_rendered_all [OF assms] assms parse_line_rendered by (simp add: list_all_iff)

definition sample_entries :: "schedule_entry list" where
  "sample_entries =
     [\<lparr>se_start = 540, se_end = 600, se_title = ''Review PR #14'', se_project = ''work/qi''\<rparr>,
      \<lparr>se_start = 1410, se_end = 1440, se_title = ''Backup'', se_project = []\<rparr>]"

lemma clean_sample_entries: "list_all clean_entry sample_entries"
  by code_simp

lemma schedule_roundtrip_witness:
  "parse_schedule_entries (join [newline] (map render_entry sample_entries)) = sample_entries
   \<and> map render_entry sample_entries = [''- 09:00-10:00 Review PR #14 #work/qi'', ''- 23:30-24:00 Backup'']"
proof -
  have "map render_entry sample_entries = [''- 09:00-10:00 Review PR #14 #work/qi'', ''- 23:30-24:00 Backup'']" by code_simp
  with schedule_roundtrip [OF clean_sample_entries] show ?thesis by simp
qed

text \<open>
  What follows the project of a line written by hand is not kept: a line that is read and
  rendered again loses it.
\<close>

lemma text_after_project_lost:
  "map render_entry (parse_schedule_entries ''- 09:00-10:00 Call #home about the roof'') =
     [''- 09:00-10:00 Call #home'']"
  by code_simp

text \<open>A block that ends at midnight or later is read by the planner and not by the agenda.\<close>

lemma midnight_block_not_in_agenda:
  "parse_schedule_entries ''- 23:30-24:00 Backup'' \<noteq> [] \<and> parse_line ''- 23:30-24:00 Backup'' day = None"
proof -
  have "clean_entry (sample_entries ! 1)" "render_entry (sample_entries ! 1) = ''- 23:30-24:00 Backup''"
    "\<not> se_end (sample_entries ! 1) < 1440" "parse_schedule_entries ''- 23:30-24:00 Backup'' \<noteq> []"
    by code_simp+
  with parse_line_rendered [of "sample_entries ! 1" day] show ?thesis by simp
qed

end
