(* ===== verification/Plan.thy ===== *)
theory Plan
  imports Schedule DailyNote TaskService
begin

text \<open>
  Time blocking (\<open>internal/service/plan_service.go\<close> and the body of \<open>qi plan\<close> in
  \<open>internal/commands/plan.go\<close>): the candidates of a day are placed into the first free
  slots of the schedule of its daily note, which is then rendered and written back.

  Minutes are unbounded integers. The search for a slot ends because the cursor only jumps
  to the end of an interval that is past it.
\<close>

section \<open>Placing blocks\<close>

record plan_input =
  pi_tasks :: "task list"
  pi_existing :: "schedule_entry list"
  pi_start :: int
  pi_block :: int
  pi_limit :: int

type_synonym interval = "int \<times> int"

definition overlaps :: "int \<Rightarrow> int \<Rightarrow> interval \<Rightarrow> bool" where
  "overlaps c block iv \<longleftrightarrow> c < snd iv \<and> fst iv < c + block"

lemma find_overlap: "find (overlaps c block) occ = Some iv \<Longrightarrow> iv \<in> set occ \<and> overlaps c block iv"
  by (meson find_SomeD)

function next_free_slot :: "int \<Rightarrow> int \<Rightarrow> interval list \<Rightarrow> int" where
  "next_free_slot c block occ =
     (case find (overlaps c block) occ of
        None \<Rightarrow> c
      | Some iv \<Rightarrow> next_free_slot (snd iv) block occ)"
  by pat_completeness auto
termination
proof (relation "measure (\<lambda>(c, block, occ). length (filter (\<lambda>iv. c < snd iv) occ))")
  fix c block occ iv
  assume f: "find (overlaps c block) occ = Some iv"
  then have iv: "iv \<in> set occ" "c < snd iv" using find_overlap [OF f] by (simp_all add: overlaps_def)
  have "length (filter (\<lambda>jv. snd iv < snd jv) xs) \<le> length (filter (\<lambda>jv. c < snd jv) xs)
      \<and> (iv \<in> set xs \<longrightarrow> length (filter (\<lambda>jv. snd iv < snd jv) xs) < length (filter (\<lambda>jv. c < snd jv) xs))" for xs
    using iv(2) by (induction xs) auto
  with iv(1) show "((snd iv, block, occ), (c, block, occ)) \<in> measure (\<lambda>(c, block, occ). length (filter (\<lambda>iv. c < snd iv) occ))"
    by simp
qed simp

declare next_free_slot.simps [simp del]

definition normalize_title :: "bytes \<Rightarrow> bytes" where
  "normalize_title s = to_lower (trim_space s)"

definition split_task_title :: "task \<Rightarrow> bytes \<times> bytes" where
  "split_task_title t =
     (let title = trim_space (tk_text t)
      in (if tk_project t \<noteq> [] then trim_space (trim_suffix title (''#'' @ tk_project t)) else title, tk_project t))"

text \<open>The loop over the tasks with its cursor, occupied intervals, scheduled titles and count.\<close>

fun place_tasks ::
  "plan_input \<Rightarrow> int \<Rightarrow> interval list \<Rightarrow> bytes list \<Rightarrow> int \<Rightarrow> task list \<Rightarrow> schedule_entry list" where
  "place_tasks inp cursor occ scheduled n [] = []"
| "place_tasks inp cursor occ scheduled n (t # ts) =
     (if 0 < pi_limit inp \<and> pi_limit inp \<le> n then []
      else
        (case split_task_title t of (title, project) \<Rightarrow>
           if normalize_title title \<in> set scheduled then place_tasks inp cursor occ scheduled n ts
           else
             (let start = next_free_slot cursor (pi_block inp) occ;
                  finish = start + pi_block inp
              in \<lparr>se_start = start, se_end = finish, se_title = title, se_project = project\<rparr>
                 # place_tasks inp finish (occ @ [(start, finish)]) (normalize_title title # scheduled) (n + 1) ts)))"

definition span :: "schedule_entry \<Rightarrow> interval" where
  "span e = (se_start e, se_end e)"

definition plan_blocks :: "plan_input \<Rightarrow> schedule_entry list" where
  "plan_blocks inp =
     place_tasks inp (pi_start inp) (map span (pi_existing inp))
       (map (normalize_title \<circ> se_title) (pi_existing inp)) 0 (pi_tasks inp)"

definition merge_entries :: "schedule_entry list \<Rightarrow> schedule_entry list \<Rightarrow> schedule_entry list" where
  "merge_entries existing planned = stable_sort (\<lambda>a b. se_start a < se_start b) (existing @ planned)"

definition merge_and_render :: "schedule_entry list \<Rightarrow> schedule_entry list \<Rightarrow> bytes" where
  "merge_and_render existing planned = join [newline] (map render_entry (merge_entries existing planned))"

section \<open>The command\<close>

definition filter_plan_candidates :: "task list \<Rightarrow> bytes \<Rightarrow> bool \<Rightarrow> gotime \<Rightarrow> task list" where
  "filter_plan_candidates ts project all day =
     (let ts' = (if project \<noteq> [] then filter (\<lambda>t. tk_project t = project) ts else ts)
      in if all then ts' else filter_for_day ts' day)"

record plan_flags =
  pf_start :: int
  pf_block :: int
  pf_limit :: int
  pf_project :: bytes
  pf_all :: bool
  pf_dry_run :: bool

datatype plan_end = Plan_error go_error | Plan_printed bytes | Nothing_to_plan | Planned nat

definition qi_plan ::
  "plan_flags \<Rightarrow> task list \<Rightarrow> gotime \<Rightarrow> go_error option \<Rightarrow> file_read \<Rightarrow> file_read \<times> plan_end" where
  "qi_plan fl open_tasks day fault note =
     (if pf_block fl \<le> 0 then (note, Plan_error (new_error ''invalid --block: must be greater than zero''))
      else
        (let candidates = filter_plan_candidates open_tasks (pf_project fl) (pf_all fl) day in
         case read_section note ''Schedule'' of
           Inl e \<Rightarrow> (note, Plan_error e)
         | Inr found \<Rightarrow>
             (let existing = parse_schedule_entries (case found of None \<Rightarrow> [] | Some b \<Rightarrow> b);
                  planned = plan_blocks \<lparr>pi_tasks = candidates, pi_existing = existing, pi_start = pf_start fl,
                    pi_block = pf_block fl, pi_limit = pf_limit fl\<rparr>;
                  body = merge_and_render existing planned
              in if pf_dry_run fl then (note, Plan_printed body)
                 else if candidates = [] then (note, Nothing_to_plan)
                 else (case replace_section fault ''Schedule'' body note of
                     (note', Some e) \<Rightarrow> (note', Plan_error e)
                   | (note', None) \<Rightarrow> (note', Planned (length planned))))))"

section \<open>Slots\<close>

lemma next_free_slot_spec:
  "c \<le> next_free_slot c block occ
   \<and> (\<forall>iv \<in> set occ. \<not> overlaps (next_free_slot c block occ) block iv)
   \<and> (\<forall>x. c \<le> x \<and> x < next_free_slot c block occ \<longrightarrow> (\<exists>iv \<in> set occ. overlaps x block iv))"
proof (induction c block occ rule: next_free_slot.induct)
  case (1 c block occ)
  show ?case
  proof (cases "find (overlaps c block) occ")
    case None
    then have "next_free_slot c block occ = c" by (simp add: next_free_slot.simps)
    with None show ?thesis by (auto dest: find_NoneD)
  next
    case (Some iv)
    then have n: "next_free_slot c block occ = next_free_slot (snd iv) block occ" by (simp add: next_free_slot.simps)
    have iv: "iv \<in> set occ" "overlaps c block iv" using find_overlap [OF Some] by simp_all
    have near: "\<exists>iv \<in> set occ. overlaps x block iv" if "c \<le> x" "x < snd iv" for x
      using iv that by (intro bexI [of _ iv]) (auto simp: overlaps_def)
    note ih = 1 [OF Some]
    have "c \<le> next_free_slot (snd iv) block occ" using ih iv(2) by (simp add: overlaps_def)
    moreover have "\<exists>iv \<in> set occ. overlaps x block iv" if "c \<le> x" "x < next_free_slot (snd iv) block occ" for x
      using near [of x] ih that by (cases "x < snd iv") auto
    ultimately show ?thesis using ih unfolding n by blast
  qed
qed

section \<open>What is planned\<close>

definition apart :: "schedule_entry \<Rightarrow> interval \<Rightarrow> bool" where
  "apart e iv \<longleftrightarrow> se_end e \<le> fst iv \<or> snd iv \<le> se_start e"

abbreviation title_of :: "task \<Rightarrow> bytes" where
  "title_of t \<equiv> normalize_title (fst (split_task_title t))"

abbreviation entry_key :: "schedule_entry \<Rightarrow> bytes" where
  "entry_key e \<equiv> normalize_title (se_title e)"

text \<open>A step of the loop that places its task.\<close>

lemma place_tasks_new:
  assumes "\<not> (0 < pi_limit inp \<and> pi_limit inp \<le> n)" and "title_of t \<notin> set scheduled"
  obtains e where "place_tasks inp cursor occ scheduled n (t # ts) =
      e # place_tasks inp (se_end e) (occ @ [span e]) (entry_key e # scheduled) (n + 1) ts"
    and "split_task_title t = (se_title e, se_project e)" and "se_end e = se_start e + pi_block inp"
    and "cursor \<le> se_start e" and "\<forall>iv \<in> set occ. apart e iv"
proof -
  obtain title project where tp: "split_task_title t = (title, project)" by (cases "split_task_title t") auto
  let ?s = "next_free_slot cursor (pi_block inp) occ"
  let ?e = "\<lparr>se_start = ?s, se_end = ?s + pi_block inp, se_title = title, se_project = project\<rparr>"
  have "\<forall>iv \<in> set occ. apart ?e iv"
    using next_free_slot_spec [of cursor "pi_block inp" occ] by (auto simp: apart_def overlaps_def)
  then show ?thesis using assms tp next_free_slot_spec [of cursor "pi_block inp" occ]
    by (intro that [of ?e]) (auto simp: Let_def span_def)
qed

lemma place_tasks_old:
  "\<not> (0 < pi_limit inp \<and> pi_limit inp \<le> n) \<Longrightarrow> title_of t \<in> set scheduled \<Longrightarrow>
   place_tasks inp cursor occ scheduled n (t # ts) = place_tasks inp cursor occ scheduled n ts"
  by (cases "split_task_title t") auto

definition placed_well :: "plan_input \<Rightarrow> int \<Rightarrow> interval list \<Rightarrow> bytes list \<Rightarrow> task list \<Rightarrow> schedule_entry list \<Rightarrow> bool" where
  "placed_well inp cursor occ scheduled ts out \<longleftrightarrow>
     (\<forall>e \<in> set out. cursor \<le> se_start e \<and> se_end e = se_start e + pi_block inp
        \<and> (\<forall>iv \<in> set occ. apart e iv) \<and> entry_key e \<notin> set scheduled
        \<and> (\<exists>t \<in> set ts. split_task_title t = (se_title e, se_project e)))
     \<and> sorted_wrt (\<lambda>a b. se_end a \<le> se_start b \<and> entry_key a \<noteq> entry_key b) out"

lemma place_tasks_well:
  "0 < pi_block inp \<Longrightarrow> placed_well inp cursor occ scheduled ts (place_tasks inp cursor occ scheduled n ts)"
proof (induction ts arbitrary: cursor occ scheduled n)
  case Nil
  then show ?case by (simp add: placed_well_def)
next
  case (Cons t ts)
  show ?case
  proof (cases "0 < pi_limit inp \<and> pi_limit inp \<le> n")
    case True
    then show ?thesis by (simp add: placed_well_def)
  next
    case limit: False
    show ?thesis
    proof (cases "title_of t \<in> set scheduled")
      case True
      with Cons.IH [OF Cons.prems, of cursor occ scheduled n] show ?thesis
        unfolding place_tasks_old [OF limit True] by (fastforce simp: placed_well_def)
    next
      case False
      obtain e where e: "place_tasks inp cursor occ scheduled n (t # ts) =
          e # place_tasks inp (se_end e) (occ @ [span e]) (entry_key e # scheduled) (n + 1) ts"
        and t: "split_task_title t = (se_title e, se_project e)"
        and f: "se_end e = se_start e + pi_block inp" "cursor \<le> se_start e" "\<forall>iv \<in> set occ. apart e iv"
        by (rule place_tasks_new [OF limit False])
      let ?out = "place_tasks inp (se_end e) (occ @ [span e]) (entry_key e # scheduled) (n + 1) ts"
      have ih: "placed_well inp (se_end e) (occ @ [span e]) (entry_key e # scheduled) ts ?out"
        by (rule Cons.IH [OF Cons.prems])
      have "\<forall>x \<in> set ?out. se_end e \<le> se_start x \<and> entry_key x \<noteq> entry_key e"
        using ih by (simp add: placed_well_def)
      moreover have "\<forall>x \<in> set ?out. cursor \<le> se_start x" using ih f Cons.prems by (force simp: placed_well_def)
      moreover have "entry_key e \<notin> set scheduled" using False t by simp
      ultimately show ?thesis using ih f t unfolding e placed_well_def by auto
    qed
  qed
qed

lemma place_tasks_limit:
  "0 < pi_limit inp \<Longrightarrow> n \<le> pi_limit inp \<Longrightarrow> n + int (length (place_tasks inp cursor occ scheduled n ts)) \<le> pi_limit inp"
proof (induction ts arbitrary: cursor occ scheduled n)
  case (Cons t ts)
  show ?case
  proof (cases "0 < pi_limit inp \<and> pi_limit inp \<le> n")
    case False
    then show ?thesis
    proof (cases "title_of t \<in> set scheduled")
      case True
      from Cons.IH [OF Cons.prems, of cursor occ scheduled] show ?thesis
        by (simp only: place_tasks_old [OF False True])
    next
      case new: False
      obtain e where e: "place_tasks inp cursor occ scheduled n (t # ts) =
          e # place_tasks inp (se_end e) (occ @ [span e]) (entry_key e # scheduled) (n + 1) ts"
        by (rule place_tasks_new [OF False new])
      have "n + 1 \<le> pi_limit inp" using False Cons.prems by simp
      from Cons.IH [OF Cons.prems(1) this] show ?thesis unfolding e by (simp add: algebra_simps)
    qed
  qed (use Cons in simp)
qed simp

text \<open>Below the limit, every candidate is on the schedule afterwards.\<close>

lemma place_tasks_all:
  "pi_limit inp \<le> 0 \<or> n + int (length (place_tasks inp cursor occ scheduled n ts)) < pi_limit inp \<Longrightarrow>
   title_of ` set ts \<subseteq> set scheduled \<union> entry_key ` set (place_tasks inp cursor occ scheduled n ts)"
proof (induction ts arbitrary: cursor occ scheduled n)
  case (Cons t ts)
  have limit: "\<not> (0 < pi_limit inp \<and> pi_limit inp \<le> n)" using Cons.prems by auto
  show ?case
  proof (cases "title_of t \<in> set scheduled")
    case True
    with Cons.IH [of n cursor occ scheduled] Cons.prems show ?thesis
      unfolding place_tasks_old [OF limit True] by auto
  next
    case False
    obtain e where e: "place_tasks inp cursor occ scheduled n (t # ts) =
        e # place_tasks inp (se_end e) (occ @ [span e]) (entry_key e # scheduled) (n + 1) ts"
      and t: "split_task_title t = (se_title e, se_project e)"
      by (rule place_tasks_new [OF limit False])
    have "pi_limit inp \<le> 0 \<or> (n + 1) + int (length (place_tasks inp (se_end e) (occ @ [span e]) (entry_key e # scheduled) (n + 1) ts)) < pi_limit inp"
      using Cons.prems unfolding e by (simp add: algebra_simps)
    from Cons.IH [OF this] show ?thesis unfolding e using t by auto
  qed
qed simp

lemma place_tasks_none:
  "title_of ` set ts \<subseteq> set scheduled \<Longrightarrow> place_tasks inp cursor occ scheduled n ts = []"
proof (induction ts)
  case (Cons t ts)
  then show ?case by (cases "split_task_title t") auto
qed simp

text \<open>
  C24. The plan is free of double bookings. Every new block has the length asked for, starts
  no earlier than asked and after the block before it, overlaps no entry of the existing
  schedule, and belongs to a candidate whose title was not on the schedule and is planned
  once; there are never more new blocks than the limit, and below the limit every candidate
  is on the schedule in the end.
\<close>

theorem plan_is_free_of_overlaps:
  assumes "0 < pi_block inp"
  defines "planned \<equiv> plan_blocks inp"
  shows "(\<forall>e \<in> set planned. pi_start inp \<le> se_start e \<and> se_end e = se_start e + pi_block inp
        \<and> (\<forall>x \<in> set (pi_existing inp). apart e (span x) \<and> entry_key e \<noteq> entry_key x)
        \<and> (\<exists>t \<in> set (pi_tasks inp). split_task_title t = (se_title e, se_project e)))
     \<and> sorted_wrt (\<lambda>a b. se_end a \<le> se_start b \<and> entry_key a \<noteq> entry_key b) planned
     \<and> (0 < pi_limit inp \<longrightarrow> int (length planned) \<le> pi_limit inp)
     \<and> (pi_limit inp \<le> 0 \<or> int (length planned) < pi_limit inp \<longrightarrow>
          title_of ` set (pi_tasks inp) \<subseteq> entry_key ` set (pi_existing inp @ planned))"
proof -
  let ?occ = "map span (pi_existing inp)" and ?sched = "map (normalize_title \<circ> se_title) (pi_existing inp)"
  have "placed_well inp (pi_start inp) ?occ ?sched (pi_tasks inp) planned"
    unfolding planned_def plan_blocks_def by (rule place_tasks_well [OF assms(1)])
  moreover have "0 < pi_limit inp \<longrightarrow> int (length planned) \<le> pi_limit inp"
    using place_tasks_limit [of inp 0] by (simp add: planned_def plan_blocks_def)
  moreover have "pi_limit inp \<le> 0 \<or> int (length planned) < pi_limit inp \<longrightarrow>
      title_of ` set (pi_tasks inp) \<subseteq> entry_key ` set (pi_existing inp @ planned)"
    using place_tasks_all [of inp 0 "pi_start inp" ?occ ?sched "pi_tasks inp"]
    by (auto simp: planned_def plan_blocks_def image_Un image_image)
  ultimately show ?thesis by (auto simp: placed_well_def)
qed

definition sample_plan_input :: plan_input where
  "sample_plan_input = \<lparr>pi_tasks = [open_task, other_task], pi_existing = [\<lparr>se_start = 550, se_end = 560,
     se_title = ''Standup'', se_project = []\<rparr>], pi_start = 540, pi_block = 30, pi_limit = 6\<rparr>"

lemma plan_is_free_of_overlaps_witness:
  "plan_blocks sample_plan_input \<noteq> []
   \<and> list_all (\<lambda>e. 540 \<le> se_start e \<and> se_end e = se_start e + 30 \<and> apart e (550, 560)) (plan_blocks sample_plan_input)"
proof -
  have "plan_blocks sample_plan_input \<noteq> []" by code_simp
  then show ?thesis using plan_is_free_of_overlaps [of sample_plan_input]
    by (simp add: sample_plan_input_def span_def list_all_iff)
qed

section \<open>Planning again\<close>

lemma set_merge [simp]: "set (merge_entries existing planned) = set existing \<union> set planned"
  by (simp add: merge_entries_def)

lemma clean_merge: "list_all clean_entry (existing @ planned) \<Longrightarrow> list_all clean_entry (merge_entries existing planned)"
  by (auto simp: list_all_iff)

text \<open>
  Planning is idempotent. When the first plan was not cut short by the limit, planning
  the same candidates again over the schedule it wrote, read back from its rendered lines,
  adds nothing, and merging and rendering again gives the same section.
\<close>

theorem planning_again_adds_nothing:
  assumes "list_all clean_entry (pi_existing inp @ plan_blocks inp)"
    and "pi_limit inp \<le> 0 \<or> int (length (plan_blocks inp)) < pi_limit inp"
  defines "again \<equiv> parse_schedule_entries (merge_and_render (pi_existing inp) (plan_blocks inp))"
  shows "again = merge_entries (pi_existing inp) (plan_blocks inp)
     \<and> plan_blocks (inp\<lparr>pi_existing := again\<rparr>) = []
     \<and> merge_and_render again [] = merge_and_render (pi_existing inp) (plan_blocks inp)"
proof (intro conjI)
  show a: "again = merge_entries (pi_existing inp) (plan_blocks inp)"
    unfolding again_def merge_and_render_def by (rule parse_rendered_all [OF clean_merge [OF assms(1)]])
  let ?sched = "map (normalize_title \<circ> se_title) (pi_existing inp)"
  have "title_of ` set (pi_tasks inp) \<subseteq> set ?sched \<union> entry_key ` set (plan_blocks inp)"
    using place_tasks_all [of inp 0 "pi_start inp" "map span (pi_existing inp)" ?sched "pi_tasks inp"] assms(2)
    by (simp add: plan_blocks_def)
  then have "title_of ` set (pi_tasks inp) \<subseteq> set (map (normalize_title \<circ> se_title) again)"
    by (auto simp: a image_Un)
  then show "plan_blocks (inp\<lparr>pi_existing := again\<rparr>) = []"
    unfolding plan_blocks_def by (intro place_tasks_none) simp
  have "in_order (\<lambda>a b. se_start a < se_start b) again"
    unfolding a merge_entries_def by (intro in_order_stable_sort weak_order_key)
  then have "merge_entries again [] = again" by (simp add: merge_entries_def stable_sort_id)
  then show "merge_and_render again [] = merge_and_render (pi_existing inp) (plan_blocks inp)"
    by (simp add: merge_and_render_def a)
qed

lemma planning_again_adds_nothing_witness:
  "plan_blocks (sample_plan_input\<lparr>pi_existing := parse_schedule_entries
     (merge_and_render (pi_existing sample_plan_input) (plan_blocks sample_plan_input))\<rparr>) = []"
proof -
  have "list_all clean_entry (pi_existing sample_plan_input @ plan_blocks sample_plan_input)"
    and "int (length (plan_blocks sample_plan_input)) < pi_limit sample_plan_input" by code_simp+
  with planning_again_adds_nothing [of sample_plan_input] show ?thesis by blast
qed

section \<open>The agenda shows the plan\<close>

lemma scan_is_split_keep: "scan_lines c = split_keep c"
  by (simp add: scan_lines_def split_keep_def Let_def)

lemma scan_events_append: "\<exists>st'. scan_events day st (xs @ ys) = scan_events day st xs @ scan_events day st' ys"
proof (induction xs arbitrary: st)
  case Nil
  show ?case by auto
next
  case (Cons x xs)
  show ?case using Cons.IH [of "trim_space (trim_prefix x ''##'') = ''Schedule''"] Cons.IH [of False] Cons.IH [of True]
    by (cases st) auto
qed

lemma rendered_prefix: "render_entry e = CHR ''-'' # CHR '' '' # min_to_hhmm (se_start e) @ ''-'' @ min_to_hhmm (se_end e) @ '' '' @ tail_text e"
  by (simp add: render_entry_def tail_text_def)

lemma drop_cr_id: "CHR 0x0D \<notin> set l \<Longrightarrow> drop_cr l = l"
  by (cases l rule: rev_cases) (auto simp: drop_cr_def trim_suffix_def has_suffix_def)

lemma scan_events_rendered:
  assumes "list_all (\<lambda>e. clean_entry e \<and> se_start e < 1440 \<and> se_end e < 1440) es"
  shows "scan_events day True (map drop_cr (map render_entry es @ rest)) =
    map (event_of day) es @ scan_events day True (map drop_cr rest)"
  using assms
proof (induction es)
  case (Cons e es)
  then have "drop_cr (render_entry e) = render_entry e" using rendered_line_chars by (auto intro: drop_cr_id)
  moreover have "parse_line (render_entry e) day = Some (event_of day e)" using Cons.prems by (simp add: parse_line_rendered)
  moreover have "\<not> has_prefix (render_entry e) ''## ''" "\<not> has_prefix (render_entry e) ''#''"
    by (simp_all add: rendered_prefix has_prefix_def)
  ultimately show ?case using Cons by simp
qed simp

lemma rendered_body:
  assumes "list_all clean_entry es" and "es \<noteq> []"
  defines "body \<equiv> join [newline] (map render_entry es)"
  shows "body_lines body = map render_entry es" and "plain_body body"
proof -
  have n: "\<forall>l \<in> set (map render_entry es). newline \<notin> set l" "map render_entry es \<noteq> []"
    using assms(1,2) rendered_line_chars by (auto simp: list_all_iff)
  then have sp: "split_on newline body = map render_entry es" unfolding body_def by (intro split_on_join)
  have "hd body = CHR ''-''" "body \<noteq> []"
    using assms(2) by (cases es; simp add: body_def join_first rendered_prefix)+
  moreover have "last body = last (render_entry (last es))"
    using assms(2) by (cases es rule: rev_cases) (auto simp: body_def join_last rendered_prefix)
  moreover have "last (render_entry (last es)) \<noteq> newline"
    using n(1) assms(2) last_in_set [of "render_entry (last es)"] by (auto simp: rendered_prefix)
  ultimately have t: "trim_set body [newline] = body" and b: "body \<noteq> []" by (auto intro!: trim_set_id)
  show "body_lines body = map render_entry es" using b by (simp add: body_lines_def t sp)
  have "\<not> blank (render_entry e)" for e
    by (rule mark_not_blank [of "CHR ''-''"]) (simp add: rendered_prefix, code_simp)
  moreover have "\<not> opens_section (render_entry e)" for e by (simp add: opens_section_def rendered_prefix has_prefix_def)
  ultimately show "plain_body body"
    using assms(2) by (simp add: plain_body_def t sp list_all_iff last_map)
qed

text \<open>
  The agenda shows what was planned. When a plan of clean entries that all end before
  midnight is written into the schedule section of a daily note, the local calendar reads
  the note of that day as the events of exactly these entries, in order of their starts,
  among the events of other schedule sections the note may have.
\<close>

theorem agenda_shows_the_plan:
  assumes "list_all (\<lambda>e. clean_entry e \<and> se_start e < 1440 \<and> se_end e < 1440) (existing @ planned)"
    and "existing @ planned \<noteq> []"
    and "replace_section None ''Schedule'' (merge_and_render existing planned) note = (Readable content, None)"
    and "parse_events_from_note content day = Some events"
  shows "\<exists>before after. events = before @ map (event_of day) (merge_entries existing planned) @ after"
proof -
  let ?es = "merge_entries existing planned" and ?h = "''Schedule''"
  let ?body = "merge_and_render existing planned"
  have es: "list_all (\<lambda>e. clean_entry e \<and> se_start e < 1440 \<and> se_end e < 1440) ?es" "?es \<noteq> []"
    using assms(1,2) by (auto simp: list_all_iff simp flip: set_empty)
  then have ce: "list_all clean_entry ?es" by (auto simp: list_all_iff)
  have b: "body_lines ?body = map render_entry ?es" "plain_body ?body"
    using rendered_body [OF ce es(2)] by (simp_all add: merge_and_render_def)
  have h: "clean_heading ?h" by code_simp
  obtain pre post where r: "\<And>body. replaced_lines ?h body (split_keep (read_data note)) = pre @ render_section ?h body @ post"
    and p: "\<forall>x \<in> set pre. \<not> is_heading ?h x" "post = [] \<or> opens_section (hd post)"
    and n: "\<forall>x \<in> set pre \<union> set post. x = [] \<or> x \<in> set (split_keep (read_data note))"
    by (rule replaced_lines_parts) blast
  have c: "content = write_lines (pre @ render_section ?h ?body @ post)"
    using assms(3) by (simp add: replace_section_def replaced_def r)
  obtain mid where "split_keep content = pre @ heading_line ?h # mid @ trim_trailing_blanks post"
    and "mid = body_lines ?body @ (if post = [] then [] else [[]])"
    using written_parts [OF h b(2) no_newline_parts [OF n] p(2)] unfolding c by blast
  then obtain rest where s: "scan_lines content = pre @ heading_line ?h # (map render_entry ?es @ rest)"
    unfolding scan_is_split_keep b(1) by simp
  have "drop_cr (heading_line ?h) = heading_line ?h" "has_prefix (heading_line ?h) ''## ''"
    "trim_space (trim_prefix (heading_line ?h) ''##'') = ''Schedule''" by code_simp+
  then have "scan_events day st (map drop_cr (heading_line ?h # (map render_entry ?es @ rest))) =
      map (event_of day) ?es @ scan_events day True (map drop_cr rest)" for st
    using scan_events_rendered [OF es(1), of day rest] by simp
  moreover obtain st where "scan_events day False (map drop_cr pre @ map drop_cr (heading_line ?h # (map render_entry ?es @ rest))) =
      scan_events day False (map drop_cr pre) @ scan_events day st (map drop_cr (heading_line ?h # (map render_entry ?es @ rest)))"
    using scan_events_append by blast
  moreover have "events = scan_events day False (map drop_cr (scan_lines content))"
    using assms(4) by (auto simp: parse_events_from_note_def Let_def split: if_splits)
  ultimately have "events = scan_events day False (map drop_cr pre) @ map (event_of day) ?es @ scan_events day True (map drop_cr rest)"
    unfolding s by simp
  then show ?thesis by blast
qed

lemma agenda_shows_the_plan_witness:
  "\<exists>events before after. parse_events_from_note
      (replaced ''Schedule'' (merge_and_render [] (butlast sample_entries)) sample_note) (utc_midnight (2024, 1, 2)) = Some events
    \<and> events = before @ map (event_of (utc_midnight (2024, 1, 2))) (merge_entries [] (butlast sample_entries)) @ after"
proof -
  let ?content = "replaced ''Schedule'' (merge_and_render [] (butlast sample_entries)) sample_note"
  have s: "list_all (\<lambda>e. clean_entry e \<and> se_start e < 1440 \<and> se_end e < 1440) ([] @ butlast sample_entries)"
    "[] @ butlast sample_entries \<noteq> []" by code_simp+
  have r: "replace_section None ''Schedule'' (merge_and_render [] (butlast sample_entries)) (Readable sample_note) = (Readable ?content, None)"
    by (simp add: replace_section_def)
  have "list_all (\<lambda>l. length l < 100) (scan_lines ?content)" by code_simp
  then have "\<not> list_ex (\<lambda>l. 65536 \<le> length l) (scan_lines ?content)" by (force simp: list_all_iff list_ex_iff)
  then obtain events where e: "parse_events_from_note ?content (utc_midnight (2024, 1, 2)) = Some events"
    by (simp add: parse_events_from_note_def)
  from agenda_shows_the_plan [OF s r e] e show ?thesis by blast
qed

end
