(* ===== verification/Drain.thy ===== *)
theory Drain
  imports TaskCreate Notes
begin

text \<open>
  One pass of the drain (\<open>internal/service/drain_service.go\<close>): pull the rows of the cloud
  queue, write the valid ones into the vault, acknowledge what was written and deadletter
  what was rejected.

  The world is the vault of tasks, the files of notes and captures, and the calls made to the
  queue, in order. What the queue answers, and the faults of single writes, are parameters.
\<close>

section \<open>Rows\<close>

record remote_task =
  rt_id :: bytes
  rt_text :: bytes
  rt_kind :: bytes
  rt_project :: bytes
  rt_client :: bytes
  rt_due :: bytes
  rt_scheduled :: bytes

datatype queue_call = Ack "bytes list" | Deadletter "bytes list" bytes

record drain_world =
  dw_vault :: vault
  dw_files :: files
  dw_calls :: "queue_call list"

record drain_env =
  de_tasks :: task_service
  de_notes :: bytes
  de_inbox :: bytes
  de_client :: "(bytes \<Rightarrow> bool) option"
  de_note_fault :: "bytes \<Rightarrow> go_error option"
  de_capture :: "bytes \<Rightarrow> capture_io"
  de_pull :: "int \<Rightarrow> go_error + remote_task list"
  de_ack :: "bytes list \<Rightarrow> go_error option"
  de_deadletter :: "bytes list \<Rightarrow> go_error option"

definition parse_drain_date :: "bytes \<Rightarrow> bytes \<Rightarrow> go_error + gotime option" where
  "parse_drain_date field v =
     (if v = [] then Inr None
      else (case parse_date v of
          None \<Rightarrow> Inl (new_error (''invalid '' @ field @ '' date '' @ go_quote v @ '', use YYYY-MM-DD''))
        | Some c \<Rightarrow> Inr (Some (utc_midnight c))))"

definition row_kind :: "remote_task \<Rightarrow> bytes" where
  "row_kind rt = (let k = trim_space (rt_kind rt) in if k = [] then ''task'' else k)"

definition row_tag :: "remote_task \<Rightarrow> bytes" where
  "row_tag rt = (let c = trim_space (rt_client rt) in if c \<noteq> [] then c else trim_space (rt_project rt))"

text \<open>The input of a valid task row, or the reason it is rejected.\<close>

definition task_row :: "drain_env \<Rightarrow> remote_task \<Rightarrow> go_error + add_task_input" where
  "task_row env rt =
     (case validate_add_input (rt_text rt) (rt_project rt) (rt_client rt) (de_client env) of
        Some e \<Rightarrow> Inl e
      | None \<Rightarrow>
          (case parse_drain_date ''due'' (rt_due rt) of
             Inl e \<Rightarrow> Inl e
           | Inr due \<Rightarrow>
               (case parse_drain_date ''scheduled'' (rt_scheduled rt) of
                  Inl e \<Rightarrow> Inl e
                | Inr scheduled \<Rightarrow>
                    Inr \<lparr>ai_text = rt_text rt, ai_project = row_tag rt, ai_due = due, ai_scheduled = scheduled,
                      ai_recurrence = [], ai_parent = [], ai_id = rt_id rt\<rparr>)))"

datatype row_end = Row_written | Row_rejected bytes | Row_failed go_error

definition drain_row :: "drain_env \<Rightarrow> remote_task \<Rightarrow> drain_world \<Rightarrow> drain_world \<times> row_end" where
  "drain_row env rt w =
     (let kind = row_kind rt in
      if kind = ''task'' then
        (case task_row env rt of
           Inl e \<Rightarrow> (w, Row_rejected (err_text e))
         | Inr inp \<Rightarrow>
             (case create_task (de_tasks env) inp (dw_vault w) of
                (v, Inl e) \<Rightarrow> (w\<lparr>dw_vault := v\<rparr>, Row_failed (wrap_error (''drain: write task '' @ rt_id rt @ '': '') e))
              | (v, Inr t) \<Rightarrow> (w\<lparr>dw_vault := v\<rparr>, Row_written)))
      else if kind = ''note'' then
        (case add_note None (de_note_fault env (rt_id rt)) (vt_now (dw_vault w)) (de_notes env) (rt_text rt) [] (dw_files w) of
           (d, Inl e) \<Rightarrow> (w\<lparr>dw_files := d\<rparr>, Row_failed (wrap_error (''drain: write note '' @ rt_id rt @ '': '') e))
         | (d, Inr n) \<Rightarrow> (w\<lparr>dw_files := d\<rparr>, Row_written))
      else if kind = ''capture'' then
        (case write_capture (de_capture env (rt_id rt)) (vt_now (dw_vault w)) (de_inbox env) (rt_text rt) (dw_files w) of
           (d, Inl e) \<Rightarrow> (w\<lparr>dw_files := d\<rparr>, Row_failed (wrap_error (''drain: write capture '' @ rt_id rt @ '': '') e))
         | (d, Inr p) \<Rightarrow> (w\<lparr>dw_files := d\<rparr>, Row_written))
      else (w, Row_rejected (''unknown kind '' @ go_quote kind)))"

section \<open>The pass\<close>

record drain_summary =
  su_drained :: nat
  su_rejected :: nat
  su_failures :: "(bytes \<times> bytes) list"

text \<open>The loop: the ids written, the failures, and the error that ended it early, if any.\<close>

fun drain_rows ::
  "drain_env \<Rightarrow> remote_task list \<Rightarrow> drain_world
   \<Rightarrow> drain_world \<times> bytes list \<times> (bytes \<times> bytes) list \<times> go_error option" where
  "drain_rows env [] w = (w, [], [], None)"
| "drain_rows env (rt # rts) w =
     (case drain_row env rt w of
        (w', Row_failed e) \<Rightarrow> (w', [], [], Some e)
      | (w', Row_written) \<Rightarrow>
          (case drain_rows env rts w' of (w'', ids, fails, err) \<Rightarrow> (w'', rt_id rt # ids, fails, err))
      | (w', Row_rejected r) \<Rightarrow>
          (case drain_rows env rts w' of (w'', ids, fails, err) \<Rightarrow> (w'', ids, (rt_id rt, r) # fails, err)))"

definition failure_text :: "(bytes \<times> bytes) list \<Rightarrow> bytes" where
  "failure_text fails = join ''; '' (map (\<lambda>(i, r). i @ '': '' @ r) fails)"

definition call_queue :: "queue_call \<Rightarrow> drain_world \<Rightarrow> drain_world" where
  "call_queue c w = w\<lparr>dw_calls := dw_calls w @ [c]\<rparr>"

definition drain :: "drain_env \<Rightarrow> int \<Rightarrow> drain_world \<Rightarrow> drain_world \<times> drain_summary \<times> go_error option" where
  "drain env limit w =
     (case de_pull env (if limit \<le> 0 then 100 else limit) of
        Inl e \<Rightarrow> (w, \<lparr>su_drained = 0, su_rejected = 0, su_failures = []\<rparr>, Some (wrap_error ''drain: pull: '' e))
      | Inr rows \<Rightarrow>
          (case drain_rows env rows w of
             (w1, ids, fails, Some e) \<Rightarrow> (w1, \<lparr>su_drained = 0, su_rejected = 0, su_failures = fails\<rparr>, Some e)
           | (w1, ids, fails, None) \<Rightarrow>
               (let w2 = call_queue (Ack ids) w1 in
                case de_ack env ids of
                  Some e \<Rightarrow> (w2, \<lparr>su_drained = 0, su_rejected = 0, su_failures = fails\<rparr>, Some (wrap_error ''drain: ack: '' e))
                | None \<Rightarrow>
                    if fails = [] then (w2, \<lparr>su_drained = length ids, su_rejected = 0, su_failures = []\<rparr>, None)
                    else (let w3 = call_queue (Deadletter (map fst fails) (failure_text fails)) w2 in
                          case de_deadletter env (map fst fails) of
                            Some e \<Rightarrow> (w3, \<lparr>su_drained = length ids, su_rejected = 0, su_failures = fails\<rparr>,
                                        Some (wrap_error ''drain: deadletter: '' e))
                          | None \<Rightarrow> (w3, \<lparr>su_drained = length ids, su_rejected = length fails, su_failures = fails\<rparr>, None)))))"

section \<open>Every row is accounted for\<close>

text \<open>Rejection does not depend on the vault.\<close>

definition rejection :: "drain_env \<Rightarrow> remote_task \<Rightarrow> bytes option" where
  "rejection env rt =
     (if row_kind rt = ''task'' then (case task_row env rt of Inl e \<Rightarrow> Some (err_text e) | Inr _ \<Rightarrow> None)
      else if row_kind rt = ''note'' \<or> row_kind rt = ''capture'' then None
      else Some (''unknown kind '' @ go_quote (row_kind rt)))"

lemma drain_row_rejected: "rejection env rt = Some r \<Longrightarrow> drain_row env rt w = (w, Row_rejected r)"
  by (auto simp: rejection_def drain_row_def Let_def split: if_splits sum.splits)

lemma drain_row_accepted: "rejection env rt = None \<Longrightarrow> snd (drain_row env rt w) \<noteq> Row_rejected r"
  by (auto simp: rejection_def drain_row_def Let_def split: if_splits sum.splits prod.splits)

lemma drain_row_calls: "dw_calls (fst (drain_row env rt w)) = dw_calls w"
  by (auto simp: drain_row_def Let_def split: sum.splits prod.splits)

lemma drain_rows_calls: "dw_calls (fst (drain_rows env rts w)) = dw_calls w"
proof (induction rts arbitrary: w)
  case (Cons rt rts)
  obtain w' r where d: "drain_row env rt w = (w', r)" by (cases "drain_row env rt w") auto
  then have "dw_calls w' = dw_calls w" using drain_row_calls [of env rt w] by simp
  then show ?case using Cons.IH [of w'] d by (cases r) (auto split: prod.splits)
qed simp

lemma drain_rows_sorted:
  "drain_rows env rts w = (w', ids, fails, None) \<Longrightarrow>
   ids = map rt_id (filter (\<lambda>rt. rejection env rt = None) rts)
   \<and> fails = map (\<lambda>rt. (rt_id rt, the (rejection env rt))) (filter (\<lambda>rt. rejection env rt \<noteq> None) rts)"
proof (induction rts arbitrary: w w' ids fails)
  case (Cons rt rts)
  show ?case
  proof (cases "rejection env rt")
    case None
    obtain w1 r where d: "drain_row env rt w = (w1, r)" by (cases "drain_row env rt w") auto
    then have "r = Row_written" using Cons.prems drain_row_accepted [OF None, of w] by (cases r) auto
    with Cons d None show ?thesis by (auto split: prod.splits)
  next
    case (Some r)
    with Cons drain_row_rejected [OF Some, of w] show ?thesis by (auto split: prod.splits)
  qed
qed simp

text \<open>
  C20. The drain writes before it acknowledges, and loses no row. Whatever happens, the queue
  is called only after the loop over the rows ended without a failed write; then exactly the
  rows that pass validation are acknowledged, in one call, and exactly the others are
  deadlettered, in a second one that is made only after the first succeeded. In particular a
  pass that succeeds has acknowledged or deadlettered every row it pulled, and reports both
  numbers.
\<close>

theorem drain_accounts_for_every_row:
  assumes "drain env limit w = (w', su, err)"
    and "de_pull env (if limit \<le> 0 then 100 else limit) = Inr rows"
  defines "written \<equiv> map rt_id (filter (\<lambda>rt. rejection env rt = None) rows)"
    and "rejected \<equiv> map rt_id (filter (\<lambda>rt. rejection env rt \<noteq> None) rows)"
  shows "(dw_calls w' = dw_calls w \<and> err \<noteq> None
         \<or> snd (snd (snd (drain_rows env rows w))) = None
           \<and> (dw_calls w' = dw_calls w @ [Ack written] \<and> (err \<noteq> None \<or> rejected = [])
             \<or> de_ack env written = None \<and> (\<exists>reason. dw_calls w' = dw_calls w @ [Ack written, Deadletter rejected reason])))
     \<and> (err = None \<longrightarrow> su_drained su = length written \<and> su_rejected su = length rejected
          \<and> su_drained su + su_rejected su = length rows)"
proof (cases "snd (snd (snd (drain_rows env rows w)))")
  case (Some e)
  then obtain w1 ids fails where d: "drain_rows env rows w = (w1, ids, fails, Some e)"
    by (metis prod.collapse)
  then have "dw_calls w1 = dw_calls w" using drain_rows_calls [of env rows w] by simp
  with assms(1,2) d show ?thesis by (auto simp: drain_def)
next
  case None
  then obtain w1 ids fails where d: "drain_rows env rows w = (w1, ids, fails, None)"
    by (metis prod.collapse)
  then have c: "dw_calls w1 = dw_calls w" using drain_rows_calls [of env rows w] by simp
  have i: "ids = written" and f: "map fst fails = rejected" and fl: "fails = [] \<longleftrightarrow> rejected = []"
    and l: "length fails = length rejected"
    using drain_rows_sorted [OF d] by (auto simp: written_def rejected_def comp_def)
  have sum: "length written + length rejected = length rows"
    using sum_length_filter_compl [of "\<lambda>rt. rejection env rt = None" rows] by (simp add: written_def rejected_def)
  show ?thesis
  proof (cases "de_ack env written")
    case (Some e)
    with assms(1,2) d c i show ?thesis by (simp add: drain_def Let_def call_queue_def) auto
  next
    case ack: None
    show ?thesis
    proof (cases "rejected = []")
      case True
      with assms(1,2) d c i f fl ack sum show ?thesis by (simp add: drain_def Let_def call_queue_def) auto
    next
      case False
      with assms(1,2) d c i f fl l ack sum show ?thesis
        by (cases "de_deadletter env rejected") (simp_all add: drain_def Let_def call_queue_def, auto)
    qed
  qed
qed

text \<open>
  A note or a capture is not validated before it is written, and its writer refuses text that
  is only white space; that error ends the pass, before any acknowledgement.
\<close>

lemma blank_row_fails:
  "row_kind rt \<in> {''note'', ''capture''} \<Longrightarrow> trim_space (rt_text rt) = [] \<Longrightarrow>
   \<exists>w' e. drain_row env rt w = (w', Row_failed e)"
  by (auto simp: drain_row_def add_note_def write_note_def write_capture_def Let_def split: option.splits)

text \<open>
  One row can stop the queue for good. If the queue holds a note or capture whose
  text is blank for \<open>TrimSpace\<close>, then no pass that pulls it ever acknowledges or
  deadletters a row: neither this one nor any other, whatever the state of the vault, so
  the same rows come back in every pass.
\<close>

theorem blank_note_blocks_the_queue:
  assumes "de_pull env (if limit \<le> 0 then 100 else limit) = Inr rows"
    and "rt \<in> set rows" and "row_kind rt \<in> {''note'', ''capture''}" and "trim_space (rt_text rt) = []"
    and "drain env limit w = (w', su, err)"
  shows "err \<noteq> None \<and> su_drained su = 0 \<and> su_rejected su = 0 \<and> dw_calls w' = dw_calls w"
proof -
  have "\<exists>e. snd (snd (snd (drain_rows env rows w))) = Some e"
    using assms(2)
  proof (induction rows arbitrary: w)
    case (Cons x xs)
    obtain w1 r where d: "drain_row env x w = (w1, r)" by (cases "drain_row env x w") auto
    show ?case
    proof (cases "x = rt")
      case True
      with blank_row_fails [OF assms(3,4), of env w] show ?thesis by auto
    next
      case False
      with Cons have "\<exists>e. snd (snd (snd (drain_rows env xs w1))) = Some e" by simp
      with d show ?thesis by (cases r) (auto split: prod.splits)
    qed
  qed simp
  then obtain w1 ids fails e where d: "drain_rows env rows w = (w1, ids, fails, Some e)"
    by (metis prod.collapse)
  then have "dw_calls w1 = dw_calls w" using drain_rows_calls [of env rows w] by simp
  with assms(1,5) d show ?thesis by (auto simp: drain_def)
qed

section \<open>Draining again\<close>

text \<open>
  The vault a drain of tasks works on: all files are read, and the listed ones end in a
  complete line. A row is there when the tasks listed under its id have its text.
\<close>

definition tidy :: "task_service \<Rightarrow> vault \<Rightarrow> bool" where
  "tidy s v \<longleftrightarrow> (\<exists>ts. list_all_tasks s v = (v, Inr ts))
     \<and> (\<forall>n f. listed_name n \<longrightarrow> map_of (vt_disk v) (canon_path (ts_dir s) n) = Some f \<longrightarrow>
          f_content f = [] \<or> last (f_content f) = newline)"

definition ids_listed :: "task_service \<Rightarrow> vault \<Rightarrow> bytes set" where
  "ids_listed s v = (case list_all_tasks s v of (_, Inr ts) \<Rightarrow> tk_id ` set ts | _ \<Rightarrow> {})"

definition in_vault :: "task_service \<Rightarrow> vault \<Rightarrow> add_task_input \<Rightarrow> bool" where
  "in_vault s v inp \<longleftrightarrow>
     (case list_all_tasks s v of
        (v', Inr ts) \<Rightarrow> v' = v \<and> ai_id inp \<in> tk_id ` set ts
          \<and> (\<forall>t \<in> set ts. tk_id t = ai_id inp \<longrightarrow> task_text_matches t (trim_space (ai_text inp)))
      | _ \<Rightarrow> False)"

definition drainable :: "task_service \<Rightarrow> add_task_input \<Rightarrow> bool" where
  "drainable s inp \<longleftrightarrow> clean_input (ai_id inp) inp \<and> length (task_line (listed_task (ai_id inp) inp)) < 65536
     \<and> (\<exists>n. new_task_path s (ai_project inp) = canon_path (ts_dir s) n \<and> listed_name n)"

lemma in_vault_create:
  assumes "in_vault s v inp" and "clean_input (ai_id inp) inp" and "\<not> is_numeric_tag (trim_space (ai_project inp))"
  shows "\<exists>t. create_task s inp v = (v, Inr t)"
proof -
  have i: "ai_id inp \<noteq> []" using assms(2) valid_qi_id_chars(2) by (simp add: clean_input_def)
  obtain ts where ts: "list_all_tasks s v = (v, Inr ts)" "ai_id inp \<in> tk_id ` set ts"
    "\<forall>t \<in> set ts. tk_id t = ai_id inp \<longrightarrow> task_text_matches t (trim_space (ai_text inp))"
    using assms(1) by (auto simp: in_vault_def split: prod.splits sum.splits)
  then have "find (\<lambda>t. tk_id t = ai_id inp) ts \<noteq> None" by (auto simp: find_None_iff)
  then obtain u where u: "find (\<lambda>t. tk_id t = ai_id inp) ts = Some u" by blast
  then have "task_text_matches u (trim_space (ai_text inp))" using ts(3) find_SomeD [OF u] by blast
  then show ?thesis using ts(1) i assms(3) u by (simp add: create_task_def find_by_id_def Let_def)
qed

lemma create_step:
  assumes s: "ts_dir s \<noteq> []" and t: "tidy s v" and dr: "drainable s inp"
    and st: "ai_id inp \<notin> ids_listed s v \<or> in_vault s v inp"
    and cr: "create_task s inp v = (v1, Inr t1)"
  shows "tidy s v1" and "in_vault s v1 inp"
    and "\<And>j. ai_id j \<noteq> ai_id inp \<Longrightarrow> in_vault s v j \<Longrightarrow> in_vault s v1 j"
    and "ids_listed s v1 \<subseteq> insert (ai_id inp) (ids_listed s v)"
proof -
  have c: "clean_input (ai_id inp) inp" using dr by (simp add: drainable_def)
  then have i: "ai_id inp \<noteq> []" using valid_qi_id_chars(2) by (simp add: clean_input_def)
  have num: "\<not> is_numeric_tag (trim_space (ai_project inp))"
    using cr by (auto simp: create_task_def Let_def split: if_splits)
  have "tidy s v1 \<and> in_vault s v1 inp \<and> (\<forall>j. ai_id j \<noteq> ai_id inp \<longrightarrow> in_vault s v j \<longrightarrow> in_vault s v1 j)
      \<and> ids_listed s v1 \<subseteq> insert (ai_id inp) (ids_listed s v)"
  proof (cases "in_vault s v inp")
    case True
    then have "v1 = v" using in_vault_create [OF True c num] cr by auto
    with True t show ?thesis by auto
  next
    case False
    obtain ts where ts: "list_all_tasks s v = (v, Inr ts)" using t by (auto simp: tidy_def)
    have new: "ai_id inp \<notin> tk_id ` set ts" using st False ts by (simp add: ids_listed_def)
    then have new': "\<forall>t \<in> set ts. tk_id t \<noteq> ai_id inp" by (metis imageI)
    then have "find (\<lambda>t. tk_id t = ai_id inp) ts = None" by (simp add: find_None_iff)
    then have w: "write_new_task s inp (ai_id inp) v = (v1, Inr t1)"
      using cr num ts i by (simp add: create_task_def find_by_id_def Let_def)
    obtain n where n: "new_task_path s (ai_project inp) = canon_path (ts_dir s) n" "listed_name n"
      and short: "length (task_line (listed_task (ai_id inp) inp)) < 65536" using dr by (auto simp: drainable_def)
    have ends: "\<forall>f. map_of (vt_disk v) (canon_path (ts_dir s) n) = Some f \<longrightarrow> f_content f = [] \<or> last (f_content f) = newline"
      using t n(2) by (auto simp: tidy_def)
    obtain k ts1 where l: "list_all_tasks s v1 = (v1, Inr ts1)"
      and ts1: "set ts1 = insert ((as_read (listed_task (ai_id inp) inp))\<lparr>tk_file := canon_path (ts_dir s) n, tk_line := k\<rparr>) (set ts)"
      and other: "\<forall>q. q \<noteq> canon_path (ts_dir s) n \<longrightarrow> map_of (vt_disk v1) q = map_of (vt_disk v) q"
      and last: "last (read_file_bytes (vt_disk v1) (canon_path (ts_dir s) n)) = newline"
      using create_lists [OF c s n ts ends short w] by blast
    let ?t = "(as_read (listed_task (ai_id inp) inp))\<lparr>tk_file := canon_path (ts_dir s) n, tk_line := k\<rparr>"
    have id: "tk_id ?t = ai_id inp" by (simp add: as_read_def listed_task_def new_task_def)
    have "f_content f = [] \<or> last (f_content f) = newline"
      if "listed_name m" "map_of (vt_disk v1) (canon_path (ts_dir s) m) = Some f" for m f
      using that other last t by (cases "canon_path (ts_dir s) m = canon_path (ts_dir s) n")
        (auto simp: tidy_def read_file_bytes_def)
    then have "tidy s v1" using l by (auto simp: tidy_def)
    moreover have "in_vault s v1 inp" using l ts1 id new' listed_text_matches [OF c] by (auto simp: in_vault_def)
    moreover have "in_vault s v1 j" if "ai_id j \<noteq> ai_id inp" "in_vault s v j" for j
      using that l ts1 id ts by (auto simp: in_vault_def)
    moreover have "ids_listed s v1 \<subseteq> insert (ai_id inp) (ids_listed s v)"
      using l ts1 id ts by (auto simp: ids_listed_def)
    ultimately show ?thesis by blast
  qed
  then show "tidy s v1" "in_vault s v1 inp" "\<And>j. ai_id j \<noteq> ai_id inp \<Longrightarrow> in_vault s v j \<Longrightarrow> in_vault s v1 j"
    "ids_listed s v1 \<subseteq> insert (ai_id inp) (ids_listed s v)" by blast+
qed

text \<open>The rows of a pass of tasks: what each creates, or nothing.\<close>

definition row_input :: "drain_env \<Rightarrow> remote_task \<Rightarrow> add_task_input option" where
  "row_input env rt = (case task_row env rt of Inl _ \<Rightarrow> None | Inr inp \<Rightarrow> Some inp)"

definition task_rows :: "drain_env \<Rightarrow> remote_task list \<Rightarrow> bool" where
  "task_rows env rows \<longleftrightarrow>
     (\<forall>rt \<in> set rows. row_kind rt = ''task'' \<and> (\<forall>inp. row_input env rt = Some inp \<longrightarrow> drainable (de_tasks env) inp))
     \<and> distinct (map rt_id rows)"

lemma row_input_id: "row_input env rt = Some inp \<Longrightarrow> ai_id inp = rt_id rt"
  by (auto simp: row_input_def task_row_def split: sum.splits option.splits)

lemma drain_task_row:
  assumes "row_kind rt = ''task''"
  shows "drain_row env rt w =
    (case row_input env rt of
       None \<Rightarrow> (w, Row_rejected (the (rejection env rt)))
     | Some inp \<Rightarrow>
         (case create_task (de_tasks env) inp (dw_vault w) of
            (v, Inl e) \<Rightarrow> (w\<lparr>dw_vault := v\<rparr>, Row_failed (wrap_error (''drain: write task '' @ rt_id rt @ '': '') e))
          | (v, Inr t) \<Rightarrow> (w\<lparr>dw_vault := v\<rparr>, Row_written)))"
  using assms by (auto simp: drain_row_def row_input_def rejection_def split: sum.splits)

text \<open>After a pass that wrote all its rows, every valid row is in the vault.\<close>

lemma drain_rows_in_vault:
  assumes "ts_dir (de_tasks env) \<noteq> []"
  shows "drain_rows env rows w = (w', ids, fails, None) \<Longrightarrow> task_rows env rows \<Longrightarrow> tidy (de_tasks env) (dw_vault w)
    \<Longrightarrow> \<forall>rt \<in> set rows. \<forall>inp. row_input env rt = Some inp \<longrightarrow>
         rt_id rt \<notin> ids_listed (de_tasks env) (dw_vault w) \<or> in_vault (de_tasks env) (dw_vault w) inp
    \<Longrightarrow> (\<forall>rt \<in> set rows. \<forall>inp. row_input env rt = Some inp \<longrightarrow> in_vault (de_tasks env) (dw_vault w') inp)
      \<and> (\<forall>j. ai_id j \<notin> rt_id ` set rows \<longrightarrow> in_vault (de_tasks env) (dw_vault w) j \<longrightarrow> in_vault (de_tasks env) (dw_vault w') j)"
proof (induction rows arbitrary: w w' ids fails)
  case Nil
  then show ?case by simp
next
  case (Cons rt rts)
  let ?s = "de_tasks env"
  have k: "row_kind rt = ''task''" and rest: "task_rows env rts" and fresh: "rt_id rt \<notin> rt_id ` set rts"
    using Cons.prems(2) by (auto simp: task_rows_def)
  show ?case
  proof (cases "row_input env rt")
    case None
    then have "\<exists>ids fails. drain_rows env rts w = (w', ids, fails, None)"
      using Cons.prems(1) by (auto simp: drain_task_row [OF k] split: prod.splits)
    with Cons.IH rest Cons.prems(3,4) None show ?thesis by auto
  next
    case (Some inp)
    note i = row_input_id [OF Some]
    have dr: "drainable ?s inp" using Cons.prems(2) Some by (simp add: task_rows_def)
    obtain v1 r where c: "create_task ?s inp (dw_vault w) = (v1, r)" by (cases "create_task ?s inp (dw_vault w)") auto
    with Some Cons.prems(1) obtain t where r: "r = Inr t" by (cases r) (auto simp: drain_task_row [OF k])
    have st: "ai_id inp \<notin> ids_listed ?s (dw_vault w) \<or> in_vault ?s (dw_vault w) inp" using Cons.prems(4) Some i by simp
    note step = create_step [OF assms Cons.prems(3) dr st c [unfolded r]]
    let ?w1 = "w\<lparr>dw_vault := v1\<rparr>"
    have d: "\<exists>ids fails. drain_rows env rts ?w1 = (w', ids, fails, None)"
      using Cons.prems(1) Some c r by (auto simp: drain_task_row [OF k] split: prod.splits)
    have "\<forall>x \<in> set rts. \<forall>j. row_input env x = Some j \<longrightarrow> rt_id x \<notin> ids_listed ?s v1 \<or> in_vault ?s v1 j"
    proof (intro ballI allI impI)
      fix x j assume x: "x \<in> set rts" "row_input env x = Some j"
      then have "rt_id x \<noteq> rt_id rt" using fresh by (metis imageI)
      with x step(3) [of j] step(4) Cons.prems(4) row_input_id [OF x(2)] i
      show "rt_id x \<notin> ids_listed ?s v1 \<or> in_vault ?s v1 j" by fastforce
    qed
    with d Cons.IH [of ?w1] rest step(1) have ih: "\<forall>x \<in> set rts. \<forall>j. row_input env x = Some j \<longrightarrow> in_vault ?s (dw_vault w') j"
      "\<forall>j. ai_id j \<notin> rt_id ` set rts \<longrightarrow> in_vault ?s v1 j \<longrightarrow> in_vault ?s (dw_vault w') j" by auto
    have "in_vault ?s (dw_vault w') inp" using ih(2) step(2) fresh i by simp
    with ih step(3) Some i show ?thesis by auto
  qed
qed

lemma drain_rows_idle:
  assumes "task_rows env rows"
    and "\<forall>rt \<in> set rows. \<forall>inp. row_input env rt = Some inp \<longrightarrow> in_vault (de_tasks env) (dw_vault w) inp"
    and "\<forall>rt \<in> set rows. \<forall>inp. row_input env rt = Some inp \<longrightarrow> \<not> is_numeric_tag (trim_space (ai_project inp))"
  shows "\<exists>ids fails. drain_rows env rows w = (w, ids, fails, None)"
  using assms
proof (induction rows)
  case (Cons rt rts)
  have k: "row_kind rt = ''task''" using Cons.prems(1) by (simp add: task_rows_def)
  obtain ids fails where ih: "drain_rows env rts w = (w, ids, fails, None)"
    using Cons by (auto simp: task_rows_def)
  show ?case
  proof (cases "row_input env rt")
    case None
    with ih show ?thesis by (simp add: drain_task_row [OF k])
  next
    case (Some inp)
    then have "drainable (de_tasks env) inp" using Cons.prems(1) by (simp add: task_rows_def)
    then have "clean_input (ai_id inp) inp" by (simp add: drainable_def)
    then obtain t where "create_task (de_tasks env) inp (dw_vault w) = (dw_vault w, Inr t)"
      using in_vault_create Cons.prems(2,3) Some by (meson list.set_intros(1))
    with ih Some show ?thesis by (simp add: drain_task_row [OF k])
  qed
qed simp

lemma written_not_numeric:
  "drain_rows env rows w = (w', ids, fails, None) \<Longrightarrow> rt \<in> set rows \<Longrightarrow> row_kind rt = ''task'' \<Longrightarrow>
   row_input env rt = Some inp \<Longrightarrow> \<not> is_numeric_tag (trim_space (ai_project inp))"
proof (induction rows arbitrary: w ids fails)
  case (Cons x xs)
  obtain w1 r where d: "drain_row env x w = (w1, r)" by (cases "drain_row env x w") auto
  show ?case
  proof (cases "rt = x")
    case True
    have "r \<noteq> Row_failed e" for e using Cons.prems(1) d by auto
    with True Cons.prems(3,4) d show ?thesis
      by (auto simp: drain_task_row create_task_def Let_def split: if_splits)
  next
    case False
    then have "\<exists>ids fails. drain_rows env xs w1 = (w', ids, fails, None)"
      using Cons.prems(1) d by (cases r) (auto split: prod.splits)
    with Cons.IH Cons.prems False show ?thesis by auto
  qed
qed simp

text \<open>
  A lost acknowledgement is harmless for tasks. Take rows of tasks with different
  ids, whose valid ones are clean and go to listed files of a vault in which no other text is
  under their ids. If a pass gets as far as the queue, then a second pass over the same rows,
  because the acknowledgement was lost or failed, leaves every file as it is.
\<close>

theorem lost_ack_is_harmless:
  assumes "de_pull env (if limit \<le> 0 then 100 else limit) = Inr rows" and "ts_dir (de_tasks env) \<noteq> []"
    and "task_rows env rows" and "tidy (de_tasks env) (dw_vault w)"
    and "\<forall>rt \<in> set rows. \<forall>inp. row_input env rt = Some inp \<longrightarrow>
         rt_id rt \<notin> ids_listed (de_tasks env) (dw_vault w) \<or> in_vault (de_tasks env) (dw_vault w) inp"
    and "drain env limit w = (w1, su1, err1)" and "dw_calls w1 \<noteq> dw_calls w"
    and "drain env limit w1 = (w2, su2, err2)"
  shows "dw_vault w2 = dw_vault w1 \<and> dw_files w2 = dw_files w1"
proof -
  obtain w' ids fails err where d: "drain_rows env rows w = (w', ids, fails, err)"
    by (metis prod.collapse)
  have e: "err = None" and w1: "dw_vault w1 = dw_vault w'"
    using assms(1,6,7) d drain_rows_calls [of env rows w]
    by (auto simp: drain_def Let_def call_queue_def split: option.splits if_splits)
  note d = d [unfolded e]
  have iv: "\<forall>rt \<in> set rows. \<forall>inp. row_input env rt = Some inp \<longrightarrow> in_vault (de_tasks env) (dw_vault w1) inp"
    using drain_rows_in_vault [OF assms(2) d assms(3-5)] w1 by simp
  have "\<forall>rt \<in> set rows. \<forall>inp. row_input env rt = Some inp \<longrightarrow> \<not> is_numeric_tag (trim_space (ai_project inp))"
    using written_not_numeric [OF d] assms(3) by (simp add: task_rows_def)
  from drain_rows_idle [OF assms(3) iv this] obtain ids' fails' where "drain_rows env rows w1 = (w1, ids', fails', None)" by blast
  with assms(1,8) show ?thesis
    by (auto simp: drain_def Let_def call_queue_def split: option.splits if_splits)
qed

section \<open>Samples\<close>

definition plain_row :: remote_task where
  "plain_row = \<lparr>rt_id = ''qi-0a1b2c3d'', rt_text = ''a'', rt_kind = [], rt_project = [], rt_client = [],
     rt_due = [], rt_scheduled = []\<rparr>"

definition sample_rows :: "remote_task list" where
  "sample_rows = [plain_row\<lparr>rt_id := ''n1'', rt_kind := ''note'', rt_text := ''Road map''\<rparr>, plain_row\<lparr>rt_id := ''x1'', rt_kind := ''todo''\<rparr>]"

definition sample_drain :: "remote_task list \<Rightarrow> go_error option \<Rightarrow> drain_env" where
  "sample_drain rows ack = \<lparr>de_tasks = sample_service, de_notes = ''notes'', de_inbox = ''inbox'', de_client = None,
     de_note_fault = (\<lambda>_. None), de_capture = (\<lambda>_. sample_capture_io), de_pull = (\<lambda>_. Inr rows),
     de_ack = (\<lambda>_. ack), de_deadletter = (\<lambda>_. None)\<rparr>"

definition sample_drain_world :: drain_world where
  "sample_drain_world = \<lparr>dw_vault = sample_vault, dw_files = [], dw_calls = []\<rparr>"

lemma drain_accounts_for_every_row_witness:
  "\<exists>w su. drain (sample_drain sample_rows None) 0 sample_drain_world = (w, su, None) \<and> su_drained su = 1 \<and> su_rejected su = 1"
proof -
  have "snd (snd (drain (sample_drain sample_rows None) 0 sample_drain_world)) = None" by code_simp
  then obtain w su where d: "drain (sample_drain sample_rows None) 0 sample_drain_world = (w, su, None)"
    by (metis prod.collapse)
  moreover have "de_pull (sample_drain sample_rows None) (if (0::int) \<le> 0 then 100 else 0) = Inr sample_rows"
    by (simp add: sample_drain_def)
  moreover have "map (rejection (sample_drain sample_rows None)) sample_rows = [None, Some (''unknown kind '' @ go_quote ''todo'')]"
    by code_simp
  then have "length (filter (\<lambda>rt. rejection (sample_drain sample_rows None) rt = None) sample_rows) = 1"
    "length (filter (\<lambda>rt. rejection (sample_drain sample_rows None) rt \<noteq> None) sample_rows) = 1"
    by (simp_all add: sample_rows_def)
  ultimately show ?thesis using drain_accounts_for_every_row [of "sample_drain sample_rows None" 0 sample_drain_world w su None sample_rows]
    by simp
qed

lemma blank_note_blocks_the_queue_witness:
  "dw_calls (fst (drain (sample_drain [plain_row, plain_row\<lparr>rt_kind := ''note'', rt_text := '' ''\<rparr>] None) 0 sample_drain_world)) = []"
proof -
  let ?rt = "plain_row\<lparr>rt_kind := ''note'', rt_text := '' ''\<rparr>"
  have "row_kind ?rt \<in> {''note'', ''capture''}" "trim_space (rt_text ?rt) = []" by code_simp+
  moreover have "de_pull (sample_drain [plain_row, ?rt] None) (if (0::int) \<le> 0 then 100 else 0) = Inr [plain_row, ?rt]"
    by (simp add: sample_drain_def)
  ultimately show ?thesis
    using blank_note_blocks_the_queue [of "sample_drain [plain_row, ?rt] None" 0 "[plain_row, ?rt]" ?rt sample_drain_world]
    by (simp add: sample_drain_world_def) (metis prod.collapse)
qed

lemma plain_row_input: "row_input (sample_drain rows ack) plain_row = Some queue_input" "row_kind plain_row = ''task''"
proof -
  have "task_row (sample_drain rows ack) plain_row = Inr queue_input"
    by (simp add: sample_drain_def task_row_def) code_simp
  then show "row_input (sample_drain rows ack) plain_row = Some queue_input" by (simp add: row_input_def)
  show "row_kind plain_row = ''task''" by code_simp
qed

lemma lost_ack_is_harmless_witness:
  defines "env \<equiv> sample_drain [plain_row] (Some (new_error ''timeout''))"
  shows "\<exists>w1 w2. fst (drain env 0 sample_drain_world) = w1 \<and> dw_calls w1 = [Ack [''qi-0a1b2c3d'']]
    \<and> fst (drain env 0 w1) = w2 \<and> dw_vault w2 = dw_vault w1"
proof -
  obtain v1 t1 where t1: "create_task sample_service queue_input sample_vault = (v1, Inr t1)"
    using queue_input_created by blast
  note ri = plain_row_input(1) [of "[plain_row]" "Some (new_error ''timeout'')", folded env_def] plain_row_input(2)
  have e: "de_tasks env = sample_service" "de_ack env ids = Some (new_error ''timeout'')" "de_pull env n = Inr [plain_row]" for ids n
    by (simp_all add: env_def sample_drain_def)
  have d: "drain_rows env [plain_row] sample_drain_world = (sample_drain_world\<lparr>dw_vault := v1\<rparr>, [rt_id plain_row], [], None)"
    using t1 by (simp add: drain_task_row [OF ri(2)] ri(1) e sample_drain_world_def)
  obtain w1 su1 err1 where w1: "drain env 0 sample_drain_world = (w1, su1, err1)" by (metis prod.collapse)
  then have c: "dw_calls w1 = [Ack [''qi-0a1b2c3d'']]"
    using d by (simp add: drain_def e Let_def call_queue_def) (auto simp: sample_drain_world_def plain_row_def)
  obtain w2 su2 err2 where w2: "drain env 0 w1 = (w2, su2, err2)" by (metis prod.collapse)
  have dr: "drainable sample_service queue_input"
    using queue_input_clean queue_input_place queue_input_line by (auto simp: drainable_def)
  then have "task_rows env [plain_row]" using ri by (simp add: task_rows_def e)
  moreover have "tidy sample_service sample_vault" using sample_vault_tasks sample_vault_complete by (auto simp: tidy_def)
  moreover have "rt_id plain_row \<notin> ids_listed sample_service sample_vault"
    using sample_vault_tasks by (simp add: ids_listed_def plain_row_def as_read_def open_task_def plain_task_def)
  ultimately have "dw_vault w2 = dw_vault w1"
    using lost_ack_is_harmless [of env 0 "[plain_row]" sample_drain_world w1 su1 err1 w2 su2 err2] w1 w2 c queue_input_place(4)
    by (simp add: e sample_drain_world_def)
  with w1 w2 c show ?thesis by auto
qed

end
