(* ===== verification/GoPath.thy ===== *)
theory GoPath
  imports TextFacts
begin

text \<open>
  The parts of \<open>path/filepath\<close> (on Unix) the program uses, and their lemmas.
\<close>

section \<open>Paths\<close>

fun clean_parts :: "bool \<Rightarrow> bytes list \<Rightarrow> bytes list \<Rightarrow> bytes list" where
  "clean_parts absolute out [] = rev out"
| "clean_parts absolute out (c # cs) =
     (if c = [] \<or> c = ''.'' then clean_parts absolute out cs
      else if c = ''..'' then
        (if out \<noteq> [] \<and> hd out \<noteq> ''..'' then clean_parts absolute (tl out) cs
         else if absolute then clean_parts absolute out cs
         else clean_parts absolute (c # out) cs)
      else clean_parts absolute (c # out) cs)"

definition is_abs :: "bytes \<Rightarrow> bool" where
  "is_abs p \<longleftrightarrow> has_prefix p ''/''"

definition clean_path :: "bytes \<Rightarrow> bytes" where
  "clean_path p =
     (let s = join ''/'' (clean_parts (is_abs p) [] (split_on (CHR ''/'') p))
      in if is_abs p then CHR ''/'' # s else if s = [] then ''.'' else s)"

definition join_path :: "bytes \<Rightarrow> bytes \<Rightarrow> bytes" where
  "join_path a b =
     (if a = [] \<and> b = [] then [] else if a = [] then clean_path b else if b = [] then clean_path a
      else clean_path (a @ ''/'' @ b))"

text \<open>\<open>Dir\<close> and \<open>Base\<close> of a path that has no trailing slash.\<close>

definition path_dir :: "bytes \<Rightarrow> bytes" where
  "path_dir p = clean_path (rev (dropWhile (\<lambda>c. c \<noteq> CHR ''/'') (rev p)))"

definition path_base :: "bytes \<Rightarrow> bytes" where
  "path_base p = (let b = rev (takeWhile (\<lambda>c. c \<noteq> CHR ''/'') (rev p)) in if p = [] then ''.'' else if b = [] then ''/'' else b)"

text \<open>\<open>Ext\<close> of a base name: the last dot and what follows it.\<close>

definition path_ext :: "bytes \<Rightarrow> bytes" where
  "path_ext b =
     (if CHR ''.'' \<in> set b then CHR ''.'' # rev (takeWhile (\<lambda>c. c \<noteq> CHR ''.'') (rev b)) else [])"

section \<open>Clean paths\<close>

definition normal_name :: "bytes \<Rightarrow> bool" where
  "normal_name n \<longleftrightarrow> n \<noteq> [] \<and> n \<noteq> ''.'' \<and> n \<noteq> ''..'' \<and> CHR ''/'' \<notin> set n"

lemma clean_parts_snoc: "normal_name n \<Longrightarrow> clean_parts b out (cs @ [n]) = clean_parts b out cs @ [n]"
  by (induction b out cs rule: clean_parts.induct) (auto simp: normal_name_def)

lemma clean_parts_normal:
  "list_all normal_name ns \<Longrightarrow> clean_parts b out (ns @ rest) = clean_parts b (rev ns @ out) rest"
  by (induction ns arbitrary: out) (auto simp: normal_name_def)

text \<open>What every component of the result satisfies.\<close>

lemma clean_parts_all:
  assumes "\<And>c. P c \<Longrightarrow> c \<noteq> [] \<Longrightarrow> c \<noteq> ''.'' \<Longrightarrow> b \<longrightarrow> c \<noteq> ''..'' \<Longrightarrow> Q c"
  shows "list_all P cs \<Longrightarrow> list_all Q out \<Longrightarrow> list_all Q (clean_parts b out cs)"
proof (induction cs arbitrary: out)
  case (Cons c cs)
  have "list_all Q (tl out)" using Cons.prems(2) by (cases out) simp_all
  then have skip: "list_all Q (clean_parts b out cs)" "list_all Q (clean_parts b (tl out) cs)"
    using Cons.IH Cons.prems by simp_all
  have push: "list_all Q (clean_parts b (c # out) cs)" if "Q c" using Cons.IH [of "c # out"] Cons.prems that by simp
  show ?case
  proof (cases "c = [] \<or> c = ''.'' \<or> b \<and> c = ''..''")
    case True
    with skip show ?thesis by (simp only: clean_parts.simps split: if_splits) blast
  next
    case False
    then have "Q c" using assms [of c] Cons.prems(1) by simp
    with skip push show ?thesis by (simp only: clean_parts.simps split: if_splits) blast
  qed
qed (simp add: list_all_rev)

lemma clean_parts_names:
  "list_all (\<lambda>c. CHR ''/'' \<notin> set c) cs \<Longrightarrow> list_all normal_name out \<Longrightarrow> list_all normal_name (clean_parts True out cs)"
  by (rule clean_parts_all) (simp_all add: normal_name_def)

lemma split_no_slash: "list_all (\<lambda>c. CHR ''/'' \<notin> set c) (split_on (CHR ''/'') p)"
  using split_on_no_sep by (fastforce simp: list_all_iff)

lemma clean_path_abs:
  assumes "is_abs p"
  obtains ns where "clean_path p = CHR ''/'' # join ''/'' ns" and "list_all normal_name ns"
  using assms clean_parts_names [OF split_no_slash, of "[]" p] by (simp add: clean_path_def Let_def)

lemma is_abs_clean: "is_abs (clean_path p) = is_abs p"
proof (cases "is_abs p")
  case True
  then show ?thesis by (simp add: clean_path_def Let_def is_abs_def has_prefix_def)
next
  case False
  let ?cs = "clean_parts False [] (split_on (CHR ''/'') p)"
  have "list_all (\<lambda>c. c \<noteq> [] \<and> CHR ''/'' \<notin> set c) ?cs"
    by (rule clean_parts_all [OF _ split_no_slash]) simp_all
  then have "\<not> has_prefix (join ''/'' ?cs) ''/''"
    by (cases ?cs) (auto simp: has_prefix_def join_first neq_Nil_conv)
  then show ?thesis using False by (simp add: clean_path_def Let_def is_abs_def) (simp add: has_prefix_def)
qed

lemma split_join_path:
  "list_all normal_name ns \<Longrightarrow> split_on (CHR ''/'') (join ''/'' ns) = (if ns = [] then [[]] else ns)"
  using split_on_join [of ns "CHR ''/''"] by (auto simp: list_all_iff normal_name_def)

lemma clean_names: "list_all normal_name ns \<Longrightarrow> clean_path (CHR ''/'' # join ''/'' ns) = CHR ''/'' # join ''/'' ns"
  using clean_parts_normal [of ns True "[]" "[]"]
  by (simp add: clean_path_def Let_def is_abs_def has_prefix_def split_join_path)

lemma path_dir_names:
  assumes "list_all normal_name (ns @ [n])"
  shows "path_dir (CHR ''/'' # join ''/'' (ns @ [n])) = CHR ''/'' # join ''/'' ns"
proof -
  have n: "CHR ''/'' \<notin> set n" and ns: "list_all normal_name ns" using assms by (auto simp: normal_name_def)
  let ?q = "CHR ''/'' # (if ns = [] then [] else join ''/'' ns @ ''/'')"
  have e: "CHR ''/'' # join ''/'' (ns @ [n]) = ?q @ n" by (simp add: join_last)
  have "dropWhile (\<lambda>c. c \<noteq> CHR ''/'') (rev n @ rev ?q) = rev ?q"
    using n by (auto simp: dropWhile_append)
  then have "path_dir (CHR ''/'' # join ''/'' (ns @ [n])) = clean_path ?q"
    unfolding path_dir_def e by simp
  also have "clean_path ?q = CHR ''/'' # join ''/'' ns"
  proof (cases "ns = []")
    case True
    then show ?thesis by (simp add: clean_path_def is_abs_def has_prefix_def)
  next
    case False
    then have "split_on (CHR ''/'') ?q = [] # (ns @ [[]])"
      using split_on_sep [of "CHR ''/''" "join ''/'' ns" "[]"] split_on_join [OF False, of "CHR ''/''"] ns
      by (simp add: list_all_iff normal_name_def)
    then show ?thesis using clean_parts_normal [OF ns, of True "[]" "[[]]"] False
      by (simp add: clean_path_def Let_def is_abs_def has_prefix_def)
  qed
  finally show ?thesis .
qed

end
