(* ===== verification/Inbox.thy ===== *)
theory Inbox
  imports GoPath TaskCreate Notes
begin

text \<open>
  Triage of the inbox (\<open>internal/service\<close>: \<open>inbox_service.go\<close>, \<open>inbox_email.go\<close>,
  \<open>inbox_classify.go\<close>): what is proposed for a capture, how one decision is applied to it, and
  how an external classifier refines the proposals.

  Captures, archived captures and notes are files of one map, tasks are in the vault of
  \<open>TaskService\<close>. Paths are cleaned as \<open>path/filepath\<close> does on Unix. The faults of the file
  system are parameters; among them an error of \<open>Stat\<close> that is not "no such file".
\<close>

section \<open>Proposals\<close>

definition InboxActionTask :: bytes where "InboxActionTask = ''task''"
definition InboxActionNote :: bytes where "InboxActionNote = ''note''"
definition InboxActionArchive :: bytes where "InboxActionArchive = ''archive''"
definition InboxActionDelete :: bytes where "InboxActionDelete = ''delete''"

definition inboxTaskLineMax :: nat where "inboxTaskLineMax = 80"

record inbox_item =
  ii_path :: bytes
  ii_summary :: bytes
  ii_body :: "bytes list"
  ii_action :: bytes
  ii_reason :: bytes
  ii_repeats :: "bytes list"

definition has_task_marker :: "bytes \<Rightarrow> bool" where
  "has_task_marker line =
     (let l = to_lower (trim_space line)
      in list_ex (has_prefix l) [''- [ ]'', ''- [x]'', ''[ ]'', ''[x]'', ''todo:'', ''todo '', ''task:''])"

text \<open>
  The email pattern: \<open>Email: \<close>, a subject, a dash of its own, a sender, an optional space and
  a tag in brackets at the end. Only the tag is used, so the pattern matches when some
  separator starts after the prefix and ends before the bracket.
\<close>

definition email_separator :: bytes where
  "email_separator = [CHR '' '', byte 0xE2, byte 0x80, byte 0x94, CHR '' '']"

definition tag_letter :: "char \<Rightarrow> bool" where
  "tag_letter c \<longleftrightarrow> is_upper c \<or> is_lower c \<or> c = CHR ''_''"

definition email_tag :: "bytes \<Rightarrow> bytes option" where
  "email_tag l =
     (let r = rev l in
      if has_prefix l ''Email: '' \<and> r \<noteq> [] \<and> hd r = CHR '']''
      then (let t = takeWhile tag_letter (tl r); rest = dropWhile tag_letter (tl r)
            in if t \<noteq> [] \<and> rest \<noteq> [] \<and> hd rest = CHR ''[''
                  \<and> contains (drop (length ''Email: '') (rev (tl rest))) email_separator
               then Some (rev t) else None)
      else None)"

definition email_capture_tag :: "bytes list \<Rightarrow> bytes option" where
  "email_capture_tag body = (case body of [l] \<Rightarrow> map_option to_lower (email_tag l) | _ \<Rightarrow> None)"

definition email_tag_actions :: "(bytes, bytes) gomap" where
  "email_tag_actions =
     [(''reply_needed'', InboxActionTask), (''flag_for_followup'', InboxActionTask),
      (''read_now'', InboxActionArchive), (''mark_read'', InboxActionArchive),
      (''unsubscribe'', InboxActionArchive), (''delete'', InboxActionArchive)]"

definition em_dash :: bytes where
  "em_dash = [byte 0xE2, byte 0x80, byte 0x94]"

definition propose_inbox_action :: "bytes list \<Rightarrow> bytes \<times> bytes" where
  "propose_inbox_action body =
     (let guess = (if length body = 1 \<and> length (hd body) \<le> inboxTaskLineMax
                   then (InboxActionTask, ''short single-line capture reads as a task'')
                   else (InboxActionNote, ''multi-line or long content reads as a note''))
      in if body = [] then (InboxActionArchive, ''empty capture '' @ em_dash @ '' nothing to action'')
         else if list_ex has_task_marker body then (InboxActionTask, ''contains a task marker'')
         else (case email_capture_tag body of
             None \<Rightarrow> guess
           | Some tag \<Rightarrow>
               (case map_of email_tag_actions tag of
                  Some a \<Rightarrow> (a, ''email tag ['' @ tag @ '']'')
                | None \<Rightarrow> guess)))"

definition summarize_body :: "bytes list \<Rightarrow> bytes" where
  "summarize_body body = (case body of [] \<Rightarrow> ''(empty)'' | l # _ \<Rightarrow> l)"

text \<open>The lines after the first, trimmed, without the empty ones; a line of 64 KiB ends the scan.\<close>

definition content_lines :: "bytes \<Rightarrow> bytes list" where
  "content_lines c =
     filter (\<lambda>l. l \<noteq> [])
       (map (trim_space \<circ> drop_cr) (drop 1 (takeWhile (\<lambda>l. length l < 65536) (scan_lines c))))"

definition capture_body :: "files \<Rightarrow> bytes \<Rightarrow> bytes list" where
  "capture_body d p = (case map_of d p of None \<Rightarrow> [] | Some c \<Rightarrow> content_lines c)"

definition inbox_item_at :: "files \<Rightarrow> bytes \<Rightarrow> inbox_item" where
  "inbox_item_at d p =
     (let body = capture_body d p; (action, reason) = propose_inbox_action body
      in \<lparr>ii_path = p, ii_summary = summarize_body body, ii_body = body, ii_action = action,
          ii_reason = reason, ii_repeats = []\<rparr>)"

definition list_inbox :: "bytes \<Rightarrow> bytes list \<Rightarrow> files \<Rightarrow> inbox_item list" where
  "list_inbox dir names d =
     (if dir = [] then []
      else stable_sort (\<lambda>a b. ii_path a < ii_path b)
        (map (inbox_item_at d \<circ> join_path dir) (filter (\<lambda>n. has_suffix n ''.md'') names)))"

section \<open>Repeats\<close>

definition repeat_key :: "bytes list \<Rightarrow> bytes" where
  "repeat_key body = to_lower (join '' '' (words (join [newline] body)))"

text \<open>The items so far, each standing for its key, and the next one.\<close>

definition collapse_one :: "inbox_item \<Rightarrow> inbox_item list \<Rightarrow> inbox_item list" where
  "collapse_one it out =
     (let k = repeat_key (ii_body it)
      in if k \<in> (repeat_key \<circ> ii_body) ` set out
         then map (\<lambda>x. if repeat_key (ii_body x) = k then x\<lparr>ii_repeats := ii_repeats x @ [ii_path it]\<rparr> else x) out
         else out @ [it\<lparr>ii_repeats := []\<rparr>])"

definition collapse_repeats :: "inbox_item list \<Rightarrow> inbox_item list" where
  "collapse_repeats its = fold collapse_one its []"

section \<open>Applying a decision\<close>

record inbox_world =
  iw_files :: files
  iw_vault :: vault

record inbox_env =
  ie_inbox :: bytes
  ie_archive :: bytes
  ie_notes :: bytes
  ie_tasks :: task_service
  ie_is_dir :: "bytes \<Rightarrow> bool"
  ie_stat :: "bytes \<Rightarrow> go_error option"
  ie_mkdir :: "go_error option"
  ie_rename :: "bytes \<Rightarrow> bytes \<Rightarrow> go_error option"
  ie_remove :: "bytes \<Rightarrow> go_error option"
  ie_note_mkdir :: "go_error option"
  ie_note_write :: "go_error option"

datatype stat_result = Stat_file | Stat_dir | Stat_none | Stat_fails go_error

definition stat_path :: "inbox_env \<Rightarrow> files \<Rightarrow> bytes \<Rightarrow> stat_result" where
  "stat_path env d p =
     (case ie_stat env p of
        Some e \<Rightarrow> Stat_fails e
      | None \<Rightarrow> if ie_is_dir env p then Stat_dir else if map_of d p = None then Stat_none else Stat_file)"

definition validate_inbox_path :: "inbox_env \<Rightarrow> files \<Rightarrow> bytes \<Rightarrow> go_error + bytes" where
  "validate_inbox_path env d path =
     (if trim_space path = [] then Inl (new_error ''inbox: path is required'')
      else if ie_inbox env = [] then Inl (new_error ''inbox: inbox directory not configured'')
      else
        (let c = clean_path path;
             clean = (if is_abs c then c else join_path (ie_inbox env) c)
         in if path_dir clean \<noteq> clean_path (ie_inbox env)
            then Inl (new_error (''inbox: '' @ go_quote path @ '' is not a capture inside the inbox''))
            else (case stat_path env d clean of
                Stat_fails e \<Rightarrow> Inl (wrap_error ''inbox: '' e)
              | Stat_none \<Rightarrow> Inl (wrap_error ''inbox: '' not_found)
              | Stat_dir \<Rightarrow> Inl (new_error (''inbox: '' @ go_quote path @ '' is a directory''))
              | Stat_file \<Rightarrow> Inr clean)))"

definition rename_file :: "inbox_env \<Rightarrow> bytes \<Rightarrow> bytes \<Rightarrow> files \<Rightarrow> files \<times> go_error option" where
  "rename_file env src dest d =
     (case ie_rename env src dest of
        Some e \<Rightarrow> (d, Some e)
      | None \<Rightarrow>
          (case map_of d src of
             None \<Rightarrow> (d, Some not_found)
           | Some c \<Rightarrow> (if dest = src then d else AList.update dest c (AList.delete src d), None)))"

text \<open>
  The search for a free name in the archive. Only "no such file" ends it: where \<open>Stat\<close> fails
  otherwise for every name, it does not end.
\<close>

definition archive_name :: "inbox_env \<Rightarrow> bytes \<Rightarrow> nat \<Rightarrow> bytes" where
  "archive_name env base i =
     join_path (ie_archive env)
       (if i = 0 then base
        else trim_suffix base (path_ext base) @ ''-'' @ nat_text i @ path_ext base)"

partial_function (option) free_name :: "inbox_env \<Rightarrow> files \<Rightarrow> bytes \<Rightarrow> nat \<Rightarrow> bytes option" where
  "free_name env d base i =
     (if stat_path env d (archive_name env base i) = Stat_none then Some (archive_name env base i)
      else free_name env d base (i + 1))"

text \<open>\<open>archiveCapture\<close>; \<open>None\<close> is a call that does not return.\<close>

definition archive_capture :: "inbox_env \<Rightarrow> bytes \<Rightarrow> files \<Rightarrow> (files \<times> (go_error + bytes)) option" where
  "archive_capture env src d =
     (if ie_archive env = [] then Some (d, Inl (new_error ''archive directory not configured''))
      else (case ie_mkdir env of
          Some e \<Rightarrow> Some (d, Inl e)
        | None \<Rightarrow>
            map_option
              (\<lambda>dest. case rename_file env src dest d of
                 (d', Some e) \<Rightarrow> (d', Inl e)
               | (d', None) \<Rightarrow> (d', Inr dest))
              (if archive_name env (path_base src) 0 = src then Some src
               else free_name env d (path_base src) 0)))"

definition first_non_empty :: "bytes list \<Rightarrow> bytes" where
  "first_non_empty vs = (case find (\<lambda>v. trim_space v \<noteq> []) vs of None \<Rightarrow> [] | Some v \<Rightarrow> v)"

record apply_input =
  ap_path :: bytes
  ap_action :: bytes
  ap_title :: bytes
  ap_project :: bytes

record apply_output =
  ao_action :: bytes
  ao_source :: bytes
  ao_created :: bytes
  ao_archived :: bytes

text \<open>What is to be created: nothing, a task or a note.\<close>

datatype creation = No_creation | Create_task bytes bytes | Create_note bytes bytes

definition creation_of :: "apply_input \<Rightarrow> bytes list \<Rightarrow> go_error + creation" where
  "creation_of inp body =
     (let text = first_non_empty [ap_title inp, summarize_body body] in
      if ap_action inp = InboxActionArchive then Inr No_creation
      else if ap_action inp = InboxActionTask then
        (if trim_space text = [] then Inl (new_error ''inbox: capture has no text for a task'')
         else Inr (Create_task text (ap_project inp)))
      else if ap_action inp = InboxActionNote then
        Inr (Create_note (if trim_space text = [] \<or> text = ''(empty)'' then ''Inbox note'' else text)
               (join [newline] body))
      else Inl (new_error (''inbox: unknown action '' @ go_quote (ap_action inp)
             @ '' (want task, note, archive, or delete)'')))"

definition run_creation :: "inbox_env \<Rightarrow> creation \<Rightarrow> inbox_world \<Rightarrow> inbox_world \<times> (go_error + bytes)" where
  "run_creation env cr w =
     (case cr of
        No_creation \<Rightarrow> (w, Inr [])
      | Create_task text project \<Rightarrow>
          (case create_task (ie_tasks env)
             \<lparr>ai_text = text, ai_project = project, ai_due = None, ai_scheduled = None, ai_recurrence = [],
              ai_parent = [], ai_id = []\<rparr> (iw_vault w) of
             (v, Inl e) \<Rightarrow> (w\<lparr>iw_vault := v\<rparr>, Inl (wrap_error ''inbox: add task: '' e))
           | (v, Inr t) \<Rightarrow> (w\<lparr>iw_vault := v\<rparr>, Inr (tk_file t)))
      | Create_note title body \<Rightarrow>
          (case add_note (ie_note_mkdir env) (ie_note_write env) (vt_now (iw_vault w)) (ie_notes env) title body (iw_files w) of
             (d, Inl e) \<Rightarrow> (w\<lparr>iw_files := d\<rparr>, Inl (wrap_error ''inbox: add note: '' e))
           | (d, Inr n) \<Rightarrow> (w\<lparr>iw_files := d\<rparr>, Inr (nt_path n))))"

definition inbox_apply :: "inbox_env \<Rightarrow> apply_input \<Rightarrow> inbox_world \<Rightarrow> (inbox_world \<times> (go_error + apply_output)) option" where
  "inbox_apply env inp w =
     (case validate_inbox_path env (iw_files w) (ap_path inp) of
        Inl e \<Rightarrow> Some (w, Inl e)
      | Inr src \<Rightarrow>
          (let body = capture_body (iw_files w) src;
               out = \<lparr>ao_action = ap_action inp, ao_source = src, ao_created = [], ao_archived = []\<rparr>
           in if ap_action inp = InboxActionDelete then
                (case ie_remove env src of
                   Some e \<Rightarrow> Some (w, Inl (wrap_error ''inbox delete: '' e))
                 | None \<Rightarrow> Some (w\<lparr>iw_files := AList.delete src (iw_files w)\<rparr>, Inr out))
              else (case creation_of inp body of
                  Inl e \<Rightarrow> Some (w, Inl e)
                | Inr cr \<Rightarrow>
                    map_option
                      (\<lambda>(d, r). case r of
                         Inl e \<Rightarrow> (w\<lparr>iw_files := d\<rparr>, Inl (wrap_error ''inbox: archive: '' e))
                       | Inr dest \<Rightarrow>
                           (case run_creation env cr (w\<lparr>iw_files := d\<rparr>) of
                              (w', Inr created) \<Rightarrow> (w', Inr (out\<lparr>ao_created := created, ao_archived := dest\<rparr>))
                            | (w', Inl e) \<Rightarrow>
                                (case rename_file env dest src (iw_files w') of
                                   (d', None) \<Rightarrow> (w'\<lparr>iw_files := d'\<rparr>, Inl e)
                                 | (d', Some re) \<Rightarrow> (w'\<lparr>iw_files := d'\<rparr>, Inl (e\<lparr>err_text := err_text e @
                                      '' (and restoring the capture from '' @ dest @ '' failed: '' @ err_text re @ '')''\<rparr>)))))
                      (archive_capture env src (iw_files w)))))"

text \<open>\<open>ApplyGroup\<close>: the repeats first, then the capture that stands for them.\<close>

fun dispose_repeats ::
  "inbox_env \<Rightarrow> bytes \<Rightarrow> bytes list \<Rightarrow> inbox_world \<Rightarrow> (inbox_world \<times> apply_output list \<times> go_error option) option" where
  "dispose_repeats env rest [] w = Some (w, [], None)"
| "dispose_repeats env rest (p # ps) w =
     (case inbox_apply env \<lparr>ap_path = p, ap_action = rest, ap_title = [], ap_project = []\<rparr> w of
        None \<Rightarrow> None
      | Some (w', Inl e) \<Rightarrow>
          if errors_is e S_NotExist then dispose_repeats env rest ps w'
          else Some (w', [], Some (wrap_error (''repeat '' @ path_base p @ '': '') e))
      | Some (w', Inr out) \<Rightarrow>
          map_option (\<lambda>(w'', outs, err). (w'', out # outs, err)) (dispose_repeats env rest ps w'))"

definition apply_group ::
  "inbox_env \<Rightarrow> inbox_item \<Rightarrow> bytes \<Rightarrow> inbox_world \<Rightarrow> (inbox_world \<times> apply_output list \<times> go_error option) option" where
  "apply_group env it action w =
     (case dispose_repeats env (if action = InboxActionDelete then InboxActionDelete else InboxActionArchive) (ii_repeats it) w of
        None \<Rightarrow> None
      | Some (w', outs, Some e) \<Rightarrow> Some (w', outs, Some e)
      | Some (w', outs, None) \<Rightarrow>
          (case inbox_apply env \<lparr>ap_path = ii_path it, ap_action = action, ap_title = [], ap_project = []\<rparr> w' of
             None \<Rightarrow> None
           | Some (w'', Inl e) \<Rightarrow> Some (w'', outs, Some e)
           | Some (w'', Inr out) \<Rightarrow> Some (w'', out # outs, None)))"

section \<open>Refining with a classifier\<close>

text \<open>
  A verdict has what the code uses of it: whether its confidence reaches the minimum, and its
  confidence as \<open>%.2f\<close> prints it. Batches run at once but touch different captures; the error
  that is reported is the first in the order of the batches.
\<close>

record verdict =
  vd_err :: "go_error option"
  vd_action :: bytes
  vd_sure :: bool
  vd_conf :: bytes

record refine_stats =
  rs_refined :: nat
  rs_unsure :: nat
  rs_failed :: nat

record refine_plan =
  rf_eligible :: nat
  rf_selected :: nat
  rf_skipped :: nat
  rf_batches :: nat

definition InboxClassifyBatchSize :: nat where "InboxClassifyBatchSize = 25"

definition limitNote :: bytes where "limitNote = ''; not classified (classify_limit)''"

definition heuristic_is_authoritative :: "bytes list \<Rightarrow> bool" where
  "heuristic_is_authoritative body \<longleftrightarrow> body = [] \<or> list_ex has_task_marker body"

definition eligible :: "inbox_item list \<Rightarrow> nat list" where
  "eligible its = filter (\<lambda>i. \<not> heuristic_is_authoritative (ii_body (its ! i))) [0..<length its]"

definition select_for_refine :: "inbox_item list \<Rightarrow> int \<Rightarrow> nat list \<times> nat list" where
  "select_for_refine its limit =
     (if 0 < limit then (take (nat limit) (eligible its), drop (nat limit) (eligible its)) else (eligible its, []))"

definition plan_refine :: "inbox_item list \<Rightarrow> int \<Rightarrow> refine_plan" where
  "plan_refine its limit =
     (case select_for_refine its limit of
        (sel, skip) \<Rightarrow> \<lparr>rf_eligible = length sel + length skip, rf_selected = length sel, rf_skipped = length skip,
          rf_batches = (length sel + InboxClassifyBatchSize - 1) div InboxClassifyBatchSize\<rparr>)"

function batches :: "nat list \<Rightarrow> nat list list" where
  "batches sel =
     (if sel = [] then [] else take InboxClassifyBatchSize sel # batches (drop InboxClassifyBatchSize sel))"
  by pat_completeness auto
termination
  by (relation "measure length") (auto simp: InboxClassifyBatchSize_def)

declare batches.simps [simp del]

definition apply_inbox_classification :: "verdict \<Rightarrow> inbox_item \<Rightarrow> inbox_item \<times> bool" where
  "apply_inbox_classification v it =
     (if vd_action v \<in> {InboxActionTask, InboxActionNote, InboxActionArchive} \<and> vd_sure v
      then (it\<lparr>ii_action := vd_action v,
              ii_reason := ''typesafe: '' @ vd_action v @ '' (confidence '' @ vd_conf v @ '')''\<rparr>, True)
      else (it\<lparr>ii_reason := ii_reason it @ ''; typesafe unsure ('' @ vd_action v @ '' '' @ vd_conf v @ '')''\<rparr>, False))"

type_synonym refine_state = "inbox_item list \<times> refine_stats \<times> go_error option"

definition fail_captures :: "nat \<Rightarrow> go_error \<Rightarrow> refine_state \<Rightarrow> refine_state" where
  "fail_captures n e st =
     (case st of (its, stats, err) \<Rightarrow>
        (its, stats\<lparr>rs_failed := rs_failed stats + n\<rparr>, case err of None \<Rightarrow> Some e | Some f \<Rightarrow> Some f))"

definition apply_verdict :: "nat \<times> verdict \<Rightarrow> refine_state \<Rightarrow> refine_state" where
  "apply_verdict iv st =
     (case (iv, st) of ((i, v), (its, stats, err)) \<Rightarrow>
        (case vd_err v of
           Some e \<Rightarrow> fail_captures 1 e st
         | None \<Rightarrow>
             (case apply_inbox_classification v (its ! i) of
                (it, True) \<Rightarrow> (its[i := it], stats\<lparr>rs_refined := rs_refined stats + 1\<rparr>, err)
              | (it, False) \<Rightarrow> (its[i := it], stats\<lparr>rs_unsure := rs_unsure stats + 1\<rparr>, err))))"

definition run_batch ::
  "(bytes list list \<Rightarrow> go_error + verdict list) \<Rightarrow> inbox_item list \<Rightarrow> nat list \<Rightarrow> refine_state \<Rightarrow> refine_state" where
  "run_batch classify its0 batch st =
     (case classify (map (\<lambda>i. ii_body (its0 ! i)) batch) of
        Inl e \<Rightarrow> fail_captures (length batch) e st
      | Inr vs \<Rightarrow>
          if length vs \<noteq> length batch
          then fail_captures (length batch) (new_error (''classifier returned '' @ nat_text (length vs) @ '' verdict(s) for ''
                 @ nat_text (length batch) @ '' capture(s)'')) st
          else fold apply_verdict (zip batch vs) st)"

definition note_skipped :: "nat list \<Rightarrow> inbox_item list \<Rightarrow> inbox_item list" where
  "note_skipped skip its =
     map (\<lambda>i. if i \<in> set skip then (its ! i)\<lparr>ii_reason := ii_reason (its ! i) @ limitNote\<rparr> else its ! i) [0..<length its]"

definition refine ::
  "(bytes list list \<Rightarrow> go_error + verdict list) option \<Rightarrow> int \<Rightarrow> inbox_item list
   \<Rightarrow> inbox_item list \<times> refine_stats \<times> go_error option" where
  "refine classifier limit its =
     (let stats = \<lparr>rs_refined = 0, rs_unsure = 0, rs_failed = 0\<rparr> in
      case classifier of
        None \<Rightarrow> (its, stats, None)
      | Some classify \<Rightarrow>
          (case select_for_refine its limit of (sel, skip) \<Rightarrow>
             (case fold (run_batch classify its) (batches sel) (note_skipped skip its, stats, None) of
                (out, stats', err) \<Rightarrow>
                  (out, stats',
                   case err of None \<Rightarrow> None
                   | Some e \<Rightarrow> Some (wrap_error (''classifier failed for '' @ nat_text (rs_failed stats') @
                       '' capture(s), kept heuristic proposals: '') e)))))"

text \<open>
  A triaged capture lies directly in the inbox. Whatever path a caller names, absolute
  or relative, with dot-dot components or without, the path that is accepted is the cleaned
  inbox directory, one slash and one name that is no special directory, and a file is there.
\<close>

theorem inbox_path_is_confined:
  assumes "validate_inbox_path env d path = Inr src"
    and "is_abs (ie_inbox env)" and "clean_path (ie_inbox env) \<noteq> ''/''"
  shows "\<exists>n. normal_name n \<and> src = clean_path (ie_inbox env) @ ''/'' @ n \<and> map_of d src \<noteq> None"
proof -
  let ?c = "clean_path path"
  let ?q = "if is_abs ?c then ?c else join_path (ie_inbox env) ?c"
  have src: "src = ?q" "path_dir src = clean_path (ie_inbox env)" "map_of d src \<noteq> None"
    using assms(1) by (auto simp: validate_inbox_path_def stat_path_def Let_def split: if_splits option.splits stat_result.splits)
  have "\<exists>x. is_abs x \<and> src = clean_path x"
  proof (cases "is_abs ?c")
    case True
    then show ?thesis using src(1) is_abs_clean by auto
  next
    case False
    have "is_abs (ie_inbox env @ y)" for y using assms(2) by (cases "ie_inbox env") (auto simp: is_abs_def has_prefix_def)
    then have "is_abs (ie_inbox env @ ''/'' @ ?c)" by simp
    moreover have "clean_path path \<noteq> []" "ie_inbox env \<noteq> []"
      using assms(2) by (auto simp: clean_path_def Let_def is_abs_def has_prefix_def)
    ultimately show ?thesis using False src(1) unfolding join_path_def by auto
  qed
  then obtain ns where ns: "src = CHR ''/'' # join ''/'' ns" "list_all normal_name ns" by (auto elim: clean_path_abs)
  have "ns \<noteq> []"
  proof
    assume "ns = []"
    then have "path_dir src = ''/''" using ns(1) by (simp add: path_dir_def clean_path_def is_abs_def has_prefix_def)
    with src(2) assms(3) show False by simp
  qed
  then obtain ms n where ms: "ns = ms @ [n]" by (metis append_butlast_last_id)
  have p: "clean_path (ie_inbox env) = CHR ''/'' # join ''/'' ms" using path_dir_names [of ms n] ns src(2) by (simp add: ms)
  then have "ms \<noteq> []" using assms(3) by auto
  then have "src = clean_path (ie_inbox env) @ ''/'' @ n" using ns(1) p by (simp add: ms join_last)
  moreover have "normal_name n" using ns(2) by (simp add: ms)
  ultimately show ?thesis using src(3) by blast
qed

section \<open>Archiving\<close>

lemma free_name_result:
  "free_name env d base i = Some dest \<Longrightarrow>
   stat_path env d dest = Stat_none \<and> (\<exists>k. dest = archive_name env base k)"
  by (rule free_name.raw_induct [of "\<lambda>env d base i dest. stat_path env d dest = Stat_none \<and> (\<exists>k. dest = archive_name env base k)"])
    (auto split: if_splits)

lemma free_name_skip:
  "\<forall>j < n. stat_path env d (archive_name env base (i + j)) \<noteq> Stat_none \<Longrightarrow> free_name env d base i = free_name env d base (i + n)"
proof (induction n)
  case (Suc n)
  then have "free_name env d base i = free_name env d base (i + n)" by simp
  moreover have "stat_path env d (archive_name env base (i + n)) \<noteq> Stat_none" using Suc.prems by simp
  ultimately show ?case by (simp add: free_name.simps [of env d base "i + n"])
qed simp

lemma free_name_ends:
  assumes "stat_path env d (archive_name env base k) = Stat_none"
  shows "\<exists>dest. free_name env d base 0 = Some dest"
proof -
  define n where "n = (LEAST k. stat_path env d (archive_name env base k) = Stat_none)"
  have n: "stat_path env d (archive_name env base n) = Stat_none"
    unfolding n_def by (rule LeastI [of "\<lambda>k. stat_path env d (archive_name env base k) = Stat_none", OF assms])
  have "\<forall>j < n. stat_path env d (archive_name env base (0 + j)) \<noteq> Stat_none"
    unfolding n_def using not_less_Least by fastforce
  then have "free_name env d base 0 = free_name env d base (0 + n)" by (rule free_name_skip)
  also have "free_name env d base (0 + n) = Some (archive_name env base n)"
    using n by (subst free_name.simps) simp
  finally show ?thesis by blast
qed

lemma free_name_diverges:
  assumes "\<forall>k. stat_path env d (archive_name env base k) \<noteq> Stat_none"
  shows "free_name env d base 0 = None"
proof (cases "free_name env d base 0")
  case (Some dest)
  with free_name_result [OF Some] assms show ?thesis by blast
qed

text \<open>The names tried are different from each other.\<close>

lemma digits_val_snoc: "digits_val (s @ [c]) = 10 * digits_val s + digit_val c"
  by (simp add: digits_val_def)

lemma digits_val_nat_text: "digits_val (nat_text n) = n"
proof (induction n rule: nat_text.induct)
  case (1 n)
  have d: "digit_val (digit_char k) = k" if "k < 10" for k
    using digits_table that by (auto simp: list_all_iff)
  show ?case
  proof (cases "n < 10")
    case True
    then show ?thesis by (subst nat_text.simps) (simp add: d digits_val_def)
  next
    case False
    then show ?thesis using 1 by (subst nat_text.simps) (simp add: d digits_val_snoc)
  qed
qed

lemma nat_text_inject: "nat_text m = nat_text n \<Longrightarrow> m = n"
  by (metis digits_val_nat_text)

lemma nat_text_no_slash: "CHR ''/'' \<notin> set (nat_text n)"
proof (induction n rule: nat_text.induct)
  case (1 n)
  have "CHR ''/'' \<noteq> digit_char k" if "k < 10" for k
  proof -
    have "is_digit (digit_char k)" using digits_table that by (auto simp: list_all_iff)
    moreover have "\<not> is_digit (CHR ''/'')" by code_simp
    ultimately show ?thesis by metis
  qed
  with 1 show ?case by (subst nat_text.simps) auto
qed

lemma join_path_name:
  assumes "a \<noteq> []" and "normal_name n"
  shows "join_path a n = (let ps = clean_parts (is_abs a) [] (split_on (CHR ''/'') a) in
    (if is_abs a then ''/'' else []) @ (if ps = [] then n else join ''/'' ps @ ''/'' @ n))"
proof -
  have n: "CHR ''/'' \<notin> set n" "n \<noteq> []" using assms(2) by (simp_all add: normal_name_def)
  have ab: "is_abs (a @ ''/'' @ n) = is_abs a" using assms(1) by (cases a) (auto simp: is_abs_def has_prefix_def)
  have "split_on (CHR ''/'') (a @ CHR ''/'' # n) = split_on (CHR ''/'') a @ [n]"
    using n(1) by (simp add: split_on_sep split_on_single)
  then have "clean_parts (is_abs a) [] (split_on (CHR ''/'') (a @ ''/'' @ n)) = clean_parts (is_abs a) [] (split_on (CHR ''/'') a) @ [n]"
    using clean_parts_snoc [OF assms(2)] by simp
  then show ?thesis
    using assms(1) n(2) ab by (auto simp: join_path_def clean_path_def Let_def join_last)
qed

lemma archive_name_distinct:
  assumes "ie_archive env \<noteq> []" and "CHR ''/'' \<notin> set base" and "archive_name env base (Suc i) = archive_name env base (Suc j)"
  shows "i = j"
proof -
  have "set (trim_suffix base (path_ext base)) \<subseteq> set base"
    by (auto simp: trim_suffix_def dest: in_set_takeD)
  moreover have "set (path_ext base) \<subseteq> set base"
    by (auto simp: path_ext_def dest: set_takeWhileD split: if_splits)
  ultimately have nn: "normal_name (trim_suffix base (path_ext base) @ ''-'' @ nat_text k @ path_ext base)" for k
    using assms(2) nat_text_no_slash [of k] by (auto simp: normal_name_def append_eq_Cons_conv)
  from assms(3) have "trim_suffix base (path_ext base) @ ''-'' @ nat_text (Suc i) @ path_ext base =
      trim_suffix base (path_ext base) @ ''-'' @ nat_text (Suc j) @ path_ext base"
    unfolding archive_name_def using join_path_name [OF assms(1) nn] by (simp add: Let_def split: if_splits)
  then have "nat_text (Suc i) = nat_text (Suc j)" by simp
  then show ?thesis by (auto dest: nat_text_inject)
qed

text \<open>
  The search for a name in the archive ends exactly when some name is free, and then
  gives a name at which there is nothing. So archiving always returns when \<open>Stat\<close> knows every
  path and the directories are finitely many; but where every name tried gives another
  error (the name with its suffix is too long, or the archive cannot be searched), the loop
  has no exit.
\<close>

theorem archive_search_ends:
  assumes "ie_archive env \<noteq> []" and "CHR ''/'' \<notin> set base"
  shows "((\<exists>dest. free_name env d base 0 = Some dest) \<longleftrightarrow> (\<exists>k. stat_path env d (archive_name env base k) = Stat_none))
     \<and> (\<forall>dest. free_name env d base 0 = Some dest \<longrightarrow> stat_path env d dest = Stat_none)
     \<and> ((\<forall>p. ie_stat env p = None) \<and> finite {p. ie_is_dir env p} \<longrightarrow> (\<exists>dest. free_name env d base 0 = Some dest))"
proof (intro conjI impI allI)
  show 1: "(\<exists>dest. free_name env d base 0 = Some dest) \<longleftrightarrow> (\<exists>k. stat_path env d (archive_name env base k) = Stat_none)"
    using free_name_ends free_name_result by metis
  show "stat_path env d dest = Stat_none" if "free_name env d base 0 = Some dest" for dest
    using free_name_result [OF that] by blast
  assume q: "(\<forall>p. ie_stat env p = None) \<and> finite {p. ie_is_dir env p}"
  let ?taken = "{p. ie_is_dir env p} \<union> dom (map_of d)"
  have "inj (\<lambda>i. archive_name env base (Suc i))"
    by (rule injI) (rule archive_name_distinct [OF assms])
  then have "infinite (range (\<lambda>i. archive_name env base (Suc i)))" using finite_imageD by blast
  moreover have "finite ?taken" using q by (simp add: finite_dom_map_of)
  ultimately obtain i where "archive_name env base (Suc i) \<notin> ?taken" by (meson finite_subset image_subsetI)
  then have "stat_path env d (archive_name env base (Suc i)) = Stat_none"
    using q by (auto simp: stat_path_def dom_def)
  then show "\<exists>dest. free_name env d base 0 = Some dest" using 1 by blast
qed

definition sample_inbox :: inbox_env where
  "sample_inbox = \<lparr>ie_inbox = ''/v/inbox'', ie_archive = ''/v/archive'', ie_notes = ''/v/notes'', ie_tasks = sample_service,
     ie_is_dir = (\<lambda>p. p \<in> {''/v/inbox'', ''/v/archive'', ''/v/notes''}), ie_stat = (\<lambda>_. None), ie_mkdir = None,
     ie_rename = (\<lambda>_ _. None), ie_remove = (\<lambda>_. None), ie_note_mkdir = None, ie_note_write = None\<rparr>"

lemma inbox_path_is_confined_witness:
  "\<exists>n. normal_name n \<and> ''/v/inbox/a.md'' = clean_path ''/v/inbox'' @ ''/'' @ n"
proof -
  have "validate_inbox_path sample_inbox [(''/v/inbox/a.md'', ''x'')] ''sub/../a.md'' = Inr ''/v/inbox/a.md''" by code_simp
  moreover have "is_abs (ie_inbox sample_inbox)" "clean_path (ie_inbox sample_inbox) \<noteq> ''/''" by code_simp+
  ultimately show ?thesis using inbox_path_is_confined [of sample_inbox "[(''/v/inbox/a.md'', ''x'')]"]
    by (fastforce simp: sample_inbox_def)
qed

lemma archive_search_ends_witness:
  "\<exists>dest. free_name sample_inbox [(''/v/archive/a.md'', ''x'')] ''a.md'' 0 = Some dest"
proof -
  have "ie_archive sample_inbox \<noteq> []" "CHR ''/'' \<notin> set ''a.md''" by (simp_all add: sample_inbox_def)
  note a = archive_search_ends [OF this, of "[(''/v/archive/a.md'', ''x'')]"]
  have "(\<forall>p. ie_stat sample_inbox p = None) \<and> finite {p. ie_is_dir sample_inbox p}" by (simp add: sample_inbox_def)
  with a show ?thesis by blast
qed

section \<open>Decisions never lose a capture\<close>

lemma write_note_error: "write_note mkdir fault now dir title body d = (d', Inl e) \<Longrightarrow> d' = d"
  by (auto simp: write_note_def Let_def split: option.splits if_splits)

lemma add_note_error: "add_note mkdir fault now dir title body d = (d', Inl e) \<Longrightarrow> d' = d"
  by (auto simp: add_note_def write_note_def read_note_def map_of_update Let_def
      split: prod.splits sum.splits option.splits if_splits)

lemma add_note_other:
  "add_note mkdir fault now dir title body d = (d', Inr n) \<Longrightarrow> p \<noteq> nt_path n \<Longrightarrow> map_of d' p = map_of d p"
  by (auto simp: add_note_def write_note_def read_note_def map_of_update Let_def
      split: prod.splits sum.splits option.splits if_splits)

lemma run_creation_files:
  "run_creation env cr w = (w', Inr created) \<Longrightarrow> p \<noteq> created \<Longrightarrow> map_of (iw_files w') p = map_of (iw_files w) p"
  "run_creation env cr w = (w', Inl e) \<Longrightarrow> iw_files w' = iw_files w"
  by (cases cr; auto simp: run_creation_def dest: add_note_other add_note_error split: prod.splits sum.splits)+

lemma rename_file_ok:
  "rename_file env src dest d = (d', None) \<Longrightarrow> map_of d src = Some c \<Longrightarrow>
   map_of d' = (if dest = src then map_of d else (map_of d)(src := None, dest := Some c))"
  by (auto simp: rename_file_def map_of_update map_of_delete fun_eq_iff split: option.splits if_splits)

lemma rename_file_error: "rename_file env src dest d = (d', Some e) \<Longrightarrow> d' = d"
  by (auto simp: rename_file_def split: option.splits)

lemma archive_capture_cases:
  assumes "archive_capture env src d = Some (d', r)"
  shows "(\<exists>e. r = Inl e \<and> d' = d)
    \<or> (\<exists>dest. r = Inr dest \<and> rename_file env src dest d = (d', None)
          \<and> (dest = src \<or> free_name env d (path_base src) 0 = Some dest))"
proof (cases "ie_archive env = [] \<or> ie_mkdir env \<noteq> None")
  case True
  with assms show ?thesis by (auto simp: archive_capture_def split: if_splits)
next
  case False
  let ?name = "if archive_name env (path_base src) 0 = src then Some src else free_name env d (path_base src) 0"
  from False assms obtain dest where n: "?name = Some dest"
    by (cases ?name) (auto simp: archive_capture_def split: if_splits)
  then have f: "dest = src \<or> free_name env d (path_base src) 0 = Some dest" by (auto split: if_splits)
  obtain d1 e where "rename_file env src dest d = (d1, e)" by (cases "rename_file env src dest d") auto
  with assms False n f rename_file_error [of env src dest d d1] show ?thesis
    unfolding archive_capture_def by (cases e) auto
qed

lemma archive_capture_ok:
  assumes "archive_capture env src d = Some (d', Inr dest)" and "map_of d src = Some c"
  shows "map_of d' = (if dest = src then map_of d else (map_of d)(src := None, dest := Some c))
    \<and> (dest = src \<or> map_of d dest = None)"
proof -
  obtain r where r: "rename_file env src dest d = (d', None)"
    and f: "dest = src \<or> free_name env d (path_base src) 0 = Some dest"
    using archive_capture_cases [OF assms(1)] by auto
  have "map_of d dest = None" if "free_name env d (path_base src) 0 = Some dest"
    using free_name_result [OF that] by (auto simp: stat_path_def split: option.splits if_splits)
  with f have "dest = src \<or> map_of d dest = None" by metis
  with rename_file_ok [OF r assms(2)] show ?thesis by simp
qed

lemma archive_capture_error: "archive_capture env src d = Some (d', Inl e) \<Longrightarrow> d' = d"
  using archive_capture_cases by fastforce



section \<open>Refining and collapsing\<close>

definition same_capture :: "inbox_item \<Rightarrow> inbox_item \<Rightarrow> bool" where
  "same_capture a b \<longleftrightarrow> ii_path a = ii_path b \<and> ii_summary a = ii_summary b \<and> ii_body a = ii_body b \<and> ii_repeats a = ii_repeats b"

definition total_refined :: "refine_stats \<Rightarrow> nat" where
  "total_refined st = rs_refined st + rs_unsure st + rs_failed st"

text \<open>Captures outside a set of positions are as they were, the others are the same captures.\<close>

definition touches :: "nat set \<Rightarrow> inbox_item list \<Rightarrow> inbox_item list \<Rightarrow> bool" where
  "touches I its out \<longleftrightarrow> length out = length its
     \<and> (\<forall>i < length its. same_capture (out ! i) (its ! i) \<and> (i \<notin> I \<longrightarrow> out ! i = its ! i))"

lemma touches_refl: "touches I its its"
  by (simp add: touches_def same_capture_def)

lemma touches_trans: "touches I a b \<Longrightarrow> touches J b c \<Longrightarrow> touches (I \<union> J) a c"
  by (auto simp: touches_def same_capture_def)

lemma classified_same: "same_capture (fst (apply_inbox_classification v it)) it"
  by (simp add: apply_inbox_classification_def same_capture_def)

lemma apply_verdict_touches:
  assumes "apply_verdict (i, v) (its, st, err) = (out, st', err')" and "i < length its"
  shows "touches {i} its out \<and> total_refined st' = total_refined st + 1"
proof (cases "vd_err v")
  case None
  obtain it b where a: "apply_inbox_classification v (its ! i) = (it, b)" by (cases "apply_inbox_classification v (its ! i)") auto
  then have "same_capture it (its ! i)" using classified_same [of v "its ! i"] by simp
  with assms None a show ?thesis
    by (cases b) (auto simp: apply_verdict_def touches_def total_refined_def nth_list_update same_capture_def)
next
  case (Some e)
  with assms show ?thesis by (auto simp: apply_verdict_def fail_captures_def touches_refl total_refined_def)
qed

lemma fold_verdicts_touches:
  "fold apply_verdict (zip is vs) (its, st, err) = (out, st', err') \<Longrightarrow> length vs = length is \<Longrightarrow> \<forall>i \<in> set is. i < length its
   \<Longrightarrow> touches (set is) its out \<and> total_refined st' = total_refined st + length is"
proof (induction "is" vs arbitrary: its st err rule: list_induct2')
  case (4 i "is" v vs)
  obtain its1 st1 err1 where s: "apply_verdict (i, v) (its, st, err) = (its1, st1, err1)" by (metis prod.collapse)
  then have 1: "touches {i} its its1 \<and> total_refined st1 = total_refined st + 1"
    using apply_verdict_touches 4(4) by simp
  then have "length its1 = length its" by (simp add: touches_def)
  with 4 s have "touches (set is) its1 out \<and> total_refined st' = total_refined st1 + length is" by simp
  with 1 touches_trans [of "{i}" its its1 "set is" out] show ?case by simp
qed (simp_all add: touches_refl)

lemma run_batch_touches:
  assumes "run_batch classify its0 batch (its, st, err) = (out, st', err')" and "\<forall>i \<in> set batch. i < length its"
  shows "touches (set batch) its out \<and> total_refined st' = total_refined st + length batch"
proof -
  have f: "fail_captures (length batch) e (its, st, err) = (out, st', err') \<Longrightarrow> ?thesis" for e
    by (auto simp: fail_captures_def touches_refl total_refined_def)
  consider e where "fail_captures (length batch) e (its, st, err) = (out, st', err')"
    | vs where "fold apply_verdict (zip batch vs) (its, st, err) = (out, st', err')" "length vs = length batch"
    using assms(1) by (auto simp: run_batch_def split: sum.splits if_splits)
  then show ?thesis using f fold_verdicts_touches assms(2) by cases blast+
qed

lemma run_batches_touches:
  "fold (run_batch classify its0) bs (its, st, err) = (out, st', err') \<Longrightarrow> \<forall>i \<in> set (concat bs). i < length its
   \<Longrightarrow> touches (set (concat bs)) its out \<and> total_refined st' = total_refined st + length (concat bs)"
proof (induction bs arbitrary: its st err)
  case (Cons b bs)
  obtain its1 st1 err1 where s: "run_batch classify its0 b (its, st, err) = (its1, st1, err1)" by (metis prod.collapse)
  then have 1: "touches (set b) its its1 \<and> total_refined st1 = total_refined st + length b"
    using run_batch_touches Cons.prems(2) by simp
  then have "\<forall>i \<in> set (concat bs). i < length its1" using Cons.prems(2) by (simp add: touches_def)
  moreover have "fold (run_batch classify its0) bs (its1, st1, err1) = (out, st', err')" using Cons.prems(1) s by simp
  ultimately have "touches (set (concat bs)) its1 out \<and> total_refined st' = total_refined st1 + length (concat bs)"
    by (intro Cons.IH)
  with 1 touches_trans [of "set b" its its1 "set (concat bs)" out] show ?case by simp
qed (simp add: touches_refl)

lemma concat_batches: "concat (batches sel) = sel"
  by (induction sel rule: batches.induct) (subst batches.simps, simp)

lemma length_batches: "length (batches sel) = (length sel + InboxClassifyBatchSize - 1) div InboxClassifyBatchSize"
proof (induction sel rule: batches.induct)
  case (1 sel)
  show ?case
  proof (cases "sel = []")
    case True
    then show ?thesis by (simp add: batches.simps [of "[]"] InboxClassifyBatchSize_def)
  next
    case False
    then have "0 < length sel" by simp
    then obtain m where m: "length sel = Suc m" by (cases "length sel") auto
    have "Suc ((24 + (length sel - 25)) div 25) = (24 + length sel) div 25"
    proof (cases "m < 25")
      case True
      have "(25 + m) div 25 = Suc (m div 25)" by simp
      with True m show ?thesis by simp
    next
      case False
      then obtain k where "m = 25 + k" using le_Suc_ex not_less by blast
      then show ?thesis using m by simp
    qed
    with 1 False show ?thesis by (subst batches.simps) (simp add: InboxClassifyBatchSize_def)
  qed
qed

lemma eligible_facts: "i \<in> set (eligible its) \<Longrightarrow> i < length its \<and> \<not> heuristic_is_authoritative (ii_body (its ! i))"
  by (simp add: eligible_def)

lemma selected_eligible:
  "select_for_refine its limit = (sel, skip) \<Longrightarrow> set sel \<union> set skip \<subseteq> set (eligible its)"
  by (auto simp: select_for_refine_def dest: in_set_takeD in_set_dropD split: if_splits)

lemma note_skipped_touches: "touches (set skip) its (note_skipped skip its)"
  by (simp add: note_skipped_def touches_def same_capture_def)

text \<open>
  The classifier only re-decides guesses, and is accounted for. Whatever it answers,
  refining keeps the captures, their order, paths, bodies and repeats; a capture whose proposal
  is a rule (it is empty or has a task marker) is not changed at all; and the verdicts
  applied, those kept as unsure and those that failed add up to the number of captures that
  \<open>PlanRefine\<close> announced, which are sent in the announced number of batches.
\<close>

theorem refine_only_redecides_guesses:
  assumes "refine (Some classify) limit its = (out, st, err)"
  shows "length out = length its
     \<and> (\<forall>i < length its. same_capture (out ! i) (its ! i)
          \<and> (heuristic_is_authoritative (ii_body (its ! i)) \<longrightarrow> out ! i = its ! i))
     \<and> rs_refined st + rs_unsure st + rs_failed st = rf_selected (plan_refine its limit)
     \<and> length (batches (fst (select_for_refine its limit))) = rf_batches (plan_refine its limit)"
proof -
  obtain sel skip where s: "select_for_refine its limit = (sel, skip)" by (cases "select_for_refine its limit") auto
  obtain err0 where f: "fold (run_batch classify its) (batches sel)
      (note_skipped skip its, \<lparr>rs_refined = 0, rs_unsure = 0, rs_failed = 0\<rparr>, None) = (out, st, err0)"
    using assms s by (auto simp: refine_def Let_def split: prod.splits)
  have e: "set sel \<union> set skip \<subseteq> set (eligible its)" by (rule selected_eligible [OF s])
  note t = note_skipped_touches [of skip its]
  have "\<forall>i \<in> set sel. i < length (note_skipped skip its)" using e eligible_facts by (auto simp: note_skipped_def)
  with run_batches_touches [OF f] have 1: "touches (set sel) (note_skipped skip its) out"
    and 2: "total_refined st = length sel" by (simp_all add: concat_batches total_refined_def)
  have "touches (set skip \<union> set sel) its out" by (rule touches_trans [OF t 1])
  moreover have "i \<notin> set skip \<union> set sel" if "heuristic_is_authoritative (ii_body (its ! i))" for i
    using e eligible_facts that by blast
  ultimately show ?thesis using 2 s
    by (simp add: touches_def total_refined_def plan_refine_def length_batches)
qed

definition sample_item :: "bytes \<Rightarrow> bytes list \<Rightarrow> inbox_item" where
  "sample_item p body = \<lparr>ii_path = p, ii_summary = summarize_body body, ii_body = body,
     ii_action = fst (propose_inbox_action body), ii_reason = snd (propose_inbox_action body), ii_repeats = []\<rparr>"

definition sample_verdict :: verdict where
  "sample_verdict = \<lparr>vd_err = None, vd_action = InboxActionNote, vd_sure = True, vd_conf = ''0.90''\<rparr>"

lemma refine_only_redecides_guesses_witness:
  "\<exists>out st. refine (Some (\<lambda>bs. Inr (map (\<lambda>_. sample_verdict) bs))) 1
        [sample_item ''a'' [''call Bob''], sample_item ''b'' [''- [ ] x''], sample_item ''c'' [''ring'']] = (out, st, None)
     \<and> ii_action (out ! 0) = InboxActionNote
     \<and> out ! 1 = sample_item ''b'' [''- [ ] x'']
     \<and> rs_refined st = 1 \<and> rs_refined st + rs_unsure st + rs_failed st = 1"
proof -
  let ?its = "[sample_item ''a'' [''call Bob''], sample_item ''b'' [''- [ ] x''], sample_item ''c'' [''ring'']]"
  obtain out st err where r: "refine (Some (\<lambda>bs. Inr (map (\<lambda>_. sample_verdict) bs))) 1 ?its = (out, st, err)"
    by (metis prod.collapse)
  have "err = None \<and> ii_action (out ! 0) = InboxActionNote \<and> rs_refined st = 1"
  proof -
    have "(case refine (Some (\<lambda>bs. Inr (map (\<lambda>_. sample_verdict) bs))) 1 ?its of (out, st, err) \<Rightarrow>
        err = None \<and> ii_action (out ! 0) = InboxActionNote \<and> rs_refined st = 1)" by code_simp
    with r show ?thesis by simp
  qed
  moreover have "rf_selected (plan_refine ?its 1) = 1"
    "heuristic_is_authoritative (ii_body (?its ! 1))" by code_simp+
  ultimately show ?thesis using refine_only_redecides_guesses [OF r] r by auto
qed

text \<open>The captures an item stands for.\<close>

definition captures_of :: "inbox_item \<Rightarrow> bytes list" where
  "captures_of it = ii_path it # ii_repeats it"

abbreviation item_key :: "inbox_item \<Rightarrow> bytes" where
  "item_key it \<equiv> repeat_key (ii_body it)"

definition add_repeat :: "bytes \<Rightarrow> bytes \<Rightarrow> inbox_item \<Rightarrow> inbox_item" where
  "add_repeat k p x = (if item_key x = k then x\<lparr>ii_repeats := ii_repeats x @ [p]\<rparr> else x)"

lemma collapse_one_alt:
  "collapse_one it out = (if item_key it \<in> item_key ` set out then map (add_repeat (item_key it) (ii_path it)) out
     else out @ [it\<lparr>ii_repeats := []\<rparr>])"
  by (simp add: collapse_one_def add_repeat_def comp_def Let_def)

lemma add_repeat_same [simp]: "ii_body (add_repeat k p x) = ii_body x" "ii_path (add_repeat k p x) = ii_path x"
  by (simp_all add: add_repeat_def)

lemma add_repeat_none: "k \<notin> item_key ` set out \<Longrightarrow> map (add_repeat k p) out = out"
  by (rule map_idI) (auto simp: add_repeat_def)

lemma add_repeat_captures:
  "distinct (map item_key out) \<Longrightarrow> k \<in> item_key ` set out \<Longrightarrow>
   mset (concat (map captures_of (map (add_repeat k p) out))) = add_mset p (mset (concat (map captures_of out)))"
proof (induction out)
  case (Cons x out)
  show ?case
  proof (cases "item_key x = k")
    case True
    have "map (add_repeat k p) out = out" using True Cons.prems(1) by (intro add_repeat_none) auto
    moreover have "captures_of (add_repeat k p x) = captures_of x @ [p]"
      using True by (simp add: add_repeat_def captures_of_def)
    ultimately show ?thesis by (simp del: map_map)
  next
    case False
    then have "add_repeat k p x = x" by (simp add: add_repeat_def)
    with False Cons show ?thesis by auto
  qed
qed simp

lemma collapse_snoc: "collapse_repeats (its @ [it]) = collapse_one it (collapse_repeats its)"
  by (simp add: collapse_repeats_def)

text \<open>
  Collapsing repeats partitions the captures. Every capture is stood for by exactly
  one item, no two items have the same normalised body, and every capture an item stands for
  has the normalised body of that item.
\<close>

theorem collapse_partitions_captures:
  "mset (concat (map captures_of (collapse_repeats its))) = mset (map ii_path its)
   \<and> distinct (map item_key (collapse_repeats its))
   \<and> (\<forall>it \<in> set (collapse_repeats its). \<forall>p \<in> set (captures_of it). \<exists>x \<in> set its. ii_path x = p \<and> item_key x = item_key it)"
proof (induction its rule: rev_induct)
  case Nil
  show ?case by (simp add: collapse_repeats_def)
next
  case (snoc it its)
  let ?out = "collapse_repeats its" and ?k = "item_key it"
  show ?case
  proof (cases "?k \<in> item_key ` set ?out")
    case True
    then have c: "collapse_repeats (its @ [it]) = map (add_repeat ?k (ii_path it)) ?out"
      by (simp add: collapse_snoc collapse_one_alt)
    have "map item_key (map (add_repeat ?k (ii_path it)) ?out) = map item_key ?out" by simp
    moreover have "\<exists>x \<in> set (its @ [it]). ii_path x = p \<and> item_key x = item_key y"
      if y: "y \<in> set (map (add_repeat ?k (ii_path it)) ?out)" and p: "p \<in> set (captures_of y)" for y p
    proof -
      obtain z where z: "z \<in> set ?out" "y = add_repeat ?k (ii_path it) z" using y by auto
      then have "p \<in> set (captures_of z) \<or> p = ii_path it \<and> item_key z = ?k"
        using p by (auto simp: captures_of_def add_repeat_def split: if_splits)
      with snoc z show ?thesis by auto
    qed
    moreover have "mset (concat (map captures_of (map (add_repeat ?k (ii_path it)) ?out)))
        = mset (map ii_path (its @ [it]))"
      using add_repeat_captures [OF _ True, of "ii_path it"] snoc by simp
    ultimately show ?thesis unfolding c using snoc by (simp del: map_map)
  next
    case False
    then have "collapse_repeats (its @ [it]) = ?out @ [it\<lparr>ii_repeats := []\<rparr>]"
      by (simp add: collapse_snoc collapse_one_alt)
    with snoc False show ?thesis by (auto simp: captures_of_def)
  qed
qed

lemma collapse_partitions_captures_witness:
  "mset (concat (map captures_of (collapse_repeats
       [sample_item ''a'' [''Call  Bob''], sample_item ''b'' [''x''], sample_item ''c'' [''call bob'']])))
     = mset [''a'', ''b'', ''c'']
   \<and> map ii_path (collapse_repeats
       [sample_item ''a'' [''Call  Bob''], sample_item ''b'' [''x''], sample_item ''c'' [''call bob'']]) = [''a'', ''b'']"
proof -
  let ?its = "[sample_item ''a'' [''Call  Bob''], sample_item ''b'' [''x''], sample_item ''c'' [''call bob'']]"
  have "map ii_path (collapse_repeats ?its) = [''a'', ''b'']" by code_simp
  moreover have "map ii_path ?its = [''a'', ''b'', ''c'']" by code_simp
  ultimately show ?thesis using collapse_partitions_captures [of ?its] by simp
qed

text \<open>
  The first line of a capture is dropped whatever it is, not only the time stamp that
  \<open>WriteCapture\<close> puts there: a capture of one line written by hand is empty and is proposed
  for the archive.
\<close>

lemma content_lines_short:
  "list_all (\<lambda>l. length l < 100) (scan_lines c)
   \<Longrightarrow> content_lines c = filter (\<lambda>l. l \<noteq> []) (map (trim_space \<circ> drop_cr) (drop 1 (scan_lines c)))"
  unfolding content_lines_def list_all_iff by (subst takeWhile_eq_all_conv [THEN iffD2]) auto

lemma one_line_capture_is_empty:
  "ii_action (inbox_item_at [(''a.md'', ''buy milk'' @ [newline])] ''a.md'') = InboxActionArchive"
proof -
  have "list_all (\<lambda>l. length l < 100) (scan_lines (''buy milk'' @ [newline]))" by code_simp
  note c = content_lines_short [OF this]
  have "content_lines (''buy milk'' @ [newline]) = []" unfolding c by code_simp
  then show ?thesis by (simp add: inbox_item_at_def capture_body_def propose_inbox_action_def)
qed

text \<open>The email captures of the mail filter, and one that has no tag of its own.\<close>

lemma email_samples:
  "email_capture_tag [''Email: Offer '' @ em_dash @ '' Ann [Reply_Needed]''] = Some ''reply_needed''
   \<and> email_capture_tag [''Email: Offer [draft]''] = None"
  by code_simp

end
