(* ===== verification/Failover.thy ===== *)
theory Failover
  imports GoText "HOL-Library.Word"
begin

text \<open>
  The language models behind the planner (\<open>internal/ai\<close>: \<open>types.go\<close>, \<open>errors.go\<close>,
  \<open>providers.go\<close>, \<open>provider_state.go\<close>, \<open>fallback.go\<close>): the neutral request and
  response, the names of the providers, and the failover chain with the state it persists.

  A model is a function on the world; \<open>None\<close> as the model of an entry is Go's nil, and the
  result \<open>None\<close> of a call is the panic of calling it. SHA-256 is not modelled: a
  configuration identity is the text it is.
\<close>

section \<open>Types\<close>

datatype role = RoleUser | RoleAssistant | RoleOther bytes

record tool_call =
  tc_id :: bytes
  tc_name :: bytes
  tc_input :: bytes

record tool_result =
  tr_call_id :: bytes
  tr_content :: bytes
  tr_is_error :: bool

record message =
  ms_role :: role
  ms_text :: bytes
  ms_calls :: "tool_call list"
  ms_results :: "tool_result list"

record tool_def =
  td_name :: bytes
  td_description :: bytes
  td_schema :: bytes

record generate_request =
  gr_model :: bytes
  gr_system :: bytes
  gr_messages :: "message list"
  gr_tools :: "tool_def list"
  gr_max_tokens :: int
  gr_cache_system :: bool

record usage =
  us_input :: "64 word"
  us_output :: "64 word"
  us_cache_creation :: "64 word"
  us_cache_read :: "64 word"

record generate_response =
  rp_text :: bytes
  rp_calls :: "tool_call list"
  rp_stop :: bytes
  rp_usage :: usage

section \<open>Errors\<close>

text \<open>
  What the failover asks of an error: the status of a \<open>ProviderError\<close> in its chain, whether
  a \<open>url.Error\<close> is in it, and whether it comes from the cancelled context.
\<close>

record llm_error =
  le_error :: go_error
  le_status :: "int option"
  le_url :: bool
  le_cancelled :: bool

definition provider_error :: "bytes \<Rightarrow> int \<Rightarrow> bytes \<Rightarrow> llm_error" where
  "provider_error provider status body =
     \<lparr>le_error = new_error (provider @ '': HTTP '' @ itoa status @ '': '' @ body), le_status = Some status,
      le_url = False, le_cancelled = False\<rparr>"

definition plain_error :: "bytes \<Rightarrow> llm_error" where
  "plain_error t = \<lparr>le_error = new_error t, le_status = None, le_url = False, le_cancelled = False\<rparr>"

definition wrap_llm :: "bytes \<Rightarrow> llm_error \<Rightarrow> llm_error" where
  "wrap_llm pre e = e\<lparr>le_error := wrap_error pre (le_error e)\<rparr>"

definition join_llm :: "llm_error list \<Rightarrow> llm_error" where
  "join_llm es =
     \<lparr>le_error = \<lparr>err_chain = concat (map (err_chain \<circ> le_error) es), err_text = join [newline] (map (err_text \<circ> le_error) es)\<rparr>,
      le_status = (case List.find (\<lambda>e. le_status e \<noteq> None) es of None \<Rightarrow> None | Some e \<Rightarrow> le_status e),
      le_url = list_ex le_url es, le_cancelled = list_ex le_cancelled es\<rparr>"

definition should_failover :: "llm_error option \<Rightarrow> bool" where
  "should_failover err =
     (case err of
        None \<Rightarrow> False
      | Some e \<Rightarrow> if le_cancelled e then False else if le_status e \<noteq> None then True else le_url e)"

definition is_exhausted :: "llm_error \<Rightarrow> bool" where
  "is_exhausted e = (case le_status e of None \<Rightarrow> False | Some c \<Rightarrow> c = 429 \<or> c = 402)"

section \<open>Provider names\<close>

definition ProviderAnthropic :: bytes where "ProviderAnthropic = ''anthropic''"
definition ProviderOllama :: bytes where "ProviderOllama = ''ollama''"
definition ProviderOpenAI :: bytes where "ProviderOpenAI = ''openai''"
definition ProviderKimi :: bytes where "ProviderKimi = ''kimi''"
definition ProviderOpenCode :: bytes where "ProviderOpenCode = ''opencode''"
definition ProviderZAI :: bytes where "ProviderZAI = ''zai''"

lemmas provider_names = ProviderAnthropic_def ProviderOllama_def ProviderOpenAI_def ProviderKimi_def
  ProviderOpenCode_def ProviderZAI_def

record preset =
  pt_base_url :: bytes
  pt_key_env :: bytes

definition openai_compat_presets :: "(bytes, preset) gomap" where
  "openai_compat_presets =
     [(ProviderOpenAI, \<lparr>pt_base_url = ''https://api.openai.com/v1'', pt_key_env = ''OPENAI_API_KEY''\<rparr>),
      (ProviderKimi, \<lparr>pt_base_url = ''https://api.moonshot.ai/v1'', pt_key_env = ''MOONSHOT_API_KEY''\<rparr>),
      (ProviderOpenCode, \<lparr>pt_base_url = ''https://opencode.ai/zen/v1'', pt_key_env = ''OPENCODE_API_KEY''\<rparr>),
      (ProviderZAI, \<lparr>pt_base_url = ''https://api.z.ai/api/paas/v4'', pt_key_env = ''ZAI_API_KEY''\<rparr>)]"

definition preset_for :: "bytes \<Rightarrow> preset option" where
  "preset_for p = map_of openai_compat_presets p"

definition known_providers :: "bytes list" where
  "known_providers = [ProviderAnthropic, ProviderOllama, ProviderOpenAI, ProviderKimi, ProviderOpenCode, ProviderZAI]"

definition provider_list :: bytes where
  "provider_list = join ''|'' known_providers"

definition parse_provider :: "bytes \<Rightarrow> go_error + bytes" where
  "parse_provider s =
     (let name = to_lower (trim_space s) in
      if name = [] then Inr []
      else if name = ''z.ai'' then Inr ProviderZAI
      else if name = ''moonshot'' then Inr ProviderKimi
      else if name \<in> set known_providers then Inr name
      else Inl (new_error (''unknown ai provider '' @ go_quote s @ '' (want '' @ provider_list @ '')'')))"

section \<open>Provider state\<close>

definition ProviderStateVersion :: int where "ProviderStateVersion = 1"

record state_entry =
  pe_provider :: bytes
  pe_model :: bytes
  pe_config_id :: bytes

record provider_state =
  ps_version :: int
  ps_entries :: "state_entry list"
  ps_active :: int

definition hex_char :: "char \<Rightarrow> bool" where
  "hex_char c \<longleftrightarrow> is_digit c \<or> between (CHR ''a'') (CHR ''f'') c \<or> between (CHR ''A'') (CHR ''F'') c"

definition is_canonical_config_id :: "bytes \<Rightarrow> bool" where
  "is_canonical_config_id v \<longleftrightarrow> length v = 64 \<and> v = to_lower v \<and> list_all hex_char v"

definition state_identity :: "state_entry \<Rightarrow> bytes" where
  "state_identity e = pe_provider e @ [CHR 0x00] @ pe_model e @ [CHR 0x00] @ pe_config_id e"

definition invalid_state :: "bytes \<Rightarrow> go_error" where
  "invalid_state t = sentinel_error S_InvalidProviderState (''invalid ai provider state: '' @ t)"

definition entry_error :: "state_entry \<Rightarrow> go_error option" where
  "entry_error e =
     (if parse_provider (pe_provider e) \<noteq> Inr (pe_provider e) \<or> pe_provider e = []
      then Some (invalid_state (''provider '' @ go_quote (pe_provider e) @ '' is not normalized''))
      else if \<not> is_canonical_config_id (pe_config_id e)
      then Some (invalid_state (''config id for provider '' @ go_quote (pe_provider e) @ '' is not a lowercase SHA-256 digest''))
      else None)"

fun entries_error :: "bytes list \<Rightarrow> state_entry list \<Rightarrow> go_error option" where
  "entries_error seen [] = None"
| "entries_error seen (e # es) =
     (case entry_error e of
        Some err \<Rightarrow> Some err
      | None \<Rightarrow>
          if state_identity e \<in> set seen
          then Some (invalid_state (''duplicate provider identity '' @ go_quote (pe_provider e)))
          else entries_error (state_identity e # seen) es)"

definition validate_state :: "provider_state \<Rightarrow> go_error option" where
  "validate_state s =
     (if ps_version s \<noteq> ProviderStateVersion then Some (invalid_state (''unsupported version '' @ itoa (ps_version s)))
      else if ps_entries s = [] then Some (invalid_state ''no provider entries'')
      else if ps_active s < 0 \<or> int (length (ps_entries s)) \<le> ps_active s
      then Some (invalid_state (''active index '' @ itoa (ps_active s) @ '' out of range''))
      else entries_error [] (ps_entries s))"

section \<open>The failover chain\<close>

type_synonym 'w llm = "generate_request \<Rightarrow> 'w \<Rightarrow> (llm_error + generate_response) \<times> 'w"

record 'w fallback_entry =
  fe_name :: bytes
  fe_provider :: bytes
  fe_llm :: "'w llm option"
  fe_model :: bytes
  fe_config_id :: bytes

type_synonym 'w on_switch = "'w fallback_entry \<Rightarrow> 'w fallback_entry \<Rightarrow> llm_error \<Rightarrow> 'w \<Rightarrow> 'w"

record 'w fallback =
  fb_entries :: "'w fallback_entry list"
  fb_active :: nat
  fb_on_switch :: "'w on_switch option"

definition new_fallback :: "'w fallback_entry list \<Rightarrow> 'w on_switch option \<Rightarrow> go_error + 'w fallback" where
  "new_fallback es sw =
     (if es = [] then Inl (new_error ''ai: fallback chain needs at least one provider'')
      else Inr \<lparr>fb_entries = es, fb_active = 0, fb_on_switch = sw\<rparr>)"

definition state_entry_of :: "'w fallback_entry \<Rightarrow> state_entry" where
  "state_entry_of e = \<lparr>pe_provider = fe_provider e, pe_model = fe_model e, pe_config_id = fe_config_id e\<rparr>"

definition provider_state_from_entries :: "'w fallback_entry list \<Rightarrow> go_error + provider_state" where
  "provider_state_from_entries es =
     (case List.find (\<lambda>e. case fe_llm e of None \<Rightarrow> True | Some _ \<Rightarrow> False) es of
        Some e \<Rightarrow> Inl (invalid_state (''provider '' @ go_quote (fe_provider e) @ '' has no LLM''))
      | None \<Rightarrow>
          (let st = \<lparr>ps_version = ProviderStateVersion, ps_entries = map state_entry_of es, ps_active = 0\<rparr>
           in case validate_state st of Some err \<Rightarrow> Inl err | None \<Rightarrow> Inr st))"

definition fallback_state :: "'w fallback \<Rightarrow> go_error + provider_state" where
  "fallback_state f =
     (case provider_state_from_entries (fb_entries f) of
        Inl err \<Rightarrow> Inl err
      | Inr st \<Rightarrow> Inr (st\<lparr>ps_active := int (fb_active f)\<rparr>))"

fun first_mismatch :: "nat \<Rightarrow> state_entry list \<Rightarrow> state_entry list \<Rightarrow> nat option" where
  "first_mismatch i (a # as) (b # bs) = (if a \<noteq> b then Some i else first_mismatch (Suc i) as bs)"
| "first_mismatch i _ _ = None"

definition new_fallback_from_state ::
  "'w fallback_entry list \<Rightarrow> provider_state \<Rightarrow> 'w on_switch option \<Rightarrow> go_error + 'w fallback" where
  "new_fallback_from_state es st sw =
     (case validate_state st of
        Some err \<Rightarrow> Inl err
      | None \<Rightarrow>
          (case provider_state_from_entries es of
             Inl err \<Rightarrow> Inl err
           | Inr own \<Rightarrow>
               if length (ps_entries own) \<noteq> length (ps_entries st)
               then Inl (invalid_state ''saved provider entries do not match reconstructed chain'')
               else (case first_mismatch 0 (ps_entries own) (ps_entries st) of
                   Some i \<Rightarrow> Inl (invalid_state (''saved provider entry '' @ nat_text i @ '' does not match reconstructed chain''))
                 | None \<Rightarrow> Inr \<lparr>fb_entries = es, fb_active = nat (ps_active st), fb_on_switch = sw\<rparr>)))"

definition attempt :: "'w fallback_entry \<Rightarrow> generate_request \<Rightarrow> 'w \<Rightarrow> ((llm_error + generate_response) \<times> 'w) option" where
  "attempt e req w = map_option (\<lambda>g. g (req\<lparr>gr_model := fe_model e\<rparr>) w) (fe_llm e)"

definition notify_switch :: "'w fallback \<Rightarrow> nat \<Rightarrow> llm_error \<Rightarrow> 'w \<Rightarrow> 'w" where
  "notify_switch f i err w =
     (case fb_on_switch f of
        Some sw \<Rightarrow> if i + 1 < length (fb_entries f) then sw (fb_entries f ! i) (fb_entries f ! (i + 1)) err w else w
      | None \<Rightarrow> w)"

function generate_loop ::
  "generate_request \<Rightarrow> llm_error list \<Rightarrow> 'w fallback \<Rightarrow> 'w
     \<Rightarrow> ((llm_error + generate_response) \<times> 'w fallback \<times> 'w) option" where
  "generate_loop req errs f w =
     (if fb_active f < length (fb_entries f)
      then (case attempt (fb_entries f ! fb_active f) req w of
          None \<Rightarrow> None
        | Some (Inr resp, w') \<Rightarrow> Some (Inr resp, f, w')
        | Some (Inl err, w') \<Rightarrow>
            if \<not> should_failover (Some err) then Some (Inl err, f, w')
            else generate_loop req (errs @ [err]) (f\<lparr>fb_active := fb_active f + 1\<rparr>)
                   (notify_switch f (fb_active f) err w'))
      else if errs = [] then Some (Inl (plain_error ''ai: all providers exhausted''), f, w)
      else Some (Inl (wrap_llm ''ai: all providers failed: '' (join_llm errs)), f, w))"
  by pat_completeness auto
termination
  by (relation "measure (\<lambda>(req, errs, f, w). length (fb_entries f) - fb_active f)") auto

declare generate_loop.simps [simp del]

definition fallback_generate ::
  "'w fallback \<Rightarrow> generate_request \<Rightarrow> 'w \<Rightarrow> ((llm_error + generate_response) \<times> 'w fallback \<times> 'w) option" where
  "fallback_generate f req w = generate_loop req [] f w"

section \<open>Names and states\<close>

lemma parse_provider_known:
  "parse_provider s = Inr p \<Longrightarrow> p = [] \<or> p \<in> set known_providers"
  by (auto simp: parse_provider_def Let_def known_providers_def split: if_splits)

lemma parse_known: "p \<in> set known_providers \<Longrightarrow> parse_provider p = Inr p"
proof -
  have "list_all (\<lambda>p. parse_provider p = Inr p) known_providers" by code_simp
  then show "p \<in> set known_providers \<Longrightarrow> parse_provider p = Inr p" by (simp add: list_all_iff)
qed

text \<open>A name that was parsed is parsed to itself, and every known name is.\<close>

lemma parse_provider_fixed: "parse_provider s = Inr p \<Longrightarrow> p \<noteq> [] \<Longrightarrow> parse_provider p = Inr p"
  using parse_provider_known parse_known by blast

lemma normalized_provider: "parse_provider p = Inr p \<and> p \<noteq> [] \<longleftrightarrow> p \<in> set known_providers"
proof
  show "parse_provider p = Inr p \<and> p \<noteq> [] \<Longrightarrow> p \<in> set known_providers"
    using parse_provider_known by blast
  have "[] \<notin> set known_providers" by code_simp
  then show "p \<in> set known_providers \<Longrightarrow> parse_provider p = Inr p \<and> p \<noteq> []" using parse_known by metis
qed

lemma known_no_zero: "p \<in> set known_providers \<Longrightarrow> CHR 0x00 \<notin> set p"
proof -
  have "list_all (\<lambda>p. CHR 0x00 \<notin> set p) known_providers" by code_simp
  then show "p \<in> set known_providers \<Longrightarrow> CHR 0x00 \<notin> set p" by (simp add: list_all_iff)
qed

definition sound_entry :: "state_entry \<Rightarrow> bool" where
  "sound_entry e \<longleftrightarrow> pe_provider e \<in> set known_providers \<and> is_canonical_config_id (pe_config_id e)"

lemma entry_error_None: "entry_error e = None \<longleftrightarrow> sound_entry e"
  using normalized_provider [of "pe_provider e"] by (auto simp: entry_error_def sound_entry_def)

text \<open>The identity of a sound entry determines it, whatever bytes its model has.\<close>

lemma identity_inj: "inj_on state_identity {e. sound_entry e}"
proof (rule inj_onI)
  fix a b assume s: "a \<in> {e. sound_entry e}" "b \<in> {e. sound_entry e}" and i: "state_identity a = state_identity b"
  have l: "length (pe_config_id a) = length (pe_config_id b)"
    using s by (simp add: sound_entry_def is_canonical_config_id_def)
  have "(pe_provider a @ [CHR 0x00] @ pe_model a @ [CHR 0x00]) @ pe_config_id a
      = (pe_provider b @ [CHR 0x00] @ pe_model b @ [CHR 0x00]) @ pe_config_id b"
    using i by (simp add: state_identity_def)
  then have c: "pe_config_id a = pe_config_id b" and m: "pe_provider a @ CHR 0x00 # pe_model a = pe_provider b @ CHR 0x00 # pe_model b"
    unfolding append_eq_append_conv [OF disjI2 [OF l]] by simp_all
  have "split_on (CHR 0x00) (pe_provider a @ CHR 0x00 # pe_model a) = pe_provider a # split_on (CHR 0x00) (pe_model a)"
    "split_on (CHR 0x00) (pe_provider b @ CHR 0x00 # pe_model b) = pe_provider b # split_on (CHR 0x00) (pe_model b)"
    using s known_no_zero by (simp_all add: sound_entry_def split_on_append)
  with m have "pe_provider a = pe_provider b" by simp
  with m c show "a = b" by (simp add: state_entry.equality)
qed

lemma entries_error_None:
  assumes "\<forall>e \<in> set old. sound_entry e"
  shows "entries_error (map state_identity old) es = None
    \<longleftrightarrow> list_all sound_entry es \<and> distinct es \<and> set es \<inter> set old = {}"
  using assms
proof (induction es arbitrary: old)
  case (Cons e es)
  show ?case
  proof (cases "sound_entry e")
    case False
    then have "entry_error e \<noteq> None" by (simp add: entry_error_None)
    with False show ?thesis by (auto split: option.splits)
  next
    case True
    then have n: "entry_error e = None" by (simp add: entry_error_None)
    have i: "state_identity e \<in> state_identity ` set old \<longleftrightarrow> e \<in> set old"
      using Cons.prems True identity_inj by (auto dest: inj_onD)
    have "\<forall>x \<in> set (e # old). sound_entry x" using Cons.prems True by simp
    note ih = Cons.IH [OF this]
    show ?thesis using True n i ih by auto
  qed
qed simp

lemma validate_state_None:
  "validate_state s = None \<longleftrightarrow> ps_version s = ProviderStateVersion \<and> 0 \<le> ps_active s
     \<and> ps_active s < int (length (ps_entries s)) \<and> list_all sound_entry (ps_entries s) \<and> distinct (ps_entries s)"
  using entries_error_None [of "[]" "ps_entries s"] by (auto simp: validate_state_def)

section \<open>The chain\<close>

definition all_bound :: "'w fallback_entry list \<Rightarrow> bool" where
  "all_bound es \<longleftrightarrow> (\<forall>e \<in> set es. fe_llm e \<noteq> None)"

lemma from_entries_Inr:
  "provider_state_from_entries es = Inr st \<Longrightarrow> all_bound es \<and> st = \<lparr>ps_version = ProviderStateVersion,
     ps_entries = map state_entry_of es, ps_active = 0\<rparr> \<and> validate_state st = None"
  by (auto simp: provider_state_from_entries_def all_bound_def find_None_iff Let_def split: option.splits)

lemma from_entries_bound:
  assumes "all_bound es"
  shows "provider_state_from_entries es =
     (let st = \<lparr>ps_version = ProviderStateVersion, ps_entries = map state_entry_of es, ps_active = 0\<rparr>
      in case validate_state st of Some err \<Rightarrow> Inl err | None \<Rightarrow> Inr st)"
proof -
  have "List.find (\<lambda>e. case fe_llm e of None \<Rightarrow> True | Some _ \<Rightarrow> False) es = None"
    using assms by (auto simp: find_None_iff all_bound_def split: option.splits)
  then show ?thesis by (simp add: provider_state_from_entries_def)
qed

text \<open>What one call of the chain can have done: the entries it gave up, and where it stopped.\<close>

definition advance_by :: "nat \<Rightarrow> 'w fallback \<Rightarrow> 'w fallback" where
  "advance_by k f = f\<lparr>fb_active := fb_active f + k\<rparr>"

lemma advance_by_fields [simp]:
  "fb_active (advance_by k f) = fb_active f + k" "fb_entries (advance_by k f) = fb_entries f"
  "fb_on_switch (advance_by k f) = fb_on_switch f" "advance_by 0 f = f"
  "advance_by k (f\<lparr>fb_active := Suc (fb_active f)\<rparr>) = advance_by (Suc k) f"
  by (simp_all add: advance_by_def)

definition gave_up :: "generate_request \<Rightarrow> 'w fallback_entry \<Rightarrow> llm_error \<Rightarrow> bool" where
  "gave_up req e err \<longleftrightarrow> should_failover (Some err) \<and> (\<exists>w w'. attempt e req w = Some (Inl err, w'))"

definition stops_at :: "generate_request \<Rightarrow> 'w fallback \<Rightarrow> (llm_error + generate_response) \<Rightarrow> 'w \<Rightarrow> bool" where
  "stops_at req f r w' \<longleftrightarrow> fb_active f < length (fb_entries f)
     \<and> (\<exists>w. attempt (fb_entries f ! fb_active f) req w = Some (r, w'))
     \<and> (case r of Inr _ \<Rightarrow> True | Inl err \<Rightarrow> \<not> should_failover (Some err))"

definition exhausted_error :: "llm_error list \<Rightarrow> llm_error" where
  "exhausted_error errs =
     (if errs = [] then plain_error ''ai: all providers exhausted''
      else wrap_llm ''ai: all providers failed: '' (join_llm errs))"

lemma generate_loop_trace:
  assumes "generate_loop req old f w = Some (r, f', w')" and "fb_active f \<le> length (fb_entries f)"
  shows "\<exists>errs. f' = advance_by (length errs) f
     \<and> fb_active f + length errs \<le> length (fb_entries f)
     \<and> (\<forall>i < length errs. gave_up req (fb_entries f ! (fb_active f + i)) (errs ! i))
     \<and> (stops_at req f' r w'
        \<or> fb_active f' = length (fb_entries f) \<and> r = Inl (exhausted_error (old @ errs)))"
  using assms
proof (induction req old f w rule: generate_loop.induct)
  case (1 req old f w)
  show ?case
  proof (cases "fb_active f < length (fb_entries f)")
    case False
    then have "r = Inl (exhausted_error old) \<and> f' = f \<and> w' = w"
      using 1(2) by (subst (asm) generate_loop.simps) (auto simp: exhausted_error_def split: if_splits)
    then show ?thesis using False 1(3) by (intro exI [of _ "[]"]) simp
  next
    case True
    then obtain a w1 where a: "attempt (fb_entries f ! fb_active f) req w = Some (a, w1)"
      using 1(2) by (subst (asm) generate_loop.simps) (auto split: option.splits)
    show ?thesis
    proof (cases "\<exists>err. a = Inl err \<and> should_failover (Some err)")
      case False
      then have "r = a \<and> f' = f \<and> w' = w1"
        using 1(2) True a by (subst (asm) generate_loop.simps) (auto split: sum.splits)
      then show ?thesis using True False a by (intro exI [of _ "[]"]) (auto simp: stops_at_def split: sum.splits)
    next
      case g: True
      then obtain err where err: "a = Inl err" "should_failover (Some err)" by blast
      let ?f = "f\<lparr>fb_active := fb_active f + 1\<rparr>" and ?w = "notify_switch f (fb_active f) err w1"
      have "generate_loop req (old @ [err]) ?f ?w = Some (r, f', w')"
        using 1(2) True a err by (subst (asm) generate_loop.simps) simp
      then have "\<exists>errs. f' = advance_by (length errs) ?f
          \<and> fb_active ?f + length errs \<le> length (fb_entries ?f)
          \<and> (\<forall>i < length errs. gave_up req (fb_entries ?f ! (fb_active ?f + i)) (errs ! i))
          \<and> (stops_at req f' r w' \<or> fb_active f' = length (fb_entries ?f) \<and> r = Inl (exhausted_error ((old @ [err]) @ errs)))"
        using a err True by (intro 1(1)) auto
      then obtain errs where e: "f' = advance_by (length errs) ?f
          \<and> fb_active ?f + length errs \<le> length (fb_entries ?f)
          \<and> (\<forall>i < length errs. gave_up req (fb_entries ?f ! (fb_active ?f + i)) (errs ! i))
          \<and> (stops_at req f' r w' \<or> fb_active f' = length (fb_entries ?f) \<and> r = Inl (exhausted_error ((old @ [err]) @ errs)))" ..
      have "gave_up req (fb_entries f ! (fb_active f + i)) ((err # errs) ! i)" if "i < length (err # errs)" for i
        using that e a err by (cases i) (auto simp: gave_up_def)
      with e show ?thesis by (intro exI [of _ "err # errs"]) auto
    qed
  qed
qed


lemma generate_returns:
  "all_bound (fb_entries f) \<Longrightarrow> \<exists>x. generate_loop req errs f w = Some x"
proof (induction req errs f w rule: generate_loop.induct)
  case (1 req errs f w)
  show ?case
  proof (cases "fb_active f < length (fb_entries f)")
    case False
    then show ?thesis by (subst generate_loop.simps) simp
  next
    case True
    then obtain g where "fe_llm (fb_entries f ! fb_active f) = Some g"
      using 1(2) nth_mem unfolding all_bound_def by blast
    then obtain a w1 where a: "attempt (fb_entries f ! fb_active f) req w = Some (a, w1)"
      by (simp add: attempt_def) (metis prod.collapse)
    show ?thesis
    proof (cases "\<exists>err. a = Inl err \<and> should_failover (Some err)")
      case False
      with True a show ?thesis by (subst generate_loop.simps) (auto split: sum.splits)
    next
      case g: True
      then obtain err where "a = Inl err" "should_failover (Some err)" by blast
      with True a 1 show ?thesis by (subst generate_loop.simps) auto
    qed
  qed
qed

section \<open>Persisting the position\<close>

lemma first_mismatch_None: "length as = length bs \<Longrightarrow> first_mismatch i as bs = None \<longleftrightarrow> as = bs"
  by (induction i as bs rule: first_mismatch.induct) auto

lemma first_mismatch_same [simp]: "first_mismatch i as as = None"
  by (simp add: first_mismatch_None)

text \<open>
  The position in the chain survives a restart. After a call that answered, the state
  of the chain can be exported, is valid and names the entry that answered; reconstructing a
  chain from that state succeeds exactly for entries of the same providers, models and
  configurations in the same order, all with a model to call, and the new chain starts at
  the same entry.
\<close>

theorem saved_position_resumes:
  assumes "fallback_generate f req w = Some (Inr resp, f', w')" and "fb_active f \<le> length (fb_entries f)"
    and "provider_state_from_entries (fb_entries f) = Inr st0"
  shows "\<exists>st. fallback_state f' = Inr st \<and> validate_state st = None \<and> ps_active st = int (fb_active f')
     \<and> (\<forall>es f''. new_fallback_from_state es st sw = Inr f'' \<longleftrightarrow>
          f'' = \<lparr>fb_entries = es, fb_active = fb_active f', fb_on_switch = sw\<rparr>
          \<and> all_bound es \<and> map state_entry_of es = map state_entry_of (fb_entries f'))"
proof -
  have "\<exists>errs :: llm_error list. f' = advance_by (length errs) f \<and> stops_at req f' (Inr resp) w'"
    using generate_loop_trace [OF assms(1) [unfolded fallback_generate_def] assms(2)]
    by (simp only: sum.distinct simp_thms) blast
  then obtain errs :: "llm_error list" where e: "f' = advance_by (length errs) f" "stops_at req f' (Inr resp) w'"
    by blast
  then have a: "fb_active f' < length (fb_entries f)" by (simp add: stops_at_def)
  let ?st = "\<lparr>ps_version = ProviderStateVersion, ps_entries = map state_entry_of (fb_entries f), ps_active = int (fb_active f')\<rparr>"
  have f: "fallback_state f' = Inr ?st"
    using from_entries_Inr [OF assms(3)] assms(3) e by (simp add: fallback_state_def)
  have v: "validate_state ?st = None"
    using from_entries_Inr [OF assms(3)] a by (auto simp: validate_state_None)
  have "new_fallback_from_state es ?st sw = Inr f'' \<longleftrightarrow>
      f'' = \<lparr>fb_entries = es, fb_active = fb_active f', fb_on_switch = sw\<rparr>
      \<and> all_bound es \<and> map state_entry_of es = map state_entry_of (fb_entries f')" for es f''
  proof (cases "provider_state_from_entries es")
    case (Inr own)
    then have own: "ps_entries own = map state_entry_of es" "all_bound es" using from_entries_Inr [OF Inr] by simp_all
    show ?thesis
    proof (cases "map state_entry_of es = map state_entry_of (fb_entries f)")
      case True
      with v own Inr e(1) show ?thesis by (auto simp: new_fallback_from_state_def dest: map_eq_imp_length_eq)
    next
      case False
      then have "length es = length (fb_entries f) \<Longrightarrow>
          first_mismatch 0 (map state_entry_of es) (map state_entry_of (fb_entries f)) \<noteq> None"
        by (simp add: first_mismatch_None del: not_None_eq)
      with False v own Inr e(1) show ?thesis by (auto simp: new_fallback_from_state_def)
    qed
  next
    case (Inl err)
    have "\<not> (all_bound es \<and> map state_entry_of es = map state_entry_of (fb_entries f))"
    proof
      assume b: "all_bound es \<and> map state_entry_of es = map state_entry_of (fb_entries f)"
      then have "provider_state_from_entries es = Inr st0"
        using from_entries_Inr [OF assms(3)] from_entries_bound [of es] by (elim conjE) (simp add: Let_def)
      with Inl show False by simp
    qed
    with Inl v e(1) show ?thesis by (auto simp: new_fallback_from_state_def)
  qed
  with f v show ?thesis by auto
qed

section \<open>A chain\<close>

definition sample_response :: generate_response where
  "sample_response = \<lparr>rp_text = ''done'', rp_calls = [], rp_stop = ''end_turn'',
     rp_usage = \<lparr>us_input = 1, us_output = 2, us_cache_creation = 0, us_cache_read = 0\<rparr>\<rparr>"

definition sample_request :: generate_request where
  "sample_request = \<lparr>gr_model = [], gr_system = [], gr_messages = [], gr_tools = [], gr_max_tokens = 2048, gr_cache_system = True\<rparr>"

definition sample_chain :: "nat fallback" where
  "sample_chain = \<lparr>fb_entries =
      [\<lparr>fe_name = ''ollama'', fe_provider = ProviderOllama, fe_llm = Some (\<lambda>req n. (Inl (provider_error ''ollama'' 429 ''quota''), n + 1)),
        fe_model = ''qwen'', fe_config_id = replicate 64 (CHR ''a'')\<rparr>,
       \<lparr>fe_name = ''anthropic'', fe_provider = ProviderAnthropic, fe_llm = Some (\<lambda>req n. (Inr sample_response, n + 1)),
        fe_model = [], fe_config_id = replicate 64 (CHR ''b'')\<rparr>],
     fb_active = 0, fb_on_switch = Some (\<lambda>from to err n. n + 10)\<rparr>"

lemma sample_chain_call:
  "fallback_generate sample_chain sample_request 0 = Some (Inr sample_response, sample_chain\<lparr>fb_active := 1\<rparr>, 12)"
  by (simp add: fallback_generate_def generate_loop.simps sample_chain_def attempt_def notify_switch_def
      should_failover_def provider_error_def)

lemma sample_chain_state: "provider_state_from_entries (fb_entries sample_chain) = Inr
    \<lparr>ps_version = 1, ps_entries = map state_entry_of (fb_entries sample_chain), ps_active = 0\<rparr>"
proof -
  have "list_all sound_entry (map state_entry_of (fb_entries sample_chain)) \<and> distinct (map state_entry_of (fb_entries sample_chain))"
    by code_simp
  moreover have "0 < length (fb_entries sample_chain)" "all_bound (fb_entries sample_chain)"
    by (simp_all add: sample_chain_def all_bound_def)
  ultimately show ?thesis
    using validate_state_None [of "\<lparr>ps_version = 1, ps_entries = map state_entry_of (fb_entries sample_chain), ps_active = 0\<rparr>"]
    by (simp add: from_entries_bound ProviderStateVersion_def)
qed


lemma saved_position_resumes_witness:
  "\<exists>st. fallback_state (sample_chain\<lparr>fb_active := 1\<rparr>) = Inr st \<and> ps_active st = 1
     \<and> new_fallback_from_state (fb_entries sample_chain) st None =
         Inr \<lparr>fb_entries = fb_entries sample_chain, fb_active = 1, fb_on_switch = None\<rparr>"
proof -
  have "all_bound (fb_entries sample_chain)" by (simp add: all_bound_def sample_chain_def)
  moreover have "fb_active sample_chain \<le> length (fb_entries sample_chain)" by (simp add: sample_chain_def)
  moreover obtain st where
    "fallback_state (sample_chain\<lparr>fb_active := 1\<rparr>) = Inr st \<and> validate_state st = None
     \<and> ps_active st = int (fb_active (sample_chain\<lparr>fb_active := 1\<rparr>))
     \<and> (\<forall>es. \<forall>f'' :: nat fallback. new_fallback_from_state es st None = Inr f'' \<longleftrightarrow>
          f'' = \<lparr>fb_entries = es, fb_active = fb_active (sample_chain\<lparr>fb_active := 1\<rparr>), fb_on_switch = None\<rparr>
          \<and> all_bound es \<and> map state_entry_of es = map state_entry_of (fb_entries (sample_chain\<lparr>fb_active := 1\<rparr>)))"
    using saved_position_resumes [OF sample_chain_call calculation(2) sample_chain_state, of None] ..
  note st = this
  have "new_fallback_from_state (fb_entries sample_chain) st None =
      Inr \<lparr>fb_entries = fb_entries sample_chain, fb_active = fb_active (sample_chain\<lparr>fb_active := 1\<rparr>), fb_on_switch = None\<rparr>"
    by (rule st [THEN conjunct2, THEN conjunct2, THEN conjunct2, THEN spec, THEN spec, THEN iffD2])
      (simp add: calculation(1))
  with st show ?thesis by (intro exI [of _ st]) simp
qed

end
