(* ===== verification/Session.thy ===== *)
theory Session
  imports Failover DailyNote
begin

text \<open>
  The planner sessions of \<open>internal/ai\<close>: \<open>session_id.go\<close>, \<open>session.go\<close> and
  \<open>session_store.go\<close>. A session is the conversation at the point where calls wait for
  approval; the store keeps one snapshot per session in a directory.

  JSON is a parameter (\<open>json\<close>): the canonical form of a value, and how a session is
  encoded and decoded. A store is a map from names to files, which are regular or not; the
  faults of the file system are the fields of \<open>save_io\<close> and \<open>load_io\<close>.
\<close>

section \<open>Session identifiers\<close>

definition lower_hex :: "char \<Rightarrow> bool" where
  "lower_hex c \<longleftrightarrow> is_digit c \<or> between (CHR ''a'') (CHR ''f'') c"

definition parse_session_id :: "bytes \<Rightarrow> go_error + bytes" where
  "parse_session_id raw =
     (if length raw = 64 \<and> list_all lower_hex raw then Inr raw
      else Inl (sentinel_error S_InvalidSessionID
        ''invalid planner session id: must be exactly 64 lowercase hexadecimal characters''))"

text \<open>\<open>hex.EncodeToString\<close> of the 32 random bytes, or the error of the reader.\<close>

definition hex_encode :: "nat list \<Rightarrow> bytes" where
  "hex_encode ns = concat (map (\<lambda>n. [hex_digit (n div 16 mod 16), hex_digit (n mod 16)]) ns)"

definition generate_session_id :: "go_error + nat list \<Rightarrow> go_error + bytes" where
  "generate_session_id random =
     (case random of
        Inl e \<Rightarrow> Inl (wrap_error ''generate planner session id: '' e)
      | Inr ns \<Rightarrow> Inr (hex_encode (take 32 ns)))"

section \<open>Sessions\<close>

definition SessionVersion :: int where "SessionVersion = 1"
definition MaxSessionBytes :: nat where "MaxSessionBytes = 8388608"

record pending_call =
  pc_call_id :: bytes
  pc_approval_id :: bytes
  pc_tool :: bytes
  pc_reason :: bytes

record session =
  ss_version :: int
  ss_id :: bytes
  ss_model :: bytes
  ss_provider :: provider_state
  ss_messages :: "message list"
  ss_results :: "tool_result list"
  ss_pending :: "pending_call list"

record json =
  js_canonical :: "bytes \<Rightarrow> go_error + bytes"
  js_encode :: "session \<Rightarrow> go_error + bytes"
  js_decode :: "bytes \<Rightarrow> go_error + session"
  js_trailing :: "bytes \<Rightarrow> go_error option"

definition invalid_session :: "bytes \<Rightarrow> go_error" where
  "invalid_session t = sentinel_error S_InvalidSession (''invalid planner session: '' @ t)"

text \<open>The code points of valid UTF-8, and the control characters among them.\<close>

function runes :: "bytes \<Rightarrow> bytes list" where
  "runes s = (case rune_len s of None \<Rightarrow> [] | Some n \<Rightarrow> take n s # runes (drop n s))"
  by pat_completeness auto
termination
  by (relation "measure length") (auto dest: rune_len_bounds)

declare runes.simps [simp del]

definition control_rune :: "bytes \<Rightarrow> bool" where
  "control_rune r \<longleftrightarrow>
     (case map of_char r of
        [n] \<Rightarrow> n < (32 :: nat) \<or> n = 127
      | [m, n] \<Rightarrow> m = 0xC2 \<and> n < 0xA0
      | _ \<Rightarrow> False)"

definition validate_call_id :: "bytes \<Rightarrow> go_error option" where
  "validate_call_id i =
     (if i = [] \<or> 256 < length i \<or> \<not> valid_utf8 i
      then Some (new_error ''must be valid UTF-8 between 1 and 256 bytes'')
      else if list_ex (\<lambda>r. r \<in> set unicode_spaces \<or> control_rune r) (runes i)
      then Some (new_error ''must not contain whitespace or control characters'')
      else None)"

definition sanitize_tool_name :: "bytes \<Rightarrow> bytes" where
  "sanitize_tool_name name = map (\<lambda>c. if c = CHR ''.'' then CHR ''_'' else c) name"

text \<open>The loops of \<open>validateStoredSession\<close>, each with what it has collected.\<close>

fun check_calls :: "json \<Rightarrow> (bytes, tool_call) gomap \<Rightarrow> tool_call list \<Rightarrow> go_error + (bytes, tool_call) gomap" where
  "check_calls js calls [] = Inr calls"
| "check_calls js calls (c # cs) =
     (case validate_call_id (tc_id c) of
        Some e \<Rightarrow> Inl (invalid_session (''tool call id: '' @ err_text e))
      | None \<Rightarrow>
          if map_of calls (tc_id c) \<noteq> None
          then Inl (invalid_session (''duplicate tool call id '' @ go_quote (tc_id c)))
          else if trim_space (tc_name c) = []
          then Inl (invalid_session (''tool call '' @ go_quote (tc_id c) @ '' has empty tool name''))
          else (case js_canonical js (tc_input c) of
              Inl e \<Rightarrow> Inl (invalid_session (''tool call '' @ go_quote (tc_id c) @ '' input: '' @ err_text e))
            | Inr _ \<Rightarrow> check_calls js (AList.update (tc_id c) c calls) cs))"

fun check_results ::
  "(bytes, tool_call) gomap \<Rightarrow> (bytes, bytes) gomap \<Rightarrow> tool_result list \<Rightarrow> go_error + (bytes, bytes) gomap" where
  "check_results calls part [] = Inr part"
| "check_results calls part (r # rs) =
     (let i = tr_call_id r in
      case validate_call_id i of
        Some e \<Rightarrow> Inl (invalid_session (''result call id: '' @ err_text e))
      | None \<Rightarrow>
          if map_of calls i = None then Inl (invalid_session (''result references unknown call '' @ go_quote i))
          else (case map_of part i of
              Some prior \<Rightarrow> Inl (invalid_session (''call '' @ go_quote i @ '' appears in both/duplicate '' @ prior @ '' and result partitions''))
            | None \<Rightarrow> check_results calls (AList.update i ''result'' part) rs))"

fun check_pendings ::
  "(bytes, tool_call) gomap \<Rightarrow> (bytes, bytes) gomap \<Rightarrow> bytes list \<Rightarrow> pending_call list \<Rightarrow> go_error + (bytes, bytes) gomap" where
  "check_pendings calls part approvals [] = Inr part"
| "check_pendings calls part approvals (p # ps) =
     (let i = pc_call_id p in
      case validate_call_id i of
        Some e \<Rightarrow> Inl (invalid_session (''pending call id: '' @ err_text e))
      | None \<Rightarrow>
          (case map_of calls i of
             None \<Rightarrow> Inl (invalid_session (''pending references unknown call '' @ go_quote i))
           | Some c \<Rightarrow>
               (case map_of part i of
                  Some prior \<Rightarrow> Inl (invalid_session (''call '' @ go_quote i @ '' appears in both/duplicate '' @ prior @ '' and pending partitions''))
                | None \<Rightarrow>
                    if trim_space (pc_approval_id p) = [] \<or> trim_space (pc_tool p) = []
                    then Inl (invalid_session (''pending call '' @ go_quote i @ '' has empty approval id or tool name''))
                    else if pc_approval_id p \<in> set approvals
                    then Inl (invalid_session (''duplicate approval id '' @ go_quote (pc_approval_id p)))
                    else if sanitize_tool_name (pc_tool p) \<noteq> tc_name c
                    then Inl (invalid_session (''pending tool '' @ go_quote (pc_tool p) @ '' does not match call '' @ go_quote (tc_name c)))
                    else check_pendings calls (AList.update i ''pending'' part) (pc_approval_id p # approvals) ps)))"

definition missing_call :: "(bytes, tool_call) gomap \<Rightarrow> (bytes, bytes) gomap \<Rightarrow> bytes option" where
  "missing_call calls part = List.find (\<lambda>i. map_of part i = None) (map fst calls)"

definition validate_stored_session :: "json \<Rightarrow> session \<Rightarrow> go_error option" where
  "validate_stored_session js s =
     (if ss_version s \<noteq> SessionVersion then Some (invalid_session (''unsupported version '' @ itoa (ss_version s)))
      else (case parse_session_id (ss_id s) of
          Inl e \<Rightarrow> Some (invalid_session (err_text e))
        | Inr _ \<Rightarrow>
      (case validate_state (ss_provider s) of
          Some e \<Rightarrow> Some (invalid_session (''provider state: '' @ err_text e))
        | None \<Rightarrow>
      if ss_messages s = [] then Some (invalid_session ''empty conversation'')
      else if ms_role (last (ss_messages s)) \<noteq> RoleAssistant \<or> ms_calls (last (ss_messages s)) = []
      then Some (invalid_session ''conversation must end at an assistant tool-call turn'')
      else (case check_calls js [] (ms_calls (last (ss_messages s))) of
          Inl e \<Rightarrow> Some e
        | Inr calls \<Rightarrow>
      (case check_results calls [] (ss_results s) of
          Inl e \<Rightarrow> Some e
        | Inr part \<Rightarrow>
      (case check_pendings calls part [] (ss_pending s) of
          Inl e \<Rightarrow> Some e
        | Inr part' \<Rightarrow>
            map_option (\<lambda>i. invalid_session (''call '' @ go_quote i @ '' is missing from result/pending partitions''))
              (missing_call calls part')))))))"

section \<open>The store\<close>

datatype store_file = Regular bytes | Irregular

type_synonym store = "(bytes, store_file) gomap"

definition session_file_name :: "bytes \<Rightarrow> bytes" where
  "session_file_name i = i @ ''.json''"

definition require_regular :: "(bytes \<Rightarrow> go_error option) \<Rightarrow> store \<Rightarrow> bytes \<Rightarrow> go_error option" where
  "require_regular lstat d name =
     (case lstat name of
        Some e \<Rightarrow> Some e
      | None \<Rightarrow>
          (case map_of d name of
             None \<Rightarrow> Some (sentinel_error S_NotExist ''no such file or directory'')
           | Some Irregular \<Rightarrow> Some (invalid_session (name @ '' is a symlink or non-regular file''))
           | Some (Regular _) \<Rightarrow> None))"

definition reject_existing_non_regular :: "(bytes \<Rightarrow> go_error option) \<Rightarrow> store \<Rightarrow> bytes \<Rightarrow> go_error option" where
  "reject_existing_non_regular lstat d name =
     (case require_regular lstat d name of
        None \<Rightarrow> None
      | Some e \<Rightarrow> if errors_is e S_NotExist then None else Some e)"

text \<open>
  \<open>writeFull\<close> against a writer that answers as listed: how many bytes it took, or an error;
  a writer whose answers are used up takes everything. The result is what reached the file.
\<close>

fun write_full :: "(nat \<times> go_error option) list \<Rightarrow> bytes \<Rightarrow> bytes \<times> go_error option" where
  "write_full answers [] = ([], None)"
| "write_full [] (c # cs) = (c # cs, None)"
| "write_full ((n, e) # answers) (c # cs) =
     (let data = c # cs in
      case e of
        Some err \<Rightarrow> (take n data, Some err)
      | None \<Rightarrow>
          if n = 0 then ([], Some (new_error ''short write''))
          else (case write_full answers (drop n data) of (out, err) \<Rightarrow> (take n data @ out, err)))"

record save_io =
  si_lstat :: "bytes \<Rightarrow> go_error option"
  si_random :: "nat \<Rightarrow> go_error + nat list"
  si_open :: "go_error option"
  si_chmod :: "go_error option"
  si_answers :: "(nat \<times> go_error option) list"
  si_sync :: "go_error option"
  si_close :: "go_error option"
  si_rename :: "go_error option"
  si_remove :: "go_error option"
  si_dir_sync :: "go_error option"

definition temp_name :: "bytes \<Rightarrow> nat list \<Rightarrow> bytes" where
  "temp_name i random = ''.'' @ i @ ''.tmp-'' @ hex_encode (take 16 random)"

fun create_temp :: "save_io \<Rightarrow> bytes \<Rightarrow> store \<Rightarrow> nat list \<Rightarrow> go_error + bytes" where
  "create_temp io i d [] = Inl (new_error ''create planner session temporary file: too many name collisions'')"
| "create_temp io i d (k # ks) =
     (case si_random io k of
        Inl e \<Rightarrow> Inl (wrap_error ''generate planner session temporary name: '' e)
      | Inr random \<Rightarrow>
          if map_of d (temp_name i random) \<noteq> None then create_temp io i d ks
          else (case si_open io of
              Some e \<Rightarrow> Inl (wrap_error ''create planner session temporary file: '' e)
            | None \<Rightarrow> Inr (temp_name i random)))"

text \<open>The deferred removal of the temporary file, which joins its own error.\<close>

definition abandon :: "save_io \<Rightarrow> bytes \<Rightarrow> store \<Rightarrow> go_error option list \<Rightarrow> store \<times> go_error option" where
  "abandon io tmp d errs =
     (case si_remove io of
        None \<Rightarrow> (AList.delete tmp d, join_errors errs)
      | Some e \<Rightarrow> (d, if errors_is e S_NotExist then join_errors errs else join_errors (errs @ [Some e])))"

definition write_snapshot :: "save_io \<Rightarrow> bytes \<Rightarrow> bytes \<Rightarrow> bytes \<Rightarrow> store \<Rightarrow> store \<times> go_error option" where
  "write_snapshot io tmp name data d =
     (let d1 = AList.update tmp (Regular []) d;
          (out, werr) = write_full (si_answers io) data;
          d2 = AList.update tmp (Regular out) d in
      case si_chmod io of
        Some e \<Rightarrow> abandon io tmp d1 [Some (wrap_error ''chmod planner session temporary file: '' e), si_close io]
      | None \<Rightarrow>
      (case werr of
        Some e \<Rightarrow> abandon io tmp d2 [Some (wrap_error ''write planner session temporary file: '' e), si_close io]
      | None \<Rightarrow>
      (case si_sync io of
        Some e \<Rightarrow> abandon io tmp d2 [Some (wrap_error ''sync planner session temporary file: '' e), si_close io]
      | None \<Rightarrow>
      (case si_close io of
        Some e \<Rightarrow> abandon io tmp d2 [Some (wrap_error ''close planner session temporary file: '' e)]
      | None \<Rightarrow>
      (case si_rename io of
        Some e \<Rightarrow> abandon io tmp d2 [Some (wrap_error ''replace planner session: '' e)]
      | None \<Rightarrow>
          (AList.update name (Regular out) (AList.delete tmp d2),
           map_option (wrap_error ''sync planner session directory: '') (si_dir_sync io)))))))"

definition save_session :: "json \<Rightarrow> save_io \<Rightarrow> session \<Rightarrow> store \<Rightarrow> store \<times> go_error option" where
  "save_session js io s d =
     (case validate_stored_session js s of
        Some e \<Rightarrow> (d, Some e)
      | None \<Rightarrow>
          (case js_encode js s of
             Inl e \<Rightarrow> (d, Some (wrap_error ''marshal planner session: '' e))
           | Inr data \<Rightarrow>
               if MaxSessionBytes < length data
               then (d, Some (invalid_session (''encoded snapshot exceeds '' @ nat_text MaxSessionBytes @ '' bytes'')))
               else (case reject_existing_non_regular (si_lstat io) d (session_file_name (ss_id s)) of
                   Some e \<Rightarrow> (d, Some e)
                 | None \<Rightarrow>
                     (case create_temp io (ss_id s) d [0..<10] of
                        Inl e \<Rightarrow> (d, Some e)
                      | Inr tmp \<Rightarrow> write_snapshot io tmp (session_file_name (ss_id s)) data d))))"

record load_io =
  li_lstat :: "bytes \<Rightarrow> go_error option"
  li_open :: "go_error option"
  li_stat :: "go_error option"
  li_chmod :: "go_error option"
  li_read :: "go_error option"

definition load_session :: "json \<Rightarrow> load_io \<Rightarrow> bytes \<Rightarrow> store \<Rightarrow> go_error + session" where
  "load_session js io i d =
     (case require_regular (li_lstat io) d (session_file_name i) of
        Some e \<Rightarrow> Inl (if errors_is e S_NotExist
            then wrap_error (''no such planner session '' @ go_quote i @ '' (it may have completed or expired): '') e else e)
      | None \<Rightarrow>
      (case li_open io of Some e \<Rightarrow> Inl (wrap_error (''open planner session '' @ i @ '': '') e) | None \<Rightarrow>
      (case li_stat io of Some e \<Rightarrow> Inl (wrap_error (''inspect open planner session '' @ i @ '': '') e) | None \<Rightarrow>
      (case li_chmod io of Some e \<Rightarrow> Inl (wrap_error ''repair planner session mode: '' e) | None \<Rightarrow>
      (case li_read io of Some e \<Rightarrow> Inl (wrap_error (''read planner session '' @ i @ '': '') e) | None \<Rightarrow>
      (case map_of d (session_file_name i) of
         Some (Regular data) \<Rightarrow>
           if MaxSessionBytes < length data
           then Inl (invalid_session (''snapshot exceeds '' @ nat_text MaxSessionBytes @ '' bytes''))
           else (case js_decode js data of
               Inl e \<Rightarrow> Inl (wrap_error (''parse planner session '' @ i @ '': '') e)
             | Inr s \<Rightarrow>
           (case js_trailing js data of
               Some e \<Rightarrow> Inl (wrap_error (''parse planner session '' @ i @ '': trailing data: '') e)
             | None \<Rightarrow>
           (case validate_stored_session js s of
               Some e \<Rightarrow> Inl e
             | None \<Rightarrow>
                 if ss_id s \<noteq> i then Inl (invalid_session ''embedded session id does not match filename'')
                 else Inr s)))
       | _ \<Rightarrow> Inl (invalid_session ''session file is not regular'')))))))"

definition delete_session ::
  "(bytes \<Rightarrow> go_error option) \<Rightarrow> go_error option \<Rightarrow> go_error option \<Rightarrow> bytes \<Rightarrow> store \<Rightarrow> store \<times> go_error option" where
  "delete_session lstat remove dir_sync i d =
     (case require_regular lstat d (session_file_name i) of
        Some e \<Rightarrow> (d, if errors_is e S_NotExist then None else Some e)
      | None \<Rightarrow>
          (case remove of
             Some e \<Rightarrow>
               if errors_is e S_NotExist
               then (d, map_option (wrap_error ''sync planner session directory after delete: '') dir_sync)
               else (d, Some (wrap_error (''delete planner session '' @ i @ '': '') e))
           | None \<Rightarrow>
               (AList.delete (session_file_name i) d,
                map_option (wrap_error ''sync planner session directory after delete: '') dir_sync)))"

section \<open>What a stored session satisfies\<close>

definition good_call :: "json \<Rightarrow> tool_call \<Rightarrow> bool" where
  "good_call js c \<longleftrightarrow> validate_call_id (tc_id c) = None \<and> trim_space (tc_name c) \<noteq> []
     \<and> (\<exists>x. js_canonical js (tc_input c) = Inr x)"

definition proposed :: "session \<Rightarrow> tool_call list" where
  "proposed s = ms_calls (last (ss_messages s))"

text \<open>The declarative reading of \<open>validateStoredSession\<close>.\<close>

definition sound_session :: "json \<Rightarrow> session \<Rightarrow> bool" where
  "sound_session js s \<longleftrightarrow>
     ss_version s = SessionVersion \<and> length (ss_id s) = 64 \<and> list_all lower_hex (ss_id s)
     \<and> validate_state (ss_provider s) = None
     \<and> ss_messages s \<noteq> [] \<and> ms_role (last (ss_messages s)) = RoleAssistant \<and> proposed s \<noteq> []
     \<and> (\<forall>c \<in> set (proposed s). good_call js c) \<and> distinct (map tc_id (proposed s))
     \<and> distinct (map tr_call_id (ss_results s) @ map pc_call_id (ss_pending s))
     \<and> set (map tr_call_id (ss_results s) @ map pc_call_id (ss_pending s)) = tc_id ` set (proposed s)
     \<and> distinct (map pc_approval_id (ss_pending s))
     \<and> (\<forall>p \<in> set (ss_pending s). trim_space (pc_approval_id p) \<noteq> [] \<and> trim_space (pc_tool p) \<noteq> []
          \<and> (\<exists>c \<in> set (proposed s). tc_id c = pc_call_id p \<and> tc_name c = sanitize_tool_name (pc_tool p)))"

lemma check_calls_step:
  "check_calls js m (c # cs) = Inr m' \<longleftrightarrow>
     good_call js c \<and> map_of m (tc_id c) = None \<and> check_calls js (AList.update (tc_id c) c m) cs = Inr m'"
  by (auto simp: good_call_def split: option.splits sum.splits)

lemma check_calls_ok:
  "(\<exists>m'. check_calls js m cs = Inr m') \<longleftrightarrow>
     (\<forall>c \<in> set cs. good_call js c \<and> map_of m (tc_id c) = None) \<and> distinct (map tc_id cs)"
proof (induction cs arbitrary: m)
  case (Cons c cs)
  show ?case unfolding check_calls_step ex_simps using Cons.IH [of "AList.update (tc_id c) c m"]
    by (auto simp: map_of_update intro: rev_image_eqI)
qed simp

lemma check_calls_map:
  "check_calls js m cs = Inr m' \<Longrightarrow>
   map_of m' i = (case List.find (\<lambda>c. tc_id c = i) cs of Some c \<Rightarrow> Some c | None \<Rightarrow> map_of m i)"
proof (induction cs arbitrary: m)
  case (Cons c cs)
  from Cons.prems have r: "check_calls js (AList.update (tc_id c) c m) cs = Inr m'"
    unfolding check_calls_step by blast
  then have "\<exists>m'. check_calls js (AList.update (tc_id c) c m) cs = Inr m'" ..
  then have d: "\<forall>x \<in> set cs. tc_id x \<noteq> tc_id c" unfolding check_calls_ok by (auto simp: map_of_update split: if_splits)
  show ?case
  proof (cases "tc_id c = i")
    case True
    then have "List.find (\<lambda>c. tc_id c = i) cs = None" using d by (auto simp: find_None_iff)
    with True Cons.IH [OF r] show ?thesis by (simp add: map_of_update)
  next
    case False
    with Cons.IH [OF r] show ?thesis by (auto simp: map_of_update split: option.splits)
  qed
qed simp

lemma check_calls_domain:
  "check_calls js [] cs = Inr m \<Longrightarrow> map_of m i = List.find (\<lambda>c. tc_id c = i) cs"
  using check_calls_map [of js "[]" cs m i] by (simp split: option.splits)

definition result_ok :: "(bytes, tool_call) gomap \<Rightarrow> tool_result \<Rightarrow> bool" where
  "result_ok calls r \<longleftrightarrow> validate_call_id (tr_call_id r) = None \<and> map_of calls (tr_call_id r) \<noteq> None"

definition pending_ok :: "(bytes, tool_call) gomap \<Rightarrow> pending_call \<Rightarrow> bool" where
  "pending_ok calls x \<longleftrightarrow> validate_call_id (pc_call_id x) = None
     \<and> (\<exists>c. map_of calls (pc_call_id x) = Some c \<and> tc_name c = sanitize_tool_name (pc_tool x))
     \<and> trim_space (pc_approval_id x) \<noteq> [] \<and> trim_space (pc_tool x) \<noteq> []"

lemma check_results_step:
  "check_results calls p (r # rs) = Inr p' \<longleftrightarrow>
     result_ok calls r \<and> map_of p (tr_call_id r) = None
     \<and> check_results calls (AList.update (tr_call_id r) ''result'' p) rs = Inr p'"
  by (cases "validate_call_id (tr_call_id r)"; cases "map_of calls (tr_call_id r)"; cases "map_of p (tr_call_id r)")
    (simp_all add: result_ok_def Let_def)

lemma check_pendings_step:
  "check_pendings calls p as (x # ps) = Inr p' \<longleftrightarrow>
     pending_ok calls x \<and> map_of p (pc_call_id x) = None \<and> pc_approval_id x \<notin> set as
     \<and> check_pendings calls (AList.update (pc_call_id x) ''pending'' p) (pc_approval_id x # as) ps = Inr p'"
  by (cases "validate_call_id (pc_call_id x)"; cases "map_of calls (pc_call_id x)"; cases "map_of p (pc_call_id x)")
    (auto simp: pending_ok_def Let_def)

lemma check_results_ok:
  "(\<exists>p'. check_results calls p rs = Inr p') \<longleftrightarrow>
     (\<forall>r \<in> set rs. result_ok calls r \<and> map_of p (tr_call_id r) = None) \<and> distinct (map tr_call_id rs)"
proof (induction rs arbitrary: p)
  case (Cons r rs)
  show ?case unfolding check_results_step ex_simps using Cons.IH [of "AList.update (tr_call_id r) ''result'' p"]
    by (auto simp: map_of_update intro: rev_image_eqI)
qed simp

lemma check_results_dom:
  "check_results calls p rs = Inr p' \<Longrightarrow> dom (map_of p') = dom (map_of p) \<union> tr_call_id ` set rs"
proof (induction rs arbitrary: p)
  case (Cons r rs)
  then have "check_results calls (AList.update (tr_call_id r) ''result'' p) rs = Inr p'"
    unfolding check_results_step by blast
  from Cons.IH [OF this] show ?case by (auto simp: map_of_update split: if_splits)
qed simp

lemma check_pendings_ok:
  "(\<exists>p'. check_pendings calls p as ps = Inr p') \<longleftrightarrow>
     (\<forall>x \<in> set ps. pending_ok calls x \<and> map_of p (pc_call_id x) = None \<and> pc_approval_id x \<notin> set as)
     \<and> distinct (map pc_call_id ps) \<and> distinct (map pc_approval_id ps)"
proof (induction ps arbitrary: p as)
  case (Cons x ps)
  show ?case unfolding check_pendings_step ex_simps
    using Cons.IH [of "AList.update (pc_call_id x) ''pending'' p" "pc_approval_id x # as"]
    by (auto simp: map_of_update intro: rev_image_eqI)
qed simp

lemma check_pendings_dom:
  "check_pendings calls p as ps = Inr p' \<Longrightarrow> dom (map_of p') = dom (map_of p) \<union> pc_call_id ` set ps"
proof (induction ps arbitrary: p as)
  case (Cons x ps)
  then have "check_pendings calls (AList.update (pc_call_id x) ''pending'' p) (pc_approval_id x # as) ps = Inr p'"
    unfolding check_pendings_step by blast
  from Cons.IH [OF this] show ?case by (auto simp: map_of_update split: if_splits)
qed simp

lemma missing_call_None: "missing_call calls part = None \<longleftrightarrow> fst ` set calls \<subseteq> dom (map_of part)"
  by (auto simp: missing_call_def find_None_iff)

lemma parse_session_id_ok: "(\<exists>x. parse_session_id i = Inr x) \<longleftrightarrow> length i = 64 \<and> list_all lower_hex i"
  by (simp add: parse_session_id_def)

text \<open>The two loops over the results and the pending calls, together.\<close>

definition partition_ok :: "(bytes, tool_call) gomap \<Rightarrow> session \<Rightarrow> bool" where
  "partition_ok calls s \<longleftrightarrow>
     (\<exists>part part'. check_results calls [] (ss_results s) = Inr part
        \<and> check_pendings calls part [] (ss_pending s) = Inr part' \<and> missing_call calls part' = None)"

lemma pendings_after_results:
  assumes "check_results calls [] (ss_results s) = Inr part"
  shows "(\<exists>part'. check_pendings calls part [] (ss_pending s) = Inr part' \<and> missing_call calls part' = None)
    \<longleftrightarrow> (\<forall>p \<in> set (ss_pending s). pending_ok calls p \<and> pc_call_id p \<notin> tr_call_id ` set (ss_results s))
      \<and> distinct (map pc_call_id (ss_pending s)) \<and> distinct (map pc_approval_id (ss_pending s))
      \<and> fst ` set calls \<subseteq> tr_call_id ` set (ss_results s) \<union> pc_call_id ` set (ss_pending s)"
proof -
  have r: "dom (map_of part) = tr_call_id ` set (ss_results s)" using check_results_dom [OF assms] by simp
  have d: "map_of part i = None \<longleftrightarrow> i \<notin> tr_call_id ` set (ss_results s)" for i
    unfolding r [symmetric] by (simp add: domIff)
  have "(\<exists>part'. check_pendings calls part [] (ss_pending s) = Inr part' \<and> missing_call calls part' = None)
      \<longleftrightarrow> (\<exists>part'. check_pendings calls part [] (ss_pending s) = Inr part')
        \<and> fst ` set calls \<subseteq> tr_call_id ` set (ss_results s) \<union> pc_call_id ` set (ss_pending s)"
  proof -
    have "missing_call calls part' = None \<longleftrightarrow> fst ` set calls \<subseteq> tr_call_id ` set (ss_results s) \<union> pc_call_id ` set (ss_pending s)"
      if "check_pendings calls part [] (ss_pending s) = Inr part'" for part'
      using check_pendings_dom [OF that] r by (simp add: missing_call_None)
    then show ?thesis by blast
  qed
  then show ?thesis unfolding check_pendings_ok d by auto
qed

lemma partition_ok_iff:
  "partition_ok calls s \<longleftrightarrow>
     (\<forall>r \<in> set (ss_results s). result_ok calls r) \<and> distinct (map tr_call_id (ss_results s))
     \<and> (\<forall>p \<in> set (ss_pending s). pending_ok calls p \<and> pc_call_id p \<notin> tr_call_id ` set (ss_results s))
     \<and> distinct (map pc_call_id (ss_pending s)) \<and> distinct (map pc_approval_id (ss_pending s))
     \<and> fst ` set calls \<subseteq> tr_call_id ` set (ss_results s) \<union> pc_call_id ` set (ss_pending s)"
proof -
  have "partition_ok calls s \<longleftrightarrow> (\<exists>part. check_results calls [] (ss_results s) = Inr part)
     \<and> (\<forall>p \<in> set (ss_pending s). pending_ok calls p \<and> pc_call_id p \<notin> tr_call_id ` set (ss_results s))
     \<and> distinct (map pc_call_id (ss_pending s)) \<and> distinct (map pc_approval_id (ss_pending s))
     \<and> fst ` set calls \<subseteq> tr_call_id ` set (ss_results s) \<union> pc_call_id ` set (ss_pending s)"
    (is "_ \<longleftrightarrow> (\<exists>part. ?A part) \<and> ?B")
  proof -
    have "partition_ok calls s \<longleftrightarrow> (\<exists>part. ?A part
        \<and> (\<exists>part'. check_pendings calls part [] (ss_pending s) = Inr part' \<and> missing_call calls part' = None))"
      unfolding partition_ok_def by (simp only: ex_simps)
    also have "\<dots> \<longleftrightarrow> (\<exists>part. ?A part \<and> ?B)"
      using pendings_after_results [of calls s] by (intro iff_exI conj_cong refl) 
    finally show ?thesis by (simp only: ex_simps)
  qed
  then show ?thesis unfolding check_results_ok by auto
qed

lemma call_of:
  assumes "check_calls js [] cs = Inr calls"
  shows "map_of calls i = Some c \<longleftrightarrow> c \<in> set cs \<and> tc_id c = i" and "fst ` set calls = tc_id ` set cs"
proof -
  have "\<exists>m. check_calls js [] cs = Inr m" using assms ..
  then have d: "distinct (map tc_id cs)" unfolding check_calls_ok by blast
  have n: "map_of calls i = None \<longleftrightarrow> i \<notin> tc_id ` set cs" for i
    by (auto simp: check_calls_domain [OF assms] find_None_iff)
  show s: "map_of calls i = Some c \<longleftrightarrow> c \<in> set cs \<and> tc_id c = i" for i c
  proof
    show "map_of calls i = Some c \<Longrightarrow> c \<in> set cs \<and> tc_id c = i"
      unfolding check_calls_domain [OF assms] by (auto dest: find_SomeD)
    assume c: "c \<in> set cs \<and> tc_id c = i"
    then obtain c' where c': "map_of calls i = Some c'" using n [of i] by fastforce
    then have "c' \<in> set cs \<and> tc_id c' = i" unfolding check_calls_domain [OF assms] by (auto dest: find_SomeD)
    with c d have "c' = c" by (auto simp: distinct_map dest: inj_onD)
    with c' show "map_of calls i = Some c" by simp
  qed
  have "fst ` set calls = dom (map_of calls)" by (simp add: dom_map_of_conv_image_fst)
  also have "\<dots> = tc_id ` set cs" using n by (auto simp: domIff set_eq_iff simp del: not_None_eq)
  finally show "fst ` set calls = tc_id ` set cs" .
qed

lemma validate_iff_sound:
  "validate_stored_session js s = None \<longleftrightarrow> sound_session js s"
proof -
  let ?cs = "proposed s"
  have 1: "validate_stored_session js s = None \<longleftrightarrow>
     ss_version s = SessionVersion \<and> length (ss_id s) = 64 \<and> list_all lower_hex (ss_id s) \<and> validate_state (ss_provider s) = None
     \<and> ss_messages s \<noteq> [] \<and> ms_role (last (ss_messages s)) = RoleAssistant \<and> ?cs \<noteq> []
     \<and> (\<exists>calls. check_calls js [] ?cs = Inr calls \<and> partition_ok calls s)"
    unfolding parse_session_id_ok [symmetric] conj_assoc [symmetric]
    by (auto simp: validate_stored_session_def proposed_def partition_ok_def split: sum.splits option.splits)
  have 2: "partition_ok calls s \<longleftrightarrow>
       distinct (map tr_call_id (ss_results s) @ map pc_call_id (ss_pending s))
     \<and> set (map tr_call_id (ss_results s) @ map pc_call_id (ss_pending s)) = tc_id ` set ?cs
     \<and> distinct (map pc_approval_id (ss_pending s))
     \<and> (\<forall>p \<in> set (ss_pending s). trim_space (pc_approval_id p) \<noteq> [] \<and> trim_space (pc_tool p) \<noteq> []
          \<and> (\<exists>c \<in> set ?cs. tc_id c = pc_call_id p \<and> tc_name c = sanitize_tool_name (pc_tool p)))" (is "_ \<longleftrightarrow> ?Q")
    if m: "check_calls js [] ?cs = Inr calls" for calls
  proof -
    have "\<exists>m. check_calls js [] ?cs = Inr m" using m ..
    then have g: "\<forall>c \<in> set ?cs. validate_call_id (tc_id c) = None" unfolding check_calls_ok good_call_def by blast
    have r: "result_ok calls r \<longleftrightarrow> tr_call_id r \<in> tc_id ` set ?cs" for r
      using g by (auto simp: result_ok_def call_of [OF m] intro: rev_image_eqI)
    have p: "pending_ok calls p \<longleftrightarrow> trim_space (pc_approval_id p) \<noteq> [] \<and> trim_space (pc_tool p) \<noteq> []
        \<and> (\<exists>c \<in> set ?cs. tc_id c = pc_call_id p \<and> tc_name c = sanitize_tool_name (pc_tool p))" for p
      using g by (auto simp: pending_ok_def call_of [OF m])
    show ?thesis unfolding partition_ok_iff r p call_of(2) [OF m] by (auto simp: image_iff) metis+
  qed
  have "(\<exists>calls. check_calls js [] ?cs = Inr calls \<and> partition_ok calls s) \<longleftrightarrow> (\<exists>calls. check_calls js [] ?cs = Inr calls \<and> ?Q)"
    using 2 by (intro iff_exI conj_cong refl)
  also have "\<dots> \<longleftrightarrow> (\<exists>calls. check_calls js [] ?cs = Inr calls) \<and> ?Q" by (simp only: ex_simps)
  also have "(\<exists>calls. check_calls js [] ?cs = Inr calls) \<longleftrightarrow> (\<forall>c \<in> set ?cs. good_call js c) \<and> distinct (map tc_id ?cs)"
    unfolding check_calls_ok by simp
  finally show ?thesis unfolding sound_session_def 1 by (simp only: conj_assoc)
qed

text \<open>
  Validation of a stored session, completely. It accepts exactly the sessions of this
  version with a well-formed identifier and provider state whose conversation ends with an
  assistant turn that proposes well-formed calls under different identifiers, such that every
  one of these calls has exactly one result or exactly one pending approval and nothing else
  has, the approvals are different, and each names the tool of its call.
\<close>

theorem stored_session_validation:
  "validate_stored_session js s = None \<longleftrightarrow> sound_session js s"
  by (rule validate_iff_sound)

section \<open>Snapshots\<close>

lemma write_full_all: "write_full answers data = (out, None) \<Longrightarrow> out = data"
proof (induction answers data arbitrary: out rule: write_full.induct)
  case (3 n e answers c cs)
  then show ?case by (auto simp: Let_def split: option.splits if_splits prod.splits)
qed simp_all

lemma create_temp_name:
  "create_temp io i d ks = Inr tmp \<Longrightarrow> map_of d tmp = None \<and> hd tmp = CHR ''.'' \<and> tmp \<noteq> []"
  by (induction ks) (auto simp: temp_name_def split: sum.splits if_splits option.splits)

text \<open>What the writing of a snapshot leaves behind, wherever it stops.\<close>

lemma write_snapshot_effect:
  assumes "write_snapshot io tmp name data d = (d', err)" and "map_of d tmp = None" and "tmp \<noteq> name"
  shows "(map_of d' name = map_of d name \<and> err \<noteq> None \<or> map_of d' name = Some (Regular data))
    \<and> (\<forall>n. n \<noteq> name \<longrightarrow> map_of d' n = map_of d n \<or> n = tmp \<and> si_remove io \<noteq> None \<and> err \<noteq> None)"
proof -
  have gone: "abandon io tmp (AList.update tmp x d) (Some e # es) = (d', err) \<Longrightarrow>
      map_of d' name = map_of d name \<and> err \<noteq> None
      \<and> (\<forall>n. n \<noteq> name \<longrightarrow> map_of d' n = map_of d n \<or> n = tmp \<and> si_remove io \<noteq> None \<and> err \<noteq> None)" for x e es
    using assms(2,3) by (auto simp: abandon_def map_of_update map_of_delete join_errors_def split: option.splits if_splits)
  obtain out werr where w: "write_full (si_answers io) data = (out, werr)" by fastforce
  show ?thesis
  proof (cases "si_chmod io = None \<and> werr = None \<and> si_sync io = None \<and> si_close io = None \<and> si_rename io = None")
    case True
    then have "out = data" using w write_full_all by blast
    with True w assms show ?thesis
      by (auto simp: write_snapshot_def Let_def map_of_update map_of_delete split: if_splits)
  next
    case False
    then have "\<exists>x e es. abandon io tmp (AList.update tmp x d) (Some e # es) = (d', err)"
      using assms(1) w by (auto simp: write_snapshot_def Let_def split: option.splits)
    then show ?thesis using gone by blast
  qed
qed

lemma save_effect:
  assumes "save_session js io s d = (d', err)"
  shows "(map_of d' (session_file_name (ss_id s)) = map_of d (session_file_name (ss_id s)) \<and> err \<noteq> None
      \<or> sound_session js s \<and> (\<exists>data. js_encode js s = Inr data \<and> length data \<le> MaxSessionBytes
          \<and> map_of d' (session_file_name (ss_id s)) = Some (Regular data)))
    \<and> (\<forall>n. n \<noteq> session_file_name (ss_id s) \<longrightarrow>
         map_of d' n = map_of d n \<or> map_of d n = None \<and> si_remove io \<noteq> None \<and> err \<noteq> None)"
proof (cases "d' = d \<and> err \<noteq> None")
  case True
  then show ?thesis by simp
next
  case False
  then have v: "sound_session js s"
    using assms stored_session_validation [of js s] by (auto simp: save_session_def split: option.splits)
  obtain data tmp where e: "js_encode js s = Inr data" "length data \<le> MaxSessionBytes"
    and t: "create_temp io (ss_id s) d [0..<10] = Inr tmp"
    and w: "write_snapshot io tmp (session_file_name (ss_id s)) data d = (d', err)"
    using assms False by (auto simp: save_session_def split: option.splits sum.splits if_splits)
  obtain c cs where i: "ss_id s = c # cs" "lower_hex c"
    using v by (cases "ss_id s") (auto simp: sound_session_def)
  have "hd tmp = CHR ''.''" and n: "map_of d tmp = None" using create_temp_name [OF t] by simp_all
  moreover have "\<not> lower_hex (CHR ''.'')" by code_simp
  ultimately have "tmp \<noteq> session_file_name (ss_id s)" using i by (auto simp: session_file_name_def)
  from write_snapshot_effect [OF w n this] v e n show ?thesis by auto
qed

text \<open>
  A snapshot is replaced as a whole. Wherever saving a session fails, including in the
  middle of a write, the file of the session holds what it held or the whole new snapshot;
  success means the latter, and that the session is sound and fits the limit. No other file
  of the store is touched, except that the temporary file stays when its removal fails.
\<close>

theorem snapshot_never_torn:
  assumes "save_session js io s d = (d', err)"
  shows "(map_of d' (session_file_name (ss_id s)) = map_of d (session_file_name (ss_id s)) \<and> err \<noteq> None
      \<or> sound_session js s \<and> (\<exists>data. js_encode js s = Inr data \<and> length data \<le> MaxSessionBytes
          \<and> map_of d' (session_file_name (ss_id s)) = Some (Regular data)))
    \<and> (\<forall>n. n \<noteq> session_file_name (ss_id s) \<longrightarrow>
         map_of d' n = map_of d n \<or> map_of d n = None \<and> si_remove io \<noteq> None \<and> err \<noteq> None)"
  by (rule save_effect [OF assms])

lemma load_sound:
  assumes "load_session js io i d = Inr s"
  shows "sound_session js s \<and> ss_id s = i \<and> (\<exists>data. map_of d (session_file_name i) = Some (Regular data)
     \<and> length data \<le> MaxSessionBytes \<and> js_decode js data = Inr s)"
  using assms stored_session_validation [of js s]
  by (auto simp: load_session_def split: option.splits sum.splits if_splits store_file.splits)

definition calm_load :: load_io where
  "calm_load = \<lparr>li_lstat = (\<lambda>_. None), li_open = None, li_stat = None, li_chmod = None, li_read = None\<rparr>"

lemma load_calm:
  assumes "map_of d (session_file_name i) = Some (Regular data)" and "length data \<le> MaxSessionBytes"
    and "js_decode js data = Inr s" and "js_trailing js data = None" and "sound_session js s" and "ss_id s = i"
  shows "load_session js calm_load i d = Inr s"
  using assms stored_session_validation [of js s] by (simp add: load_session_def require_regular_def calm_load_def)

lemma session_file_name_inj [simp]: "session_file_name i = session_file_name j \<longleftrightarrow> i = j"
  by (simp add: session_file_name_def)

lemma load_unchanged:
  assumes "map_of d' (session_file_name j) = map_of d (session_file_name j)"
  shows "load_session js lio j d' = load_session js lio j d"
  unfolding load_session_def require_regular_def assms ..

text \<open>
  A session that was saved is the session that is loaded. If the codec reads back what
  it writes, then after a successful save a load that meets no fault of the file system gives
  the same session, and every other session loads as before the save. And whatever is in the
  directory, a load never gives an unsound session or one of another identifier.
\<close>

theorem saved_session_loads:
  assumes "\<forall>x data. js_encode js x = Inr data \<longrightarrow> js_decode js data = Inr x \<and> js_trailing js data = None"
    and "save_session js io s d = (d', None)"
  shows "load_session js calm_load (ss_id s) d' = Inr s
     \<and> (\<forall>j lio. j \<noteq> ss_id s \<longrightarrow> load_session js lio j d' = load_session js lio j d)
     \<and> (\<forall>j lio x. load_session js lio j d' = Inr x \<longrightarrow> sound_session js x \<and> ss_id x = j)"
proof -
  have l: "session_file_name (ss_id s) \<noteq> n \<Longrightarrow> map_of d' n = map_of d n" for n
    using save_effect [OF assms(2)] by auto
  obtain data where s: "sound_session js s" "js_encode js s = Inr data" "length data \<le> MaxSessionBytes"
    "map_of d' (session_file_name (ss_id s)) = Some (Regular data)"
    using save_effect [OF assms(2)] by auto
  have "load_session js calm_load (ss_id s) d' = Inr s"
    using s assms(1) by (intro load_calm) auto
  with l load_unchanged load_sound show ?thesis by (metis session_file_name_inj)
qed

section \<open>A session\<close>

definition sample_session :: session where
  "sample_session = \<lparr>ss_version = 1, ss_id = replicate 64 (CHR ''a''), ss_model = [],
     ss_provider = \<lparr>ps_version = 1, ps_entries = map state_entry_of (fb_entries sample_chain), ps_active = 1\<rparr>,
     ss_messages = [\<lparr>ms_role = RoleUser, ms_text = ''add milk'', ms_calls = [], ms_results = []\<rparr>,
       \<lparr>ms_role = RoleAssistant, ms_text = [], ms_calls =
          [\<lparr>tc_id = ''c1'', tc_name = ''task_list'', tc_input = ''{}''\<rparr>, \<lparr>tc_id = ''c2'', tc_name = ''task_add'', tc_input = ''{}''\<rparr>],
          ms_results = []\<rparr>],
     ss_results = [\<lparr>tr_call_id = ''c1'', tr_content = ''[]'', tr_is_error = False\<rparr>],
     ss_pending = [\<lparr>pc_call_id = ''c2'', pc_approval_id = ''00000007'', pc_tool = ''task.add'', pc_reason = []\<rparr>]\<rparr>"

definition sample_json :: json where
  "sample_json = \<lparr>js_canonical = Inr, js_encode = (\<lambda>s. if s = sample_session then Inr ''{...}'' else Inl (new_error ''other'')),
     js_decode = (\<lambda>data. Inr sample_session), js_trailing = (\<lambda>data. None)\<rparr>"

definition calm_save :: save_io where
  "calm_save = \<lparr>si_lstat = (\<lambda>_. None), si_random = (\<lambda>k. Inr (replicate 16 k)), si_open = None, si_chmod = None,
     si_answers = [(2, None)], si_sync = None, si_close = None, si_rename = None, si_remove = None, si_dir_sync = None\<rparr>"

lemma sample_session_valid: "validate_stored_session sample_json sample_session = None"
proof -
  have "list_all sound_entry (map state_entry_of (fb_entries sample_chain)) \<and> distinct (map state_entry_of (fb_entries sample_chain))"
    by code_simp
  moreover have "length (fb_entries sample_chain) = 2" by (simp add: sample_chain_def)
  ultimately have p: "validate_state (ss_provider sample_session) = None"
    by (simp add: validate_state_None sample_session_def ProviderStateVersion_def)
  have i: "parse_session_id (ss_id sample_session) = Inr (ss_id sample_session)" by code_simp
  have u: "list_all is_ascii ''c1'' \<and> list_all is_ascii ''c2''" by code_simp
  then have u: "valid_utf8 ''c1''" "valid_utf8 ''c2''" by (simp_all add: valid_utf8_ascii)
  have r: "\<not> list_ex (\<lambda>r. r \<in> set unicode_spaces \<or> control_rune r) (runes ''c1'')"
    "\<not> list_ex (\<lambda>r. r \<in> set unicode_spaces \<or> control_rune r) (runes ''c2'')" by code_simp+
  have c: "validate_call_id ''c1'' = None" "validate_call_id ''c2'' = None"
    using u r by (simp_all add: validate_call_id_def)
  have t: "trim_space ''task_list'' \<noteq> []" "trim_space ''task_add'' \<noteq> []" "trim_space ''task.add'' \<noteq> []"
    "trim_space ''00000007'' \<noteq> []" by code_simp+
  show ?thesis
    by (simp add: validate_stored_session_def p i) (simp add: sample_session_def SessionVersion_def c t sample_json_def
        sanitize_tool_name_def missing_call_def)
qed

lemma sample_session_saved:
  "save_session sample_json calm_save sample_session [(''old'', Irregular)]
     = ([(''old'', Irregular), (session_file_name (ss_id sample_session), Regular ''{...}'')], None)"
proof -
  let ?n = "session_file_name (ss_id sample_session)" and ?d = "[(''old'', Irregular)]"
  have n: "?n \<noteq> ''old''" by code_simp
  have e: "js_encode sample_json sample_session = Inr ''{...}''" by (simp add: sample_json_def)
  have t: "create_temp calm_save (ss_id sample_session) ?d [0..<10] = Inr (temp_name (ss_id sample_session) (replicate 16 0))"
  proof -
    have "temp_name (ss_id sample_session) (replicate 16 0) \<noteq> ''old''" by code_simp
    moreover have "[0..<10] = 0 # [1..<10::nat]" by (simp add: upt_rec)
    ultimately show ?thesis by (simp add: calm_save_def)
  qed
  have "temp_name (ss_id sample_session) (replicate 16 0) \<noteq> ''old''" by code_simp
  moreover have "temp_name (ss_id sample_session) (replicate 16 0) \<noteq> ?n" by code_simp
  ultimately have "write_snapshot calm_save (temp_name (ss_id sample_session) (replicate 16 0)) ?n ''{...}'' ?d
      = ([(''old'', Irregular), (?n, Regular ''{...}'')], None)"
    using n by (simp add: write_snapshot_def calm_save_def Let_def AList.delete_eq)
  moreover have "reject_existing_non_regular (si_lstat calm_save) ?d ?n = None"
    using n by (simp add: reject_existing_non_regular_def require_regular_def calm_save_def)
  ultimately show ?thesis by (simp add: save_session_def sample_session_valid e t MaxSessionBytes_def)
qed

lemma snapshot_never_torn_witness:
  "map_of [(''old'', Irregular), (session_file_name (ss_id sample_session), Regular ''{...}'')]
     (session_file_name (ss_id sample_session)) = Some (Regular ''{...}'')"
  using snapshot_never_torn [OF sample_session_saved] by (auto simp: sample_json_def session_file_name_def)

lemma saved_session_loads_witness:
  "load_session sample_json calm_load (ss_id sample_session)
     [(''old'', Irregular), (session_file_name (ss_id sample_session), Regular ''{...}'')] = Inr sample_session"
proof -
  have "\<forall>x data. js_encode sample_json x = Inr data \<longrightarrow> js_decode sample_json data = Inr x \<and> js_trailing sample_json data = None"
    by (simp add: sample_json_def)
  from saved_session_loads [OF this sample_session_saved] show ?thesis by blast
qed

end
