(* ===== verification/Client.thy ===== *)
theory Client
  imports Daemon
begin

text \<open>
  The daemon's client (\<open>internal/daemon/client/client.go\<close>): one request line per call, the
  pairing of the reply with its request, the mapping of wire errors back to typed errors, and
  the typed wrappers around the methods.

  The connection is a function on the world from the line that is written to the line that is
  read; JSON is the fields of \<open>client_codec\<close>. The counter of request ids is part of the
  client's state.
\<close>

record client_codec =
  cc_request :: "request \<Rightarrow> go_error + bytes"
  cc_response :: "bytes \<Rightarrow> go_error + response"
  cc_call_params :: "call_params \<Rightarrow> go_error + bytes"
  cc_id_params :: "bytes \<Rightarrow> go_error + bytes"
  cc_deny_params :: "bytes \<Rightarrow> bytes \<Rightarrow> go_error + bytes"
  cc_status_params :: "bytes \<Rightarrow> go_error + bytes"
  cc_tools :: "bytes \<Rightarrow> go_error + tool list"
  cc_pending :: "bytes \<Rightarrow> go_error + pending"
  cc_pendings :: "bytes \<Rightarrow> go_error + pending list"
  cc_queued :: "bytes \<Rightarrow> (bytes \<times> bytes \<times> bytes) option"

type_synonym 'w connection = "bytes \<Rightarrow> 'w \<Rightarrow> (go_error + bytes) \<times> 'w"

section \<open>Errors\<close>

definition strip_label :: "bytes \<Rightarrow> bytes \<Rightarrow> bytes" where
  "strip_label msg prefix = trim_space (trim_prefix msg (prefix @ '':''))"

definition not_found_text :: bytes where "not_found_text = ''tool not found''"
definition not_implemented_text :: bytes where "not_implemented_text = ''tool dispatch not implemented''"

definition map_error :: "rpc_error \<Rightarrow> go_error" where
  "map_error e =
     (if re_code e = CodeToolNotFound
      then sentinel_error S_ToolNotFound (not_found_text @ '': '' @ strip_label (re_message e) not_found_text)
      else if re_code e = CodeToolNotImplemented
      then sentinel_error S_NotImplemented (not_implemented_text @ '': '' @ strip_label (re_message e) not_implemented_text)
      else if re_code e = CodePolicyDenied
      then sentinel_error S_ClientPolicyDenied (''policy denied: '' @ strip_label (re_message e) ''policy denied'')
      else if re_code e = CodeApprovalUnknown
      then sentinel_error S_ApprovalUnknown (''approval id not found: '' @ re_message e)
      else sentinel_error (S_CallError (re_code e)) (''qid rpc error '' @ itoa (re_code e) @ '': '' @ re_message e))"

section \<open>Calls\<close>

definition client_call ::
  "client_codec \<Rightarrow> 'w connection \<Rightarrow> nat \<Rightarrow> bytes \<Rightarrow> bytes \<Rightarrow> 'w \<Rightarrow> (go_error + bytes) \<times> nat \<times> 'w" where
  "client_call cc conn n name params w =
     (let i = nat_text (n + 1)
      in case cc_request cc \<lparr>rq_jsonrpc = JSONRPCVersion, rq_method = name, rq_params = params, rq_id = i\<rparr> of
           Inl e \<Rightarrow> (Inl (wrap_error ''marshal request: '' e), n + 1, w)
         | Inr line \<Rightarrow>
             (case conn (line @ [newline]) w of
                (Inl e, w') \<Rightarrow> (Inl e, n + 1, w')
              | (Inr reply, w') \<Rightarrow>
                  (case cc_response cc reply of
                     Inl e \<Rightarrow> (Inl (wrap_error ''decode response: '' e), n + 1, w')
                   | Inr resp \<Rightarrow>
                       if rs_id resp \<noteq> i
                       then (Inl (new_error (''id mismatch: sent '' @ i @ '' got '' @ rs_id resp)), n + 1, w')
                       else (case rs_error resp of
                           Some e \<Rightarrow> (Inl (map_error e), n + 1, w')
                         | None \<Rightarrow> (Inr (rs_result resp), n + 1, w')))))"

text \<open>A typed wrapper: encode the parameters, call, decode the result.\<close>

definition typed_call ::
  "client_codec \<Rightarrow> 'w connection \<Rightarrow> nat \<Rightarrow> bytes \<Rightarrow> go_error + bytes \<Rightarrow> (bytes \<Rightarrow> go_error + 'a) \<Rightarrow> 'w
     \<Rightarrow> (go_error + 'a) \<times> nat \<times> 'w" where
  "typed_call cc conn n name params dec w =
     (case params of
        Inl e \<Rightarrow> (Inl (wrap_error ''marshal params: '' e), n, w)
      | Inr raw \<Rightarrow>
          (case client_call cc conn n name raw w of
             (Inl e, n', w') \<Rightarrow> (Inl e, n', w')
           | (Inr result, n', w') \<Rightarrow>
               (case dec result of
                  Inl e \<Rightarrow> (Inl (wrap_error (''decode '' @ name @ '': '') e), n', w')
                | Inr x \<Rightarrow> (Inr x, n', w'))))"

definition client_list_tools :: "client_codec \<Rightarrow> 'w connection \<Rightarrow> nat \<Rightarrow> 'w \<Rightarrow> (go_error + tool list) \<times> nat \<times> 'w" where
  "client_list_tools cc conn n w = typed_call cc conn n ''tools.list'' (Inr []) (cc_tools cc) w"

definition call_tool_as_with_id ::
  "client_codec \<Rightarrow> 'w connection \<Rightarrow> nat \<Rightarrow> bytes \<Rightarrow> bytes \<Rightarrow> bytes \<Rightarrow> bytes \<Rightarrow> 'w \<Rightarrow> (go_error + bytes) \<times> nat \<times> 'w" where
  "call_tool_as_with_id cc conn n caller call_id name args w =
     typed_call cc conn n ''tools.call''
       (cc_call_params cc \<lparr>cp_name = name, cp_arguments = args, cp_caller = caller, cp_call_id = call_id\<rparr>) Inr w"

definition call_tool_as ::
  "client_codec \<Rightarrow> 'w connection \<Rightarrow> nat \<Rightarrow> bytes \<Rightarrow> bytes \<Rightarrow> bytes \<Rightarrow> 'w \<Rightarrow> (go_error + bytes) \<times> nat \<times> 'w" where
  "call_tool_as cc conn n caller name args w = call_tool_as_with_id cc conn n caller [] name args w"

definition call_tool ::
  "client_codec \<Rightarrow> 'w connection \<Rightarrow> nat \<Rightarrow> bytes \<Rightarrow> bytes \<Rightarrow> 'w \<Rightarrow> (go_error + bytes) \<times> nat \<times> 'w" where
  "call_tool cc conn n name args w = call_tool_as cc conn n caller_cli name args w"

definition client_is_pending :: "client_codec \<Rightarrow> bytes \<Rightarrow> (bytes \<times> bytes) option" where
  "client_is_pending cc raw =
     (case cc_queued cc raw of
        None \<Rightarrow> None
      | Some (status, approval, reason) \<Rightarrow>
          if status = ''pending'' \<and> approval \<noteq> [] then Some (approval, reason) else None)"

definition list_approvals :: "client_codec \<Rightarrow> 'w connection \<Rightarrow> nat \<Rightarrow> bytes \<Rightarrow> 'w \<Rightarrow> (go_error + pending list) \<times> nat \<times> 'w" where
  "list_approvals cc conn n st w = typed_call cc conn n ''approval.list'' (cc_status_params cc st) (cc_pendings cc) w"

definition get_approval :: "client_codec \<Rightarrow> 'w connection \<Rightarrow> nat \<Rightarrow> bytes \<Rightarrow> 'w \<Rightarrow> (go_error + pending) \<times> nat \<times> 'w" where
  "get_approval cc conn n i w = typed_call cc conn n ''approval.get'' (cc_id_params cc i) (cc_pending cc) w"

definition approve_and_run :: "client_codec \<Rightarrow> 'w connection \<Rightarrow> nat \<Rightarrow> bytes \<Rightarrow> 'w \<Rightarrow> (go_error + pending) \<times> nat \<times> 'w" where
  "approve_and_run cc conn n i w = typed_call cc conn n ''approval.approve'' (cc_id_params cc i) (cc_pending cc) w"

definition deny_approval ::
  "client_codec \<Rightarrow> 'w connection \<Rightarrow> nat \<Rightarrow> bytes \<Rightarrow> bytes \<Rightarrow> 'w \<Rightarrow> (go_error + pending) \<times> nat \<times> 'w" where
  "deny_approval cc conn n i reason w = typed_call cc conn n ''approval.deny'' (cc_deny_params cc i reason) (cc_pending cc) w"

section \<open>The client over the server\<close>

text \<open>
  The connection to the modelled server: the line without its newline is handled, and what
  the server wrote is read back. A call that writes nothing ends with the error of the read.
\<close>

definition server_connection :: "'w server \<Rightarrow> call_env \<Rightarrow> 'w daemon_state connection" where
  "server_connection s env line d =
     (case handle_line s [] env (butlast line) d of
        None \<Rightarrow> (Inl (new_error ''read: EOF''), d)
      | Some (out, d') \<Rightarrow> (if out = [] then Inl (new_error ''read: EOF'') else Inr out, d'))"

text \<open>What the two codecs have to agree on.\<close>

definition codecs_agree :: "client_codec \<Rightarrow> codec \<Rightarrow> bool" where
  "codecs_agree cc c \<longleftrightarrow>
     (\<forall>req line. cc_request cc req = Inr line \<longrightarrow> c_request c line = Inr req)
     \<and> (\<forall>resp data. c_response c resp = Some data \<longrightarrow> cc_response cc (data @ [newline]) = Inr resp)"

text \<open>The reply of the server to the request of this number whose method returned \<open>r\<close>.\<close>

definition reply_to :: "nat \<Rightarrow> go_error + bytes \<Rightarrow> response" where
  "reply_to k r =
     (case r of
        Inl err \<Rightarrow> error_from_method (nat_text k) err
      | Inr result \<Rightarrow> success_response (nat_text k) (if result = [] then ''null'' else result))"

definition seen_by_client :: "go_error + bytes \<Rightarrow> go_error + bytes" where
  "seen_by_client r =
     (case r of
        Inl e \<Rightarrow> Inl (map_error (the (rs_error (error_from_method [] e))))
      | Inr result \<Rightarrow> Inr (if result = [] then ''null'' else result))"

lemma rs_error_id: "rs_error (error_from_method i e) = rs_error (error_from_method j e)"
  by (simp add: error_from_method_def split: option.splits)

lemma nat_text_not_null: "nat_text k \<noteq> []" "nat_text k \<noteq> ''null''"
proof -
  have l: "last (nat_text k) = digit_char (k mod 10)" "nat_text k \<noteq> []"
    by (subst nat_text.simps, simp)+
  show "nat_text k \<noteq> []" by (rule l)
  have "k mod 10 < 10" by simp
  then have "digit_char (k mod 10) \<noteq> CHR ''l''" by (auto simp: digit_char_def dest!: arg_cong [of _ _ "of_char :: char \<Rightarrow> nat"])
  with l show "nat_text k \<noteq> ''null''" by auto
qed

lemma first_denied_iff: "(\<exists>r. first_denied ss = Some r) \<longleftrightarrow> (\<exists>r. S_PolicyDenied r \<in> set ss)"
  by (induction ss rule: first_denied.induct) auto

lemma map_error_codes:
  "errors_is (map_error \<lparr>re_code = c, re_message = t\<rparr>) S_ToolNotFound \<longleftrightarrow> c = CodeToolNotFound"
  "errors_is (map_error \<lparr>re_code = c, re_message = t\<rparr>) S_NotImplemented \<longleftrightarrow> c = CodeToolNotImplemented"
  "errors_is (map_error \<lparr>re_code = c, re_message = t\<rparr>) S_ClientPolicyDenied \<longleftrightarrow> c = CodePolicyDenied"
  "errors_is (map_error \<lparr>re_code = c, re_message = t\<rparr>) S_ApprovalUnknown \<longleftrightarrow> c = CodeApprovalUnknown"
  by (simp_all add: map_error_def code_defs)

text \<open>The error the client reports keeps the kind of the error the method reported.\<close>

definition same_kind :: "go_error \<Rightarrow> go_error \<Rightarrow> bool" where
  "same_kind e e' \<longleftrightarrow>
     (errors_is e' S_ToolNotFound \<longleftrightarrow> errors_is e S_ToolNotFound)
     \<and> (errors_is e' S_NotImplemented \<longleftrightarrow> \<not> errors_is e S_ToolNotFound \<and> errors_is e S_NotImplemented)
     \<and> (errors_is e' S_ApprovalUnknown \<longleftrightarrow>
          \<not> errors_is e S_ToolNotFound \<and> \<not> errors_is e S_NotImplemented \<and> errors_is e S_ApprovalUnknown)
     \<and> (errors_is e' S_ClientPolicyDenied \<longleftrightarrow>
          \<not> errors_is e S_ToolNotFound \<and> \<not> errors_is e S_NotImplemented \<and> \<not> errors_is e S_ApprovalUnknown
          \<and> (\<exists>r. errors_is e (S_PolicyDenied r)))"

lemma kind_survives: "same_kind e (map_error (the (rs_error (error_from_method i e))))"
proof -
  have codes: "CodeToolNotFound \<noteq> CodeToolNotImplemented" "CodeToolNotFound \<noteq> CodePolicyDenied"
    "CodeToolNotFound \<noteq> CodeApprovalUnknown" "CodeToolNotImplemented \<noteq> CodePolicyDenied"
    "CodeToolNotImplemented \<noteq> CodeApprovalUnknown" "CodePolicyDenied \<noteq> CodeApprovalUnknown"
    "CodeInvalidParams \<notin> {CodeToolNotFound, CodeToolNotImplemented, CodePolicyDenied, CodeApprovalUnknown}"
    "CodeHandlerError \<notin> {CodeToolNotFound, CodeToolNotImplemented, CodePolicyDenied, CodeApprovalUnknown}"
    by (simp_all add: code_defs)
  note codes = codes(1-6) codes(1-6) [symmetric] codes(7,8) [simplified]
  have p: "(\<exists>r. errors_is e (S_PolicyDenied r)) \<longleftrightarrow> first_denied (err_chain e) \<noteq> None"
    using first_denied_iff [of "err_chain e"] by (auto simp: errors_is_def)
  show ?thesis
    by (cases "errors_is e S_ToolNotFound"; cases "errors_is e S_NotImplemented"; cases "errors_is e S_ApprovalUnknown";
        cases "first_denied (err_chain e)"; cases "first_invalid (err_chain e)")
      (simp_all add: same_kind_def error_from_method_def map_error_codes p codes)
qed

text \<open>
  The wire is transparent. When the codecs agree and can encode the
  request and the reply, calling a built-in method through the
  client and the server's line handler has the effect of the method itself: its result
  reaches the caller (an empty one as \<open>null\<close>), and its error reaches the caller as an error
  of the same kind, so that \<open>errors.Is\<close> on the client's side decides as on the server's.
\<close>

theorem client_gets_the_answer:
  assumes "codecs_agree cc (sv_codec s)"
    and "builtin_method s d name = Some h" and "h env params d = Some (r, d')"
    and "cc_request cc \<lparr>rq_jsonrpc = JSONRPCVersion, rq_method = name, rq_params = params, rq_id = nat_text (n + 1)\<rparr> = Inr line"
    and "c_response (sv_codec s) (reply_to (n + 1) r) = Some data"
  shows "client_call cc (server_connection s env) n name params d = (seen_by_client r, n + 1, d')
     \<and> (\<forall>e. r = Inl e \<longrightarrow> (\<exists>e'. seen_by_client r = Inl e' \<and> same_kind e e'))"
proof -
  let ?req = "\<lparr>rq_jsonrpc = JSONRPCVersion, rq_method = name, rq_params = params, rq_id = nat_text (n + 1)\<rparr>"
  have m: "name \<noteq> []" using assms(2) by (auto simp: builtin_method_def split: option.splits)
  have dec: "c_request (sv_codec s) line = Inr ?req" using assms(1,4) by (simp add: codecs_agree_def)
  have reply: "\<not> is_notification ?req" using nat_text_not_null by (simp add: is_notification_def)
  have "answer s [] env line d = Some (Some (reply_to (n + 1) r), d')"
    using dec m assms(2,3) reply by (auto simp: answer_def find_method_def reply_to_def split: sum.splits)
  moreover have data: "cc_response cc (data @ [newline]) = Inr (reply_to (n + 1) r)"
    using assms(1,5) by (simp add: codecs_agree_def)
  ultimately have "server_connection s env (line @ [newline]) d = (Inr (data @ [newline]), d')"
    using assms(5) by (simp add: server_connection_def handle_line_def write_response_def)
  moreover have "rs_id (reply_to (n + 1) r) = nat_text (n + 1)"
    using nat_text_not_null by (auto simp: reply_to_def success_response_def null_id_def split: sum.splits)
  ultimately have "client_call cc (server_connection s env) n name params d =
      (case rs_error (reply_to (n + 1) r) of Some e \<Rightarrow> Inl (map_error e) | None \<Rightarrow> Inr (rs_result (reply_to (n + 1) r)), n + 1, d')"
    using assms(4) data by (simp add: client_call_def Let_def split: option.splits)
  moreover have "(case rs_error (reply_to (n + 1) r) of Some e \<Rightarrow> Inl (map_error e) | None \<Rightarrow> Inr (rs_result (reply_to (n + 1) r))) = seen_by_client r"
  proof (cases r)
    case (Inl err)
    obtain x where "rs_error (error_from_method [] err) = Some x" using error_from_method_fields(4) by blast
    then show ?thesis using Inl rs_error_id [of "nat_text (n + 1)" err "[]"] by (simp add: reply_to_def seen_by_client_def)
  next
    case (Inr result)
    then show ?thesis by (simp add: reply_to_def seen_by_client_def success_response_def)
  qed
  moreover have "\<exists>e'. seen_by_client (Inl e) = Inl e' \<and> same_kind e e'" for e
    using kind_survives by (auto simp: seen_by_client_def)
  ultimately show ?thesis by auto
qed

section \<open>A client\<close>

definition sample_list_request :: request where
  "sample_list_request = \<lparr>rq_jsonrpc = JSONRPCVersion, rq_method = ''tools.list'', rq_params = [], rq_id = nat_text 8\<rparr>"

definition sample_list_server :: "unit server" where
  "sample_list_server = sample_server\<lparr>sv_codec := sample_codec\<lparr>c_request := (\<lambda>line. Inr sample_list_request),
     c_response := (\<lambda>r. if r = reply_to 8 (Inr ''[]'') then Some ''ok'' else None)\<rparr>\<rparr>"

definition sample_client_codec :: client_codec where
  "sample_client_codec = \<lparr>cc_request = (\<lambda>r. if r = sample_list_request then Inr ''list'' else Inl (new_error ''no'')),
     cc_response = (\<lambda>b. Inr (reply_to 8 (Inr ''[]''))), cc_call_params = (\<lambda>p. Inr (cp_name p)), cc_id_params = Inr,
     cc_deny_params = (\<lambda>i r. Inr i), cc_status_params = Inr, cc_tools = (\<lambda>b. Inr []), cc_pending = (\<lambda>b. Inl (new_error ''no'')),
     cc_pendings = (\<lambda>b. Inr []), cc_queued = (\<lambda>b. None)\<rparr>"

lemma client_gets_the_answer_witness:
  "client_call sample_client_codec (server_connection sample_list_server sample_env) 7 ''tools.list'' [] sample_state
     = (Inr ''[]'', 8, sample_state)"
proof -
  have a: "codecs_agree sample_client_codec (sv_codec sample_list_server)"
    by (auto simp: codecs_agree_def sample_client_codec_def sample_list_server_def split: if_splits)
  have m: "builtin_method sample_list_server sample_state ''tools.list'' = Some (tools_list sample_list_server)"
    by (simp add: builtin_method_def)
  have h: "tools_list sample_list_server sample_env [] sample_state = Some (Inr ''[]'', sample_state)"
    by (simp add: tools_list_def sample_list_server_def sample_codec_def)
  have q: "cc_request sample_client_codec \<lparr>rq_jsonrpc = JSONRPCVersion, rq_method = ''tools.list'', rq_params = [],
      rq_id = nat_text (7 + 1)\<rparr> = Inr ''list''" by (simp add: sample_client_codec_def sample_list_request_def)
  have c: "c_response (sv_codec sample_list_server) (reply_to (7 + 1) (Inr ''[]'')) = Some ''ok''"
    by (simp add: sample_list_server_def)
  from client_gets_the_answer [OF a m h q c] show ?thesis by (simp add: seen_by_client_def)
qed

end
