(* ===== verification/Planner.thy ===== *)
theory Planner
  imports Session Client
begin

text \<open>
  The planner of \<open>internal/ai\<close> (\<open>planner.go\<close>, \<open>planner_loop.go\<close>,
  \<open>planner_resume.go\<close>): a conversation with a language model whose tool calls go through the
  daemon, stop at the approval gate, and continue from a saved session.

  Everything the planner calls is a field of \<open>planner_env\<close>, a function on the world: the
  model, the calls of the daemon's client, and the store of sessions. The loop is bounded by
  its iterations, which are its recursion.
\<close>

definition DefaultMaxIterations :: int where "DefaultMaxIterations = 8"
definition DefaultMaxTokens :: int where "DefaultMaxTokens = 2048"
definition CallerPrefix :: bytes where "CallerPrefix = ''ai-planner:''"
definition StopAwaitingApproval :: bytes where "StopAwaitingApproval = ''awaiting_approval''"

record planner =
  pk_model :: bytes
  pk_max_tokens :: int
  pk_max_iterations :: int
  pk_session :: bytes

record 'w planner_env =
  pn_generate :: "'w llm"
  pn_state :: "('w \<Rightarrow> go_error + provider_state) option"
  pn_list_tools :: "'w \<Rightarrow> (go_error + tool list) \<times> 'w"
  pn_call :: "bytes \<Rightarrow> bytes \<Rightarrow> bytes \<Rightarrow> bytes \<Rightarrow> 'w \<Rightarrow> (go_error + bytes) \<times> 'w"
  pn_is_pending :: "bytes \<Rightarrow> (bytes \<times> bytes) option"
  pn_deny :: "bytes \<Rightarrow> bytes \<Rightarrow> 'w \<Rightarrow> go_error option \<times> 'w"
  pn_get :: "bytes \<Rightarrow> 'w \<Rightarrow> (go_error + pending) \<times> 'w"
  pn_save :: "session \<Rightarrow> 'w \<Rightarrow> go_error option \<times> 'w"
  pn_json :: json

definition new_for_resume :: "bytes \<Rightarrow> planner" where
  "new_for_resume i =
     \<lparr>pk_model = [], pk_max_tokens = DefaultMaxTokens, pk_max_iterations = DefaultMaxIterations, pk_session = i\<rparr>"

definition new_planner :: "go_error + nat list \<Rightarrow> go_error + planner" where
  "new_planner random = (case generate_session_id random of Inl e \<Rightarrow> Inl e | Inr i \<Rightarrow> Inr (new_for_resume i))"

definition planner_caller :: "planner \<Rightarrow> bytes" where
  "planner_caller p = CallerPrefix @ pk_session p"

record call_record =
  cr_name :: bytes
  cr_input :: bytes
  cr_pending :: bool
  cr_error :: bytes
  cr_result_id :: bytes

record turn_event =
  te_iteration :: nat
  te_text :: bytes
  te_calls :: "call_record list"

record run_result =
  rr_final :: bytes
  rr_turns :: "turn_event list"
  rr_pending :: "pending_call list"
  rr_session_id :: bytes
  rr_stop :: bytes
  rr_usage :: usage

definition empty_result :: run_result where
  "empty_result = \<lparr>rr_final = [], rr_turns = [], rr_pending = [], rr_session_id = [], rr_stop = [],
     rr_usage = \<lparr>us_input = 0, us_output = 0, us_cache_creation = 0, us_cache_read = 0\<rparr>\<rparr>"

definition add_usage :: "usage \<Rightarrow> usage \<Rightarrow> usage" where
  "add_usage a b = \<lparr>us_input = us_input a + us_input b, us_output = us_output a + us_output b,
     us_cache_creation = us_cache_creation a + us_cache_creation b, us_cache_read = us_cache_read a + us_cache_read b\<rparr>"

section \<open>Tools\<close>

fun build_tool_defs :: "(bytes, bytes) gomap \<Rightarrow> tool list \<Rightarrow> go_error + tool_def list \<times> (bytes, bytes) gomap" where
  "build_tool_defs names [] = Inr ([], names)"
| "build_tool_defs names (t # ts) =
     (let api = sanitize_tool_name (t_name t) in
      case map_of names api of
        Some previous \<Rightarrow> Inl (new_error (''ai: sanitized name '' @ go_quote api @ '' collides between '' @
            go_quote previous @ '' and '' @ go_quote (t_name t)))
      | None \<Rightarrow>
          (case build_tool_defs (AList.update api (t_name t) names) ts of
             Inl e \<Rightarrow> Inl e
           | Inr (defs, names') \<Rightarrow>
               Inr (\<lparr>td_name = api, td_description = t_description t, td_schema = t_schema t\<rparr> # defs, names')))"

definition planner_tools :: "'w planner_env \<Rightarrow> 'w \<Rightarrow> (go_error + tool_def list \<times> (bytes, bytes) gomap) \<times> 'w" where
  "planner_tools env w =
     (case pn_list_tools env w of
        (Inl e, w') \<Rightarrow> (Inl (wrap_error ''ai: list tools: '' e), w')
      | (Inr catalog, w') \<Rightarrow> (build_tool_defs [] catalog, w'))"

definition system_prompt :: "bytes \<Rightarrow> bytes" where
  "system_prompt caller =
     ''You are the Qi assistant'' @ [CHR 0x27] @ ''s planner. You are calling tools as caller='' @ [CHR 34] @ caller @ [CHR 34] @ ''. '' @
     ''Mutating tools route through a human approval queue and return tool errors of the form '' @
     [CHR 34] @ ''approval required (id=...)'' @ [CHR 34] @
     ''. When you see one, tell the user verbatim which command to run, then stop calling tools.''"

section \<open>Tool calls of a turn\<close>

fun canonical_tool_calls :: "json \<Rightarrow> bytes list \<Rightarrow> tool_call list \<Rightarrow> go_error + tool_call list" where
  "canonical_tool_calls js seen [] = Inr []"
| "canonical_tool_calls js seen (c # cs) =
     (case validate_call_id (tc_id c) of
        Some e \<Rightarrow> Inl (wrap_error (''call id '' @ go_quote (tc_id c) @ '': '') e)
      | None \<Rightarrow>
          if tc_id c \<in> set seen then Inl (new_error (''duplicate call id '' @ go_quote (tc_id c)))
          else (case js_canonical js (tc_input c) of
              Inl e \<Rightarrow> Inl (wrap_error (''call '' @ go_quote (tc_id c) @ '' input: '') e)
            | Inr input \<Rightarrow>
                (case canonical_tool_calls js (tc_id c # seen) cs of
                   Inl e \<Rightarrow> Inl e
                 | Inr rest \<Rightarrow> Inr (c\<lparr>tc_input := input\<rparr> # rest))))"

definition qid_name :: "(bytes, bytes) gomap \<Rightarrow> tool_call \<Rightarrow> bytes" where
  "qid_name names c = (case map_of names (tc_name c) of Some n \<Rightarrow> n | None \<Rightarrow> tc_name c)"

text \<open>What one call contributes: its result, its record and, when it is queued, its pending call.\<close>

definition run_tool_call ::
  "'w planner_env \<Rightarrow> planner \<Rightarrow> (bytes, bytes) gomap \<Rightarrow> tool_call \<Rightarrow> 'w
     \<Rightarrow> (tool_result \<times> call_record \<times> pending_call option) \<times> 'w" where
  "run_tool_call env p names c w =
     (let name = qid_name names c;
          rec = \<lparr>cr_name = name, cr_input = tc_input c, cr_pending = False, cr_error = [], cr_result_id = tc_id c\<rparr>
      in case pn_call env (planner_caller p) (tc_id c) name (tc_input c) w of
           (Inl e, w') \<Rightarrow>
             ((\<lparr>tr_call_id = tc_id c, tr_content = ''error: '' @ err_text e, tr_is_error = True\<rparr>,
               rec\<lparr>cr_error := err_text e\<rparr>, None), w')
         | (Inr raw, w') \<Rightarrow>
             (case pn_is_pending env raw of
                Some (approval, reason) \<Rightarrow>
                  ((\<lparr>tr_call_id = tc_id c, tr_content = ''awaiting approval '' @ approval, tr_is_error = True\<rparr>,
                    rec\<lparr>cr_pending := True\<rparr>,
                    Some \<lparr>pc_call_id = tc_id c, pc_approval_id = approval, pc_tool = name, pc_reason = reason\<rparr>), w')
              | None \<Rightarrow> ((\<lparr>tr_call_id = tc_id c, tr_content = raw, tr_is_error = False\<rparr>, rec, None), w')))"

fun run_tool_calls ::
  "'w planner_env \<Rightarrow> planner \<Rightarrow> (bytes, bytes) gomap \<Rightarrow> tool_call list \<Rightarrow> 'w
     \<Rightarrow> (tool_result list \<times> call_record list \<times> pending_call list) \<times> 'w" where
  "run_tool_calls env p names [] w = (([], [], []), w)"
| "run_tool_calls env p names (c # cs) w =
     (case run_tool_call env p names c w of
        ((r, rec, pend), w') \<Rightarrow>
          (case run_tool_calls env p names cs w' of
             ((rs, recs, pends), w'') \<Rightarrow>
               ((r # rs, rec # recs, (case pend of None \<Rightarrow> pends | Some x \<Rightarrow> x # pends)), w'')))"

definition resolved_results :: "tool_result list \<Rightarrow> pending_call list \<Rightarrow> tool_result list" where
  "resolved_results rs pends = filter (\<lambda>r. tr_call_id r \<notin> pc_call_id ` set pends) rs"

fun deny_unpersisted :: "'w planner_env \<Rightarrow> pending_call list \<Rightarrow> 'w \<Rightarrow> go_error option list \<times> 'w" where
  "deny_unpersisted env [] w = ([], w)"
| "deny_unpersisted env (x # xs) w =
     (case pn_deny env (pc_approval_id x) ''planner session persistence failed'' w of
        (e, w') \<Rightarrow>
          (case deny_unpersisted env xs w' of
             (es, w'') \<Rightarrow>
               (map_option (wrap_error (''ai: deny unpersisted approval '' @ pc_approval_id x @ '': '')) e # es, w'')))"

section \<open>The loop\<close>

definition turn_session ::
  "planner \<Rightarrow> provider_state \<Rightarrow> message list \<Rightarrow> tool_result list \<Rightarrow> pending_call list \<Rightarrow> session" where
  "turn_session p st messages rs pends =
     \<lparr>ss_version = SessionVersion, ss_id = pk_session p, ss_model = pk_model p, ss_provider = st,
      ss_messages = messages, ss_results = resolved_results rs pends, ss_pending = pends\<rparr>"

definition give_up_turn ::
  "'w planner_env \<Rightarrow> pending_call list \<Rightarrow> run_result \<Rightarrow> go_error \<Rightarrow> 'w \<Rightarrow> (run_result \<times> go_error option) \<times> 'w" where
  "give_up_turn env pends result e w =
     (case deny_unpersisted env pends w of (es, w') \<Rightarrow> ((result, join_errors (Some e # es)), w'))"

text \<open>The turn ends at the gate: the session is saved, or the queued calls are denied.\<close>

definition stop_at_gate ::
  "'w planner_env \<Rightarrow> planner \<Rightarrow> message list \<Rightarrow> tool_result list \<Rightarrow> pending_call list \<Rightarrow> run_result \<Rightarrow> 'w
     \<Rightarrow> (run_result \<times> go_error option) \<times> 'w" where
  "stop_at_gate env p messages rs pends result w =
     (case pn_state env of
        None \<Rightarrow> give_up_turn env pends result (new_error ''ai: provider does not expose resumable state'') w
      | Some state \<Rightarrow>
          (case state w of
             Inl e \<Rightarrow> give_up_turn env pends result (wrap_error ''ai: snapshot provider state: '' e) w
           | Inr st \<Rightarrow>
               (case pn_save env (turn_session p st messages rs pends) w of
                  (Some e, w') \<Rightarrow> give_up_turn env pends result (wrap_error ''ai: persist session: '' e) w'
                | (None, w') \<Rightarrow>
                    ((result\<lparr>rr_session_id := pk_session p, rr_stop := StopAwaitingApproval\<rparr>, None), w'))))"

fun planner_loop ::
  "'w planner_env \<Rightarrow> planner \<Rightarrow> tool_def list \<Rightarrow> (bytes, bytes) gomap \<Rightarrow> nat \<Rightarrow> nat \<Rightarrow> run_result
     \<Rightarrow> message list \<Rightarrow> 'w \<Rightarrow> (run_result \<times> go_error option) \<times> 'w" where
  "planner_loop env p defs names 0 i result messages w = ((result\<lparr>rr_stop := ''max_iterations''\<rparr>, None), w)"
| "planner_loop env p defs names (Suc k) i result messages w =
     (case pn_generate env \<lparr>gr_model = pk_model p, gr_system = system_prompt (planner_caller p), gr_messages = messages,
              gr_tools = defs, gr_max_tokens = pk_max_tokens p, gr_cache_system = True\<rparr> w of
        (Inl e, w1) \<Rightarrow> ((result, Some (wrap_error ''ai: generate: '' (le_error e))), w1)
      | (Inr resp, w1) \<Rightarrow>
          (let result1 = result\<lparr>rr_usage := add_usage (rr_usage result) (rp_usage resp)\<rparr>;
               turn = \<lparr>te_iteration = i, te_text = trim_space (rp_text resp), te_calls = []\<rparr>
           in if rp_calls resp = []
              then ((result1\<lparr>rr_turns := rr_turns result1 @ [turn], rr_final := te_text turn, rr_stop := rp_stop resp\<rparr>, None), w1)
              else (case canonical_tool_calls (pn_json env) [] (rp_calls resp) of
                  Inl e \<Rightarrow> ((result1, Some (wrap_error ''ai: invalid tool calls: '' e)), w1)
                | Inr calls \<Rightarrow>
                    (case run_tool_calls env p names calls w1 of
                       ((rs, recs, pends), w2) \<Rightarrow>
                         (let result2 = result1\<lparr>rr_turns := rr_turns result1 @ [turn\<lparr>te_calls := recs\<rparr>]\<rparr>;
                              messages' = messages @ [\<lparr>ms_role = RoleAssistant, ms_text = rp_text resp, ms_calls = calls, ms_results = []\<rparr>]
                          in if pends \<noteq> []
                             then stop_at_gate env p messages' rs pends (result2\<lparr>rr_pending := rr_pending result2 @ pends\<rparr>) w2
                             else planner_loop env p defs names k (Suc i) result2
                                    (messages' @ [\<lparr>ms_role = RoleUser, ms_text = [], ms_calls = [], ms_results = rs\<rparr>]) w2)))))"

definition run_loop ::
  "'w planner_env \<Rightarrow> planner \<Rightarrow> tool_def list \<times> (bytes, bytes) gomap \<Rightarrow> message list \<Rightarrow> 'w
     \<Rightarrow> (run_result \<times> go_error option) \<times> 'w" where
  "run_loop env p tools messages w =
     planner_loop env p (fst tools) (snd tools) (nat (pk_max_iterations p)) 0 empty_result messages w"

definition planner_run :: "'w planner_env \<Rightarrow> planner \<Rightarrow> bytes \<Rightarrow> 'w \<Rightarrow> (run_result \<times> go_error option) \<times> 'w" where
  "planner_run env p prompt w =
     (if trim_space prompt = [] then ((empty_result, Some (new_error ''ai.Run: prompt is empty'')), w)
      else (case planner_tools env w of
          (Inl e, w') \<Rightarrow> ((empty_result, Some e), w')
        | (Inr tools, w') \<Rightarrow>
            run_loop env p tools [\<lparr>ms_role = RoleUser, ms_text = prompt, ms_calls = [], ms_results = []\<rparr>] w'))"

section \<open>Resuming\<close>

definition approval_binding_error :: "json \<Rightarrow> planner \<Rightarrow> tool_call \<Rightarrow> pending_call \<Rightarrow> pending \<Rightarrow> go_error option" where
  "approval_binding_error js p c x a =
     (if p_id a \<noteq> pc_approval_id x then Some (new_error ''ai.Resume: approval id binding mismatch'')
      else if p_caller a \<noteq> planner_caller p then Some (new_error ''ai.Resume: approval caller binding mismatch'')
      else if p_call_id a \<noteq> tc_id c then Some (new_error ''ai.Resume: approval call id binding mismatch'')
      else if p_tool a \<noteq> pc_tool x then Some (new_error ''ai.Resume: approval tool binding mismatch'')
      else (case js_canonical js (tc_input c) of
          Inl e \<Rightarrow> Some (wrap_error ''ai.Resume: canonicalize persisted params: '' e)
        | Inr mine \<Rightarrow>
            (case js_canonical js (p_params a) of
               Inl e \<Rightarrow> Some (wrap_error ''ai.Resume: canonicalize approval params: '' e)
             | Inr theirs \<Rightarrow> if mine \<noteq> theirs then Some (new_error ''ai.Resume: approval params binding mismatch'') else None)))"

definition settled_result :: "tool_call \<Rightarrow> pending_call \<Rightarrow> pending \<Rightarrow> go_error + tool_result" where
  "settled_result c x a =
     (let said = (\<lambda>text more. \<lparr>tr_call_id = tc_id c, tr_content = text @ (if more \<noteq> [] then '': '' @ more else []), tr_is_error = True\<rparr>)
      in if p_status a = StatusExecuted then Inr \<lparr>tr_call_id = tc_id c, tr_content = p_result a, tr_is_error = False\<rparr>
         else if p_status a = StatusDenied then Inr (said ''the user denied this action'' (p_reason a))
         else if p_status a = StatusFailed then Inr (said ''the approved action failed to execute'' (p_err a))
         else if p_status a = StatusPending \<or> p_status a = StatusApproved
         then Inl (new_error (''approval '' @ pc_approval_id x @ '' is not resolved yet (status '' @ go_quote (p_status a) @
                ''); run '' @ [CHR 0x27] @ ''qi ai approve '' @ pc_approval_id x @ [CHR 0x27] @ '' first''))
         else Inl (new_error (''approval '' @ pc_approval_id x @ '' has unsupported status '' @ go_quote (p_status a))))"

definition resolve_approval ::
  "'w planner_env \<Rightarrow> planner \<Rightarrow> tool_call \<Rightarrow> pending_call \<Rightarrow> 'w \<Rightarrow> (go_error + tool_result) \<times> 'w" where
  "resolve_approval env p c x w =
     (case pn_get env (pc_approval_id x) w of
        (Inl e, w') \<Rightarrow> (Inl (wrap_error (''ai.Resume: fetch approval '' @ pc_approval_id x @ '': '') e), w')
      | (Inr a, w') \<Rightarrow>
          (case approval_binding_error (pn_json env) p c x a of
             Some e \<Rightarrow> (Inl e, w')
           | None \<Rightarrow> (settled_result c x a, w')))"

definition no_pending :: pending_call where
  "no_pending = \<lparr>pc_call_id = [], pc_approval_id = [], pc_tool = [], pc_reason = []\<rparr>"

fun resume_results ::
  "'w planner_env \<Rightarrow> planner \<Rightarrow> session \<Rightarrow> tool_call list \<Rightarrow> 'w \<Rightarrow> (go_error + tool_result list) \<times> 'w" where
  "resume_results env p s [] w = (Inr [], w)"
| "resume_results env p s (c # cs) w =
     (let rest = (\<lambda>r w. case resume_results env p s cs w of
                          (Inl e, w') \<Rightarrow> (Inl e, w') | (Inr rs, w') \<Rightarrow> (Inr (r # rs), w'))
      in case List.find (\<lambda>r. tr_call_id r = tc_id c) (rev (ss_results s)) of
           Some r \<Rightarrow> rest r w
         | None \<Rightarrow>
             (let x = (case List.find (\<lambda>x. pc_call_id x = tc_id c) (rev (ss_pending s)) of None \<Rightarrow> no_pending | Some x \<Rightarrow> x)
              in case resolve_approval env p c x w of
                   (Inl e, w') \<Rightarrow> (Inl e, w')
                 | (Inr r, w') \<Rightarrow> rest r w'))"

definition resumed_planner :: "planner \<Rightarrow> session \<Rightarrow> planner" where
  "resumed_planner p s =
     p\<lparr>pk_session := ss_id s, pk_model := (if ss_model s \<noteq> [] then ss_model s else pk_model p)\<rparr>"

definition planner_resume ::
  "'w planner_env \<Rightarrow> planner \<Rightarrow> session \<Rightarrow> 'w \<Rightarrow> (run_result \<times> go_error option) \<times> planner \<times> 'w" where
  "planner_resume env p0 s w =
     (case validate_stored_session (pn_json env) s of
        Some e \<Rightarrow> ((empty_result, Some (wrap_error ''ai.Resume: '' e)), p0, w)
      | None \<Rightarrow>
          (let p = resumed_planner p0 s in
           case resume_results env p s (ms_calls (last (ss_messages s))) w of
             (Inl e, w') \<Rightarrow> ((empty_result, Some e), p, w')
           | (Inr rs, w') \<Rightarrow>
               (case planner_tools env w' of
                  (Inl e, w'') \<Rightarrow> ((empty_result, Some e), p, w'')
                | (Inr tools, w'') \<Rightarrow>
                    (case run_loop env p tools
                        (ss_messages s @ [\<lparr>ms_role = RoleUser, ms_text = [], ms_calls = [], ms_results = rs\<rparr>]) w'' of
                       (out, w3) \<Rightarrow> (out, p, w3)))))"

section \<open>What the planner does to the world\<close>

text \<open>
  A backend is careful if every call the planner can make respects a relation between
  worlds; tool calls have to do so only for callers other than the command line.
\<close>

locale careful_backend =
  fixes env :: "'w planner_env" and R :: "'w \<Rightarrow> 'w \<Rightarrow> bool"
  assumes same: "R w w"
    and trans: "R a b \<Longrightarrow> R b c \<Longrightarrow> R a c"
    and generate: "R w (snd (pn_generate env req w))"
    and list_tools: "R w (snd (pn_list_tools env w))"
    and call: "caller \<noteq> caller_cli \<Longrightarrow> R w (snd (pn_call env caller i n x w))"
    and deny: "R w (snd (pn_deny env i r w))"
    and get: "R w (snd (pn_get env i w))"
    and save: "R w (snd (pn_save env s w))"
begin

lemma to: "snd (f w) = w' \<Longrightarrow> R w (snd (f w)) \<Longrightarrow> R w w'"
  by simp

lemma planner_is_not_cli: "planner_caller p \<noteq> caller_cli"
  by (simp add: planner_caller_def CallerPrefix_def caller_cli_def)

lemma run_tool_call: "R w (snd (run_tool_call env p names c w))"
  using call [OF planner_is_not_cli, of w p "tc_id c" "qid_name names c" "tc_input c"]
  by (auto simp: run_tool_call_def Let_def split: prod.splits sum.splits option.splits)

lemma run_tool_calls: "R w (snd (run_tool_calls env p names cs w))"
proof (induction cs arbitrary: w)
  case (Cons c cs)
  obtain x w1 where 1: "run_tool_call env p names c w = (x, w1)" by fastforce
  obtain y w2 where 2: "run_tool_calls env p names cs w1 = (y, w2)" by fastforce
  have "R w w1" "R w1 w2" using run_tool_call [of w p names c] 1 Cons.IH [of w1] 2 by simp_all
  then have "R w w2" by (rule trans)
  with 1 2 show ?case by (auto split: prod.splits)
qed (simp add: same)

lemma deny_unpersisted: "R w (snd (deny_unpersisted env xs w))"
proof (induction xs arbitrary: w)
  case (Cons x xs)
  obtain e w1 where 1: "pn_deny env (pc_approval_id x) ''planner session persistence failed'' w = (e, w1)" by fastforce
  have "R w w1" using deny [of w "pc_approval_id x" "''planner session persistence failed''"] 1 by simp
  with Cons.IH [of w1] 1 show ?case by (auto intro: trans split: prod.splits)
qed (simp add: same)

lemma give_up_turn: "R w (snd (give_up_turn env pends result e w))"
  using deny_unpersisted [of w pends] by (auto simp: give_up_turn_def split: prod.splits)

lemma stop_at_gate: "R w (snd (stop_at_gate env p ms rs pends result w))"
proof -
  have "R w (snd (case pn_save env x w of (Some e, w') \<Rightarrow> give_up_turn env pends result (f e) w'
      | (None, w') \<Rightarrow> ((result\<lparr>rr_session_id := pk_session p, rr_stop := StopAwaitingApproval\<rparr>, None), w')))" for x f
    using save [of w x] give_up_turn by (auto intro: trans split: prod.splits option.splits)
  then show ?thesis using give_up_turn by (auto simp: stop_at_gate_def split: option.splits sum.splits)
qed

lemma planner_loop: "R w (snd (planner_loop env p defs names k i result ms w))"
proof (induction k arbitrary: i result ms w)
  case 0
  show ?case by (simp add: same)
next
  case (Suc k)
  let ?req = "\<lparr>gr_model = pk_model p, gr_system = system_prompt (planner_caller p), gr_messages = ms,
              gr_tools = defs, gr_max_tokens = pk_max_tokens p, gr_cache_system = True\<rparr>"
  obtain a w1 where 1: "pn_generate env ?req w = (a, w1)" by fastforce
  have r1: "R w w1" using generate [of w ?req] 1 by simp
  show ?case
  proof (cases "\<exists>resp calls. a = Inr resp \<and> rp_calls resp \<noteq> [] \<and> canonical_tool_calls (pn_json env) [] (rp_calls resp) = Inr calls")
    case False
    with 1 r1 show ?thesis by (auto simp: Let_def split: sum.splits)
  next
    case True
    then obtain resp calls where 2: "a = Inr resp" "rp_calls resp \<noteq> []"
      "canonical_tool_calls (pn_json env) [] (rp_calls resp) = Inr calls" by blast
    obtain rs recs pends w2 where 3: "run_tool_calls env p names calls w1 = ((rs, recs, pends), w2)"
      by (metis prod.collapse)
    have r2: "R w w2" using run_tool_calls [of w1 p names calls] 3 by (intro trans [OF r1]) simp
    show ?thesis using 1 2 3 Suc.IH stop_at_gate by (auto simp: Let_def intro: trans [OF r2])
  qed
qed

lemma planner_tools: "R w (snd (planner_tools env w))"
  using list_tools [of w] by (auto simp: planner_tools_def split: prod.splits sum.splits)

lemma run_loop: "R w (snd (run_loop env p tools ms w))"
  by (simp add: run_loop_def planner_loop)

lemma planner_run: "R w (snd (planner_run env p prompt w))"
  using planner_tools [of w] run_loop
  by (auto simp: planner_run_def same intro: trans split: prod.splits sum.splits)

lemma resolve_approval: "R w (snd (resolve_approval env p c x w))"
  using get [of w "pc_approval_id x"]
  by (auto simp: resolve_approval_def split: prod.splits sum.splits option.splits)

lemma resume_results: "R w (snd (resume_results env p s cs w))"
proof (induction cs arbitrary: w)
  case (Cons c cs)
  have rest: "R w (snd (case resume_results env p s cs w' of
      (Inl e, w'') \<Rightarrow> (Inl e, w'') | (Inr rs, w'') \<Rightarrow> (Inr (r # rs), w'')))" if "R w w'" for w' r
    using Cons.IH [of w'] that by (auto intro: trans split: prod.splits sum.splits)
  show ?case
  proof (cases "List.find (\<lambda>r. tr_call_id r = tc_id c) (rev (ss_results s))")
    case (Some r)
    then show ?thesis using rest [OF same] by simp
  next
    case None
    let ?x = "case List.find (\<lambda>x. pc_call_id x = tc_id c) (rev (ss_pending s)) of None \<Rightarrow> no_pending | Some x \<Rightarrow> x"
    obtain b w1 where 1: "resolve_approval env p c ?x w = (b, w1)" by fastforce
    have r: "R w w1" using resolve_approval [of w p c ?x] 1 by simp
    from None 1 show ?thesis using rest [OF r] r by (cases b) (simp_all add: Let_def)
  qed
qed (simp add: same)

lemma planner_resume: "R w (snd (snd (planner_resume env p0 s w)))"
proof (cases "validate_stored_session (pn_json env) s")
  case (Some e)
  then show ?thesis by (simp add: planner_resume_def same)
next
  case None
  let ?p = "resumed_planner p0 s"
  obtain a w1 where 1: "resume_results env ?p s (ms_calls (last (ss_messages s))) w = (a, w1)" by fastforce
  obtain b w2 where 2: "planner_tools env w1 = (b, w2)" by fastforce
  have r1: "R w w1" using resume_results [of w ?p s "ms_calls (last (ss_messages s))"] 1 by simp
  have r2: "R w w2" using planner_tools [of w1] 2 by (intro trans [OF r1]) simp
  have "run_loop env ?p t ms w2 = (out, w3) \<Longrightarrow> R w w3" for t ms out w3
    using run_loop [of w2 ?p t ms] by (auto intro: trans [OF r2])
  with None 1 2 r1 r2 show ?thesis
    by (cases a; cases b) (auto simp: planner_resume_def Let_def split: prod.splits)
qed

end

section \<open>The planner over the daemon\<close>

text \<open>
  The world of a running planner: the daemon, and everything else (the state of the model,
  the session store, the clock of the daemon). The calls reach the daemon decoded as they
  were encoded, and its answers come back as the client sees them.
\<close>

record ('w, 'x) agent_world =
  aw_daemon :: "'w daemon_state"
  aw_rest :: 'x

record 'x planner_parts =
  pp_generate :: "'x llm"
  pp_state :: "('x \<Rightarrow> go_error + provider_state) option"
  pp_is_pending :: "bytes \<Rightarrow> (bytes \<times> bytes) option"
  pp_save :: "session \<Rightarrow> 'x \<Rightarrow> go_error option \<times> 'x"
  pp_json :: json
  pp_env :: "'x \<Rightarrow> call_env"

definition typed_server :: "'w server \<Rightarrow> call_params \<Rightarrow> bytes \<times> bytes \<Rightarrow> 'w server" where
  "typed_server s p dn =
     s\<lparr>sv_policy := default_decide, sv_codec := (sv_codec s)\<lparr>c_call := (\<lambda>_. Inr p), c_deny := (\<lambda>_. Inr dn)\<rparr>\<rparr>"

definition no_params :: call_params where
  "no_params = \<lparr>cp_name = [], cp_arguments = [], cp_caller = [], cp_call_id = []\<rparr>"

definition daemon_answer :: "'w method_result \<Rightarrow> ('w, 'x) agent_world \<Rightarrow> (go_error + bytes) \<times> ('w, 'x) agent_world" where
  "daemon_answer m w =
     (case m of
        None \<Rightarrow> (Inl (new_error ''read: EOF''), w)
      | Some (r, d) \<Rightarrow> (seen_by_client r, w\<lparr>aw_daemon := d\<rparr>))"

definition daemon_call ::
  "'w server \<Rightarrow> ('x \<Rightarrow> call_env) \<Rightarrow> bytes \<Rightarrow> bytes \<Rightarrow> bytes \<Rightarrow> bytes \<Rightarrow> ('w, 'x) agent_world
     \<Rightarrow> (go_error + bytes) \<times> ('w, 'x) agent_world" where
  "daemon_call s ce caller i name input w =
     daemon_answer
       (tools_call (typed_server s \<lparr>cp_name = name, cp_arguments = input, cp_caller = caller, cp_call_id = i\<rparr> ([], []))
          (ce (aw_rest w)) ''call'' (aw_daemon w)) w"

definition daemon_deny ::
  "'w server \<Rightarrow> ('x \<Rightarrow> call_env) \<Rightarrow> bytes \<Rightarrow> bytes \<Rightarrow> ('w, 'x) agent_world \<Rightarrow> go_error option \<times> ('w, 'x) agent_world" where
  "daemon_deny s ce i reason w =
     (case ds_queue (aw_daemon w) of
        None \<Rightarrow> (Some (map_error \<lparr>re_code = CodeMethodNotFound, re_message = ''method not found: approval.deny''\<rparr>), w)
      | Some q \<Rightarrow>
          (case daemon_answer (approval_deny (typed_server s no_params (i, reason)) q (ce (aw_rest w)) ''deny'' (aw_daemon w)) w of
             (Inl e, w') \<Rightarrow> (Some e, w') | (Inr _, w') \<Rightarrow> (None, w')))"

definition daemon_get :: "bytes \<Rightarrow> ('w, 'x) agent_world \<Rightarrow> (go_error + pending) \<times> ('w, 'x) agent_world" where
  "daemon_get i w =
     (case ds_queue (aw_daemon w) of
        None \<Rightarrow> (Inl (map_error \<lparr>re_code = CodeMethodNotFound, re_message = ''method not found: approval.get''\<rparr>), w)
      | Some q \<Rightarrow>
          (case get_entry i q of
             None \<Rightarrow> (Inl (map_error (the (rs_error (error_from_method [] (ErrUnknownID i))))), w)
           | Some a \<Rightarrow> (Inr a, w)))"

definition daemon_env :: "'w server \<Rightarrow> 'x planner_parts \<Rightarrow> ('w, 'x) agent_world planner_env" where
  "daemon_env s pp =
     \<lparr>pn_generate = (\<lambda>req w. case pp_generate pp req (aw_rest w) of (r, x) \<Rightarrow> (r, w\<lparr>aw_rest := x\<rparr>)),
      pn_state = map_option (\<lambda>f w. f (aw_rest w)) (pp_state pp),
      pn_list_tools = (\<lambda>w. (Inr (list_tools (sv_registry s)), w)),
      pn_call = daemon_call s (pp_env pp),
      pn_is_pending = pp_is_pending pp,
      pn_deny = daemon_deny s (pp_env pp),
      pn_get = daemon_get,
      pn_save = (\<lambda>ss w. case pp_save pp ss (aw_rest w) of (e, x) \<Rightarrow> (e, w\<lparr>aw_rest := x\<rparr>)),
      pn_json = pp_json pp\<rparr>"

text \<open>A step of the tools' world that runs one read-only tool.\<close>

definition read_step :: "'w registry \<Rightarrow> 'w \<Rightarrow> 'w \<Rightarrow> bool" where
  "read_step reg w w' \<longleftrightarrow>
     (\<exists>name params t. lookup_tool reg name = Some t \<and> \<not> t_mutating t \<and> w' = snd (execute reg name params w))"

definition only_reads :: "'w server \<Rightarrow> ('w, 'x) agent_world \<Rightarrow> ('w, 'x) agent_world \<Rightarrow> bool" where
  "only_reads s a b \<longleftrightarrow> (read_step (sv_registry s))\<^sup>*\<^sup>* (ds_world (aw_daemon a)) (ds_world (aw_daemon b))"

lemma only_reads_same: "ds_world (aw_daemon a) = ds_world (aw_daemon b) \<Longrightarrow> only_reads s a b"
  by (simp add: only_reads_def)

lemma enqueue_keeps_world: "enqueue_call s env p reason d = Some (r, d') \<Longrightarrow> ds_world d' = ds_world d"
  by (auto simp: enqueue_call_def split: option.splits prod.splits sum.splits)

lemma deny_keeps_world: "approval_deny s q env raw d = Some (r, d') \<Longrightarrow> ds_world d' = ds_world d"
  by (auto simp: approval_deny_def split: option.splits prod.splits sum.splits if_splits)

lemma tools_call_world:
  assumes "tools_call s env raw d = Some (r, d')" and "gating_decider (sv_policy s)"
    and "\<forall>p. c_call (sv_codec s) raw = Inr p \<longrightarrow> cp_caller p \<noteq> caller_cli"
  shows "ds_world d' = ds_world d \<or> read_step (sv_registry s) (ds_world d) (ds_world d')"
proof (cases "raw = [] \<or> (\<exists>e. c_call (sv_codec s) raw = Inl e)")
  case True
  with assms(1) show ?thesis by (auto simp: tools_call_def split: if_splits)
next
  case False
  then obtain p where p: "raw \<noteq> []" "c_call (sv_codec s) raw = Inr p" by (cases "c_call (sv_codec s) raw") auto
  show ?thesis
  proof (cases "cp_name p = [] \<or> lookup_tool (sv_registry s) (cp_name p) = None")
    case True
    with assms(1) p show ?thesis by (auto simp: tools_call_def split: if_splits)
  next
    case False
    then obtain t where t: "cp_name p \<noteq> []" "lookup_tool (sv_registry s) (cp_name p) = Some t" by blast
    let ?v = "sv_policy s \<lparr>pr_caller = cp_caller p, pr_tool = t, pr_params = cp_arguments p\<rparr>"
    show ?thesis
    proof (cases "v_decision ?v")
      case Allow
      then have "ds_world d' = snd (execute (sv_registry s) (cp_name p) (cp_arguments p) (ds_world d))"
        using assms(1) p t by (auto simp: tools_call_def Let_def split: prod.splits)
      moreover have "\<not> t_mutating t"
        using Allow gating_decider.gates [OF assms(2)] assms(3) p(2) by fastforce
      ultimately show ?thesis using t(2) by (auto simp: read_step_def)
    next
      case Confirm
      then have "enqueue_call s env p (v_reason ?v) d = Some (r, d')"
        using assms(1) p t by (simp add: tools_call_def Let_def)
      then show ?thesis using enqueue_keeps_world by blast
    qed (use assms(1) p t in \<open>simp_all add: tools_call_def Let_def\<close>)
  qed
qed

lemma daemon_call_reads: "caller \<noteq> caller_cli \<Longrightarrow> only_reads s w (snd (daemon_call s ce caller i name input w))"
proof -
  assume c: "caller \<noteq> caller_cli"
  let ?s = "typed_server s \<lparr>cp_name = name, cp_arguments = input, cp_caller = caller, cp_call_id = i\<rparr> ([], [])"
  have g: "gating_decider (sv_policy ?s)" "sv_registry ?s = sv_registry s"
    "\<forall>p. c_call (sv_codec ?s) raw = Inr p \<longrightarrow> cp_caller p \<noteq> caller_cli" for raw
    using default_policy.gating_decider_axioms c by (auto simp: typed_server_def)
  show ?thesis
  proof (cases "tools_call ?s (ce (aw_rest w)) ''call'' (aw_daemon w)")
    case None
    then show ?thesis by (simp add: daemon_call_def daemon_answer_def only_reads_same)
  next
    case (Some x)
    obtain r d where x: "x = (r, d)" by fastforce
    from tools_call_world [OF Some [unfolded x] g(1) g(3)] show ?thesis
      using Some x g(2) by (auto simp: daemon_call_def daemon_answer_def only_reads_def)
  qed
qed

lemma daemon_deny_reads: "only_reads s w (snd (daemon_deny s ce i reason w))"
  using deny_keeps_world
  by (fastforce simp: daemon_deny_def daemon_answer_def split: option.splits prod.splits sum.splits intro!: only_reads_same)

interpretation gate: careful_backend "daemon_env s pp" "only_reads s"
  for s :: "'w server" and pp :: "'x planner_parts"
proof unfold_locales
  show "only_reads s w w" for w :: "('w, 'x) agent_world" by (simp add: only_reads_same)
  show "only_reads s a b \<Longrightarrow> only_reads s b c \<Longrightarrow> only_reads s a c" for a b c :: "('w, 'x) agent_world"
    by (simp add: only_reads_def)
  show "caller \<noteq> caller_cli \<Longrightarrow> only_reads s w (snd (pn_call (daemon_env s pp) caller i n x w))" for caller i n x w
    by (simp add: daemon_env_def daemon_call_reads)
  show "only_reads s w (snd (pn_deny (daemon_env s pp) i r w))" for i r w
    by (simp add: daemon_env_def daemon_deny_reads)
  show "only_reads s w (snd (pn_get (daemon_env s pp) i w))" for i w
    by (simp add: daemon_env_def daemon_get_def only_reads_same split: option.splits)
qed (auto simp: daemon_env_def split: prod.splits intro!: only_reads_same)

text \<open>
  C4. The planner cannot change anything by itself. Whatever the language model answers,
  whatever is in the session it resumes and whatever the session store does, running or
  resuming the planner over a daemon with the default policy changes the world of the tools
  only by executing read-only tools: no mutating tool is executed.
\<close>

theorem planner_never_mutates:
  "only_reads s w (snd (planner_run (daemon_env s pp) p prompt w))
   \<and> only_reads s w (snd (snd (planner_resume (daemon_env s pp) p session w)))"
  using gate.planner_run gate.planner_resume by blast

section \<open>Where a conversation stops\<close>

lemma canonical_calls:
  "canonical_tool_calls js seen cs = Inr cs' \<Longrightarrow>
   map tc_id cs' = map tc_id cs \<and> map tc_name cs' = map tc_name cs \<and> distinct (map tc_id cs)
   \<and> tc_id ` set cs \<inter> set seen = {} \<and> (\<forall>c \<in> set cs. validate_call_id (tc_id c) = None)"
proof (induction cs arbitrary: seen cs')
  case (Cons c cs)
  obtain input rest where 1: "validate_call_id (tc_id c) = None" "tc_id c \<notin> set seen"
    "canonical_tool_calls js (tc_id c # seen) cs = Inr rest" "cs' = c\<lparr>tc_input := input\<rparr> # rest"
    using Cons.prems by (auto split: option.splits sum.splits if_splits)
  with Cons.IH [OF 1(3)] show ?case by auto
qed simp

lemma run_tool_call_ids:
  assumes "run_tool_call env p names c w = ((r, rec, pend), w')"
  shows "tr_call_id r = tc_id c" and "pend = Some x \<Longrightarrow> pc_call_id x = tc_id c \<and> pc_tool x = qid_name names c"
  using assms by (auto simp: run_tool_call_def Let_def split: prod.splits sum.splits option.splits)

lemma run_tool_calls_ids:
  "run_tool_calls env p names cs w = ((rs, recs, pends), w') \<Longrightarrow>
   map tr_call_id rs = map tc_id cs \<and> (\<forall>x \<in> set pends. \<exists>c \<in> set cs. pc_call_id x = tc_id c \<and> pc_tool x = qid_name names c)
   \<and> (distinct (map tc_id cs) \<longrightarrow> distinct (map pc_call_id pends))"
proof (induction cs arbitrary: w rs recs pends)
  case (Cons c cs)
  obtain r rec pend w1 where 1: "run_tool_call env p names c w = ((r, rec, pend), w1)" by (metis prod.collapse)
  obtain rs' recs' pends' where 2: "run_tool_calls env p names cs w1 = ((rs', recs', pends'), w')"
    and e: "rs = r # rs'" "pends = (case pend of None \<Rightarrow> pends' | Some x \<Rightarrow> x # pends')"
    using Cons.prems 1 by (auto split: prod.splits)
  note ih = Cons.IH [OF 2] and ids = run_tool_call_ids [OF 1]
  show ?case
  proof (cases pend)
    case None
    with ih ids(1) e show ?thesis by auto
  next
    case (Some x)
    have "tc_id c \<notin> pc_call_id ` set pends'" if "distinct (map tc_id (c # cs))" using ih that by fastforce
    with Some ih ids(1) ids(2) [OF Some] e show ?thesis by auto
  qed
qed simp

lemma resolved_partition:
  "tr_call_id ` set (resolved_results rs pends) = tr_call_id ` set rs - pc_call_id ` set pends"
  by (auto simp: resolved_results_def)

text \<open>A turn that ends at the gate leaves a session of all its calls, or denies those queued.\<close>

definition persisted :: "'w planner_env \<Rightarrow> planner \<Rightarrow> pending_call list \<Rightarrow> 'w \<Rightarrow> bool" where
  "persisted env p pends w' \<longleftrightarrow>
     (\<exists>s w. pn_save env s w = (None, w') \<and> ss_id s = pk_session p \<and> ss_pending s = pends
        \<and> distinct (map tr_call_id (ss_results s) @ map pc_call_id pends)
        \<and> set (map tr_call_id (ss_results s) @ map pc_call_id pends) = tc_id ` set (proposed s))"

definition denied_all :: "'w planner_env \<Rightarrow> pending_call list \<Rightarrow> 'w \<Rightarrow> bool" where
  "denied_all env pends w' \<longleftrightarrow> (\<exists>w es. deny_unpersisted env pends w = (es, w'))"

lemma give_up_turn_denies:
  assumes "give_up_turn env pends result e w = ((rr, err), w')"
  shows "rr = result \<and> err \<noteq> None \<and> denied_all env pends w'"
proof -
  obtain es w1 where 1: "deny_unpersisted env pends w = (es, w1)" by fastforce
  have "join_errors (Some e # es) \<noteq> None" unfolding join_errors_None by simp
  with assms 1 show ?thesis by (simp add: give_up_turn_def denied_all_def) metis
qed

lemma stop_at_gate_outcome:
  assumes "stop_at_gate env p ms rs pends result w = ((rr, err), w')"
    and "distinct (map tr_call_id rs)" and "distinct (map pc_call_id pends)"
    and "pc_call_id ` set pends \<subseteq> tr_call_id ` set rs" and "tr_call_id ` set rs = tc_id ` set (ms_calls (last ms))"
  shows "rr_pending rr = rr_pending result \<and> rr_turns rr = rr_turns result
     \<and> (err = None \<and> rr_stop rr = StopAwaitingApproval \<and> rr_session_id rr = pk_session p \<and> persisted env p pends w'
        \<or> err \<noteq> None \<and> denied_all env pends w')"
proof (cases "\<exists>st w1. (case pn_state env of None \<Rightarrow> False | Some f \<Rightarrow> f w = Inr st)
    \<and> pn_save env (turn_session p st ms rs pends) w = (None, w1)")
  case True
  then obtain st w1 f where 1: "pn_state env = Some f" "f w = Inr st"
    "pn_save env (turn_session p st ms rs pends) w = (None, w1)" by (auto split: option.splits)
  let ?s = "turn_session p st ms rs pends"
  have "distinct (map tr_call_id (resolved_results rs pends))"
    using assms(2) by (auto simp: resolved_results_def distinct_map_filter)
  then have "distinct (map tr_call_id (ss_results ?s) @ map pc_call_id pends)"
    using assms(3) by (auto simp: turn_session_def resolved_results_def)
  moreover have "set (map tr_call_id (ss_results ?s) @ map pc_call_id pends) = tc_id ` set (proposed ?s)"
    using assms(4,5) by (auto simp: turn_session_def resolved_partition proposed_def)
  ultimately have "persisted env p pends w1"
    unfolding persisted_def using 1(3) by (intro exI [of _ ?s] exI [of _ w]) (simp add: turn_session_def)
  with 1 assms(1) show ?thesis by (auto simp: stop_at_gate_def)
next
  case False
  then obtain e w1 where "give_up_turn env pends result e w1 = ((rr, err), w')"
    using assms(1) by (auto simp: stop_at_gate_def split: option.splits sum.splits prod.splits)
  from give_up_turn_denies [OF this] show ?thesis by simp
qed

definition stopped_well :: "'w planner_env \<Rightarrow> planner \<Rightarrow> run_result \<Rightarrow> go_error option \<Rightarrow> 'w \<Rightarrow> bool" where
  "stopped_well env p rr err w' \<longleftrightarrow>
     (rr_pending rr = []
      \<or> err = None \<and> rr_stop rr = StopAwaitingApproval \<and> rr_session_id rr = pk_session p \<and> persisted env p (rr_pending rr) w'
      \<or> err \<noteq> None \<and> denied_all env (rr_pending rr) w')"

lemma planner_loop_stops:
  "planner_loop env p defs names k i result ms w = ((rr, err), w') \<Longrightarrow> rr_pending result = []
   \<Longrightarrow> length (rr_turns rr) \<le> length (rr_turns result) + k \<and> stopped_well env p rr err w'"
proof (induction k arbitrary: i result ms w)
  case 0
  then show ?case by (auto simp: stopped_well_def)
next
  case (Suc k)
  let ?req = "\<lparr>gr_model = pk_model p, gr_system = system_prompt (planner_caller p), gr_messages = ms,
              gr_tools = defs, gr_max_tokens = pk_max_tokens p, gr_cache_system = True\<rparr>"
  obtain a w1 where 1: "pn_generate env ?req w = (a, w1)" by fastforce
  show ?case
  proof (cases "\<exists>resp calls. a = Inr resp \<and> rp_calls resp \<noteq> [] \<and> canonical_tool_calls (pn_json env) [] (rp_calls resp) = Inr calls")
    case False
    with 1 Suc.prems show ?thesis by (auto simp: stopped_well_def Let_def split: sum.splits if_splits)
  next
    case True
    then obtain resp calls where 2: "a = Inr resp" "rp_calls resp \<noteq> []"
      "canonical_tool_calls (pn_json env) [] (rp_calls resp) = Inr calls" by blast
    obtain rs recs pends w2 where 3: "run_tool_calls env p names calls w1 = ((rs, recs, pends), w2)"
      by (metis prod.collapse)
    note ids = run_tool_calls_ids [OF 3] canonical_calls [OF 2(3)]
    show ?thesis
    proof (cases "pends = []")
      case True
      show ?thesis using Suc.prems 1 2 3 True by (auto simp: Let_def dest!: Suc.IH)
    next
      case False
      let ?turn = "\<lparr>te_iteration = i, te_text = trim_space (rp_text resp), te_calls = recs\<rparr>"
      let ?result = "result\<lparr>rr_usage := add_usage (rr_usage result) (rp_usage resp), rr_turns := rr_turns result @ [?turn],
        rr_pending := rr_pending result @ pends\<rparr>"
      let ?ms = "ms @ [\<lparr>ms_role = RoleAssistant, ms_text = rp_text resp, ms_calls = calls, ms_results = []\<rparr>]"
      have g: "stop_at_gate env p ?ms rs pends ?result w2 = ((rr, err), w')"
        using Suc.prems 1 2 3 False by (simp add: Let_def)
      have "set (map tr_call_id rs) = set (map tc_id calls)" using ids by simp
      then have same: "tr_call_id ` set rs = tc_id ` set calls" by simp
      have "distinct (map tr_call_id rs)" "distinct (map pc_call_id pends)" using ids by simp_all
      moreover have "pc_call_id ` set pends \<subseteq> tr_call_id ` set rs" unfolding same using ids(1) by blast
      moreover have "tr_call_id ` set rs = tc_id ` set (ms_calls (last ?ms))" using same by simp
      ultimately have "rr_pending rr = pends \<and> rr_turns rr = rr_turns result @ [?turn]
        \<and> (err = None \<and> rr_stop rr = StopAwaitingApproval \<and> rr_session_id rr = pk_session p \<and> persisted env p pends w'
          \<or> err \<noteq> None \<and> denied_all env pends w')"
        using stop_at_gate_outcome [OF g] Suc.prems(2) by simp
      then show ?thesis by (auto simp: stopped_well_def)
    qed
  qed
qed

text \<open>
  C5. A conversation stops within its iterations, and never leaves a queued call behind. When
  the model's calls were queued for approval, the conversation stops at once: either the
  session was saved, under the planner's identifier and with exactly one result or pending
  approval for every call of the turn, and the caller is told to wait; or an error is
  reported and a denial was sent for every queued call.
\<close>

theorem queued_calls_are_resumable_or_denied:
  assumes "planner_run env p prompt w = ((rr, err), w')"
  shows "length (rr_turns rr) \<le> nat (pk_max_iterations p)
     \<and> (rr_pending rr = []
        \<or> err = None \<and> rr_stop rr = StopAwaitingApproval \<and> rr_session_id rr = pk_session p \<and> persisted env p (rr_pending rr) w'
        \<or> err \<noteq> None \<and> denied_all env (rr_pending rr) w')"
proof (cases "\<exists>tools ms w1. run_loop env p tools ms w1 = ((rr, err), w')")
  case True
  then obtain tools ms w1 where "run_loop env p tools ms w1 = ((rr, err), w')" by blast
  from planner_loop_stops [OF this [unfolded run_loop_def]] show ?thesis by (simp add: empty_result_def stopped_well_def)
next
  case False
  then have "rr = empty_result" using assms by (auto simp: planner_run_def split: if_splits sum.splits prod.splits)
  then show ?thesis by (simp add: empty_result_def)
qed

text \<open>
  A call that names its tool with the dots of the registry is executed under that name, but a
  queued one can not be saved: validation wants the name of the interface.
\<close>

lemma raw_tool_name_never_saved:
  assumes "map_of names (tc_name c) = None" and "sanitize_tool_name (tc_name c) \<noteq> tc_name c"
    and "run_tool_call env p names c w = ((r, rec, Some x), w')"
    and "x \<in> set (ss_pending s)" and "c \<in> set (proposed s)"
  shows "validate_stored_session js s \<noteq> None"
proof
  assume "validate_stored_session js s = None"
  then have v: "sound_session js s" by (simp add: validate_iff_sound)
  have x: "pc_call_id x = tc_id c" "pc_tool x = tc_name c"
    using run_tool_call_ids(2) [OF assms(3) refl] assms(1) by (simp_all add: qid_name_def)
  from v assms(4) obtain c' where c': "c' \<in> set (proposed s)" "tc_id c' = pc_call_id x" "tc_name c' = sanitize_tool_name (pc_tool x)"
    unfolding sound_session_def by blast
  have "inj_on tc_id (set (proposed s))" using v by (simp add: sound_session_def distinct_map)
  with c' x(1) assms(5) have "c' = c" by (auto dest: inj_onD)
  with c'(3) x(2) assms(2) show False by simp
qed

section \<open>What a conversation continues with\<close>

text \<open>
  The result of a call is accounted for if it is the stored one, or what became of the very
  approval that was queued for it: the one with the stored identifier, asked for by this
  planner for this call, on the same tool with the same parameters, and settled.
\<close>

definition bound_approval :: "json \<Rightarrow> planner \<Rightarrow> tool_call \<Rightarrow> pending_call \<Rightarrow> pending \<Rightarrow> bool" where
  "bound_approval js p c x a \<longleftrightarrow>
     p_id a = pc_approval_id x \<and> p_caller a = planner_caller p \<and> p_call_id a = tc_id c \<and> p_tool a = pc_tool x
     \<and> (\<exists>params. js_canonical js (tc_input c) = Inr params \<and> js_canonical js (p_params a) = Inr params)"

definition settles :: "tool_call \<Rightarrow> pending \<Rightarrow> tool_result \<Rightarrow> bool" where
  "settles c a r \<longleftrightarrow> tr_call_id r = tc_id c
     \<and> (p_status a = StatusExecuted \<and> tr_content r = p_result a \<and> \<not> tr_is_error r
        \<or> p_status a \<in> {StatusDenied, StatusFailed} \<and> tr_is_error r)"

definition accounted :: "'w planner_env \<Rightarrow> planner \<Rightarrow> session \<Rightarrow> tool_call \<Rightarrow> tool_result \<Rightarrow> bool" where
  "accounted env p s c r \<longleftrightarrow>
     tr_call_id r = tc_id c
     \<and> (r \<in> set (ss_results s)
        \<or> (\<exists>x a w w'. x \<in> set (ss_pending s) \<and> pc_call_id x = tc_id c \<and> pn_get env (pc_approval_id x) w = (Inr a, w')
             \<and> bound_approval (pn_json env) p c x a \<and> settles c a r))"

lemma approval_binding_error_None: "approval_binding_error js p c x a = None \<longleftrightarrow> bound_approval js p c x a"
  by (auto simp: approval_binding_error_def bound_approval_def split: sum.splits)

lemma settled_result_ok: "settled_result c x a = Inr r \<Longrightarrow> settles c a r"
  by (auto simp: settled_result_def settles_def Let_def split: if_splits)

lemma resolve_approval_ok:
  "resolve_approval env p c x w = (Inr r, w') \<Longrightarrow>
   \<exists>a w1. pn_get env (pc_approval_id x) w = (Inr a, w1) \<and> bound_approval (pn_json env) p c x a \<and> settles c a r"
  by (auto simp: resolve_approval_def approval_binding_error_None dest: settled_result_ok
      split: prod.splits sum.splits option.splits)

lemma find_rev_Some: "List.find P (rev xs) = Some x \<Longrightarrow> x \<in> set xs \<and> P x"
proof -
  have "List.find P ys = Some x \<Longrightarrow> x \<in> set ys \<and> P x" for ys by (induction ys) (auto split: if_splits)
  from this [of "rev xs"] show "List.find P (rev xs) = Some x \<Longrightarrow> x \<in> set xs \<and> P x" by simp
qed

lemma find_rev_None: "List.find P (rev xs) = None \<longleftrightarrow> (\<forall>x \<in> set xs. \<not> P x)"
  by (auto simp: find_None_iff)

lemma resume_results_accounted:
  assumes "\<forall>c \<in> set cs. tc_id c \<in> tr_call_id ` set (ss_results s) \<union> pc_call_id ` set (ss_pending s)"
    and "resume_results env p s cs w = (Inr rs, w')"
  shows "list_all2 (accounted env p s) cs rs"
  using assms
proof (induction cs arbitrary: w rs)
  case (Cons c cs)
  show ?case
  proof (cases "List.find (\<lambda>r. tr_call_id r = tc_id c) (rev (ss_results s))")
    case (Some r)
    with Cons.prems(2) obtain rs' where "resume_results env p s cs w = (Inr rs', w')" "rs = r # rs'"
      by (auto split: prod.splits sum.splits)
    with Cons.IH Cons.prems(1) find_rev_Some [OF Some] show ?thesis by (auto simp: accounted_def)
  next
    case None
    then have "tc_id c \<in> pc_call_id ` set (ss_pending s)" using Cons.prems(1) by (auto simp: find_rev_None)
    then obtain x where x: "List.find (\<lambda>x. pc_call_id x = tc_id c) (rev (ss_pending s)) = Some x"
      using find_rev_None [of "\<lambda>x. pc_call_id x = tc_id c" "ss_pending s"] by (metis imageE not_Some_eq)
    obtain b w1 where b: "resolve_approval env p c x w = (b, w1)" by fastforce
    with None x Cons.prems(2) obtain r rs' where "b = Inr r" "resume_results env p s cs w1 = (Inr rs', w')" "rs = r # rs'"
      by (cases b) (auto split: prod.splits sum.splits)
    moreover have "accounted env p s c r"
      using find_rev_Some [OF x] resolve_approval_ok [OF b [unfolded \<open>b = Inr r\<close>]]
      unfolding accounted_def settles_def by blast
    ultimately show ?thesis using Cons.IH Cons.prems(1) by simp
  qed
qed simp

lemma sound_session_calls:
  "sound_session js s \<Longrightarrow>
   \<forall>c \<in> set (proposed s). tc_id c \<in> tr_call_id ` set (ss_results s) \<union> pc_call_id ` set (ss_pending s)"
  unfolding sound_session_def by (metis Un_iff image_eqI list.set_map set_append)

text \<open>
  C6. Resuming is bound to the approvals. A resumed conversation either stops with an error
  before the model is asked again, or goes on with the saved messages followed by one result
  for each call of the interrupted turn, in order, each of them accounted for; a turn with an
  approval that is pending, of another caller, another call, another tool or other parameters
  never reaches the model.
\<close>

theorem resume_continues_with_bound_results:
  assumes "planner_resume env p0 s w = ((rr, err), p, w')"
  shows "rr = empty_result \<and> err \<noteq> None
    \<or> planner_caller p = CallerPrefix @ ss_id s
      \<and> (\<exists>rs tools w1. list_all2 (accounted env p s) (proposed s) rs
           \<and> run_loop env p tools (ss_messages s @ [\<lparr>ms_role = RoleUser, ms_text = [], ms_calls = [], ms_results = rs\<rparr>]) w1
               = ((rr, err), w'))"
proof (cases "validate_stored_session (pn_json env) s")
  case (Some e)
  with assms show ?thesis by (auto simp: planner_resume_def)
next
  case None
  then have v: "sound_session (pn_json env) s" by (simp add: validate_iff_sound)
  let ?p = "resumed_planner p0 s"
  have c: "planner_caller ?p = CallerPrefix @ ss_id s" by (simp add: planner_caller_def resumed_planner_def)
  obtain a w1 where 1: "resume_results env ?p s (proposed s) w = (a, w1)" by fastforce
  obtain b w2 where 2: "planner_tools env w1 = (b, w2)" by fastforce
  show ?thesis
  proof (cases "\<exists>rs tools. a = Inr rs \<and> b = Inr tools")
    case True
    then obtain rs tools where 3: "a = Inr rs" "b = Inr tools" by blast
    have "list_all2 (accounted env ?p s) (proposed s) rs"
      using 1 3 by (intro resume_results_accounted [OF sound_session_calls [OF v]]) simp
    moreover have "p = ?p" "run_loop env ?p tools
        (ss_messages s @ [\<lparr>ms_role = RoleUser, ms_text = [], ms_calls = [], ms_results = rs\<rparr>]) w2 = ((rr, err), w')"
      using assms None 1 2 3 by (simp_all add: planner_resume_def proposed_def [symmetric] Let_def split: prod.splits)
    ultimately show ?thesis using c by blast
  next
    case False
    with assms None 1 2 show ?thesis
      by (cases a; cases b) (auto simp: planner_resume_def proposed_def [symmetric] Let_def)
  qed
qed

section \<open>A conversation\<close>

definition sample_call :: tool_call where
  "sample_call = \<lparr>tc_id = ''c2'', tc_name = ''task_add'', tc_input = ''{}''\<rparr>"

definition sample_approval :: pending where
  "sample_approval = \<lparr>p_id = ''00000007'', p_caller = CallerPrefix @ replicate 64 (CHR ''a''), p_call_id = ''c2'',
     p_tool = ''task.add'', p_params = ''{}'', p_status = StatusExecuted, p_reason = [], p_created_at = 0,
     p_decided_at = None, p_executed_at = None, p_result = ''{}'', p_err = []\<rparr>"

definition sample_env :: "nat planner_env" where
  "sample_env =
     \<lparr>pn_generate = (\<lambda>req n. (Inr \<lparr>rp_text = ''on it'', rp_calls = (if n = 0 then [sample_call] else []), rp_stop = ''end_turn'',
        rp_usage = rr_usage empty_result\<rparr>, n)),
      pn_state = Some (\<lambda>_. Inr (ss_provider sample_session)),
      pn_list_tools = (\<lambda>n. (Inr [\<lparr>t_name = ''task.add'', t_source = \<lparr>src_kind = SourceLocal, src_id = []\<rparr>, t_version = [], t_mutating = True,
        t_description = [], t_schema = []\<rparr>], n)),
      pn_call = (\<lambda>_ _ _ _ n. (Inr ''pending'', Suc n)),
      pn_is_pending = (\<lambda>_. Some (''00000007'', ''mutating'')),
      pn_deny = (\<lambda>_ _ n. (None, n)),
      pn_get = (\<lambda>_ n. (Inr sample_approval, n)),
      pn_save = (\<lambda>_ n. (None, n)),
      pn_json = sample_json\<rparr>"

lemma sample_env_parts:
  "pn_generate sample_env req n = (Inr \<lparr>rp_text = ''on it'', rp_calls = (if n = 0 then [sample_call] else []),
     rp_stop = ''end_turn'', rp_usage = rr_usage empty_result\<rparr>, n)"
  "pn_list_tools sample_env n = (Inr [\<lparr>t_name = ''task.add'', t_source = \<lparr>src_kind = SourceLocal, src_id = []\<rparr>,
     t_version = [], t_mutating = True, t_description = [], t_schema = []\<rparr>], n)"
  "pn_state sample_env = Some (\<lambda>_. Inr (ss_provider sample_session))" "pn_save sample_env ss n = (None, n)"
  "pn_json sample_env = sample_json"
  by (simp_all add: sample_env_def)

definition sample_planner :: planner where
  "sample_planner = new_for_resume (ss_id sample_session)"

definition sample_turn :: turn_event where
  "sample_turn = \<lparr>te_iteration = 0, te_text = ''on it'', te_calls =
     [\<lparr>cr_name = ''task.add'', cr_input = ''{}'', cr_pending = True, cr_error = [], cr_result_id = ''c2''\<rparr>]\<rparr>"

definition sample_pending :: pending_call where
  "sample_pending = \<lparr>pc_call_id = ''c2'', pc_approval_id = ''00000007'', pc_tool = ''task.add'', pc_reason = ''mutating''\<rparr>"

lemma sample_iterations: "\<exists>k. nat DefaultMaxIterations = Suc k"
  unfolding DefaultMaxIterations_def by (rule exI [of _ 7]) simp

lemma sample_run:
  "planner_run sample_env sample_planner ''add milk'' 0 =
     ((empty_result\<lparr>rr_turns := [sample_turn], rr_pending := [sample_pending], rr_session_id := ss_id sample_session,
        rr_stop := StopAwaitingApproval\<rparr>, None), 1)"
proof -
  have t: "trim_space ''add milk'' \<noteq> []" "trim_space ''on it'' = ''on it''" by code_simp+
  obtain k where n: "nat DefaultMaxIterations = Suc k" using sample_iterations ..
  have "list_all is_ascii ''c2''" by code_simp
  then have u: "valid_utf8 ''c2''" by (simp add: valid_utf8_ascii)
  have "\<not> list_ex (\<lambda>r. r \<in> set unicode_spaces \<or> control_rune r) (runes ''c2'')" by code_simp
  with u have v: "validate_call_id ''c2'' = None" by (simp add: validate_call_id_def)
  have c: "canonical_tool_calls sample_json [] [sample_call] = Inr [sample_call]"
    by (simp add: sample_call_def v sample_json_def)
  have s: "sanitize_tool_name ''task.add'' = ''task_add''" by code_simp
  have r: "run_tool_calls sample_env sample_planner [(''task_add'', ''task.add'')] [sample_call] 0 =
      (([\<lparr>tr_call_id = ''c2'', tr_content = ''awaiting approval 00000007'', tr_is_error = True\<rparr>],
        te_calls sample_turn, [sample_pending]), 1)"
    by (simp add: run_tool_call_def sample_env_def sample_call_def sample_turn_def sample_pending_def qid_name_def Let_def)
  have p: "pk_max_iterations sample_planner = DefaultMaxIterations" "pk_session sample_planner = ss_id sample_session"
    by (simp_all add: sample_planner_def new_for_resume_def)
  have q: "te_calls sample_turn \<noteq> []" "sample_turn = \<lparr>te_iteration = 0, te_text = ''on it'', te_calls = te_calls sample_turn\<rparr>"
    by (simp_all add: sample_turn_def)
  show ?thesis
    by (simp add: planner_run_def planner_tools_def t s run_loop_def n p Let_def sample_env_parts c r stop_at_gate_def
        add_usage_def empty_result_def q(2) [symmetric] del: canonical_tool_calls.simps run_tool_calls.simps)
qed

lemma queued_calls_are_resumable_or_denied_witness:
  "persisted sample_env sample_planner [sample_pending] 1"
  using queued_calls_are_resumable_or_denied [OF sample_run] by simp

lemma sample_resume:
  "planner_resume sample_env sample_planner sample_session 1 =
     ((empty_result\<lparr>rr_final := ''on it'', rr_turns := [\<lparr>te_iteration = 0, te_text = ''on it'', te_calls = []\<rparr>],
        rr_stop := ''end_turn''\<rparr>, None), sample_planner, 1)"
proof -
  obtain k where n: "nat DefaultMaxIterations = Suc k" using sample_iterations ..
  have s: "sanitize_tool_name ''task.add'' = ''task_add''" "trim_space ''on it'' = ''on it''" by code_simp+
  have "\<exists>rs. resume_results sample_env sample_planner sample_session (ms_calls (last (ss_messages sample_session))) 1 = (Inr rs, 1)"
    by (simp add: sample_session_def sample_env_def resolve_approval_def approval_binding_error_def sample_approval_def
        planner_caller_def sample_planner_def new_for_resume_def sample_json_def settled_result_def)
  then obtain rs where rs: "resume_results sample_env sample_planner sample_session (ms_calls (last (ss_messages sample_session))) 1 = (Inr rs, 1)" ..
  have q: "pk_max_iterations sample_planner = DefaultMaxIterations" by (simp add: sample_planner_def new_for_resume_def)
  have p: "resumed_planner sample_planner sample_session = sample_planner"
    by (simp add: resumed_planner_def sample_planner_def new_for_resume_def sample_session_def)
  show ?thesis
    by (simp add: planner_resume_def sample_session_valid p rs [unfolded One_nat_def] planner_tools_def s run_loop_def n q Let_def sample_env_parts
        add_usage_def empty_result_def)
qed

lemma resume_continues_with_bound_results_witness:
  "\<exists>rs. list_all2 (accounted sample_env sample_planner sample_session) (proposed sample_session) rs"
  using resume_continues_with_bound_results [OF sample_resume] by blast

end
