(* ===== verification/Agents.thy ===== *)
theory Agents
  imports GoPath SortFacts
begin

text \<open>
  Coding agents: what a runtime reports about them (\<open>internal/agentrt/runtime.go\<close>) and who
  the user means (\<open>internal/service/agent_service.go\<close>).

  The runtime is a record of functions on the world; everything the service decides is
  computed from what they answer. The errors of a resolution are a datatype: the service's two
  own errors and the errors of the runtime. Case mapping is ASCII.
\<close>

section \<open>What the runtime reports\<close>

definition KindClaude :: bytes where "KindClaude = ''claude''"
definition KindCodex :: bytes where "KindCodex = ''codex''"
definition StateWorking :: bytes where "StateWorking = ''working''"
definition StateBlocked :: bytes where "StateBlocked = ''blocked''"
definition StateDone :: bytes where "StateDone = ''done''"
definition StateIdle :: bytes where "StateIdle = ''idle''"
definition StateUnknown :: bytes where "StateUnknown = ''unknown''"

lemmas agent_names = KindClaude_def KindCodex_def StateWorking_def StateBlocked_def StateDone_def StateIdle_def StateUnknown_def

record workspace =
  wk_id :: bytes
  wk_number :: int
  wk_label :: bytes
  wk_cwd :: bytes
  wk_focused :: bool

record agent =
  ag_id :: bytes
  ag_kind :: bytes
  ag_name :: bytes
  ag_state :: bytes
  ag_session :: bytes
  ag_workspace :: workspace
  ag_tab :: bytes
  ag_pane :: bytes
  ag_cwd :: bytes
  ag_focused :: bool
  ag_title :: bytes

record agent_focus =
  fo_workspace :: bytes
  fo_pane :: bytes
  fo_agent :: bytes

record 'w runtime =
  ru_list_workspaces :: "'w \<Rightarrow> (go_error + workspace list) \<times> 'w"
  ru_list_agents :: "'w \<Rightarrow> (go_error + agent list) \<times> 'w"
  ru_get_agent :: "bytes \<Rightarrow> 'w \<Rightarrow> (go_error + agent) \<times> 'w"
  ru_focused :: "'w \<Rightarrow> (go_error + agent_focus) \<times> 'w"
  ru_send :: "bytes \<Rightarrow> bytes \<Rightarrow> 'w \<Rightarrow> go_error option \<times> 'w"
  ru_read_output :: "bytes \<Rightarrow> int \<Rightarrow> 'w \<Rightarrow> (go_error + bytes) \<times> 'w"
  ru_wait :: "bytes \<Rightarrow> 'w \<Rightarrow> (go_error + bytes) \<times> 'w"

text \<open>\<open>strings.LastIndex\<close>.\<close>

definition last_index_of :: "bytes \<Rightarrow> bytes \<Rightarrow> nat option" where
  "last_index_of p s = List.find (\<lambda>i. has_prefix (drop i s) p) (rev [0..<Suc (length s)])"

definition all_digits :: "bytes \<Rightarrow> bool" where
  "all_digits s = list_all is_digit s"

definition pane_label :: "agent \<Rightarrow> bytes" where
  "pane_label a =
     (if 0 < wk_number (ag_workspace a)
      then (case last_index_of '':p'' (ag_pane a) of
          Some i \<Rightarrow>
            (let n = drop (i + 2) (ag_pane a)
             in if n \<noteq> [] \<and> all_digits n then itoa (wk_number (ag_workspace a)) @ ''-'' @ n else ag_pane a)
        | None \<Rightarrow> ag_pane a)
      else ag_pane a)"

definition capitalize :: "bytes \<Rightarrow> bytes" where
  "capitalize s = to_upper (take 1 s) @ drop 1 s"

definition display_kind :: "bytes \<Rightarrow> bytes" where
  "display_kind k =
     (if k = KindClaude then ''Claude'' else if k = KindCodex then ''Codex'' else if k = [] then ''agent'' else capitalize k)"

section \<open>Phrases\<close>

definition workspace_name :: "workspace \<Rightarrow> bytes" where
  "workspace_name w = (if wk_label w \<noteq> [] then wk_label w else wk_id w)"

definition state_phrase :: "bytes \<Rightarrow> bytes" where
  "state_phrase s =
     (if s \<in> {StateWorking, StateBlocked, StateDone, StateIdle} then s
      else if s = StateUnknown \<or> s = [] then ''in an unknown state'' else s)"

definition indefinite_article :: "bytes \<Rightarrow> bytes" where
  "indefinite_article w =
     (if w = [] then ''a'' else if to_lower (take 1 w) \<in> {''a'', ''e'', ''i'', ''o'', ''u''} then ''an'' else ''a'')"

definition count_words :: "bytes list" where
  "count_words = [''zero'', ''one'', ''two'', ''three'', ''four'', ''five'', ''six'', ''seven'', ''eight'', ''nine'']"

definition count_word :: "nat \<Rightarrow> bytes" where
  "count_word n = (if n < length count_words then count_words ! n else nat_text n)"

definition ordinal_names :: "bytes list" where
  "ordinal_names = [''first'', ''second'', ''third'', ''fourth'', ''fifth'', ''sixth'', ''seventh'', ''eighth'', ''ninth'', ''tenth'']"

definition ordinal_word :: "nat \<Rightarrow> bytes" where
  "ordinal_word n =
     (if 1 \<le> n \<and> n \<le> length ordinal_names then ordinal_names ! (n - 1)
      else nat_text n @
        (if 11 \<le> n mod 100 \<and> n mod 100 \<le> 13 then ''th''
         else if n mod 10 = 1 then ''st'' else if n mod 10 = 2 then ''nd'' else if n mod 10 = 3 then ''rd'' else ''th''))"

definition join_clauses :: "bytes list \<Rightarrow> bytes" where
  "join_clauses cs =
     (case cs of
        [] \<Rightarrow> []
      | [a] \<Rightarrow> a
      | [a, b] \<Rightarrow> a @ '' and '' @ b
      | _ \<Rightarrow> join '', '' (butlast cs) @ '' and '' @ last cs)"

definition describe_agent :: "agent \<Rightarrow> bytes" where
  "describe_agent a =
     display_kind (ag_kind a)
     @ (if ag_name a \<noteq> [] then '' ('' @ ag_name a @ '')'' else [])
     @ (if workspace_name (ag_workspace a) \<noteq> [] then '' in '' @ workspace_name (ag_workspace a) else [])
     @ (if pane_label a \<noteq> [] then '', pane '' @ pane_label a else [])"

definition summarize_agents :: "agent list \<Rightarrow> bytes list" where
  "summarize_agents as =
     (if as = [] then [''No agents are running.'']
      else map (\<lambda>a.
          display_kind (ag_kind a)
          @ (if 1 < length (filter (\<lambda>b. ag_kind b = ag_kind a \<and> workspace_name (ag_workspace b) = workspace_name (ag_workspace a)) as)
                \<and> pane_label a \<noteq> [] then '' in pane '' @ pane_label a else [])
          @ '' is '' @ state_phrase (ag_state a)
          @ (if workspace_name (ag_workspace a) \<noteq> [] then '' on '' @ workspace_name (ag_workspace a) else [])
          @ ''.'') as)"

definition parse_kind :: "bytes \<Rightarrow> bytes" where
  "parse_kind s =
     (let k = to_lower (trim_space s)
      in if k \<in> {''claude'', ''claude code'', ''claude-code'', ''claudecode'', ''claude_code''} then KindClaude
         else if k \<in> {''codex'', ''openai codex'', ''openai-codex'', ''opencodex''} then KindCodex else k)"

section \<open>Queries and their errors\<close>

record agent_query =
  aq_kind :: bytes
  aq_workspace :: bytes
  aq_name :: bytes
  aq_id :: bytes
  aq_focused :: bool
  aq_cwd :: bytes
  aq_prefer_id :: bytes
  aq_prefer_session :: bytes
  aq_state :: bytes

datatype agent_error =
    AmbiguousAgent agent_query "agent list"
  | NoAgent agent_query bool "bytes list"
  | RuntimeErr go_error

definition query_is_empty :: "agent_query \<Rightarrow> bool" where
  "query_is_empty q \<longleftrightarrow>
     aq_kind q = [] \<and> aq_workspace q = [] \<and> aq_name q = [] \<and> aq_id q = [] \<and> \<not> aq_focused q \<and> aq_cwd q = []"

text \<open>The question put to the user when several agents match.\<close>

definition prompt_clause :: "bool \<Rightarrow> bool \<Rightarrow> nat \<Rightarrow> agent \<Rightarrow> bytes" where
  "prompt_clause same_kind same_workspace i a =
     ''the '' @ ordinal_word (i + 1) @ '' is ''
     @ (if same_kind then [] else display_kind (ag_kind a) @ '', '')
     @ state_phrase (ag_state a)
     @ (if pane_label a \<noteq> [] then '' in pane '' @ pane_label a else [])
     @ (if \<not> same_workspace \<and> workspace_name (ag_workspace a) \<noteq> []
        then '' in the '' @ workspace_name (ag_workspace a) @ '' workspace'' else [])"

definition ambiguous_prompt :: "agent list \<Rightarrow> bytes" where
  "ambiguous_prompt cs =
     (case cs of
        [] \<Rightarrow> [CHR ''I'', CHR 0x27] @ ''m not sure which agent you mean.''
      | [a] \<Rightarrow> ''Do you mean '' @ describe_agent a @ ''?''
      | a # _ \<Rightarrow>
          (let kind = ag_kind a;
               ws = workspace_name (ag_workspace a);
               same_kind = (kind \<noteq> [] \<and> list_all (\<lambda>b. ag_kind b = kind) cs);
               same_ws = (ws \<noteq> [] \<and> list_all (\<lambda>b. workspace_name (ag_workspace b) = ws) cs)
           in ''I have '' @ count_word (length cs) @ (if same_kind then '' '' @ display_kind kind else []) @ '' agents''
              @ (if same_ws then '' in the '' @ ws @ '' workspace'' else []) @ ''. ''
              @ capitalize (join_clauses (map (\<lambda>i. prompt_clause same_kind same_ws i (cs ! i)) [0..<length cs]))
              @ ''. Which one do you mean?''))"

definition apostrophe :: bytes where "apostrophe = [CHR 0x27]"

definition no_agent_text :: "agent_query \<Rightarrow> bool \<Rightarrow> bytes list \<Rightarrow> bytes" where
  "no_agent_text q unknown known =
     (if aq_focused q \<and> aq_kind q = [] \<and> aq_workspace q = [] \<and> aq_name q = [] \<and> aq_cwd q = []
      then ''No agent is in the focused pane.''
      else if query_is_empty q then ''I can'' @ apostrophe @ ''t find any agents.''
      else if aq_workspace q \<noteq> [] \<and> unknown
      then ''I don'' @ apostrophe @ ''t have a workspace called '' @ aq_workspace q @ ''.''
        @ (if known \<noteq> [] then '' Your workspaces are '' @ join_clauses known @ ''.'' else [])
      else if aq_workspace q \<noteq> [] \<and> aq_name q = [] \<and> aq_cwd q = [] \<and> \<not> aq_focused q
      then (if aq_kind q \<noteq> [] then display_kind (aq_kind q) @ '' is not running in the '' @ aq_workspace q @ '' workspace.''
            else ''No agent is running in the '' @ aq_workspace q @ '' workspace.'')
      else ''I can'' @ apostrophe @ ''t find ''
        @ (if aq_kind q \<noteq> [] then indefinite_article (display_kind (aq_kind q)) @ '' '' @ display_kind (aq_kind q) @ '' agent''
           else ''an agent'')
        @ (if aq_name q \<noteq> [] then '' named '' @ aq_name q else [])
        @ (if aq_workspace q \<noteq> [] then '' in the '' @ aq_workspace q @ '' workspace'' else [])
        @ (if aq_cwd q \<noteq> [] then '' working in '' @ clean_path (aq_cwd q) else [])
        @ (if aq_focused q then '' in the focused pane'' else [])
        @ (if aq_id q \<noteq> [] \<and> aq_kind q = [] \<and> aq_name q = [] \<and> aq_workspace q = [] \<and> aq_cwd q = [] \<and> \<not> aq_focused q
           then '' with the handle '' @ aq_id q else [])
        @ ''.'')"

definition agent_error_text :: "agent_error \<Rightarrow> bytes" where
  "agent_error_text e =
     (case e of
        AmbiguousAgent q cs \<Rightarrow>
          ''ambiguous agent query: '' @ nat_text (length cs) @ '' candidates: '' @ join ''; '' (map describe_agent cs)
      | NoAgent q unknown known \<Rightarrow> no_agent_text q unknown known
      | RuntimeErr e \<Rightarrow> err_text e)"

section \<open>Matching\<close>

definition fold_label :: "bytes \<Rightarrow> bytes" where
  "fold_label s = filter (\<lambda>c. c \<notin> set '' -_.'') (to_lower s)"

definition matches_workspace :: "workspace \<Rightarrow> bytes \<Rightarrow> bool" where
  "matches_workspace ws want \<longleftrightarrow>
     (wk_label ws \<noteq> [] \<and> (equal_fold (wk_label ws) want \<or> fold_label (wk_label ws) = fold_label want))
     \<or> (wk_id ws \<noteq> [] \<and> wk_id ws = want)"

definition path_within :: "bytes \<Rightarrow> bytes \<Rightarrow> bool" where
  "path_within child parent =
     (if parent = [] \<or> child = [] then False
      else if child = parent then True
      else has_prefix child (if has_suffix parent ''/'' then parent else parent @ ''/''))"

definition matches_cwd :: "agent \<Rightarrow> bytes \<Rightarrow> bool" where
  "matches_cwd a want =
     (let dir = (if ag_cwd a = [] then wk_cwd (ag_workspace a) else ag_cwd a)
      in if dir = [] then False
         else (let d = clean_path dir; w = clean_path want
               in d = w \<or> path_within w d \<or> path_within d w))"

definition matches_query :: "agent \<Rightarrow> agent_query \<Rightarrow> bool" where
  "matches_query a q \<longleftrightarrow>
     (aq_kind q \<noteq> [] \<longrightarrow> equal_fold (ag_kind a) (aq_kind q))
     \<and> (aq_workspace q \<noteq> [] \<longrightarrow> matches_workspace (ag_workspace a) (aq_workspace q))
     \<and> (aq_name q \<noteq> [] \<longrightarrow> ag_name a = aq_name q)
     \<and> (aq_cwd q \<noteq> [] \<longrightarrow> matches_cwd a (aq_cwd q))"

section \<open>The service\<close>

definition agent_before :: "agent \<Rightarrow> agent \<Rightarrow> bool" where
  "agent_before a b =
     (let x = ag_workspace a; y = ag_workspace b
      in if wk_number x \<noteq> wk_number y then wk_number x < wk_number y
         else if wk_label x \<noteq> wk_label y then wk_label x < wk_label y
         else ag_pane a < ag_pane b)"

definition workspace_before :: "workspace \<Rightarrow> workspace \<Rightarrow> bool" where
  "workspace_before x y =
     (if wk_number x \<noteq> wk_number y then wk_number x < wk_number y else wk_label x < wk_label y)"

definition list_agents :: "'w runtime \<Rightarrow> 'w \<Rightarrow> (go_error + agent list) \<times> 'w" where
  "list_agents rt w =
     (case ru_list_agents rt w of
        (Inl e, w') \<Rightarrow> (Inl e, w')
      | (Inr as, w') \<Rightarrow> (Inr (stable_sort agent_before as), w'))"

definition list_workspaces :: "'w runtime \<Rightarrow> 'w \<Rightarrow> (go_error + workspace list) \<times> 'w" where
  "list_workspaces rt w =
     (case ru_list_workspaces rt w of
        (Inl e, w') \<Rightarrow> (Inl e, w')
      | (Inr ws, w') \<Rightarrow> (Inr (stable_sort workspace_before ws), w'))"

definition no_agent :: "'w runtime \<Rightarrow> agent_query \<Rightarrow> 'w \<Rightarrow> agent_error \<times> 'w" where
  "no_agent rt q w =
     (if aq_workspace q = [] then (NoAgent q False [], w)
      else (case list_workspaces rt w of
          (Inl e, w') \<Rightarrow> (NoAgent q False [], w')
        | (Inr ws, w') \<Rightarrow>
            (NoAgent q (\<not> list_ex (\<lambda>x. matches_workspace x (aq_workspace q)) ws)
               (filter (\<lambda>l. l \<noteq> []) (map wk_label ws)), w')))"

text \<open>The filters of \<open>Resolve\<close>, with and without the state the user named.\<close>

definition meets :: "agent_query \<Rightarrow> bytes \<Rightarrow> agent \<Rightarrow> bool" where
  "meets q focus a \<longleftrightarrow> (aq_focused q \<longrightarrow> ag_id a = focus) \<and> matches_query a q"

definition in_state :: "agent_query \<Rightarrow> agent \<Rightarrow> bool" where
  "in_state q a \<longleftrightarrow> aq_state q = [] \<or> ag_state a = aq_state q"

definition candidates :: "agent_query \<Rightarrow> bytes \<Rightarrow> agent list \<Rightarrow> agent list" where
  "candidates q focus as =
     (let narrow = filter (\<lambda>a. meets q focus a \<and> in_state q a) as
      in if narrow = [] \<and> aq_state q \<noteq> [] then filter (meets q focus) as else narrow)"

definition prefers :: "agent_query \<Rightarrow> agent \<Rightarrow> bool" where
  "prefers q a \<longleftrightarrow> aq_prefer_id q \<noteq> [] \<and> ag_id a = aq_prefer_id q
     \<and> (aq_prefer_session q = [] \<or> ag_session a = aq_prefer_session q)"

definition choose_candidate ::
  "'w runtime \<Rightarrow> agent_query \<Rightarrow> agent list \<Rightarrow> 'w \<Rightarrow> (agent_error + agent) \<times> 'w" where
  "choose_candidate rt q cs w =
     (case List.find (prefers q) cs of
        Some a \<Rightarrow> (Inr a, w)
      | None \<Rightarrow>
          (case cs of
             [] \<Rightarrow> (case no_agent rt q w of (e, w') \<Rightarrow> (Inl e, w'))
           | [a] \<Rightarrow> (Inr a, w)
           | _ \<Rightarrow> (Inl (AmbiguousAgent q cs), w)))"

definition resolve_among :: "'w runtime \<Rightarrow> agent_query \<Rightarrow> bytes \<Rightarrow> 'w \<Rightarrow> (agent_error + agent) \<times> 'w" where
  "resolve_among rt q focus w =
     (case list_agents rt w of
        (Inl e, w') \<Rightarrow> (Inl (RuntimeErr e), w')
      | (Inr as, w') \<Rightarrow> choose_candidate rt q (candidates q focus as) w')"

definition resolve :: "'w runtime \<Rightarrow> agent_query \<Rightarrow> 'w \<Rightarrow> (agent_error + agent) \<times> 'w" where
  "resolve rt q w =
     (if aq_id q \<noteq> []
      then (case ru_get_agent rt (aq_id q) w of (Inl e, w') \<Rightarrow> (Inl (RuntimeErr e), w') | (Inr a, w') \<Rightarrow> (Inr a, w'))
      else if aq_focused q
      then (case ru_focused rt w of
          (Inl e, w') \<Rightarrow> (Inl (RuntimeErr e), w')
        | (Inr f, w') \<Rightarrow>
            if fo_agent f = [] then (Inl (NoAgent q False []), w') else resolve_among rt q (fo_agent f) w')
      else resolve_among rt q [] w)"

record agent_result =
  ar_state :: bytes
  ar_output :: bytes

definition defaultOutputLines :: int where "defaultOutputLines = 40"

text \<open>
  The wait and the read that follows it; a failed read keeps the state, as the source
  returns it beside the error.
\<close>

definition await_result :: "'w runtime \<Rightarrow> bytes \<Rightarrow> int \<Rightarrow> 'w \<Rightarrow> (agent_result \<times> go_error option) \<times> 'w" where
  "await_result rt i lines w =
     (case ru_wait rt i w of
        (Inl e, w') \<Rightarrow> ((\<lparr>ar_state = [], ar_output = []\<rparr>, Some e), w')
      | (Inr st, w') \<Rightarrow>
          (case ru_read_output rt i (if lines \<le> 0 then defaultOutputLines else lines) w' of
             (Inl e, w'') \<Rightarrow> ((\<lparr>ar_state = st, ar_output = []\<rparr>, Some e), w'')
           | (Inr out, w'') \<Rightarrow> ((\<lparr>ar_state = st, ar_output = out\<rparr>, None), w'')))"

section \<open>Nobody is picked by guessing\<close>

text \<open>Who can be meant, among the agents the runtime lists.\<close>

definition eligible_agent :: "agent_query \<Rightarrow> bytes \<Rightarrow> agent list \<Rightarrow> agent \<Rightarrow> bool" where
  "eligible_agent q focus as a \<longleftrightarrow>
     meets q focus a \<and> (in_state q a \<or> \<not> list_ex (\<lambda>b. meets q focus b \<and> in_state q b) as)"

definition answers :: "agent_query \<Rightarrow> bytes \<Rightarrow> agent list \<Rightarrow> agent_error + agent \<Rightarrow> bool" where
  "answers q focus as r \<longleftrightarrow>
     (case r of
        Inr a \<Rightarrow> a \<in> set as \<and> eligible_agent q focus as a \<and> (prefers q a \<or> filter (eligible_agent q focus as) as = [a])
      | Inl (AmbiguousAgent q' cs) \<Rightarrow> q' = q \<and> 2 \<le> length cs \<and> mset cs = mset (filter (eligible_agent q focus as) as)
          \<and> (\<forall>c \<in> set cs. \<not> prefers q c)
      | Inl (NoAgent q' _ _) \<Rightarrow> q' = q \<and> (\<forall>b \<in> set as. \<not> meets q focus b)
      | Inl (RuntimeErr e) \<Rightarrow> False)"

lemma candidates_eligible: "candidates q focus as = filter (eligible_agent q focus as) as"
proof (cases "list_ex (\<lambda>b. meets q focus b \<and> in_state q b) as")
  case True
  then have "filter (\<lambda>a. meets q focus a \<and> in_state q a) as \<noteq> []" by (auto simp: list_ex_iff filter_empty_conv)
  moreover have "eligible_agent q focus as = (\<lambda>a. meets q focus a \<and> in_state q a)"
    using True by (simp add: eligible_agent_def fun_eq_iff)
  ultimately show ?thesis by (simp add: candidates_def)
next
  case False
  then have n: "filter (\<lambda>a. meets q focus a \<and> in_state q a) as = []" by (auto simp: list_ex_iff filter_empty_conv)
  have "eligible_agent q focus as = meets q focus" using False by (simp add: eligible_agent_def fun_eq_iff)
  then have "filter (eligible_agent q focus as) as = filter (meets q focus) as" by simp
  moreover have "aq_state q = [] \<Longrightarrow> filter (meets q focus) as = []"
    using n by (simp add: in_state_def)
  ultimately show ?thesis using n by (simp add: candidates_def)
qed

lemma candidates_Nil: "candidates q focus as = [] \<longleftrightarrow> (\<forall>b \<in> set as. \<not> meets q focus b)"
  by (auto simp: candidates_def in_state_def filter_empty_conv Let_def)

lemma choose_candidate_cases:
  assumes "choose_candidate rt q cs w = (r, w')"
  shows "case r of
      Inr a \<Rightarrow> a \<in> set cs \<and> (prefers q a \<or> cs = [a])
    | Inl (AmbiguousAgent q' cs') \<Rightarrow> q' = q \<and> cs' = cs \<and> 2 \<le> length cs \<and> (\<forall>c \<in> set cs. \<not> prefers q c)
    | Inl (NoAgent q' _ _) \<Rightarrow> q' = q \<and> cs = []
    | Inl (RuntimeErr e) \<Rightarrow> False"
proof (cases "List.find (prefers q) cs")
  case (Some a)
  then have "a \<in> set cs \<and> prefers q a" by (auto simp: find_Some_iff)
  with Some assms show ?thesis by (auto simp: choose_candidate_def)
next
  case None
  then have n: "\<forall>c \<in> set cs. \<not> prefers q c" by (simp add: find_None_iff)
  show ?thesis
  proof (cases cs)
    case Nil
    then show ?thesis using assms None
      by (auto simp: choose_candidate_def no_agent_def split: prod.splits sum.splits if_splits)
  next
    case (Cons a cs')
    then show ?thesis using assms None n by (cases cs') (auto simp: choose_candidate_def)
  qed
qed

lemma eligible_sorted: "eligible_agent q focus (stable_sort lt as) = eligible_agent q focus as"
  by (simp add: eligible_agent_def list_ex_iff fun_eq_iff)

lemma resolve_among_answers:
  assumes "resolve_among rt q focus w = (r, w')"
  shows "(\<exists>e. r = Inl (RuntimeErr e))
    \<or> (\<exists>as w1. ru_list_agents rt w = (Inr as, w1) \<and> answers q focus as r)"
proof (cases "ru_list_agents rt w")
  case (Pair a w1)
  show ?thesis
  proof (cases a)
    case (Inl e)
    then show ?thesis using Pair assms by (auto simp: resolve_among_def list_agents_def)
  next
    case (Inr as)
    let ?as = "stable_sort agent_before as"
    have c: "choose_candidate rt q (candidates q focus ?as) w1 = (r, w')"
      using assms Pair Inr by (simp add: resolve_among_def list_agents_def)
    have e: "candidates q focus ?as = filter (eligible_agent q focus as) ?as"
      by (simp add: candidates_eligible eligible_sorted)
    have m: "mset (candidates q focus ?as) = mset (filter (eligible_agent q focus as) as)"
      by (simp add: e mset_stable_sort)
    have "answers q focus as r"
    proof (cases r)
      case (Inr a)
      then have a: "a \<in> set (candidates q focus ?as) \<and> (prefers q a \<or> candidates q focus ?as = [a])"
        using choose_candidate_cases [OF c] by simp
      moreover have "candidates q focus ?as = [a] \<Longrightarrow> filter (eligible_agent q focus as) as = [a]"
        using m by (simp del: mset_filter)
      ultimately show ?thesis using Inr by (auto simp: answers_def e)
    next
      case (Inl err)
      then show ?thesis using choose_candidate_cases [OF c] m candidates_Nil [of q focus ?as]
        by (cases err) (auto simp: answers_def)
    qed
    with Pair Inr show ?thesis by blast
  qed
qed


text \<open>The listing is a permutation of the runtime's, in the order of \<open>List\<close>.\<close>

lemma weak_order_agents: "weak_order agent_before"
  by (auto simp: weak_order_def agent_before_def Let_def)

lemma listing_in_order:
  "list_agents rt w = (Inr as, w') \<Longrightarrow>
   \<exists>listed. ru_list_agents rt w = (Inr listed, w') \<and> mset as = mset listed \<and> in_order agent_before as"
  by (auto simp: list_agents_def mset_stable_sort intro: in_order_stable_sort [OF weak_order_agents]
      split: prod.splits sum.splits)

text \<open>A summary has one line per agent.\<close>

lemma summarize_one_each: "as \<noteq> [] \<Longrightarrow> length (summarize_agents as) = length as"
  by (simp add: summarize_agents_def)

section \<open>Two agents of a kind\<close>

definition sample_agent :: "bytes \<Rightarrow> bytes \<Rightarrow> agent" where
  "sample_agent pane st =
     \<lparr>ag_id = pane, ag_kind = KindClaude, ag_name = [], ag_state = st, ag_session = [],
      ag_workspace = \<lparr>wk_id = ''w9'', wk_number = 5, wk_label = ''qi'', wk_cwd = [], wk_focused = True\<rparr>,
      ag_tab = [], ag_pane = pane, ag_cwd = [], ag_focused = False, ag_title = []\<rparr>"

definition sample_runtime :: "unit runtime" where
  "sample_runtime =
     \<lparr>ru_list_workspaces = (\<lambda>w. (Inr [], w)),
      ru_list_agents = (\<lambda>w. (Inr [sample_agent ''w9:p2'' StateIdle, sample_agent ''w9:p1'' StateWorking], w)),
      ru_get_agent = (\<lambda>i w. (Inl (sentinel_error S_AgentNotFound ''agent not found''), w)),
      ru_focused = (\<lambda>w. (Inr \<lparr>fo_workspace = ''w9'', fo_pane = ''w9:p1'', fo_agent = ''w9:p1''\<rparr>, w)),
      ru_send = (\<lambda>i t w. (None, w)),
      ru_read_output = (\<lambda>i n w. (Inr ''ok'', w)),
      ru_wait = (\<lambda>i w. (Inr StateDone, w))\<rparr>"

definition any_claude :: agent_query where
  "any_claude = \<lparr>aq_kind = KindClaude, aq_workspace = [], aq_name = [], aq_id = [], aq_focused = False, aq_cwd = [],
     aq_prefer_id = [], aq_prefer_session = [], aq_state = []\<rparr>"

lemma sample_resolved:
  "resolve sample_runtime any_claude () =
     (Inl (AmbiguousAgent any_claude [sample_agent ''w9:p1'' StateWorking, sample_agent ''w9:p2'' StateIdle]), ())"
  by code_simp


lemma sample_prompt:
  "ambiguous_prompt [sample_agent ''w9:p1'' StateWorking, sample_agent ''w9:p2'' StateIdle] =
     ''I have two Claude agents in the qi workspace. The first is working in pane 5-1 and the second is idle in pane 5-2. '' @
     ''Which one do you mean?''"
  by code_simp

end
