(* ===== verification/Intent.thy ===== *)
theory Intent
  imports Agents WordFacts
begin

text \<open>
  The grammar of spoken commands (\<open>internal/voice/intent.go\<close>). An utterance is split into
  tokens; the lowered tokens are matched, and the instruction is put together again from the
  tokens as they were said. The source consumes slices and counts; here a matcher answers with
  what it found and how many tokens it took.
\<close>

section \<open>Intents\<close>

datatype intent_kind = IntentUnknown | IntentStatus | IntentInstruct | IntentClarify | IntentQuit

fun intent_kind_string :: "intent_kind \<Rightarrow> bytes" where
  "intent_kind_string IntentStatus = ''status''"
| "intent_kind_string IntentInstruct = ''instruct''"
| "intent_kind_string IntentClarify = ''clarify''"
| "intent_kind_string IntentQuit = ''quit''"
| "intent_kind_string IntentUnknown = ''unknown''"

record target =
  tg_kind :: bytes
  tg_workspace :: bytes
  tg_name :: bytes
  tg_this :: bool
  tg_focused :: bool
  tg_ordinal :: nat
  tg_pane :: bytes
  tg_state :: bytes

definition no_target :: target where
  "no_target = \<lparr>tg_kind = [], tg_workspace = [], tg_name = [], tg_this = False, tg_focused = False,
     tg_ordinal = 0, tg_pane = [], tg_state = []\<rparr>"

record intent =
  it_kind :: intent_kind
  it_target :: target
  it_instruction :: bytes
  it_raw :: bytes

section \<open>The vocabulary\<close>

definition instruct_verbs :: "bytes list" where
  "instruct_verbs = [''tell'', ''ask'', ''have'', ''get'', ''instruct'', ''tel'', ''tele'', ''tail'', ''tale'', ''till'', ''tel.'']"

definition kind_aliases :: "(bytes, bytes) gomap" where
  "kind_aliases =
     [(''clawed'', KindClaude), (''claud'', KindClaude), (''clod'', KindClaude), (''cloud'', KindClaude),
      (''klaud'', KindClaude), (''claude'' @ apostrophe @ ''s'', KindClaude),
      (''codecs'', KindCodex), (''kodak'', KindCodex), (''codecs.'', KindCodex),
      (''codex'' @ apostrophe @ ''s'', KindCodex), (''co-dex'', KindCodex)]"

definition status_phrases :: "bytes list" where
  "status_phrases =
     [''status'', ''agent status'', ''agents status'', ''what is the agent status'', ''what are my agents doing'',
      ''what are the agents doing'', ''what are my agents up to'', ''what is everyone doing'', ''what is everybody doing'',
      ''what agents are working'', ''what agents are running'', ''what agents do i have'', ''who is working'', ''who is busy'',
      ''list agents'', ''list my agents'', ''show agents'', ''show my agents'', ''how are my agents doing'']"

definition quit_phrases :: "bytes list" where
  "quit_phrases = [''quit'', ''exit'', ''stop listening'', ''goodbye'', ''bye'', ''good bye'', ''that is all'', ''never mind'']"

definition ordinal_words :: "(bytes, nat) gomap" where
  "ordinal_words =
     [(''first'', 1), (''1st'', 1), (''one'', 1), (''1'', 1), (''second'', 2), (''2nd'', 2), (''two'', 2), (''2'', 2),
      (''third'', 3), (''3rd'', 3), (''three'', 3), (''3'', 3), (''fourth'', 4), (''4th'', 4), (''four'', 4), (''4'', 4),
      (''fifth'', 5), (''5th'', 5), (''five'', 5), (''5'', 5)]"

definition state_words :: "(bytes, bytes) gomap" where
  "state_words =
     [(''working'', StateWorking), (''busy'', StateWorking), (''idle'', StateIdle), (''free'', StateIdle),
      (''blocked'', StateBlocked), (''stuck'', StateBlocked), (''done'', StateDone)]"

text \<open>\<open>paneRe\<close>: digits, a dash and digits; \<open>w\<close> digits \<open>:p\<close> digits; or digits.\<close>

definition some_digits :: "bytes \<Rightarrow> bool" where
  "some_digits s \<longleftrightarrow> s \<noteq> [] \<and> list_all is_digit s"

definition pane_re :: "bytes \<Rightarrow> bool" where
  "pane_re s =
     (let digits = takeWhile is_digit s; rest = dropWhile is_digit s in
      (digits \<noteq> [] \<and> (rest = [] \<or> (hd rest = CHR ''-'' \<and> some_digits (tl rest))))
      \<or> (s \<noteq> [] \<and> hd s = CHR ''w'' \<and>
          (let d = takeWhile is_digit (tl s); r = dropWhile is_digit (tl s)
           in d \<noteq> [] \<and> has_prefix r '':p'' \<and> some_digits (drop 2 r))))"

section \<open>Tokens\<close>

definition drop_wake_word :: "bytes \<Rightarrow> bool" where
  "drop_wake_word t \<longleftrightarrow>
     trim_set (to_lower t) '',.'' \<in> {''hey'', ''ok'', ''okay'', ''hi'', ''hello'', ''please'', ''qi''}"

definition drop_wake_words :: "bytes list \<Rightarrow> bytes list" where
  "drop_wake_words toks = dropWhile drop_wake_word toks"

definition tokenize :: "bytes \<Rightarrow> bytes list" where
  "tokenize utterance =
     (let toks = drop_wake_words (words (trim_right_set (trim_space utterance) '' .!?,;''))
      in case toks of
           [] \<Rightarrow> []
         | t # ts \<Rightarrow> if CHR ''-'' \<in> set t then split_on (CHR ''-'') t @ ts else toks)"

definition lower_token :: "bytes \<Rightarrow> bytes" where
  "lower_token t = trim_set (to_lower t) '',.!?;''"

definition lower_tokens :: "bytes list \<Rightarrow> bytes list" where
  "lower_tokens toks = map lower_token toks"

definition expand_contraction :: "bytes \<Rightarrow> bytes" where
  "expand_contraction t =
     (if t = ''what'' @ apostrophe @ ''s'' then ''what is''
      else if t = ''who'' @ apostrophe @ ''s'' then ''who is''
      else if t = ''i'' @ apostrophe @ ''m'' then ''i am''
      else if t = ''everyone'' @ apostrophe @ ''s'' then ''everyone is''
      else if t = ''that'' @ apostrophe @ ''s'' then ''that is''
      else t)"

definition filler_words :: "bytes list" where
  "filler_words = [''currently'', ''right'', ''now'', ''please'', ''just'']"

definition canonicalize :: "bytes list \<Rightarrow> bytes" where
  "canonicalize low = join '' '' (map expand_contraction (filter (\<lambda>t. t \<notin> set filler_words) low))"

definition words_prefix :: "bytes list \<Rightarrow> bytes list \<Rightarrow> bool" where
  "words_prefix low ws \<longleftrightarrow> take (length ws) low = ws"

definition trim_leading :: "bytes list \<Rightarrow> bytes \<Rightarrow> bytes list" where
  "trim_leading low w = (if low \<noteq> [] \<and> hd low = w then tl low else low)"

section \<open>Matchers\<close>

definition match_kind :: "bytes list \<Rightarrow> (bytes \<times> nat) option" where
  "match_kind low =
     (if low = [] then None
      else if words_prefix low [''claude'', ''code''] then Some (KindClaude, 2)
      else if hd low = ''claude'' \<or> hd low = ''claude-code'' then Some (KindClaude, 1)
      else if hd low = ''codex'' then Some (KindCodex, 1)
      else map_option (\<lambda>k. (k, 1)) (map_of kind_aliases (hd low)))"

definition match_looking_at :: "bytes list \<Rightarrow> nat" where
  "match_looking_at low =
     (if words_prefix low [''i'' @ apostrophe @ ''m'', ''looking'', ''at''] then 3
      else if words_prefix low [''i'', ''am'', ''looking'', ''at''] then 4 else 0)"

definition match_state_qualifier :: "bytes list \<Rightarrow> (bytes \<times> nat) option" where
  "match_state_qualifier low =
     (let i = (if words_prefix low [''that'', ''is''] \<or> words_prefix low [''who'', ''is''] \<or> words_prefix low [''which'', ''is'']
               then 2
               else if low \<noteq> [] \<and> hd low \<in> {''that'' @ apostrophe @ ''s'', ''who'' @ apostrophe @ ''s'', ''which'' @ apostrophe @ ''s''}
               then 1 else 0);
          j = (if i < length low \<and> low ! i \<in> {''currently'', ''now''} then i + 1 else i)
      in if j < length low then map_option (\<lambda>st. (st, j + 1)) (map_of state_words (low ! j)) else None)"

definition separates :: "bytes \<Rightarrow> bool" where
  "separates w \<longleftrightarrow> w = ''to'' \<or> w = ''that''"

text \<open>A clause that begins at "in": its label, whether it is this workspace, and its length.\<close>

definition match_workspace :: "bytes list \<Rightarrow> (bytes \<times> bool \<times> nat) option" where
  "match_workspace low =
     (let j = (if 1 < length low \<and> low ! 1 = ''the'' then 2 else 1) in
      if length low \<le> j then None
      else if low ! j = ''this'' \<and> j + 1 < length low \<and> low ! (j + 1) = ''workspace'' then Some ([], True, j + 2)
      else if low ! j = ''workspace'' \<and> j + 1 < length low \<and> \<not> separates (low ! (j + 1))
           \<and> (j + 2 = length low \<or> separates (low ! (j + 2)))
      then Some (trim_set (low ! (j + 1)) '',.'', False, j + 2)
      else (case List.find (\<lambda>k. low ! k = ''workspace'') [j..<min (length low) (j + 3)] of
          Some k \<Rightarrow> if k = j then None else Some (join '' '' (take (k - j) (drop j low)), False, k + 1)
        | None \<Rightarrow>
            if low ! j = ''to'' then None
            else if j + 1 < length low \<and> \<not> separates (low ! (j + 1)) then None
            else Some (trim_set (low ! j) '',.'', False, j + 1)))"

definition match_workspace_answer :: "bytes list \<Rightarrow> (bytes \<times> bool \<times> nat) option" where
  "match_workspace_answer low =
     (if length low < 2 \<or> hd low \<noteq> ''in'' then None
      else (let j = (if low ! 1 = ''the'' then 2 else 1) in
        if length low \<le> j then None
        else if low ! j = ''this'' \<and> j + 1 < length low \<and> low ! (j + 1) = ''workspace'' then Some ([], True, j + 2)
        else (let e = (if last low = ''workspace'' then length low - 1 else length low)
              in if e \<le> j then None else Some (join '' '' (take (e - j) (drop j low)), False, length low))))"

definition match_pane_phrase :: "bytes list \<Rightarrow> bytes option" where
  "match_pane_phrase low =
     (let c = (if words_prefix low [''one'', ''in''] then drop 2 low
               else if low \<noteq> [] \<and> hd low = ''in'' then tl low else low);
          d = trim_leading c ''the''
      in if length d = 2 \<and> d ! 0 = ''pane'' \<and> pane_re (d ! 1) then Some (d ! 1) else None)"

section \<open>Answers to a question\<close>

definition in_workspace :: "bytes \<times> bool \<times> nat \<Rightarrow> target" where
  "in_workspace m = (case m of (ws, this, n) \<Rightarrow> no_target\<lparr>tg_workspace := ws, tg_this := this\<rparr>)"

definition the_whole :: "(bytes \<times> bool \<times> nat) option \<Rightarrow> nat \<Rightarrow> target option" where
  "the_whole m len = (case m of None \<Rightarrow> None | Some (ws, this, n) \<Rightarrow> if n = len then Some (in_workspace (ws, this, n)) else None)"

definition answer_ordinal :: "bytes list \<Rightarrow> target option" where
  "answer_ordinal c =
     (case map_of ordinal_words (hd c) of
        Some n \<Rightarrow> if tl c = [] \<or> tl c = [''one''] then Some (no_target\<lparr>tg_ordinal := n\<rparr>) else None
      | None \<Rightarrow> None)"

definition answer_state :: "bytes list \<Rightarrow> target option" where
  "answer_state c =
     (if length c = 1 \<or> length c = 2 \<and> c ! 1 = ''one''
      then map_option (\<lambda>s. no_target\<lparr>tg_state := s\<rparr>) (map_of state_words (hd c)) else None)"

definition answer_one :: "bytes list \<Rightarrow> target option" where
  "answer_one c =
     (if 2 \<le> length c \<and> hd c = ''one''
      then (case match_state_qualifier (tl c) of
          Some (st, n) \<Rightarrow>
            if 1 + n = length c then Some (no_target\<lparr>tg_state := st\<rparr>)
            else if c ! 1 = ''in'' then the_whole (match_workspace_answer (tl c)) (length c - 1) else None
        | None \<Rightarrow> if c ! 1 = ''in'' then the_whole (match_workspace_answer (tl c)) (length c - 1) else None)
      else None)"

definition answer_label :: "bytes list \<Rightarrow> target option" where
  "answer_label c =
     (if 2 \<le> length c \<and> length c \<le> 4 \<and> last c = ''one'' \<and> map_of state_words (hd c) = None \<and> map_of ordinal_words (hd c) = None
      then Some (no_target\<lparr>tg_workspace := join '' '' (butlast c)\<rparr>) else None)"

definition answer_in :: "bytes list \<Rightarrow> target option" where
  "answer_in c = (if hd c = ''in'' then the_whole (match_workspace_answer c) (length c) else None)"

definition or_else :: "'a option \<Rightarrow> 'a option \<Rightarrow> 'a option" where
  "or_else a b = (case a of None \<Rightarrow> b | Some x \<Rightarrow> Some x)"

definition parse_clarification :: "bytes list \<Rightarrow> target option" where
  "parse_clarification low =
     (let c = trim_leading low ''the'' in
      if c = [] then None
      else (case match_pane_phrase c of
          Some p \<Rightarrow> Some (no_target\<lparr>tg_pane := p\<rparr>)
        | None \<Rightarrow>
            (let d = trim_leading c ''number'' in
             if d = [] then None
             else or_else (answer_ordinal d) (or_else (answer_state d) (or_else (answer_one d)
                    (or_else (answer_label d) (answer_in d)))))))"

section \<open>Who is addressed\<close>

definition state_before_kind :: "bytes list \<Rightarrow> nat \<Rightarrow> target \<times> nat" where
  "state_before_kind low i =
     (case map_of state_words (low ! i) of
        Some st \<Rightarrow>
          if i + 1 < length low \<and> match_kind (drop (i + 1) low) \<noteq> None
          then (no_target\<lparr>tg_state := st\<rparr>, i + 1) else (no_target, i)
      | None \<Rightarrow> (no_target, i))"

definition agent_word :: "bytes list \<Rightarrow> bytes list \<Rightarrow> target \<times> nat \<times> bool \<Rightarrow> target \<times> nat \<times> bool" where
  "agent_word toks low m =
     (case m of (t, i, matched) \<Rightarrow>
        if i < length low \<and> low ! i = ''agent''
        then (if i + 2 < length low \<and> low ! (i + 1) \<in> {''named'', ''called''}
              then (t\<lparr>tg_name := trim_set (toks ! (i + 2)) '',.''\<rparr>, i + 3, True)
              else (t, i + 1, True))
        else m)"

definition state_after_kind :: "bytes list \<Rightarrow> target \<times> nat \<times> bool \<Rightarrow> target \<times> nat \<times> bool" where
  "state_after_kind low m =
     (case m of (t, i, matched) \<Rightarrow>
        if matched
        then (case match_state_qualifier (drop i low) of
            Some (st, n) \<Rightarrow> (t\<lparr>tg_state := st\<rparr>, i + n, True) | None \<Rightarrow> m)
        else m)"

definition looking_at :: "bytes list \<Rightarrow> target \<times> nat \<times> bool \<Rightarrow> target \<times> nat \<times> bool" where
  "looking_at low m =
     (case m of (t, i, matched) \<Rightarrow>
        (let n = match_looking_at (drop i low)
         in if 0 < n then (t\<lparr>tg_focused := True\<rparr>, i + n, True) else m))"

definition named_agent :: "bytes list \<Rightarrow> bytes list \<Rightarrow> nat \<Rightarrow> target \<times> nat \<times> bool" where
  "named_agent toks low i =
     (if words_prefix (drop i low) [''focused'', ''agent''] \<or> words_prefix (drop i low) [''current'', ''agent'']
      then (no_target\<lparr>tg_focused := True\<rparr>, i + 2, True)
      else if words_prefix (drop i low) [''agent'', ''in'', ''front'', ''of'', ''me'']
      then (no_target\<lparr>tg_focused := True\<rparr>, i + 5, True)
      else (case state_before_kind low i of
          (t, j) \<Rightarrow>
            looking_at low (state_after_kind low (agent_word toks low
              (case match_kind (drop j low) of
                 Some (k, n) \<Rightarrow> (t\<lparr>tg_kind := k\<rparr>, j + n, True) | None \<Rightarrow> (t, j, False))))))"

definition workspace_clause :: "bytes list \<Rightarrow> target \<Rightarrow> nat \<Rightarrow> target \<times> nat" where
  "workspace_clause low t i =
     (if i < length low \<and> low ! i = ''here'' then (t\<lparr>tg_this := True\<rparr>, i + 1)
      else if i < length low \<and> (low ! i = ''in'' \<or> low ! i = ''and'')
      then (case match_workspace (drop i low) of
          Some (ws, this, n) \<Rightarrow>
            if low ! i = ''in'' \<or> this \<or> low ! (i + n - 1) = ''workspace''
            then (t\<lparr>tg_workspace := ws, tg_this := this\<rparr>, i + n) else (t, i)
        | None \<Rightarrow> (t, i))
      else (t, i))"

definition parse_target :: "bytes list \<Rightarrow> bytes list \<Rightarrow> (target \<times> nat) option" where
  "parse_target toks low =
     (if low = [] then None
      else if words_prefix low [''this'', ''agent''] then Some (no_target\<lparr>tg_focused := True\<rparr>, 2)
      else (let i = (if hd low = ''the'' then 1 else 0) in
        if length low \<le> i then None
        else (case named_agent toks low i of
            (t, j, matched) \<Rightarrow> if matched then Some (workspace_clause low t j) else None)))"

definition names_another_agent :: "bytes list \<Rightarrow> bool" where
  "names_another_agent low \<longleftrightarrow>
     low \<noteq> [] \<and> (hd low \<in> {''and'', ''&'', ''plus'', ''then'', ''or''}
       \<or> list_ex (\<lambda>j. match_kind (drop j low) \<noteq> None) [0..<length (takeWhile (\<lambda>w. \<not> separates w) low)])"

section \<open>Parsing\<close>

text \<open>The instruction: what follows the separator and the pleases, in the words of the user.\<close>

definition after_separator :: "bytes list \<Rightarrow> bytes list" where
  "after_separator rest = (if rest \<noteq> [] \<and> separates (lower_token (hd rest)) then tl rest else rest)"

definition instruction_of :: "bytes list \<Rightarrow> bytes" where
  "instruction_of rest =
     trim_space (trim_right_set (join '' '' (dropWhile (\<lambda>w. lower_token w = ''please'') (after_separator rest))) ''.!?,;'')"

definition unknown_intent :: "bytes \<Rightarrow> intent" where
  "unknown_intent raw = \<lparr>it_kind = IntentUnknown, it_target = no_target, it_instruction = [], it_raw = raw\<rparr>"

definition parse_instruction :: "bytes \<Rightarrow> bytes list \<Rightarrow> intent" where
  "parse_instruction raw toks =
     (let low = lower_tokens toks in
      if hd low \<notin> set instruct_verbs then unknown_intent raw
      else (case parse_target (tl toks) (tl low) of
          None \<Rightarrow> unknown_intent raw
        | Some (t, n) \<Rightarrow>
            if names_another_agent (drop (1 + n) low) then unknown_intent raw
            else (let instruction = instruction_of (drop (1 + n) toks)
                  in if instruction = [] then unknown_intent raw
                     else \<lparr>it_kind = IntentInstruct, it_target = t, it_instruction = instruction, it_raw = raw\<rparr>)))"

definition parse_utterance :: "bytes \<Rightarrow> intent" where
  "parse_utterance utterance =
     (let toks = tokenize utterance; low = lower_tokens toks; intent = unknown_intent utterance in
      if toks = [] then intent
      else if canonicalize low \<in> set quit_phrases then intent\<lparr>it_kind := IntentQuit\<rparr>
      else if canonicalize low \<in> set status_phrases then intent\<lparr>it_kind := IntentStatus\<rparr>
      else (case parse_clarification low of
          Some t \<Rightarrow> intent\<lparr>it_kind := IntentClarify, it_target := t\<rparr>
        | None \<Rightarrow> parse_instruction utterance toks))"

section \<open>What is understood\<close>

text \<open>
  A plain command: a verb, the name of an agent kind, perhaps a workspace, the separator and
  the words of the instruction.
\<close>

definition addressee :: "bytes \<Rightarrow> bytes list \<Rightarrow> bytes list" where
  "addressee kind label = (if label = [] then [kind] else [kind, ''in'', ''the''] @ label @ [''workspace''])"

definition spoken_kind :: "bytes \<Rightarrow> bytes \<Rightarrow> bool" where
  "spoken_kind w k \<longleftrightarrow> (lower_token w = ''claude'' \<and> k = KindClaude) \<or> (lower_token w = ''codex'' \<and> k = KindCodex)"

definition plain_label :: "bytes list \<Rightarrow> bool" where
  "plain_label label \<longleftrightarrow> length label \<le> 2 \<and> ''workspace'' \<notin> set label
     \<and> (label \<noteq> [] \<longrightarrow> hd label \<noteq> ''this'') \<and> list_all (\<lambda>w. lower_token w = w) label"

definition plain_command :: "bytes \<Rightarrow> bytes \<Rightarrow> bytes list \<Rightarrow> bytes list \<Rightarrow> bool" where
  "plain_command verb kind label ins \<longleftrightarrow>
     lower_token verb \<in> set instruct_verbs \<and> \<not> drop_wake_word verb \<and> CHR ''-'' \<notin> set verb
     \<and> plain_label label
     \<and> ins \<noteq> [] \<and> lower_token (hd ins) \<noteq> ''please'' \<and> last (last ins) \<notin> set '' .!?,;''
     \<and> list_all spaceless (verb # kind # label @ ins)
     \<and> (label = [] \<and> length ins = 1 \<longrightarrow> lower_token (hd ins) \<noteq> ''one'')"

lemma verbs_are_special:
  "list_all (\<lambda>v. v \<notin> set filler_words \<and> expand_contraction v = v \<and> v \<noteq> ''the'' \<and> v \<noteq> ''number'' \<and> v \<noteq> ''one'' \<and> v \<noteq> ''in''
     \<and> v \<noteq> ''pane'' \<and> map_of ordinal_words v = None
     \<and> list_all (\<lambda>p. \<not> has_prefix p (v @ '' '') \<and> p \<noteq> v) (quit_phrases @ status_phrases)) instruct_verbs"
  by code_simp

lemma canonicalize_verb:
  assumes "v \<in> set instruct_verbs" shows "canonicalize (v # low) \<notin> set (quit_phrases @ status_phrases)"
proof -
  have v: "v \<notin> set filler_words" "expand_contraction v = v"
    "\<forall>p \<in> set (quit_phrases @ status_phrases). \<not> has_prefix p (v @ '' '') \<and> p \<noteq> v"
    using verbs_are_special assms unfolding list_all_iff by blast+
  then have "canonicalize (v # low) = v \<or> has_prefix (canonicalize (v # low)) (v @ '' '')"
    by (simp add: canonicalize_def join_first has_prefix_def)
  with v(3) show ?thesis by auto
qed

lemma no_clarification:
  assumes "v \<in> set instruct_verbs" and "3 \<le> length low" and "length low > 3 \<or> last low \<noteq> ''one''"
  shows "parse_clarification (v # low) = None"
proof -
  have v: "v \<noteq> ''the''" "v \<noteq> ''number''" "v \<noteq> ''one''" "v \<noteq> ''in''" "v \<noteq> ''pane''" "map_of ordinal_words v = None"
    using verbs_are_special assms(1) unfolding list_all_iff by blast+
  have p: "match_pane_phrase (v # low) = None"
    using v by (simp add: match_pane_phrase_def words_prefix_def trim_leading_def Let_def)
  show ?thesis
    using v assms(2,3)
    by (auto simp: parse_clarification_def trim_leading_def p answer_ordinal_def answer_state_def answer_one_def
        answer_label_def answer_in_def or_else_def Let_def)
qed

lemma named_kind:
  assumes "spoken_kind w k" and "tl low \<noteq> []" and "low ! 0 = lower_token w" and "low ! 1 \<in> {''to'', ''in''}"
  shows "named_agent toks low 0 = (no_target\<lparr>tg_kind := k\<rparr>, 1, True)"
proof -
  obtain a b ls where low: "low = a # b # ls" using assms(2) by (cases low; cases "tl low") auto
  have b: "b = ''to'' \<or> b = ''in''" and a: "a = lower_token w" using assms low by auto
  have k: "a = ''claude'' \<and> k = KindClaude \<or> a = ''codex'' \<and> k = KindCodex" using assms(1) a by (auto simp: spoken_kind_def)
  have s: "state_before_kind low 0 = (no_target, 0)"
    using k low by (elim disjE conjE) (simp_all add: state_before_kind_def state_words_def)
  have m: "match_kind low = Some (k, 1)" using k b low by (elim disjE conjE) (simp_all add: match_kind_def words_prefix_def)
  have q: "match_state_qualifier (b # ls) = None"
    using b by (elim disjE) (simp_all add: match_state_qualifier_def words_prefix_def state_words_def apostrophe_def)
  have l: "match_looking_at (b # ls) = 0" using b by (elim disjE) (simp_all add: match_looking_at_def words_prefix_def apostrophe_def)
  show ?thesis
    using k b s m q l low by (elim disjE conjE)
      (simp_all add: named_agent_def words_prefix_def agent_word_def state_after_kind_def looking_at_def)
qed

lemma workspace_found:
  assumes "label \<noteq> []" and "plain_label label"
  shows "match_workspace ([''in'', ''the''] @ label @ [''workspace'', ''to''] @ rest) = Some (join '' '' label, False, length label + 3)"
proof -
  let ?low = "[''in'', ''the''] @ label @ [''workspace'', ''to''] @ rest"
  obtain a ls where label: "label = a # ls" using assms(1) by (cases label) auto
  have w: "''workspace'' \<notin> set label" and n: "length label \<le> 2" and t: "a \<noteq> ''this''"
    using assms(2) label by (simp_all add: plain_label_def)
  show ?thesis
  proof (cases ls)
    case Nil
    have "[2..<min (length ?low) (2 + 3)] = [2, 3, 4]" using label Nil by (simp add: upt_rec)
    then show ?thesis
      using w t label Nil by (simp add: match_workspace_def separates_def)
  next
    case (Cons b bs)
    then have "bs = []" using n label by simp
    have "[2..<min (length ?low) (2 + 3)] = [2, 3, 4]" using label Cons by (simp add: upt_rec)
    then show ?thesis
      using w t label Cons \<open>bs = []\<close> by (auto simp: match_workspace_def separates_def)
  qed
qed

lemma particles:
  "lower_token ''to'' = ''to''" "lower_token ''in'' = ''in''" "lower_token ''the'' = ''the''" "lower_token ''workspace'' = ''workspace''"
  by code_simp+

lemma particles_spaceless: "list_all spaceless [''to'', ''in'', ''the'', ''workspace'']"
proof -
  have "list_all (list_all (\<lambda>c. c \<notin> hd ` set unicode_spaces)) [''to'', ''in'', ''the'', ''workspace'']" by code_simp
  then show ?thesis by (simp add: spaceless_chars)
qed

lemma plain_tokens:
  assumes "toks \<noteq> []" and "list_all spaceless toks" and "\<not> drop_wake_word (hd toks)" and "CHR ''-'' \<notin> set (hd toks)"
    and "last (last toks) \<notin> set '' .!?,;''"
  shows "tokenize (join '' '' toks) = toks"
proof -
  have "\<forall>w \<in> set toks. spaceless w" using assms(2) by (simp add: list_all_iff)
  then have w: "trim_space (join '' '' toks) = join '' '' toks" "words (join '' '' toks) = toks"
    using assms(1) by (simp_all add: trim_space_words words_join)
  obtain ts t where ts: "toks = ts @ [t]" using assms(1) by (metis append_butlast_last_id)
  have "t \<noteq> []" using assms(2) ts by (simp add: spaceless_def)
  then have "last (join '' '' toks) = last t" by (simp add: ts join_last)
  then have "trim_right_set (join '' '' toks) '' .!?,;'' = join '' '' toks"
    using assms(5) ts by (intro trim_right_set_last) simp
  with w assms(1,3,4) show ?thesis by (cases toks) (simp_all add: tokenize_def drop_wake_words_def)
qed

lemma instruction_words:
  assumes "ins \<noteq> []" and "list_all spaceless ins" and "lower_token (hd ins) \<noteq> ''please''" and "last (last ins) \<notin> set '' .!?,;''"
  shows "instruction_of (''to'' # ins) = join '' '' ins" and "join '' '' ins \<noteq> []"
proof -
  have w: "\<forall>w \<in> set ins. spaceless w" using assms(2) by (simp add: list_all_iff)
  obtain ts t where ts: "ins = ts @ [t]" using assms(1) by (metis append_butlast_last_id)
  have t: "t \<noteq> []" using assms(2) ts by (simp add: spaceless_def)
  then have "last (join '' '' ins) = last t" by (simp add: ts join_last)
  then have r: "trim_right_set (join '' '' ins) ''.!?,;'' = join '' '' ins"
    using assms(4) ts by (intro trim_right_set_last) simp
  have "dropWhile (\<lambda>w. lower_token w = ''please'') ins = ins" using assms(1,3) by (cases ins) simp_all
  then show "instruction_of (''to'' # ins) = join '' '' ins"
    using r trim_space_words [OF assms(1) w] by (simp add: instruction_of_def after_separator_def separates_def particles)
  show "join '' '' ins \<noteq> []" using t by (simp add: ts join_last)
qed

lemma plain_target:
  assumes "spoken_kind kind k" and "plain_label label"
  shows "parse_target toks (map lower_token (addressee kind label) @ ''to'' # rest)
     = Some (no_target\<lparr>tg_kind := k, tg_workspace := join '' '' label\<rparr>, length (addressee kind label))"
proof -
  let ?low = "map lower_token (addressee kind label) @ ''to'' # rest"
  have l: "map lower_token label = label" using assms(2) by (simp add: plain_label_def list_all_iff map_idI)
  have low: "?low = lower_token kind # (if label = [] then ''to'' # rest else [''in'', ''the''] @ label @ [''workspace'', ''to''] @ rest)"
    using l by (simp add: addressee_def particles)
  have "named_agent toks ?low 0 = (no_target\<lparr>tg_kind := k\<rparr>, 1, True)"
    by (rule named_kind [OF assms(1)]) (simp_all add: low)
  moreover have "workspace_clause ?low (no_target\<lparr>tg_kind := k\<rparr>) 1
      = (no_target\<lparr>tg_kind := k, tg_workspace := join '' '' label\<rparr>, length (addressee kind label))"
  proof (cases "label = []")
    case True
    then show ?thesis unfolding low by (simp add: workspace_clause_def addressee_def no_target_def)
  next
    case False
    then show ?thesis
      using workspace_found [OF False assms(2), of rest] unfolding low
      by (simp add: workspace_clause_def addressee_def no_target_def)
  qed
  moreover have "lower_token kind \<noteq> ''this''" "lower_token kind \<noteq> ''the''" using assms(1) by (auto simp: spoken_kind_def)
  ultimately show ?thesis by (simp add: parse_target_def words_prefix_def low)
qed

lemma plain_command_parsed:
  assumes "spoken_kind kind k" and "plain_command verb kind label ins"
    and "said = join '' '' (verb # addressee kind label @ ''to'' # ins)"
  shows "parse_utterance said =
    \<lparr>it_kind = IntentInstruct, it_target = no_target\<lparr>tg_kind := k, tg_workspace := join '' '' label\<rparr>,
     it_instruction = join '' '' ins, it_raw = said\<rparr>"
proof -
  let ?toks = "verb # addressee kind label @ ''to'' # ins"
  note c = assms(2) [unfolded plain_command_def]
  let ?v = "lower_token verb"
  have v: "?v \<in> set instruct_verbs" and label: "plain_label label" and ins: "ins \<noteq> []" "list_all spaceless ins"
    "lower_token (hd ins) \<noteq> ''please''" "last (last ins) \<notin> set '' .!?,;''"
    using c by simp_all
  have "list_all spaceless ?toks" using c particles_spaceless by (auto simp: addressee_def)
  then have toks: "tokenize said = ?toks" using c unfolding assms(3) by (intro plain_tokens) auto
  let ?low = "map lower_token (addressee kind label) @ ''to'' # map lower_token ins"
  have low: "lower_tokens ?toks = ?v # ?low" by (simp add: lower_tokens_def particles)
  have a: "parse_clarification (?v # ?low) = None"
  proof (rule no_clarification [OF v])
    show "3 \<le> length ?low" using ins(1) by (cases ins) (simp_all add: addressee_def)
    show "length ?low > 3 \<or> last ?low \<noteq> ''one''"
      using c by (cases ins rule: rev_cases; cases "butlast ins") (auto simp: addressee_def)
  qed
  have p: "parse_target (tl ?toks) ?low
      = Some (no_target\<lparr>tg_kind := k, tg_workspace := join '' '' label\<rparr>, length (addressee kind label))"
    by (rule plain_target [OF assms(1) label])
  have n: "\<not> names_another_agent (''to'' # map lower_token ins)"
    by (simp add: names_another_agent_def separates_def)
  have "parse_instruction said ?toks = \<lparr>it_kind = IntentInstruct,
      it_target = no_target\<lparr>tg_kind := k, tg_workspace := join '' '' label\<rparr>, it_instruction = join '' '' ins, it_raw = said\<rparr>"
    using p n v instruction_words [OF ins] by (simp add: parse_instruction_def low Let_def del: parse_target_def)
  then show ?thesis
    using toks low a canonicalize_verb [OF v, of ?low] by (simp add: parse_utterance_def Let_def)
qed

text \<open>
  C30. A plain command is understood. "Tell", or another verb, followed by the name of an agent,
  perhaps "in the ... workspace", "to" and an instruction is parsed as an instruction to that
  kind of agent in that workspace, and the instruction is the rest of the utterance in the
  words and the casing of the user.
\<close>

theorem plain_command_understood:
  assumes "spoken_kind kind k" and "plain_command verb kind label ins"
    and "said = join '' '' (verb # addressee kind label @ ''to'' # ins)"
  shows "parse_utterance said =
    \<lparr>it_kind = IntentInstruct, it_target = no_target\<lparr>tg_kind := k, tg_workspace := join '' '' label\<rparr>,
     it_instruction = join '' '' ins, it_raw = said\<rparr>"
  using assms by (rule plain_command_parsed)

lemma sample_command:
  "spoken_kind ''Claude'' KindClaude" "plain_command ''Tell'' ''Claude'' [''qi''] [''run'', ''the'', ''Tests'']"
proof -
  show "spoken_kind ''Claude'' KindClaude" by code_simp
  have "list_all (list_all (\<lambda>c. c \<notin> hd ` set unicode_spaces)) [''Tell'', ''Claude'', ''qi'', ''run'', ''the'', ''Tests'']"
    by code_simp
  then have s: "list_all spaceless [''Tell'', ''Claude'', ''qi'', ''run'', ''the'', ''Tests'']"
    by (simp add: spaceless_chars)
  have v: "lower_token ''Tell'' \<in> set instruct_verbs \<and> \<not> drop_wake_word ''Tell''" by code_simp
  have l: "plain_label [''qi'']" by code_simp
  have "lower_token ''run'' \<noteq> ''please''" by code_simp
  with s v l show "plain_command ''Tell'' ''Claude'' [''qi''] [''run'', ''the'', ''Tests'']"
    by (simp add: plain_command_def)
qed

lemma plain_command_understood_witness:
  "parse_utterance ''Tell Claude in the qi workspace to run the Tests'' =
     \<lparr>it_kind = IntentInstruct, it_target = no_target\<lparr>tg_kind := KindClaude, tg_workspace := ''qi''\<rparr>,
      it_instruction = ''run the Tests'', it_raw = ''Tell Claude in the qi workspace to run the Tests''\<rparr>"
  using plain_command_understood [OF sample_command refl] by (simp add: addressee_def)

text \<open>Only an utterance that begins with a verb and asks for something is an instruction.\<close>

lemma instruct_needs_verb:
  assumes "it_kind (parse_utterance u) = IntentInstruct"
  shows "lower_token (hd (tokenize u)) \<in> set instruct_verbs" and "it_instruction (parse_utterance u) \<noteq> []"
proof -
  let ?i = "parse_utterance u"
  have "?i = parse_instruction u (tokenize u) \<and> tokenize u \<noteq> []"
    using assms by (auto simp: parse_utterance_def unknown_intent_def Let_def split: if_splits option.splits)
  moreover from this assms have "it_kind (parse_instruction u (tokenize u)) = IntentInstruct" by simp
  then have "hd (lower_tokens (tokenize u)) \<in> set instruct_verbs" "it_instruction (parse_instruction u (tokenize u)) \<noteq> []"
    by (auto simp: parse_instruction_def unknown_intent_def Let_def split: if_splits option.splits)
  ultimately show "lower_token (hd (tokenize u)) \<in> set instruct_verbs" "it_instruction ?i \<noteq> []"
    by (simp_all add: lower_tokens_def hd_map)
qed

text \<open>
  Two surprises: a word like "free" or "done" right after the name is taken as the state of
  the agent although nothing marks it as such, and disappears from the instruction; and a
  command of at most four words that ends in "one" is taken as the answer to a question.
\<close>

lemma state_word_swallowed:
  "it_kind (parse_utterance ''Tell Claude free the memory'') = IntentInstruct
   \<and> it_instruction (parse_utterance ''Tell Claude free the memory'') = ''the memory''"
  by code_simp

lemma short_command_is_an_answer:
  "it_kind (parse_utterance ''Ask Codex for one'') = IntentClarify
   \<and> tg_workspace (it_target (parse_utterance ''Ask Codex for one'')) = ''ask codex for''"
  by code_simp

end
