(* ===== verification/Voice.thy ===== *)
theory Voice
  imports Intent
begin

text \<open>
  A voice conversation (\<open>internal/voice\<close>: \<open>context.go\<close>, \<open>loop.go\<close>): its memory, how a
  stated target becomes a query, how an answer picks among the candidates of a question, and
  the loop that hears an utterance, acts and replies.

  Listening, speaking and the agent runtime are functions on the world. The transcript that is
  written beside the speech is not modelled. The deadline of a wait is the runtime's answer.
\<close>

section \<open>The memory of a conversation\<close>

record voice_place =
  vp_workspace :: bytes
  vp_pane :: bytes
  vp_cwd :: bytes

record convo =
  cv_last_agent :: "agent option"
  cv_last_instruction :: bytes
  cv_last_result :: bytes
  cv_pending :: "(agent_query \<times> agent list) option"
  cv_pending_intent :: "intent option"
  cv_env :: voice_place
  cv_aliases :: "(bytes, bytes) gomap"

definition pronouns :: "bytes list" where
  "pronouns = [''that'', ''it'', ''its'', ''this'', ''those'', ''these'', ''them'', ''they'']"

definition has_pronoun :: "bytes \<Rightarrow> bool" where
  "has_pronoun instruction \<longleftrightarrow>
     list_ex (\<lambda>w. trim_set w (''.,!?;:'' @ [CHR 34, CHR 0x27]) \<in> set pronouns) (words (to_lower instruction))"

definition expand :: "convo \<Rightarrow> bytes \<Rightarrow> bytes" where
  "expand c instruction =
     (if cv_last_instruction c = [] then instruction
      else if \<not> has_pronoun instruction then instruction
      else (let who = (case cv_last_agent c of None \<Rightarrow> ''the previous agent'' | Some a \<Rightarrow> display_kind (ag_kind a))
            in instruction @ '' (the result of the previous request to '' @ who @ '': '' @ go_quote (cv_last_instruction c) @ '')''))"

definition alias_label :: "convo \<Rightarrow> bytes \<Rightarrow> bytes" where
  "alias_label c label =
     (if label = [] then label
      else (case map_of (cv_aliases c) (to_lower (trim_space label)) of Some real \<Rightarrow> real | None \<Rightarrow> label))"

definition is_conversational :: "target \<Rightarrow> bool" where
  "is_conversational t \<longleftrightarrow> tg_kind t \<noteq> [] \<and> tg_workspace t = [] \<and> tg_name t = [] \<and> \<not> tg_this t \<and> \<not> tg_focused t"

definition convo_query :: "convo \<Rightarrow> target \<Rightarrow> voice_place \<Rightarrow> agent_query" where
  "convo_query c t env =
     (let here = tg_this t \<and> vp_workspace env \<noteq> [];
          last = (case cv_last_agent c of
              Some a \<Rightarrow> if is_conversational t \<and> ag_kind a = tg_kind t then (ag_id a, ag_session a) else ([], [])
            | None \<Rightarrow> ([], []))
      in \<lparr>aq_kind = tg_kind t,
          aq_workspace = (if here then vp_workspace env else alias_label c (tg_workspace t)),
          aq_name = tg_name t, aq_id = [], aq_focused = tg_focused t,
          aq_cwd = (if tg_this t \<and> \<not> here then vp_cwd env else []),
          aq_prefer_id = fst last, aq_prefer_session = snd last, aq_state = tg_state t\<rparr>)"

section \<open>Answers to a question\<close>

definition plural_count :: "nat \<Rightarrow> bytes \<Rightarrow> bytes" where
  "plural_count n noun = count_word n @ '' '' @ noun @ (if n = 1 then [] else ''s'')"

definition in_pane :: "bytes \<Rightarrow> agent \<Rightarrow> bool" where
  "in_pane p a \<longleftrightarrow> equal_fold (pane_label a) p \<or> equal_fold (ag_pane a) p"

definition in_named_workspace :: "convo \<Rightarrow> target \<Rightarrow> agent \<Rightarrow> bool" where
  "in_named_workspace c t a =
     (if tg_this t then vp_workspace (cv_env c) \<noteq> [] \<and> wk_id (ag_workspace a) = vp_workspace (cv_env c)
      else matches_workspace (ag_workspace a) (alias_label c (tg_workspace t)))"

text \<open>The one that matches, or what is said when none or several do.\<close>

definition the_one :: "('a \<Rightarrow> bool) \<Rightarrow> 'a list \<Rightarrow> bytes \<Rightarrow> (nat \<Rightarrow> bytes) \<Rightarrow> bytes + 'a" where
  "the_one P as none several =
     (case filter P as of [] \<Rightarrow> Inl none | [a] \<Rightarrow> Inr a | ms \<Rightarrow> Inl (several (length ms)))"

definition pick_answer :: "convo \<Rightarrow> target \<Rightarrow> agent list \<Rightarrow> bytes + agent" where
  "pick_answer c t cands =
     (if 0 < tg_ordinal t
      then (if length cands < tg_ordinal t
            then Inl (''I only have '' @ plural_count (length cands) ''option'' @ '' to choose from'')
            else Inr (cands ! (tg_ordinal t - 1)))
      else if tg_pane t \<noteq> []
      then (let e = ''I don'' @ apostrophe @ ''t have exactly one candidate in pane '' @ tg_pane t
            in the_one (in_pane (tg_pane t)) cands e (\<lambda>_. e))
      else if tg_workspace t \<noteq> [] \<or> tg_this t
      then the_one (in_named_workspace c t) cands ''none of them is in that workspace''
             (\<lambda>n. plural_count n ''one'' @ '' of them are in that workspace, so tell me the pane instead'')
      else if tg_state t \<noteq> []
      then the_one (\<lambda>a. ag_state a = tg_state t) cands (''none of them is '' @ tg_state t)
             (\<lambda>n. plural_count n ''one'' @ '' of them are '' @ tg_state t @ '', so tell me the pane instead'')
      else Inl (''I didn'' @ apostrophe @ ''t catch which one you meant''))"

definition drop_pending :: "convo \<Rightarrow> convo" where
  "drop_pending c = c\<lparr>cv_pending := None, cv_pending_intent := None\<rparr>"

definition choose_agent :: "convo \<Rightarrow> target \<Rightarrow> (bytes + agent) \<times> convo" where
  "choose_agent c t =
     (case cv_pending c of
        None \<Rightarrow> (Inl (''I'' @ apostrophe @ ''m not waiting on a choice''), c)
      | Some (q, cands) \<Rightarrow>
          (case pick_answer c t cands of Inl e \<Rightarrow> (Inl e, c) | Inr a \<Rightarrow> (Inr a, drop_pending c)))"

section \<open>Summaries\<close>

text \<open>The runes of a string as Go decodes it; an invalid byte stands for itself here.\<close>

function text_runes :: "bytes \<Rightarrow> bytes list" where
  "text_runes s =
     (case s of
        [] \<Rightarrow> []
      | c # cs \<Rightarrow> (case rune_len s of None \<Rightarrow> [c] # text_runes cs | Some n \<Rightarrow> take n s # text_runes (drop n s)))"
  by pat_completeness auto
termination
  by (relation "measure length") (auto dest: rune_len_bounds)

declare text_runes.simps [simp del]

definition code_point :: "bytes \<Rightarrow> nat" where
  "code_point r =
     (case map of_char r of
        [a] \<Rightarrow> if a < 0x80 then a else 0xFFFD
      | [a, b] \<Rightarrow> (a - 0xC0) * 64 + (b - 0x80)
      | [a, b, c] \<Rightarrow> (a - 0xE0) * 4096 + (b - 0x80) * 64 + (c - 0x80)
      | [a, b, c, d] \<Rightarrow> (a - 0xF0) * 262144 + (b - 0x80) * 4096 + (c - 0x80) * 64 + (d - 0x80)
      | _ \<Rightarrow> 0xFFFD)"

text \<open>\<open>ansiRe\<close>, removed everywhere: its character classes are disjoint, so a greedy scan is exact.\<close>

definition ansi_param :: "char \<Rightarrow> bool" where
  "ansi_param c \<longleftrightarrow> is_digit c \<or> c = CHR '';'' \<or> c = CHR ''?''"

fun strip_ansi_fuel :: "nat \<Rightarrow> bytes \<Rightarrow> bytes" where
  "strip_ansi_fuel 0 s = s"
| "strip_ansi_fuel (Suc k) s =
     (case s of
        [] \<Rightarrow> []
      | c # cs \<Rightarrow>
          if c = CHR 0x1B \<and> has_prefix cs ''[''
          then (case dropWhile (between (CHR '' '') (CHR ''/'')) (dropWhile ansi_param (drop 1 cs)) of
              [] \<Rightarrow> c # strip_ansi_fuel k cs
            | d # ds \<Rightarrow> if between (CHR ''@'') (CHR ''~'') d then strip_ansi_fuel k ds else c # strip_ansi_fuel k cs)
          else c # strip_ansi_fuel k cs)"

definition strip_ansi :: "bytes \<Rightarrow> bytes" where
  "strip_ansi s = strip_ansi_fuel (length s) s"

text \<open>The characters of \<open>chromeRe\<close>, as its class lists them.\<close>

definition chrome_rune :: "bytes \<Rightarrow> bool" where
  "chrome_rune r \<longleftrightarrow>
     (length r = 1 \<and> (re_space (hd r) \<or> hd r \<in> set ''=_*~#-|>''))
     \<or> (let p = code_point r in
          (0x2500 \<le> p \<and> p \<le> 0x257F) \<or> p = 0x2580 \<or> p = 0x259F \<or> (0x25A0 \<le> p \<and> p \<le> 0x25FF)
          \<or> (0x2800 \<le> p \<and> p \<le> 0x28FF) \<or> p = 0xB7 \<or> p = 0x2022)"

definition line_frame :: "bytes list" where
  "line_frame = [[CHR 0xE2, CHR 0x94, CHR 0x82], ''|'', [CHR 0xE2, CHR 0x94, CHR 0x83], ''>'', '' '', [CHR 0x09]]"

definition trim_frame :: "bytes \<Rightarrow> bytes" where
  "trim_frame s = trim_right_seqs line_frame (trim_left_seqs line_frame s)"

definition kept_line :: "bytes \<Rightarrow> bytes option" where
  "kept_line raw =
     (let line = trim_space raw in
      if line = [] \<or> list_all chrome_rune (text_runes line) then None
      else (let l = trim_space (trim_frame line) in if l = [] then None else Some l))"

definition summaryCap :: nat where "summaryCap = 300"

definition string_of_rune :: "bytes \<Rightarrow> bytes" where
  "string_of_rune r = (if code_point r = 0xFFFD then [CHR 0xEF, CHR 0xBF, CHR 0xBD] else r)"

definition cap_runes :: "bytes \<Rightarrow> nat \<Rightarrow> bytes" where
  "cap_runes s n =
     (let r = text_runes s
      in if length r \<le> n then s else trim_right_set (concat (map string_of_rune (take n r))) '' '' @ ''...'')"

definition summarize :: "bytes \<Rightarrow> nat \<Rightarrow> bytes" where
  "summarize output max_lines =
     (let n = (if max_lines = 0 then 3 else max_lines);
          kept = List.map_filter kept_line (split_on newline (strip_ansi output));
          tail = drop (length kept - n) kept
      in if kept = [] then []
         else cap_runes (join ''. '' (map (\<lambda>k. trim_right_set k ''. '') tail) @ ''.'') summaryCap)"

section \<open>The loop\<close>

record 'w voice =
  vo_runtime :: "'w runtime"
  vo_listen :: "'w \<Rightarrow> (go_error + bytes) \<times> 'w"
  vo_speak :: "bytes \<Rightarrow> 'w \<Rightarrow> go_error option \<times> 'w"
  vo_cancelled :: "'w \<Rightarrow> go_error option"
  vo_lines :: int
  vo_env :: voice_place
  vo_dry_run :: bool
  vo_aliases :: "(bytes, bytes) gomap"

definition new_convo :: "'w voice \<Rightarrow> convo" where
  "new_convo v =
     \<lparr>cv_last_agent = None, cv_last_instruction = [], cv_last_result = [], cv_pending = None, cv_pending_intent = None,
      cv_env = vo_env v, cv_aliases = map (\<lambda>(k, x). (to_lower (trim_space k), x)) (vo_aliases v)\<rparr>"

fun say :: "'w voice \<Rightarrow> bytes list \<Rightarrow> 'w \<Rightarrow> go_error option \<times> 'w" where
  "say v [] w = (None, w)"
| "say v (l # ls) w = (case vo_speak v l w of (Some e, w') \<Rightarrow> (Some e, w') | (None, w') \<Rightarrow> say v ls w')"

type_synonym 'w turn = "(bytes list \<times> go_error option) \<times> convo \<times> 'w"

text \<open>Say the lines and return them with the replies so far; \<open>last_err\<close> is the error if speaking works.\<close>

definition reply :: "'w voice \<Rightarrow> bytes list \<Rightarrow> bytes list \<Rightarrow> go_error option \<Rightarrow> convo \<Rightarrow> 'w \<Rightarrow> 'w turn" where
  "reply v before lines last_err c w =
     (case say v lines w of
        (Some e, w') \<Rightarrow> ((before @ lines, Some e), c, w')
      | (None, w') \<Rightarrow> ((before @ lines, last_err), c, w'))"

definition voice_status :: "'w voice \<Rightarrow> convo \<Rightarrow> 'w \<Rightarrow> 'w turn" where
  "voice_status v c w =
     (case list_agents (vo_runtime v) w of
        (Inl e, w') \<Rightarrow> reply v [] [''I can'' @ apostrophe @ ''t reach the agent runtime right now.''] (Some e) c w'
      | (Inr as, w') \<Rightarrow> reply v [] (summarize_agents as) None c w')"

definition still_working :: "agent \<Rightarrow> bytes" where
  "still_working a = display_kind (ag_kind a) @ '' is still working. I'' @ apostrophe @ ''ll stop waiting.''"

definition outcome_line :: "agent \<Rightarrow> bytes \<Rightarrow> bytes \<Rightarrow> bytes" where
  "outcome_line a st summary =
     (if st = StateDone \<or> st = StateIdle
      then display_kind (ag_kind a) @ '' finished.'' @ (if summary \<noteq> [] then '' '' @ summary else [])
      else if st = StateBlocked then display_kind (ag_kind a) @ '' needs your input in pane '' @ pane_label a @ ''.''
      else still_working a)"

definition after_send :: "'w voice \<Rightarrow> agent \<Rightarrow> bytes list \<Rightarrow> convo \<Rightarrow> 'w \<Rightarrow> 'w turn" where
  "after_send v a before c w =
     (case await_result (vo_runtime v) (ag_id a) (vo_lines v) w of
        ((res, Some e), w') \<Rightarrow>
          if errors_is e S_AgentTimeout \<or> errors_is e S_DeadlineExceeded
          then reply v before [still_working a] None c w'
          else reply v before [''I lost track of '' @ describe_agent a @ ''.''] (Some e) c w'
      | ((res, None), w') \<Rightarrow>
          (let summary = summarize (ar_output res) 3
           in reply v before [outcome_line a (ar_state res) summary] None (c\<lparr>cv_last_result := summary\<rparr>) w'))"

definition send_instruction :: "'w voice \<Rightarrow> agent \<Rightarrow> bytes \<Rightarrow> convo \<Rightarrow> 'w \<Rightarrow> 'w turn" where
  "send_instruction v a instruction c w =
     (let prompt = expand c instruction;
          c' = c\<lparr>cv_last_agent := Some a, cv_last_instruction := instruction\<rparr> in
      if vo_dry_run v
      then reply v [] [''Found '' @ describe_agent a @ ''. Dry run: I would send '' @ go_quote prompt @ ''.''] None c' w
      else (let found = [''Found '' @ describe_agent a @ ''. Sending the request.''] in
        case say v found w of
          (Some e, w1) \<Rightarrow> ((found, Some e), c, w1)
        | (None, w1) \<Rightarrow>
            (case ru_send (vo_runtime v) (ag_id a) prompt w1 of
               (Some e, w2) \<Rightarrow>
                 if errors_is e S_AgentBlocked
                 then reply v found [display_kind (ag_kind a) @ '' in '' @ workspace_name (ag_workspace a) @
                        '' is blocked on an approval or question. Please handle it in pane '' @ pane_label a @ '' first.''] None c w2
                 else reply v found [''I couldn'' @ apostrophe @ ''t send that to '' @ describe_agent a @ ''.''] (Some e) c w2
             | (None, w2) \<Rightarrow> after_send v a found c' w2)))"

definition voice_instruct :: "'w voice \<Rightarrow> target \<Rightarrow> bytes \<Rightarrow> convo \<Rightarrow> 'w \<Rightarrow> 'w turn" where
  "voice_instruct v t instruction c w =
     (case resolve (vo_runtime v) (convo_query c t (vo_env v)) w of
        (Inr a, w') \<Rightarrow> send_instruction v a instruction c w'
      | (Inl (AmbiguousAgent q cands), w') \<Rightarrow>
          reply v [] [ambiguous_prompt cands] None
            (c\<lparr>cv_pending := Some (q, cands),
               cv_pending_intent := Some \<lparr>it_kind = IntentInstruct, it_target = t, it_instruction = instruction, it_raw = []\<rparr>\<rparr>) w'
      | (Inl (NoAgent q unknown known), w') \<Rightarrow> reply v [] [no_agent_text q unknown known] None c w'
      | (Inl (RuntimeErr e), w') \<Rightarrow> reply v [] [''I can'' @ apostrophe @ ''t reach the agent runtime right now.''] (Some e) c w')"

definition voice_clarify :: "'w voice \<Rightarrow> target \<Rightarrow> convo \<Rightarrow> 'w \<Rightarrow> 'w turn" where
  "voice_clarify v t c w =
     (if cv_pending c = None then reply v [] [''I'' @ apostrophe @ ''m not waiting on a choice.''] None c w
      else (case choose_agent c t of
          (Inl e, c') \<Rightarrow> reply v [] [capitalize e @ ''.''] None c' w
        | (Inr a, c') \<Rightarrow>
            (let instruction = (case cv_pending_intent c of None \<Rightarrow> [] | Some i \<Rightarrow> it_instruction i)
             in if instruction = []
                then reply v [] [''Okay, '' @ describe_agent a @ ''.''] None (c'\<lparr>cv_last_agent := Some a\<rparr>) w
                else send_instruction v a instruction c' w)))"

definition help_reply :: bytes where
  "help_reply = ''Sorry, I didn'' @ apostrophe @ ''t understand that. You can ask what your agents are doing, or tell an agent to do something.''"

definition restate :: "agent list \<Rightarrow> bytes" where
  "restate cands = ''I didn'' @ apostrophe @ ''t catch which one. '' @ ambiguous_prompt cands @
     '' You can say first or second, the idle one, the one in a workspace, or a pane number.''"

definition err_quit :: go_error where
  "err_quit = sentinel_error S_VoiceQuit ''voice: conversation ended''"

definition handle_utterance :: "'w voice \<Rightarrow> convo \<Rightarrow> bytes \<Rightarrow> 'w \<Rightarrow> 'w turn" where
  "handle_utterance v c utterance w =
     (if trim_space utterance = [] then reply v [] [''I didn'' @ apostrophe @ ''t hear anything.''] None c w
      else (let i = parse_utterance utterance in
        case it_kind i of
          IntentQuit \<Rightarrow> reply v [] [''Goodbye.''] (Some err_quit) c w
        | IntentStatus \<Rightarrow> voice_status v (drop_pending c) w
        | IntentClarify \<Rightarrow> voice_clarify v (it_target i) c w
        | IntentInstruct \<Rightarrow> voice_instruct v (it_target i) (it_instruction i) (drop_pending c) w
        | IntentUnknown \<Rightarrow>
            (case cv_pending c of
               Some (q, cands) \<Rightarrow> reply v [] [restate cands] None c w
             | None \<Rightarrow> reply v [] [help_reply] None c w)))"

text \<open>\<open>Run\<close>: \<open>None\<close> is a conversation that does not end.\<close>

partial_function (option) run_voice :: "'w voice \<Rightarrow> convo \<Rightarrow> 'w \<Rightarrow> (go_error option \<times> convo \<times> 'w) option" where
  "run_voice v c w =
     (case vo_cancelled v w of
        Some e \<Rightarrow> Some (Some e, c, w)
      | None \<Rightarrow>
          (case vo_listen v w of
             (Inl e, w1) \<Rightarrow>
               Some (if errors_is e S_EOF then None
                     else (case vo_cancelled v w1 of Some e' \<Rightarrow> Some e' | None \<Rightarrow> Some e), c, w1)
           | (Inr utterance, w1) \<Rightarrow>
               (case handle_utterance v c utterance w1 of
                  ((replies, None), c', w2) \<Rightarrow> run_voice v c' w2
                | ((replies, Some e), c', w2) \<Rightarrow>
                    if errors_is e S_VoiceQuit then Some (None, c', w2)
                    else (case vo_cancelled v w2 of
                        Some e' \<Rightarrow> Some (Some e', c', w2)
                      | None \<Rightarrow> run_voice v c' w2))))"

section \<open>Recording what is sent\<close>

text \<open>
  The same voice over a world that also keeps the list of prompts handed to the runtime. It
  behaves as the original: the list is only written.
\<close>

definition lift :: "('w \<Rightarrow> 'r \<times> 'w) \<Rightarrow> 'w \<times> 'l \<Rightarrow> 'r \<times> 'w \<times> 'l" where
  "lift f wl = (case f (fst wl) of (r, w') \<Rightarrow> (r, w', snd wl))"

definition recorded_runtime :: "'w runtime \<Rightarrow> ('w \<times> (bytes \<times> bytes) list) runtime" where
  "recorded_runtime rt =
     \<lparr>ru_list_workspaces = lift (ru_list_workspaces rt), ru_list_agents = lift (ru_list_agents rt),
      ru_get_agent = (\<lambda>i. lift (ru_get_agent rt i)), ru_focused = lift (ru_focused rt),
      ru_send = (\<lambda>i t wl. case ru_send rt i t (fst wl) of (e, w') \<Rightarrow> (e, w', snd wl @ [(i, t)])),
      ru_read_output = (\<lambda>i n. lift (ru_read_output rt i n)), ru_wait = (\<lambda>i. lift (ru_wait rt i))\<rparr>"

definition recorded :: "'w voice \<Rightarrow> ('w \<times> (bytes \<times> bytes) list) voice" where
  "recorded v =
     \<lparr>vo_runtime = recorded_runtime (vo_runtime v), vo_listen = lift (vo_listen v), vo_speak = (\<lambda>l. lift (vo_speak v l)),
      vo_cancelled = vo_cancelled v \<circ> fst, vo_lines = vo_lines v, vo_env = vo_env v, vo_dry_run = vo_dry_run v,
      vo_aliases = vo_aliases v\<rparr>"

lemma recorded_fields [simp]:
  "vo_runtime (recorded v) = recorded_runtime (vo_runtime v)" "vo_env (recorded v) = vo_env v"
  "vo_dry_run (recorded v) = vo_dry_run v" "vo_lines (recorded v) = vo_lines v" "vo_aliases (recorded v) = vo_aliases v"
  "vo_speak (recorded v) l = lift (vo_speak v l)"
  by (simp_all add: recorded_def)

lemma recorded_runtime_fields [simp]:
  "ru_list_workspaces (recorded_runtime rt) = lift (ru_list_workspaces rt)"
  "ru_list_agents (recorded_runtime rt) = lift (ru_list_agents rt)"
  "ru_get_agent (recorded_runtime rt) i = lift (ru_get_agent rt i)"
  "ru_focused (recorded_runtime rt) = lift (ru_focused rt)"
  "ru_read_output (recorded_runtime rt) i n = lift (ru_read_output rt i n)"
  "ru_wait (recorded_runtime rt) i = lift (ru_wait rt i)"
  "ru_send (recorded_runtime rt) i t (w, l) = (case ru_send rt i t w of (e, w') \<Rightarrow> (e, w', l @ [(i, t)]))"
  by (simp_all add: recorded_runtime_def)

lemma lift_pair [simp]: "lift f (w, l) = (case f w of (r, w') \<Rightarrow> (r, w', l))"
  by (simp add: lift_def)

lemma say_recorded: "say (recorded v) ls (w, l) = (case say v ls w of (e, w') \<Rightarrow> (e, w', l))"
  by (induction ls arbitrary: w) (auto split: prod.splits option.splits)

definition lifted_turn :: "'w turn \<Rightarrow> 'l \<Rightarrow> ('w \<times> 'l) turn" where
  "lifted_turn x l = (case x of (o', c, w) \<Rightarrow> (o', c, w, l))"

lemma reply_recorded: "reply (recorded v) b ls e c (w, l) = lifted_turn (reply v b ls e c w) l"
  by (auto simp: reply_def say_recorded lifted_turn_def split: prod.splits option.splits)

lemma list_agents_recorded: "list_agents (recorded_runtime rt) (w, l) = lift (list_agents rt) (w, l)"
  by (auto simp: list_agents_def split: prod.splits sum.splits)

lemma choose_candidate_recorded:
  "choose_candidate (recorded_runtime rt) q cs (w, l) = lift (choose_candidate rt q cs) (w, l)"
  by (auto simp: choose_candidate_def no_agent_def list_workspaces_def split: prod.splits sum.splits option.splits list.splits)

lemma resolve_among_recorded:
  "resolve_among (recorded_runtime rt) q f (w, l) = lift (resolve_among rt q f) (w, l)"
  by (auto simp: resolve_among_def list_agents_recorded choose_candidate_recorded split: prod.splits sum.splits)

lemma resolve_recorded: "resolve (recorded_runtime rt) q (w, l) = lift (resolve rt q) (w, l)"
  by (auto simp: resolve_def resolve_among_recorded split: prod.splits sum.splits)

lemma await_recorded: "await_result (recorded_runtime rt) i n (w, l) = lift (await_result rt i n) (w, l)"
  by (auto simp: await_result_def split: prod.splits sum.splits)

lemma after_send_recorded: "after_send (recorded v) a b c (w, l) = lifted_turn (after_send v a b c w) l"
  by (auto simp: after_send_def await_recorded reply_recorded Let_def split: prod.splits option.splits)

lemma status_recorded: "voice_status (recorded v) c (w, l) = lifted_turn (voice_status v c w) l"
  by (auto simp: voice_status_def list_agents_recorded reply_recorded split: prod.splits sum.splits)

lemma send_recorded:
  "\<exists>s. send_instruction (recorded v) a ins c (w, l) = lifted_turn (send_instruction v a ins c w) (l @ s)
     \<and> (s = [] \<or> \<not> vo_dry_run v \<and> s = [(ag_id a, expand c ins)])"
proof (cases "vo_dry_run v")
  case True
  then show ?thesis by (intro exI [of _ "[]"]) (simp add: send_instruction_def reply_recorded)
next
  case False
  let ?found = "[''Found '' @ describe_agent a @ ''. Sending the request.'']"
  obtain e w1 where 1: "say v ?found w = (e, w1)" by fastforce
  show ?thesis
  proof (cases e)
    case (Some x)
    then show ?thesis using 1 False
      by (intro exI [of _ "[]"]) (simp add: send_instruction_def say_recorded lifted_turn_def del: say.simps)
  next
    case None
    obtain e2 w2 where 2: "ru_send (vo_runtime v) (ag_id a) (expand c ins) w1 = (e2, w2)" by fastforce
    show ?thesis using 1 2 None False
      by (intro exI [of _ "[(ag_id a, expand c ins)]"])
        (simp add: send_instruction_def say_recorded reply_recorded after_send_recorded Let_def del: say.simps split: option.splits)
  qed
qed

section \<open>Who gets a prompt\<close>

text \<open>The candidate an answer picks: by its number, or as the only one the answer describes.\<close>

definition picks :: "convo \<Rightarrow> target \<Rightarrow> agent list \<Rightarrow> agent \<Rightarrow> bool" where
  "picks c t cands a \<longleftrightarrow>
     (if 0 < tg_ordinal t then tg_ordinal t \<le> length cands \<and> a = cands ! (tg_ordinal t - 1)
      else if tg_pane t \<noteq> [] then filter (in_pane (tg_pane t)) cands = [a]
      else if tg_workspace t \<noteq> [] \<or> tg_this t then filter (in_named_workspace c t) cands = [a]
      else tg_state t \<noteq> [] \<and> filter (\<lambda>a. ag_state a = tg_state t) cands = [a])"

lemma the_one_iff: "the_one P as none several = Inr a \<longleftrightarrow> filter P as = [a]"
  by (auto simp: the_one_def split: list.splits)

lemma pick_answer_iff: "pick_answer c t cands = Inr a \<longleftrightarrow> picks c t cands a"
  by (auto simp: pick_answer_def picks_def the_one_iff Let_def)

lemma picks_candidate: "picks c t cands a \<Longrightarrow> a \<in> set cands"
proof -
  have "filter P cands = [a] \<Longrightarrow> a \<in> set cands" for P
    using filter_is_subset [of P cands] by simp
  then show "picks c t cands a \<Longrightarrow> a \<in> set cands" by (auto simp: picks_def split: if_splits)
qed

definition meant :: "'w voice \<Rightarrow> convo \<Rightarrow> intent \<Rightarrow> agent \<Rightarrow> bytes \<Rightarrow> bool" where
  "meant v c i a instruction \<longleftrightarrow>
     (it_kind i = IntentInstruct \<and> instruction = it_instruction i
        \<and> (\<exists>w w'. resolve (vo_runtime v) (convo_query c (it_target i) (vo_env v)) w = (Inr a, w')))
     \<or> (it_kind i = IntentClarify
        \<and> (\<exists>q cands held. cv_pending c = Some (q, cands) \<and> cv_pending_intent c = Some held
             \<and> instruction = it_instruction held \<and> a \<in> set cands \<and> picks c (it_target i) cands a))"

lemma drop_pending_fields [simp]:
  "cv_last_agent (drop_pending c) = cv_last_agent c" "cv_last_instruction (drop_pending c) = cv_last_instruction c"
  "cv_env (drop_pending c) = cv_env c" "cv_aliases (drop_pending c) = cv_aliases c"
  "cv_pending (drop_pending c) = None" "cv_pending_intent (drop_pending c) = None"
  by (simp_all add: drop_pending_def)

lemma expand_drop [simp]: "expand (drop_pending c) ins = expand c ins"
  unfolding expand_def drop_pending_fields ..

lemma alias_drop [simp]: "alias_label (drop_pending c) l = alias_label c l"
  unfolding alias_label_def drop_pending_fields ..

lemma query_drop [simp]: "convo_query (drop_pending c) t env = convo_query c t env"
  unfolding convo_query_def drop_pending_fields alias_drop ..

lemma instruct_recorded:
  "\<exists>s. voice_instruct (recorded v) t ins c (w, l) = lifted_turn (voice_instruct v t ins c w) (l @ s)
     \<and> (s = [] \<or> \<not> vo_dry_run v \<and> (\<exists>a w'. s = [(ag_id a, expand c ins)]
          \<and> resolve (vo_runtime v) (convo_query c t (vo_env v)) w = (Inr a, w')))"
proof -
  obtain r w1 where r: "resolve (vo_runtime v) (convo_query c t (vo_env v)) w = (r, w1)" by fastforce
  show ?thesis
  proof (cases r)
    case (Inr a)
    obtain s where "send_instruction (recorded v) a ins c (w1, l) = lifted_turn (send_instruction v a ins c w1) (l @ s)"
      "s = [] \<or> \<not> vo_dry_run v \<and> s = [(ag_id a, expand c ins)]"
      using send_recorded [of v a ins c w1 l] by blast
    moreover have "voice_instruct v t ins c w = send_instruction v a ins c w1"
      "voice_instruct (recorded v) t ins c (w, l) = send_instruction (recorded v) a ins c (w1, l)"
      using r Inr by (simp_all add: voice_instruct_def resolve_recorded)
    ultimately show ?thesis using r Inr by metis
  next
    case (Inl e)
    have "voice_instruct (recorded v) t ins c (w, l) = lifted_turn (voice_instruct v t ins c w) (l @ [])"
      using r Inl by (cases e) (simp_all add: voice_instruct_def resolve_recorded reply_recorded)
    then show ?thesis by blast
  qed
qed

lemma clarify_recorded:
  "\<exists>s. voice_clarify (recorded v) t c (w, l) = lifted_turn (voice_clarify v t c w) (l @ s)
     \<and> (s = [] \<or> \<not> vo_dry_run v \<and> (\<exists>a q cands held. s = [(ag_id a, expand c (it_instruction held))]
          \<and> cv_pending c = Some (q, cands) \<and> cv_pending_intent c = Some held \<and> picks c t cands a))"
proof (cases "\<exists>q cands a held. cv_pending c = Some (q, cands) \<and> pick_answer c t cands = Inr a
    \<and> cv_pending_intent c = Some held \<and> it_instruction held \<noteq> []")
  case True
  then obtain q cands a held where 1: "cv_pending c = Some (q, cands)" "pick_answer c t cands = Inr a"
    "cv_pending_intent c = Some held" "it_instruction held \<noteq> []" by blast
  obtain s where "send_instruction (recorded v) a (it_instruction held) (drop_pending c) (w, l)
      = lifted_turn (send_instruction v a (it_instruction held) (drop_pending c) w) (l @ s)"
    "s = [] \<or> \<not> vo_dry_run v \<and> s = [(ag_id a, expand c (it_instruction held))]"
    using send_recorded [of v a "it_instruction held" "drop_pending c" w l] unfolding expand_drop by blast
  moreover have "voice_clarify v t c w = send_instruction v a (it_instruction held) (drop_pending c) w"
    "voice_clarify (recorded v) t c (w, l) = send_instruction (recorded v) a (it_instruction held) (drop_pending c) (w, l)"
    using 1 by (simp_all add: voice_clarify_def choose_agent_def)
  ultimately show ?thesis using 1 unfolding pick_answer_iff by metis
next
  case False
  have "voice_clarify (recorded v) t c (w, l) = lifted_turn (voice_clarify v t c w) l"
  proof (cases "cv_pending c")
    case None
    then show ?thesis by (simp add: voice_clarify_def reply_recorded)
  next
    case (Some x)
    obtain q cands where x: "x = (q, cands)" by fastforce
    show ?thesis
    proof (cases "pick_answer c t cands")
      case (Inl e)
      then show ?thesis using Some x by (simp add: voice_clarify_def choose_agent_def reply_recorded)
    next
      case (Inr a)
      with False Some x have "(case cv_pending_intent c of None \<Rightarrow> [] | Some i \<Rightarrow> it_instruction i) = []"
        by (auto split: option.splits)
      then show ?thesis using Inr Some x by (simp add: voice_clarify_def choose_agent_def reply_recorded Let_def)
    qed
  qed
  then show ?thesis by (intro exI [of _ "[]"]) simp
qed

lemma handle_recorded:
  "\<exists>sent. handle_utterance (recorded v) c u (w, l) = lifted_turn (handle_utterance v c u w) (l @ sent)
     \<and> (sent = [] \<or> \<not> vo_dry_run v
          \<and> (\<exists>a instruction. sent = [(ag_id a, expand c instruction)] \<and> meant v c (parse_utterance u) a instruction))"
proof -
  let ?i = "parse_utterance u"
  consider (quiet) "handle_utterance (recorded v) c u (w, l) = lifted_turn (handle_utterance v c u w) l"
    | (instruct) "trim_space u \<noteq> []" "it_kind ?i = IntentInstruct"
    | (clarify) "trim_space u \<noteq> []" "it_kind ?i = IntentClarify"
    by (cases "trim_space u = []"; cases "it_kind ?i"; cases "cv_pending c")
      (auto simp: handle_utterance_def reply_recorded status_recorded Let_def)
  then show ?thesis
  proof cases
    case quiet
    then show ?thesis by (intro exI [of _ "[]"]) simp
  next
    case instruct
    obtain s where s: "voice_instruct (recorded v) (it_target ?i) (it_instruction ?i) (drop_pending c) (w, l)
        = lifted_turn (voice_instruct v (it_target ?i) (it_instruction ?i) (drop_pending c) w) (l @ s)"
      "s = [] \<or> \<not> vo_dry_run v \<and> (\<exists>a w'. s = [(ag_id a, expand c (it_instruction ?i))]
          \<and> resolve (vo_runtime v) (convo_query c (it_target ?i) (vo_env v)) w = (Inr a, w'))"
      using instruct_recorded [of v "it_target ?i" "it_instruction ?i" "drop_pending c" w l]
      unfolding expand_drop query_drop by blast
    have "handle_utterance (recorded v) c u (w, l) = lifted_turn (handle_utterance v c u w) (l @ s)"
      using instruct s(1) by (simp add: handle_utterance_def Let_def)
    then show ?thesis using s(2) instruct unfolding meant_def by blast
  next
    case clarify
    obtain s where s: "voice_clarify (recorded v) (it_target ?i) c (w, l)
        = lifted_turn (voice_clarify v (it_target ?i) c w) (l @ s)"
      "s = [] \<or> \<not> vo_dry_run v \<and> (\<exists>a q cands held. s = [(ag_id a, expand c (it_instruction held))]
          \<and> cv_pending c = Some (q, cands) \<and> cv_pending_intent c = Some held \<and> picks c (it_target ?i) cands a)"
      using clarify_recorded [of v "it_target ?i" c w l] by blast
    have "handle_utterance (recorded v) c u (w, l) = lifted_turn (handle_utterance v c u w) (l @ s)"
      using clarify s(1) by (simp add: handle_utterance_def Let_def)
    moreover have "meant v c ?i a (it_instruction held)"
      if "cv_pending c = Some (q, cands)" "cv_pending_intent c = Some held" "picks c (it_target ?i) cands a" for a q cands held
      using that clarify(2) picks_candidate [OF that(3)] unfolding meant_def by blast
    ultimately show ?thesis using s(2) by blast
  qed
qed

text \<open>
  C27. A prompt only goes to the agent the user meant. Handling one utterance hands at most one
  prompt to the runtime, none in a dry run; it is the instruction just spoken, for the agent
  its target was resolved to, or the instruction held back by an open question, for the
  candidate the answer picks.
\<close>

theorem prompt_goes_to_the_agent_meant:
  "\<exists>sent. handle_utterance (recorded v) c u (w, l) = lifted_turn (handle_utterance v c u w) (l @ sent)
     \<and> (sent = [] \<or> \<not> vo_dry_run v
          \<and> (\<exists>a instruction. sent = [(ag_id a, expand c instruction)] \<and> meant v c (parse_utterance u) a instruction))"
  by (rule handle_recorded)

section \<open>A whole conversation\<close>

text \<open>
  What an open question keeps: at least two candidates and the instruction that waits for one
  of them, which was spoken in the conversation.
\<close>

definition spoken_in :: "bytes list \<Rightarrow> bytes \<Rightarrow> bool" where
  "spoken_in us instruction \<longleftrightarrow>
     (\<exists>u \<in> set us. it_kind (parse_utterance u) = IntentInstruct \<and> instruction = it_instruction (parse_utterance u))"

definition waits_well :: "bytes list \<Rightarrow> convo \<Rightarrow> bool" where
  "waits_well us c \<longleftrightarrow>
     (case cv_pending c of
        None \<Rightarrow> cv_pending_intent c = None
      | Some (q, cands) \<Rightarrow> 2 \<le> length cands
          \<and> (\<exists>held. cv_pending_intent c = Some held \<and> it_instruction held \<noteq> [] \<and> spoken_in us (it_instruction held)))"

definition next_convo :: "'w turn \<Rightarrow> convo" where
  "next_convo x = fst (snd x)"

lemma reply_convo [simp]: "next_convo (reply v b ls e c w) = c"
  by (auto simp: reply_def next_convo_def split: prod.splits option.splits)

lemma waits_well_fields:
  "cv_pending c' = cv_pending c \<Longrightarrow> cv_pending_intent c' = cv_pending_intent c \<Longrightarrow> waits_well us c' = waits_well us c"
  by (auto simp: waits_well_def split: option.splits)

definition same_question :: "convo \<Rightarrow> convo \<Rightarrow> bool" where
  "same_question c c' \<longleftrightarrow> cv_pending c' = cv_pending c \<and> cv_pending_intent c' = cv_pending_intent c"

lemma after_send_question: "same_question c (next_convo (after_send v a b c w))"
  by (auto simp: after_send_def same_question_def Let_def split: prod.splits option.splits)

lemma send_question: "same_question c (next_convo (send_instruction v a ins c w))"
proof (cases "vo_dry_run v")
  case True
  then show ?thesis by (simp add: send_instruction_def same_question_def)
next
  case False
  let ?c' = "c\<lparr>cv_last_agent := Some a, cv_last_instruction := ins\<rparr>"
  let ?found = "[''Found '' @ describe_agent a @ ''. Sending the request.'']"
  obtain e w1 where 1: "say v ?found w = (e, w1)" by fastforce
  show ?thesis
  proof (cases e)
    case (Some x)
    then show ?thesis using 1 False by (simp add: send_instruction_def next_convo_def same_question_def del: say.simps)
  next
    case None
    obtain e2 w2 where 2: "ru_send (vo_runtime v) (ag_id a) (expand c ins) w1 = (e2, w2)" by fastforce
    have "same_question ?c' (next_convo (after_send v a ?found ?c' w2))" by (rule after_send_question)
    then show ?thesis using 1 2 None False
      by (cases e2) (simp_all add: send_instruction_def same_question_def Let_def del: say.simps)
  qed
qed

lemma dropped_waits [simp]: "waits_well us (drop_pending c)"
  by (simp add: waits_well_def)

lemma waits_more: "waits_well us c \<Longrightarrow> waits_well (us @ [u]) c"
  by (auto simp: waits_well_def spoken_in_def split: option.splits)

lemma ambiguous_several:
  "resolve rt q w = (Inl (AmbiguousAgent q' cs), w') \<Longrightarrow> 2 \<le> length cs"
  using choose_candidate_cases
  by (fastforce simp: resolve_def resolve_among_def split: if_splits prod.splits sum.splits)

lemma instruct_waits:
  assumes "spoken_in us ins" and "ins \<noteq> []"
  shows "waits_well us (next_convo (voice_instruct v t ins (drop_pending c) w))"
proof -
  obtain r w1 where r: "resolve (vo_runtime v) (convo_query (drop_pending c) t (vo_env v)) w = (r, w1)" by fastforce
  show ?thesis
  proof (cases r)
    case (Inr a)
    have "same_question (drop_pending c) (next_convo (send_instruction v a ins (drop_pending c) w1))" by (rule send_question)
    then have "waits_well us (next_convo (send_instruction v a ins (drop_pending c) w1))"
      unfolding same_question_def using waits_well_fields dropped_waits by metis
    then show ?thesis using r Inr by (simp add: voice_instruct_def)
  next
    case (Inl e)
    then show ?thesis using r assms ambiguous_several
      by (cases e) (auto simp: voice_instruct_def waits_well_def)
  qed
qed

lemma clarify_waits:
  assumes "waits_well us c" shows "waits_well us (next_convo (voice_clarify v t c w))"
proof (cases "cv_pending c")
  case None
  then show ?thesis using assms by (simp add: voice_clarify_def)
next
  case (Some x)
  obtain q cands where x: "x = (q, cands)" by fastforce
  show ?thesis
  proof (cases "pick_answer c t cands")
    case (Inl e)
    then show ?thesis using Some x assms by (simp add: voice_clarify_def choose_agent_def)
  next
    case (Inr a)
    have "same_question (drop_pending c) (next_convo (send_instruction v a ins (drop_pending c) w))" for ins by (rule send_question)
    then have "waits_well us (next_convo (send_instruction v a ins (drop_pending c) w))" for ins
      unfolding same_question_def using waits_well_fields dropped_waits by metis
    moreover have "waits_well us ((drop_pending c)\<lparr>cv_last_agent := Some a\<rparr>)" by (simp add: waits_well_def)
    ultimately show ?thesis using Inr Some x by (simp add: voice_clarify_def choose_agent_def Let_def)
  qed
qed

lemma utterance_waits:
  assumes "waits_well us c" shows "waits_well (us @ [u]) (next_convo (handle_utterance v c u w))"
proof -
  let ?i = "parse_utterance u"
  have k: "waits_well (us @ [u]) c" using assms by (rule waits_more)
  show ?thesis
  proof (cases "trim_space u = []")
    case True
    then show ?thesis using k by (simp add: handle_utterance_def Let_def)
  next
    case False
    show ?thesis
    proof (cases "it_kind ?i")
      case IntentInstruct
      then have "spoken_in (us @ [u]) (it_instruction ?i)" by (auto simp: spoken_in_def)
      from instruct_waits [OF this instruct_needs_verb(2) [OF IntentInstruct]] show ?thesis
        using False IntentInstruct by (simp add: handle_utterance_def Let_def)
    next
      case IntentClarify
      then show ?thesis using False clarify_waits [OF k] by (simp add: handle_utterance_def Let_def)
    next
      case IntentStatus
      have "next_convo (voice_status v (drop_pending c) w) = drop_pending c"
        by (auto simp: voice_status_def split: prod.splits sum.splits)
      then show ?thesis using False IntentStatus by (simp add: handle_utterance_def Let_def)
    next
      case IntentQuit
      then show ?thesis using False k by (simp add: handle_utterance_def Let_def)
    next
      case IntentUnknown
      then show ?thesis using False k by (auto simp: handle_utterance_def Let_def split: option.splits)
    qed
  qed
qed

text \<open>The utterances of a conversation, one after the other.\<close>

definition converse_step :: "'w voice \<Rightarrow> bytes \<Rightarrow> convo \<times> 'w \<Rightarrow> convo \<times> 'w" where
  "converse_step v u s = snd (handle_utterance v (fst s) u (snd s))"

definition converse :: "'w voice \<Rightarrow> bytes list \<Rightarrow> convo \<times> 'w \<Rightarrow> convo \<times> 'w" where
  "converse v us s = fold (converse_step v) us s"

text \<open>A prompt is what was said, perhaps followed by what a pronoun refers to.\<close>

definition prompt_for :: "bytes list \<Rightarrow> bytes \<Rightarrow> bool" where
  "prompt_for us p \<longleftrightarrow> (\<exists>instruction more. spoken_in us instruction \<and> p = instruction @ more)"

lemma expand_appends: "\<exists>more. expand c ins = ins @ more"
proof (cases "cv_last_instruction c = [] \<or> \<not> has_pronoun ins")
  case True
  then have "expand c ins = ins @ []" by (auto simp: expand_def)
  then show ?thesis by blast
next
  case False
  then show ?thesis by (simp add: expand_def Let_def)
qed

lemma prompt_more: "prompt_for us p \<Longrightarrow> prompt_for (us @ [u]) p"
  by (auto simp: prompt_for_def spoken_in_def)

lemma meant_prompt:
  assumes "meant v c (parse_utterance u) a ins" and "waits_well us c"
  shows "prompt_for (us @ [u]) (expand c ins)"
proof -
  have "spoken_in (us @ [u]) ins"
    using assms by (auto simp: meant_def waits_well_def spoken_in_def)
  then show ?thesis using expand_appends [of c ins] unfolding prompt_for_def by blast
qed

lemma conversation:
  "\<exists>c w' sent. converse (recorded v) us (new_convo v, w, []) = (c, w', sent) \<and> converse v us (new_convo v, w) = (c, w')
     \<and> waits_well us c \<and> length sent \<le> length us \<and> (vo_dry_run v \<longrightarrow> sent = [])
     \<and> list_all (\<lambda>x. prompt_for us (snd x)) sent"
proof (induction us rule: rev_induct)
  case Nil
  show ?case by (simp add: converse_def waits_well_def new_convo_def)
next
  case (snoc u us)
  obtain c w' sent where ih: "converse (recorded v) us (new_convo v, w, []) = (c, w', sent)"
    "converse v us (new_convo v, w) = (c, w')" "waits_well us c" "length sent \<le> length us"
    "vo_dry_run v \<longrightarrow> sent = []" "list_all (\<lambda>x. prompt_for us (snd x)) sent"
    using snoc.IH by blast
  obtain more where m: "handle_utterance (recorded v) c u (w', sent) = lifted_turn (handle_utterance v c u w') (sent @ more)"
    "more = [] \<or> \<not> vo_dry_run v
      \<and> (\<exists>a ins. more = [(ag_id a, expand c ins)] \<and> meant v c (parse_utterance u) a ins)"
    using handle_recorded [of v c u w' sent] by blast
  obtain out c2 w2 where h: "handle_utterance v c u w' = (out, c2, w2)" by (metis prod.collapse)
  have "converse (recorded v) (us @ [u]) (new_convo v, w, []) = (c2, w2, sent @ more)"
    using ih(1) m(1) h by (simp add: converse_def converse_step_def lifted_turn_def)
  moreover have "converse v (us @ [u]) (new_convo v, w) = (c2, w2)"
    using ih(2) h by (simp add: converse_def converse_step_def)
  moreover have "waits_well (us @ [u]) c2"
    using utterance_waits [OF ih(3), of u v w'] h by (simp add: next_convo_def)
  moreover have "list_all (\<lambda>x. prompt_for (us @ [u]) (snd x)) sent"
    using ih(6) prompt_more by (simp add: list_all_iff)
  moreover have "list_all (\<lambda>x. prompt_for (us @ [u]) (snd x)) more"
    using m(2) meant_prompt [OF _ ih(3), of v u] by auto
  moreover have "length (sent @ more) \<le> length (us @ [u])" using m(2) ih(4) by auto
  moreover have "vo_dry_run v \<longrightarrow> sent @ more = []" using m(2) ih(5) by auto
  ultimately show ?case by (intro exI [of _ c2] exI [of _ w2] exI [of _ "sent @ more"]) simp
qed

text \<open>
  C28. A conversation never invents. Whatever is said and however the runtime answers, there are
  at most as many prompts as utterances, each prompt starts with the words of an instruction
  that was spoken, a dry run sends none, and a question that stays open has at least two
  candidates and a spoken instruction that waits.
\<close>

theorem conversation_never_invents:
  "\<exists>c w' sent. converse (recorded v) us (new_convo v, w, []) = (c, w', sent) \<and> converse v us (new_convo v, w) = (c, w')
     \<and> length sent \<le> length us \<and> list_all (\<lambda>x. prompt_for us (snd x) \<and> \<not> vo_dry_run v) sent \<and> waits_well us c"
  using conversation [of v us w] by (fastforce simp: list_all_iff)

section \<open>From the microphone to the agent\<close>

definition speaks :: "'w voice \<Rightarrow> bool" where
  "speaks v \<longleftrightarrow> (\<forall>l w. fst (vo_speak v l w) = None)"

lemma say_speaks: "speaks v \<Longrightarrow> fst (say v ls w) = None"
proof (induction ls arbitrary: w)
  case (Cons l ls)
  then have "fst (vo_speak v l w) = None" by (simp add: speaks_def)
  then show ?case using Cons by (auto split: prod.splits option.splits)
qed simp

lemma send_reaches:
  assumes "speaks v" and "\<not> vo_dry_run v"
  shows "send_instruction (recorded v) a ins c (w, l) = lifted_turn (send_instruction v a ins c w) (l @ [(ag_id a, expand c ins)])"
proof -
  let ?found = "[''Found '' @ describe_agent a @ ''. Sending the request.'']"
  obtain w1 where 1: "say v ?found w = (None, w1)"
    using say_speaks [OF assms(1), of ?found w] by (metis prod.collapse)
  obtain e2 w2 where 2: "ru_send (vo_runtime v) (ag_id a) (expand c ins) w1 = (e2, w2)" by fastforce
  show ?thesis using 1 2 assms(2)
    by (simp add: send_instruction_def say_recorded reply_recorded after_send_recorded Let_def del: say.simps split: option.splits)
qed

lemma resolve_unique:
  assumes "aq_id q = []" and "\<not> aq_focused q" and "ru_list_agents rt w = (Inr as, w1)"
    and "filter (eligible_agent q [] as) as = [a]"
  shows "resolve rt q w = (Inr a, w1)"
proof -
  let ?as = "stable_sort agent_before as"
  have "mset (candidates q [] ?as) = mset (filter (eligible_agent q [] as) as)"
    by (simp add: candidates_eligible eligible_sorted mset_stable_sort)
  then have c: "candidates q [] ?as = [a]" using assms(4) by (simp del: mset_filter)
  show ?thesis
    using assms(1-3) c by (simp add: resolve_def resolve_among_def list_agents_def choose_candidate_def)
qed


text \<open>
  An answer is not checked against the runtime: the prompt goes to the pane of the candidate as
  it was listed when the question was asked, also when another agent lives there by now.
\<close>

lemma answer_goes_to_the_old_pane:
  assumes "speaks v" and "\<not> vo_dry_run v"
    and "cv_pending c = Some (q, cands)" and "cv_pending_intent c = Some held" and "it_instruction held \<noteq> []"
    and "picks c t cands a"
    and "ru_get_agent (vo_runtime v) (ag_id a) w = (Inr b, w)" and "ag_session b \<noteq> ag_session a" and "ag_kind b \<noteq> ag_kind a"
  shows "\<exists>turn. voice_clarify (recorded v) t c (w, l) = lifted_turn turn (l @ [(ag_id a, expand c (it_instruction held))])"
proof -
  have "voice_clarify (recorded v) t c (w, l) = send_instruction (recorded v) a (it_instruction held) (drop_pending c) (w, l)"
    using assms(3-6) by (simp add: voice_clarify_def choose_agent_def pick_answer_iff [symmetric])
  also have "\<dots> = lifted_turn (send_instruction v a (it_instruction held) (drop_pending c) w)
      (l @ [(ag_id a, expand c (it_instruction held))])"
    using send_reaches [OF assms(1,2), of a "it_instruction held" "drop_pending c" w l] unfolding expand_drop .
  finally show ?thesis by (rule exI)
qed

text \<open>A line of block characters is not recognised as decoration: the class lists two of them.\<close>

lemma block_elements_are_no_chrome:
  "code_point [CHR 0xE2, CHR 0x96, CHR 0x88] = 0x2588" "\<not> chrome_rune [CHR 0xE2, CHR 0x96, CHR 0x88]"
  "chrome_rune [CHR 0xE2, CHR 0x96, CHR 0x80]"
  by (simp_all add: chrome_rune_def code_point_def)

section \<open>A short conversation\<close>

definition sample_voice :: "unit voice" where
  "sample_voice =
     \<lparr>vo_runtime = sample_runtime\<lparr>ru_list_agents := (\<lambda>w. (Inr [sample_agent ''w9:p1'' StateIdle], w))\<rparr>,
      vo_listen = (\<lambda>w. (Inl (sentinel_error S_EOF ''EOF''), w)), vo_speak = (\<lambda>l w. (None, w)), vo_cancelled = (\<lambda>w. None),
      vo_lines = 40, vo_env = \<lparr>vp_workspace = [], vp_pane = [], vp_cwd = []\<rparr>, vo_dry_run = False, vo_aliases = []\<rparr>"


end
