(* ===== verification/Mcp.thy ===== *)
theory Mcp
  imports Tools
begin

text \<open>
  External tool servers (\<open>internal/mcp\<close>): the manager that connects them, registers their
  tools under the name of the server, and is the dispatcher of the registry. A client of the
  protocol is a record of what the server answers; a call is a function on the world.
\<close>

section \<open>Servers and clients\<close>

record server_spec =
  sp_id :: bytes
  sp_command :: bytes
  sp_args :: "bytes list"
  sp_env :: "(bytes, bytes) gomap"

definition validate_spec :: "server_spec \<Rightarrow> go_error option" where
  "validate_spec s =
     (if sp_id s = [] then Some (new_error ''mcp server: id is required'')
      else if \<exists>c \<in> set (sp_id s). c \<in> set [CHR ''.'', CHR '' '', byte 9, byte 10, byte 13]
      then Some (new_error (''mcp server '' @ go_quote (sp_id s) @ '': id must not contain dots or whitespace''))
      else if sp_command s = [] then Some (new_error (''mcp server '' @ go_quote (sp_id s) @ '': command is required''))
      else None)"

definition env_slice :: "server_spec \<Rightarrow> bytes list" where
  "env_slice s = map (\<lambda>(k, v). k @ ''='' @ v) (sp_env s)"

definition namespaced_name :: "bytes \<Rightarrow> bytes \<Rightarrow> bytes" where
  "namespaced_name server name = ''mcp.'' @ server @ ''.'' @ name"

record remote_tool =
  rm_name :: bytes
  rm_description :: bytes
  rm_schema :: "go_error + bytes"

record call_reply =
  cl_is_error :: bool
  cl_error_text :: "bytes option"
  cl_raw :: "go_error + bytes"

record 'w mcp_client =
  mc_start :: "go_error option"
  mc_initialize :: "go_error option"
  mc_tools :: "go_error + remote_tool list"
  mc_call :: "bytes \<Rightarrow> bytes \<Rightarrow> 'w \<Rightarrow> (go_error + call_reply) \<times> 'w"
  mc_close :: "go_error option"

record 'w manager =
  mg_registry :: "'w registry"
  mg_clients :: "(bytes, 'w mcp_client) gomap"

definition mcp_source :: "bytes \<Rightarrow> source" where
  "mcp_source server = \<lparr>src_kind = SourceMCP, src_id = server\<rparr>"

definition mcp_error :: "bytes \<Rightarrow> bytes \<Rightarrow> bytes" where
  "mcp_error server what = ''mcp '' @ go_quote server @ '': '' @ what"

section \<open>Calls\<close>

text \<open>\<open>parse\<close> is the JSON decoder of an arguments object; only its verdict matters.\<close>

definition call_mcp_tool :: "(bytes \<Rightarrow> go_error option) \<Rightarrow> (bytes, 'w mcp_client) gomap \<Rightarrow> 'w dispatcher" where
  "call_mcp_tool parse clients server name params w =
     (let call = ''mcp '' @ go_quote server @ ''.'' @ name @ '': '';
          args = (if params = [] \<or> params = ''null'' then [] else params) in
      case map_of clients server of
        None \<Rightarrow> (Inl (new_error (mcp_error server ''not connected'')), w)
      | Some c \<Rightarrow>
          (case (if args = [] then None else parse args) of
             Some e \<Rightarrow> (Inl (wrap_error (call @ ''parse arguments: '') e), w)
           | None \<Rightarrow>
               (case mc_call c name args w of
                  (Inl e, w') \<Rightarrow> (Inl (wrap_error call e), w')
                | (Inr res, w') \<Rightarrow>
                    if cl_is_error res
                    then (Inl (new_error (call @ ''tool reported error: '' @
                            (case cl_error_text res of None \<Rightarrow> ''(no detail)'' | Some t \<Rightarrow> t))), w')
                    else (cl_raw res, w'))))"

text \<open>The registry as its callers see it: the manager is its dispatcher, with its clients of the moment.\<close>

definition managed :: "(bytes \<Rightarrow> go_error option) \<Rightarrow> 'w manager \<Rightarrow> 'w registry" where
  "managed parse m = set_mcp_dispatcher (Some (call_mcp_tool parse (mg_clients m))) (mg_registry m)"

section \<open>Connecting\<close>

definition remote_as_tool :: "bytes \<Rightarrow> remote_tool \<Rightarrow> bytes \<Rightarrow> tool" where
  "remote_as_tool server t schema =
     \<lparr>t_name = namespaced_name server (rm_name t), t_source = mcp_source server, t_version = [], t_mutating = True,
      t_description = rm_description t, t_schema = schema\<rparr>"

fun remote_tools :: "bytes \<Rightarrow> remote_tool list \<Rightarrow> go_error + tool list" where
  "remote_tools server [] = Inr []"
| "remote_tools server (t # ts) =
     (case rm_schema t of
        Inl e \<Rightarrow> Inl (wrap_error (mcp_error server (''marshal schema for '' @ go_quote (rm_name t) @ '': '')) e)
      | Inr schema \<Rightarrow>
          (case remote_tools server ts of Inl e \<Rightarrow> Inl e | Inr rest \<Rightarrow> Inr (remote_as_tool server t schema # rest)))"

text \<open>The handshake: start, initialize, list the tools.\<close>

definition handshake :: "bytes \<Rightarrow> 'w mcp_client \<Rightarrow> go_error + tool list" where
  "handshake server c =
     (case mc_start c of
        Some e \<Rightarrow> Inl (wrap_error (mcp_error server ''start: '') e)
      | None \<Rightarrow>
          (case mc_initialize c of
             Some e \<Rightarrow> Inl (wrap_error (mcp_error server ''initialize: '') e)
           | None \<Rightarrow>
               (case mc_tools c of
                  Inl e \<Rightarrow> Inl (wrap_error (mcp_error server ''list tools: '') e)
                | Inr ts \<Rightarrow> remote_tools server ts)))"

text \<open>
  \<open>attach\<close> takes the lock twice: for the check and for the entry. Between them it talks to the
  server and registers the tools, without the lock.
\<close>

definition attach_check :: "bytes \<Rightarrow> 'w manager \<Rightarrow> go_error option" where
  "attach_check server m =
     (if map_of (mg_clients m) server \<noteq> None then Some (new_error (mcp_error server ''already connected'')) else None)"

definition attach_register :: "bytes \<Rightarrow> tool list \<Rightarrow> 'w manager \<Rightarrow> go_error option \<times> 'w manager" where
  "attach_register server ts m =
     (case register_dynamic (mcp_source server) ts (mg_registry m) of
        (Some e, r) \<Rightarrow> (Some (wrap_error (mcp_error server ''register: '') e), m\<lparr>mg_registry := r\<rparr>)
      | (None, r) \<Rightarrow> (None, m\<lparr>mg_registry := r\<rparr>))"

definition attach_commit :: "bytes \<Rightarrow> 'w mcp_client \<Rightarrow> 'w manager \<Rightarrow> 'w manager" where
  "attach_commit server c m = m\<lparr>mg_clients := AList.update server c (mg_clients m)\<rparr>"

definition attach :: "bytes \<Rightarrow> 'w mcp_client \<Rightarrow> 'w manager \<Rightarrow> go_error option \<times> 'w manager" where
  "attach server c m =
     (case attach_check server m of
        Some e \<Rightarrow> (Some e, m)
      | None \<Rightarrow>
          (case handshake server c of
             Inl e \<Rightarrow> (Some e, m)
           | Inr ts \<Rightarrow>
               (case attach_register server ts m of
                  (Some e, m') \<Rightarrow> (Some e, m')
                | (None, m') \<Rightarrow> (None, attach_commit server c m'))))"

definition attach_client :: "bytes \<Rightarrow> 'w mcp_client \<Rightarrow> 'w manager \<Rightarrow> go_error option \<times> 'w manager" where
  "attach_client server c m =
     (if server = [] then (Some (new_error ''mcp attach: serverID is required''), m) else attach server c m)"

definition connect :: "(server_spec \<Rightarrow> go_error + 'w mcp_client) \<Rightarrow> server_spec \<Rightarrow> 'w manager \<Rightarrow> go_error option \<times> 'w manager" where
  "connect spawn s m =
     (case validate_spec s of
        Some e \<Rightarrow> (Some e, m)
      | None \<Rightarrow>
          (case spawn s of
             Inl e \<Rightarrow> (Some (wrap_error (mcp_error (sp_id s) ''spawn: '') e), m)
           | Inr c \<Rightarrow> attach (sp_id s) c m))"

definition disconnect :: "bytes \<Rightarrow> 'w manager \<Rightarrow> go_error option \<times> 'w manager" where
  "disconnect server m =
     (case map_of (mg_clients m) server of
        None \<Rightarrow> (None, m)
      | Some c \<Rightarrow>
          (map_option (wrap_error (mcp_error server ''close: '')) (mc_close c),
           \<lparr>mg_registry = snd (unregister (mcp_source server) (mg_registry m)), mg_clients = AList.delete server (mg_clients m)\<rparr>))"

fun disconnect_all :: "bytes list \<Rightarrow> 'w manager \<Rightarrow> go_error option \<times> 'w manager" where
  "disconnect_all [] m = (None, m)"
| "disconnect_all (i # is) m =
     (case disconnect i m of
        (e, m') \<Rightarrow>
          (case disconnect_all is m' of (e', m'') \<Rightarrow> ((case e of None \<Rightarrow> e' | Some x \<Rightarrow> Some x), m'')))"

definition close_manager :: "'w manager \<Rightarrow> go_error option \<times> 'w manager" where
  "close_manager m =
     (case disconnect_all (map fst (mg_clients m)) m of
        (e, m') \<Rightarrow> (e, m'\<lparr>mg_registry := set_mcp_dispatcher None (mg_registry m')\<rparr>))"

section \<open>The tools are those of the connected servers\<close>

lemma remote_tools_shape:
  "remote_tools server ts = Inr rs \<Longrightarrow>
   map t_name rs = map (namespaced_name server \<circ> rm_name) ts \<and> (\<forall>r \<in> set rs. t_source r = mcp_source server \<and> t_mutating r)"
  by (induction ts arbitrary: rs) (auto simp: remote_as_tool_def split: sum.splits)

definition offers :: "'w mcp_client \<Rightarrow> bytes \<Rightarrow> bool" where
  "offers c name \<longleftrightarrow> (\<exists>ts. mc_tools c = Inr ts \<and> name \<in> rm_name ` set ts)"

text \<open>
  The registry has, under the source of a server, exactly the tools its connected client
  offers, and nothing under the source of a server that is not connected.
\<close>

definition in_step :: "'w manager \<Rightarrow> bool" where
  "in_step m \<longleftrightarrow> wf_registry (mg_registry m)
     \<and> (\<forall>n t. lookup_tool (mg_registry m) n = Some t \<and> src_kind (t_source t) = SourceMCP \<longrightarrow>
          (\<exists>c name. map_of (mg_clients m) (src_id (t_source t)) = Some c \<and> offers c name
             \<and> n = namespaced_name (src_id (t_source t)) name \<and> t_mutating t))
     \<and> (\<forall>i c name. map_of (mg_clients m) i = Some c \<and> offers c name \<longrightarrow>
          (\<exists>t. lookup_tool (mg_registry m) (namespaced_name i name) = Some t \<and> t_source t = mcp_source i))"

lemma mcp_source_iff: "s = mcp_source i \<longleftrightarrow> src_kind s = SourceMCP \<and> src_id s = i"
  by (cases s) (simp add: mcp_source_def)

lemma handshake_offers:
  "handshake server c = Inr ts \<Longrightarrow>
   (\<forall>n. n \<in> t_name ` set ts \<longleftrightarrow> (\<exists>name. offers c name \<and> n = namespaced_name server name))
   \<and> (\<forall>t \<in> set ts. t_source t = mcp_source server \<and> t_mutating t)"
proof -
  assume h: "handshake server c = Inr ts"
  then obtain rts where r: "mc_tools c = Inr rts" "remote_tools server rts = Inr ts"
    by (auto simp: handshake_def split: option.splits sum.splits)
  have "t_name ` set ts = (namespaced_name server \<circ> rm_name) ` set rts"
    using remote_tools_shape [OF r(2)] by (metis list.set_map)
  with r(1) remote_tools_shape [OF r(2)] show ?thesis by (auto simp: offers_def)
qed

lemma attach_in_step:
  assumes "in_step m" shows "in_step (snd (attach server c m))"
proof (cases "attach_check server m = None \<and> (\<exists>ts r. handshake server c = Inr ts
    \<and> register_dynamic (mcp_source server) ts (mg_registry m) = (None, r))")
  case False
  have unchanged: "mg_registry m = r" if "register_dynamic s ts (mg_registry m) = (Some e, r)" for s ts e r
    using that by (auto simp: register_dynamic_def simp del: first_error_None split: option.splits)
  have "m' = m" if "attach_register server ts m = (Some e, m')" for ts e m'
    using that unchanged [symmetric] by (auto simp: attach_register_def split: option.splits prod.splits)
  moreover have "fst (attach_register server ts m) \<noteq> None" if "attach_check server m = None" "handshake server c = Inr ts" for ts
    using False that by (auto simp: attach_register_def split: option.splits prod.splits)
  ultimately have "snd (attach server c m) = m"
    by (auto simp: attach_def split: option.splits sum.splits prod.splits)
  with assms show ?thesis by simp
next
  case True
  then obtain ts r where 1: "attach_check server m = None" "handshake server c = Inr ts"
    "register_dynamic (mcp_source server) ts (mg_registry m) = (None, r)" by blast
  have wf: "wf_registry (mg_registry m)" using assms by (simp add: in_step_def)
  note h = handshake_offers [OF 1(2)]
  let ?find = "\<lambda>n. find (\<lambda>t. t_name t = n) (rev ts)"
  have look: "lookup_tool r n = (case ?find n of Some t \<Rightarrow> Some t
      | None \<Rightarrow> (case lookup_tool (mg_registry m) n of Some t \<Rightarrow> if t_source t = mcp_source server then None else Some t
                 | None \<Rightarrow> None))" for n
    using register_dynamic_effect [OF wf, of "mcp_source server" ts] 1(3) by simp
  have keep: "lookup_tool r n = Some t" if "lookup_tool (mg_registry m) n = Some t" "t_source t \<noteq> mcp_source server" for n t
    using register_dynamic_effect [OF wf, of "mcp_source server" ts, unfolded 1(3) prod.case option.case] that by blast
  have found: "?find n = Some t \<Longrightarrow> t \<in> set ts \<and> t_name t = n" for n t by (auto dest: find_SomeD)
  let ?m = "m\<lparr>mg_registry := r, mg_clients := AList.update server c (mg_clients m)\<rparr>"
  have e: "snd (attach server c m) = ?m" using 1 by (simp add: attach_def attach_register_def attach_commit_def)
  have fresh: "map_of (mg_clients m) server = None" using 1(1) by (auto simp: attach_check_def split: if_splits)
  have cl: "map_of (mg_clients ?m) i = (if i = server then Some c else map_of (mg_clients m) i)" for i
    by (simp add: update_conv')
  have "wf_registry r" using wf_register_dynamic [OF wf, of "mcp_source server" ts] 1(3) by simp
  moreover have "\<exists>c' name. map_of (mg_clients ?m) (src_id (t_source t)) = Some c' \<and> offers c' name
      \<and> n = namespaced_name (src_id (t_source t)) name \<and> t_mutating t"
    if t: "lookup_tool r n = Some t" "src_kind (t_source t) = SourceMCP" for n t
  proof (cases "?find n")
    case (Some t')
    then have "t' = t" using t(1) look by simp
    then have "t \<in> set ts" "t_name t = n" using found [OF Some] by simp_all
    then have "t_source t = mcp_source server" "t_mutating t" "\<exists>name. offers c name \<and> n = namespaced_name server name"
      using h by auto
    then show ?thesis unfolding cl by (auto simp: mcp_source_def)
  next
    case None
    then have o: "lookup_tool (mg_registry m) n = Some t" "t_source t \<noteq> mcp_source server"
      using t(1) look by (auto split: option.splits if_splits)
    then have "src_id (t_source t) \<noteq> server" using t(2) by (simp add: mcp_source_iff)
    then show ?thesis using assms o(1) t(2) unfolding in_step_def cl by simp
  qed
  moreover have "\<exists>t. lookup_tool r (namespaced_name i name) = Some t \<and> t_source t = mcp_source i"
    if i: "map_of (mg_clients ?m) i = Some c'" "offers c' name" for i c' name
  proof (cases "i = server")
    case True
    then have "c' = c" using i(1) cl by simp
    then have "namespaced_name server name \<in> t_name ` set ts" using h i(2) by blast
    then have "?find (namespaced_name server name) \<noteq> None" by (auto simp: find_None_iff)
    then obtain t where t: "?find (namespaced_name server name) = Some t" by blast
    then have "t_source t = mcp_source server" using found [OF t] h by blast
    then show ?thesis using t look True by simp
  next
    case False
    then have "map_of (mg_clients m) i = Some c'" using i(1) cl by simp
    then obtain t where t: "lookup_tool (mg_registry m) (namespaced_name i name) = Some t" "t_source t = mcp_source i"
      using assms i(2) unfolding in_step_def by blast
    have "t_source t \<noteq> mcp_source server" using t(2) False by (simp add: mcp_source_def)
    then show ?thesis using keep [OF t(1)] t(2) by blast
  qed
  ultimately show ?thesis unfolding e in_step_def by simp
qed

lemma unregister_lookup:
  "wf_registry r \<Longrightarrow> lookup_tool (snd (unregister s r)) n =
     (case lookup_tool r n of None \<Rightarrow> None | Some t \<Rightarrow> if t_source t \<noteq> s then Some t else None)"
  by (simp add: unregister_def lookup_tool_def tools_drop_source wf_registryD)

lemma disconnect_in_step:
  assumes "in_step m" shows "in_step (snd (disconnect server m))"
proof (cases "map_of (mg_clients m) server")
  case None
  then show ?thesis using assms by (simp add: disconnect_def)
next
  case (Some c)
  have wf: "wf_registry (mg_registry m)" using assms by (simp add: in_step_def)
  let ?r = "snd (unregister (mcp_source server) (mg_registry m))"
  let ?m = "\<lparr>mg_registry = ?r, mg_clients = AList.delete server (mg_clients m)\<rparr>"
  have e: "snd (disconnect server m) = ?m" using Some by (simp add: disconnect_def)
  have cl: "map_of (mg_clients ?m) i = (if i = server then None else map_of (mg_clients m) i)" for i
    by (simp add: delete_conv')
  have look: "lookup_tool ?r n = Some t \<longleftrightarrow> lookup_tool (mg_registry m) n = Some t \<and> t_source t \<noteq> mcp_source server" for n t
    by (auto simp: unregister_lookup [OF wf] split: option.splits if_splits)
  have "wf_registry ?r" using wf by (rule wf_unregister)
  moreover have "\<exists>c' name. map_of (mg_clients ?m) (src_id (t_source t)) = Some c' \<and> offers c' name
      \<and> n = namespaced_name (src_id (t_source t)) name \<and> t_mutating t"
    if t: "lookup_tool ?r n = Some t" "src_kind (t_source t) = SourceMCP" for n t
  proof -
    have "src_id (t_source t) \<noteq> server" using t look by (auto simp: mcp_source_iff)
    then show ?thesis using assms t unfolding in_step_def cl look by simp
  qed
  moreover have "\<exists>t. lookup_tool ?r (namespaced_name i name) = Some t \<and> t_source t = mcp_source i"
    if i: "map_of (mg_clients ?m) i = Some c'" "offers c' name" for i c' name
  proof -
    have "i \<noteq> server" "map_of (mg_clients m) i = Some c'" using i(1) cl by (auto split: if_splits)
    then obtain t where "lookup_tool (mg_registry m) (namespaced_name i name) = Some t" "t_source t = mcp_source i"
      using assms i(2) unfolding in_step_def by blast
    with \<open>i \<noteq> server\<close> show ?thesis unfolding look by (auto simp: mcp_source_def)
  qed
  ultimately show ?thesis unfolding e in_step_def by simp
qed

lemma disconnect_all_in_step: "in_step m \<Longrightarrow> in_step (snd (disconnect_all is m))"
proof (induction "is" arbitrary: m)
  case (Cons i "is")
  obtain e m' where 1: "disconnect i m = (e, m')" by fastforce
  have "in_step m'" using disconnect_in_step [OF Cons.prems, of i] 1 by simp
  from Cons.IH [OF this] 1 show ?case by (auto split: prod.splits)
qed simp

section \<open>Routing\<close>

text \<open>The operations of the manager, one after the other.\<close>

datatype 'w mcp_op =
    Attach bytes "'w mcp_client"
  | Connect "server_spec \<Rightarrow> go_error + 'w mcp_client" server_spec
  | Disconnect bytes

fun manager_step :: "'w mcp_op \<Rightarrow> 'w manager \<Rightarrow> 'w manager" where
  "manager_step (Attach i c) m = snd (attach_client i c m)"
| "manager_step (Connect spawn s) m = snd (connect spawn s m)"
| "manager_step (Disconnect i) m = snd (disconnect i m)"

interpretation manager: preserved manager_step in_step
proof
  show "in_step m \<Longrightarrow> in_step (manager_step op m)" for op and m :: "'a manager"
    using attach_in_step disconnect_in_step
    by (cases op) (auto simp: attach_client_def connect_def split: option.splits sum.splits)
qed

definition new_manager :: "'w registry \<Rightarrow> 'w manager" where
  "new_manager r = \<lparr>mg_registry = r, mg_clients = []\<rparr>"

definition local_only :: "'w registry \<Rightarrow> bool" where
  "local_only r \<longleftrightarrow> wf_registry r \<and> list_all (\<lambda>(n, t). src_kind (t_source t) \<noteq> SourceMCP) (reg_tools r)"

lemma new_manager_in_step: "local_only r \<Longrightarrow> in_step (new_manager r)"
  by (auto simp: in_step_def new_manager_def local_only_def lookup_tool_def list_all_iff dest: map_of_SomeD)

lemma routed:
  assumes "in_step m" and "map_of (mg_clients m) i = Some c" and "offers c name" and "name \<noteq> []"
  shows "execute (managed parse m) (namespaced_name i name) params w = call_mcp_tool parse (mg_clients m) i name params w"
proof -
  obtain t where t: "lookup_tool (mg_registry m) (namespaced_name i name) = Some t" "t_source t = mcp_source i"
    using assms(1-3) unfolding in_step_def by blast
  have u: "upstream_name (namespaced_name i name) (mcp_source i) = name"
    using upstream_name_roundtrip [OF assms(4)] by (simp add: namespaced_name_def mcp_source_def)
  have l: "lookup_tool (managed parse m) n = lookup_tool (mg_registry m) n" for n
    by (simp add: managed_def set_mcp_dispatcher_def lookup_tool_def)
  have d: "reg_disp (managed parse m) = Some (call_mcp_tool parse (mg_clients m))"
    by (simp add: managed_def set_mcp_dispatcher_def)
  have k: "src_kind (mcp_source i) = SourceMCP" "src_id (mcp_source i) = i" by (simp_all add: mcp_source_def)
  show ?thesis by (simp add: execute_def l t d k u)
qed


section \<open>Two servers\<close>

definition echo_client :: "bytes \<Rightarrow> bytes \<Rightarrow> unit mcp_client" where
  "echo_client name answer =
     \<lparr>mc_start = None, mc_initialize = None,
      mc_tools = Inr [\<lparr>rm_name = name, rm_description = [], rm_schema = Inr ''{}''\<rparr>],
      mc_call = (\<lambda>n a w. (Inr \<lparr>cl_is_error = False, cl_error_text = None, cl_raw = Inr (answer @ n)\<rparr>, w)),
      mc_close = None\<rparr>"

definition two_servers :: "unit mcp_op list" where
  "two_servers = [Attach ''gh'' (echo_client ''x'' ''gh:''), Attach ''fs'' (echo_client ''x'' ''fs:''), Disconnect ''fs'']"

lemma clients_attach:
  "fst (attach_client i c m) = None \<Longrightarrow> map_of (mg_clients (snd (attach_client i c m))) j = (if j = i then Some c else map_of (mg_clients m) j)"
  by (auto simp: attach_client_def attach_def attach_register_def attach_commit_def update_conv' split: if_splits option.splits sum.splits prod.splits)

lemma clients_disconnect:
  "map_of (mg_clients (snd (disconnect i m))) j = (if j = i then None else map_of (mg_clients m) j)"
  by (auto simp: disconnect_def delete_conv' split: option.splits)

lemma sample_local_only: "local_only sample_registry"
proof -
  have "list_all (\<lambda>t. src_kind (t_source t) \<noteq> SourceMCP) (map snd (reg_tools sample_registry))" by code_simp
  with wf_sample_registry show ?thesis by (auto simp: local_only_def list_all_iff lookup_tool_def dest: map_of_SomeD)
qed


text \<open>
  Two attaches of one server that overlap both pass the check. When the first to register is
  the last to enter its client, the registry has the tools of the second and the calls go to
  the first.
\<close>

definition overlapping_attaches :: "bytes \<Rightarrow> 'w mcp_client \<Rightarrow> tool list \<Rightarrow> 'w mcp_client \<Rightarrow> tool list \<Rightarrow> 'w manager \<Rightarrow> 'w manager" where
  "overlapping_attaches i a ts b us m =
     attach_commit i a (attach_commit i b (snd (attach_register i us (snd (attach_register i ts m)))))"

lemma overlapping_attaches_mix:
  assumes "wf_registry (mg_registry m)" and "map_of (mg_clients m) i = None"
    and "handshake i a = Inr ts" and "handshake i b = Inr us"
    and "register_dynamic (mcp_source i) ts (mg_registry m) = (None, r)" and "register_dynamic (mcp_source i) us r = (None, r')"
    and "offers b name" and "\<not> offers a name" and "name \<noteq> []"
  shows "execute (managed parse (overlapping_attaches i a ts b us m)) (namespaced_name i name) params w
      = call_mcp_tool parse (AList.update i a (AList.update i b (mg_clients m))) i name params w
    \<and> map_of (AList.update i a (AList.update i b (mg_clients m))) i = Some a"
proof -
  let ?m = "overlapping_attaches i a ts b us m"
  have r: "mg_registry ?m = r'" "mg_clients ?m = AList.update i a (AList.update i b (mg_clients m))"
    using assms(5,6) by (simp_all add: overlapping_attaches_def attach_register_def attach_commit_def)
  have wf: "wf_registry r" using wf_register_dynamic [OF assms(1), of "mcp_source i" ts] assms(5) by simp
  note h = handshake_offers [OF assms(4)]
  have "namespaced_name i name \<in> t_name ` set us" using h assms(7) by blast
  then have "find (\<lambda>t. t_name t = namespaced_name i name) (rev us) \<noteq> None" by (auto simp: find_None_iff)
  then obtain t where f: "find (\<lambda>t. t_name t = namespaced_name i name) (rev us) = Some t" by blast
  then have "t_source t = mcp_source i" using h by (auto dest: find_SomeD)
  moreover have "lookup_tool r' (namespaced_name i name) = Some t"
    using register_dynamic_effect [OF wf, of "mcp_source i" us] assms(6) f by simp
  moreover have "upstream_name (namespaced_name i name) (mcp_source i) = name"
    using upstream_name_roundtrip [OF assms(9)] by (simp add: namespaced_name_def mcp_source_def)
  moreover have "lookup_tool (managed parse ?m) n = lookup_tool r' n" for n
    by (simp add: managed_def set_mcp_dispatcher_def lookup_tool_def r)
  ultimately show ?thesis
    by (simp add: execute_def managed_def [of parse ?m] set_mcp_dispatcher_def r mcp_source_def update_conv')
qed

end
