(* ===== verification/Lease.thy ===== *)
theory Lease
  imports GoText "HOL-Library.AList"
begin

text \<open>
  The lease of a planner session (\<open>internal/ai/session_lock.go\<close>, \<open>session_lock_unix.go\<close>) and
  the command that works under it (\<open>resumePlanner\<close> of \<open>internal/commands/ai_planner.go\<close>). Several
  processes resume sessions at the same time; every system call of an attempt is a step of its
  own. What \<open>flock\<close> answers is read off the steps: the lock of an inode is held from the call
  that took it until the file is closed. A step that fails is an event of its own.
\<close>

section \<open>The table of a process\<close>

record process_leases =
  pl_next :: nat
  pl_files :: "(nat, bytes) gomap"

definition reserve_lease :: "bytes \<Rightarrow> process_leases \<Rightarrow> (nat \<times> process_leases) option" where
  "reserve_lease name t =
     (if name \<in> set (map snd (pl_files t)) then None
      else Some (Suc (pl_next t), t\<lparr>pl_next := Suc (pl_next t), pl_files := AList.update (Suc (pl_next t)) name (pl_files t)\<rparr>))"

definition release_local :: "nat \<Rightarrow> process_leases \<Rightarrow> process_leases" where
  "release_local token t = t\<lparr>pl_files := AList.delete token (pl_files t)\<rparr>"

section \<open>Attempts and the world they share\<close>

text \<open>
  Where an attempt is: \<open>Reserved\<close> in the table of its process; the lock file \<open>Exists\<close>, was
  \<open>Seen\<close> as an inode, is \<open>Opened\<close> (with the inode seen before), is \<open>Ready\<close> to be locked;
  the lease is \<open>Held\<close>; the session was loaded (\<open>Working\<close>) or could not be (\<open>Gone\<close>); the
  session is deleted (\<open>Finished\<close>); the lock file was \<open>Verified\<close> and \<open>Removed\<close>; the file is
  \<open>Closed\<close> and only the reservation is left.
\<close>

datatype stage =
    Reserved | Exists | Seen nat | Opened nat "nat option" | Ready nat
  | Held nat | Working nat | Gone nat | Finished nat | Verified nat | Removed nat
  | Closed "go_error option"

record attempt =
  at_process :: nat
  at_session :: bytes
  at_token :: nat
  at_stage :: stage

record lease_world =
  lw_locks :: "(bytes, nat) gomap"
  lw_special :: "nat list"
  lw_sessions :: "bytes list"
  lw_tables :: "nat \<Rightarrow> process_leases"
  lw_attempts :: "(nat, attempt) gomap"
  lw_results :: "(nat \<times> go_error option) list"

fun locked_inode :: "stage \<Rightarrow> nat option" where
  "locked_inode (Held i) = Some i"
| "locked_inode (Working i) = Some i"
| "locked_inode (Gone i) = Some i"
| "locked_inode (Finished i) = Some i"
| "locked_inode (Verified i) = Some i"
| "locked_inode (Removed i) = Some i"
| "locked_inode _ = None"

fun open_inode :: "stage \<Rightarrow> nat option" where
  "open_inode (Opened i _) = Some i"
| "open_inode (Ready i) = Some i"
| "open_inode st = locked_inode st"

definition fresh_inode :: "nat \<Rightarrow> lease_world \<Rightarrow> bool" where
  "fresh_inode i w \<longleftrightarrow> i \<notin> set (map snd (lw_locks w)) \<and> i \<notin> set (lw_special w)
     \<and> list_all (\<lambda>x. open_inode (at_stage (snd x)) \<noteq> Some i) (lw_attempts w)"

definition lease_held :: go_error where
  "lease_held = sentinel_error S_SessionLeaseHeld ''planner session is already being resumed''"

definition not_regular :: go_error where
  "not_regular = sentinel_error S_InvalidSession ''invalid planner session: lease file is not regular''"

definition path_changed :: go_error where
  "path_changed = sentinel_error S_InvalidSession ''invalid planner session: planner session lease path changed''"

section \<open>The steps of an attempt\<close>

type_synonym move = "attempt \<Rightarrow> lease_world \<Rightarrow> (stage \<times> lease_world) option"

text \<open>\<open>OpenFile\<close> with \<open>O_CREATE | O_EXCL\<close>; \<open>i\<close> is the inode the file system picks.\<close>

definition create_lock :: "nat \<Rightarrow> move" where
  "create_lock i x w =
     (if at_stage x \<noteq> Reserved then None
      else case map_of (lw_locks w) (at_session x) of
        Some _ \<Rightarrow> Some (Exists, w)
      | None \<Rightarrow>
          if fresh_inode i w then Some (Opened i None, w\<lparr>lw_locks := AList.update (at_session x) i (lw_locks w)\<rparr>)
          else None)"

definition lstat_lock :: "go_error \<Rightarrow> move" where
  "lstat_lock gone x w =
     (if at_stage x \<noteq> Exists then None
      else case map_of (lw_locks w) (at_session x) of
        None \<Rightarrow> Some (Closed (Some gone), w)
      | Some i \<Rightarrow> Some (if i \<in> set (lw_special w) then Closed (Some not_regular) else Seen i, w))"

definition open_lock :: "go_error \<Rightarrow> move" where
  "open_lock gone x w =
     (case at_stage x of
        Seen e \<Rightarrow>
          (case map_of (lw_locks w) (at_session x) of
             None \<Rightarrow> Some (Closed (Some (wrap_error ''open planner session lease: '' gone)), w)
           | Some i \<Rightarrow> Some (Opened i (Some e), w))
      | _ \<Rightarrow> None)"

definition stat_lock :: move where
  "stat_lock x w =
     (case at_stage x of
        Opened i e \<Rightarrow>
          Some (if i \<in> set (lw_special w) \<or> (e \<noteq> None \<and> e \<noteq> Some i) then Closed (Some not_regular) else Ready i, w)
      | _ \<Rightarrow> None)"

definition locked_by_other :: "nat \<Rightarrow> nat \<Rightarrow> lease_world \<Rightarrow> bool" where
  "locked_by_other a i w \<longleftrightarrow> list_ex (\<lambda>(b, y). b \<noteq> a \<and> locked_inode (at_stage y) = Some i) (lw_attempts w)"

definition try_lock :: "nat \<Rightarrow> move" where
  "try_lock a x w =
     (case at_stage x of
        Ready i \<Rightarrow> Some (if locked_by_other a i w then Closed (Some lease_held) else Held i, w)
      | _ \<Rightarrow> None)"

text \<open>A system call of \<open>AcquireLease\<close> fails: the file is closed, if it was open.\<close>

definition acquire_fails :: "go_error \<Rightarrow> move" where
  "acquire_fails e x w =
     (case at_stage x of
        Reserved \<Rightarrow> Some (Closed (Some e), w)
      | Exists \<Rightarrow> Some (Closed (Some e), w)
      | Seen _ \<Rightarrow> Some (Closed (Some e), w)
      | Opened _ _ \<Rightarrow> Some (Closed (Some e), w)
      | Ready _ \<Rightarrow> Some (Closed (Some e), w)
      | _ \<Rightarrow> None)"

text \<open>The command loads the session, and completes the lease when that fails.\<close>

definition load_step :: move where
  "load_step x w =
     (case at_stage x of
        Held i \<Rightarrow> Some (if at_session x \<in> set (lw_sessions w) then Working i else Gone i, w)
      | _ \<Rightarrow> None)"

definition load_fails :: move where
  "load_fails x w = (case at_stage x of Held i \<Rightarrow> Some (Gone i, w) | _ \<Rightarrow> None)"

text \<open>A conversation that is over deletes its session.\<close>

definition delete_step :: move where
  "delete_step x w =
     (case at_stage x of
        Working i \<Rightarrow> Some (Finished i, w\<lparr>lw_sessions := removeAll (at_session x) (lw_sessions w)\<rparr>)
      | _ \<Rightarrow> None)"

text \<open>\<open>Release\<close>: after an error, or when the conversation waits for an approval again.\<close>

definition release_step :: "go_error option \<Rightarrow> move" where
  "release_step e x w = (case at_stage x of Working i \<Rightarrow> Some (Closed e, w) | _ \<Rightarrow> None)"

text \<open>\<open>Complete\<close>: verify, remove, close.\<close>

definition verify_step :: move where
  "verify_step x w =
     (let check = (\<lambda>i. case map_of (lw_locks w) (at_session x) of
          Some j \<Rightarrow> if j \<notin> set (lw_special w) \<and> j = i then Verified i else Closed (Some path_changed)
        | None \<Rightarrow> Closed (Some (new_error ''inspect planner session lease path: file does not exist'')))
      in case at_stage x of
           Gone i \<Rightarrow> Some (check i, w)
         | Finished i \<Rightarrow> Some (check i, w)
         | _ \<Rightarrow> None)"

definition remove_step :: move where
  "remove_step x w =
     (case at_stage x of
        Verified i \<Rightarrow> Some (Removed i, w\<lparr>lw_locks := AList.delete (at_session x) (lw_locks w)\<rparr>)
      | _ \<Rightarrow> None)"

text \<open>With an error: a system call of \<open>verify\<close> or \<open>remove\<close> failed.\<close>

definition close_step :: "go_error option \<Rightarrow> move" where
  "close_step e x w =
     (case at_stage x of
        Gone i \<Rightarrow> if e = None then None else Some (Closed e, w)
      | Finished i \<Rightarrow> if e = None then None else Some (Closed e, w)
      | Verified i \<Rightarrow> if e = None then None else Some (Closed e, w)
      | Removed i \<Rightarrow> Some (Closed e, w)
      | _ \<Rightarrow> None)"

section \<open>Events\<close>

datatype lease_event =
    Begin nat nat bytes
  | Create nat nat | Lstat nat go_error | Open nat go_error | Stat nat | Flock nat | Acquire_fails nat go_error
  | Load nat | Load_fails nat | Delete nat | Release nat "go_error option"
  | Verify nat | Remove nat | Close nat "go_error option"
  | Unreserve nat
  | New_session bytes
  | Crash nat

definition move_attempt :: "nat \<Rightarrow> move \<Rightarrow> lease_world \<Rightarrow> lease_world option" where
  "move_attempt a f w =
     (case map_of (lw_attempts w) a of
        None \<Rightarrow> None
      | Some x \<Rightarrow>
          (case f x w of
             None \<Rightarrow> None
           | Some (st, w') \<Rightarrow> Some (w'\<lparr>lw_attempts := AList.update a (x\<lparr>at_stage := st\<rparr>) (lw_attempts w')\<rparr>)))"

definition begin_attempt :: "nat \<Rightarrow> nat \<Rightarrow> bytes \<Rightarrow> lease_world \<Rightarrow> lease_world option" where
  "begin_attempt a p name w =
     (if map_of (lw_attempts w) a \<noteq> None then None
      else case reserve_lease name (lw_tables w p) of
        None \<Rightarrow> Some (w\<lparr>lw_results := (a, Some lease_held) # lw_results w\<rparr>)
      | Some (token, t) \<Rightarrow>
          Some (w\<lparr>lw_tables := (lw_tables w)(p := t),
                  lw_attempts := AList.update a \<lparr>at_process = p, at_session = name, at_token = token, at_stage = Reserved\<rparr> (lw_attempts w)\<rparr>))"

definition unreserve :: "nat \<Rightarrow> lease_world \<Rightarrow> lease_world option" where
  "unreserve a w =
     (case map_of (lw_attempts w) a of
        None \<Rightarrow> None
      | Some x \<Rightarrow>
          (case at_stage x of
             Closed e \<Rightarrow>
               Some (w\<lparr>lw_tables := (lw_tables w)(at_process x := release_local (at_token x) (lw_tables w (at_process x))),
                       lw_attempts := AList.delete a (lw_attempts w), lw_results := (a, e) # lw_results w\<rparr>)
           | _ \<Rightarrow> None))"

text \<open>A conversation that stops at the gate saves a session under a new random identifier.\<close>

definition new_session :: "bytes \<Rightarrow> lease_world \<Rightarrow> lease_world option" where
  "new_session name w =
     (if name \<in> set (lw_sessions w) \<or> list_ex (\<lambda>(_, x). at_session x = name) (lw_attempts w) then None
      else Some (w\<lparr>lw_sessions := name # lw_sessions w\<rparr>))"

text \<open>A process dies: the kernel closes its files, its table is gone; the lock files stay.\<close>

definition crash :: "nat \<Rightarrow> lease_world \<Rightarrow> lease_world" where
  "crash p w =
     w\<lparr>lw_tables := (lw_tables w)(p := \<lparr>pl_next = 0, pl_files = []\<rparr>),
       lw_attempts := filter (\<lambda>(_, x). at_process x \<noteq> p) (lw_attempts w)\<rparr>"

fun move_of :: "lease_event \<Rightarrow> (nat \<times> move) option" where
  "move_of (Create a i) = Some (a, create_lock i)"
| "move_of (Lstat a e) = Some (a, lstat_lock e)"
| "move_of (Open a e) = Some (a, open_lock e)"
| "move_of (Stat a) = Some (a, stat_lock)"
| "move_of (Flock a) = Some (a, try_lock a)"
| "move_of (Acquire_fails a e) = Some (a, acquire_fails e)"
| "move_of (Load a) = Some (a, load_step)"
| "move_of (Load_fails a) = Some (a, load_fails)"
| "move_of (Delete a) = Some (a, delete_step)"
| "move_of (Release a e) = Some (a, release_step e)"
| "move_of (Verify a) = Some (a, verify_step)"
| "move_of (Remove a) = Some (a, remove_step)"
| "move_of (Close a e) = Some (a, close_step e)"
| "move_of _ = None"

fun lease_step :: "lease_event \<Rightarrow> lease_world \<Rightarrow> lease_world option" where
  "lease_step (Begin a p name) w = begin_attempt a p name w"
| "lease_step (Unreserve a) w = unreserve a w"
| "lease_step (New_session name) w = new_session name w"
| "lease_step (Crash p) w = Some (crash p w)"
| "lease_step e w = (case move_of e of Some (a, f) \<Rightarrow> move_attempt a f w | None \<Rightarrow> None)"

inductive leased :: "lease_world \<Rightarrow> lease_event list \<Rightarrow> lease_world \<Rightarrow> bool" for w0 where
  leased_none: "leased w0 [] w0"
| leased_step: "leased w0 es w \<Longrightarrow> lease_step e w = Some w' \<Longrightarrow> leased w0 (es @ [e]) w'"

section \<open>What every step keeps\<close>

abbreviation attempt_of :: "lease_world \<Rightarrow> nat \<Rightarrow> attempt option" where
  "attempt_of w \<equiv> map_of (lw_attempts w)"

abbreviation lock_of :: "lease_world \<Rightarrow> bytes \<Rightarrow> nat option" where
  "lock_of w \<equiv> map_of (lw_locks w)"

abbreviation reserved :: "lease_world \<Rightarrow> nat \<Rightarrow> nat \<Rightarrow> bytes option" where
  "reserved w p \<equiv> map_of (pl_files (lw_tables w p))"

lemma move_attempt_SomeE:
  assumes "move_attempt a f w = Some w'"
  obtains x st v where "attempt_of w a = Some x" "f x w = Some (st, v)"
    "w' = v\<lparr>lw_attempts := AList.update a (x\<lparr>at_stage := st\<rparr>) (lw_attempts v)\<rparr>"
  using assms by (auto simp: move_attempt_def split: option.splits prod.splits)

lemmas move_defs = create_lock_def lstat_lock_def open_lock_def stat_lock_def try_lock_def acquire_fails_def
  load_step_def load_fails_def delete_step_def release_step_def verify_step_def remove_step_def close_step_def Let_def

lemma lease_step_cases:
  assumes "lease_step e w = Some w'"
  obtains (Begin) a p name where "e = Begin a p name" "begin_attempt a p name w = Some w'"
  | (Unreserve) a where "e = Unreserve a" "unreserve a w = Some w'"
  | (New) name where "e = New_session name" "new_session name w = Some w'"
  | (Crash) p where "e = Crash p" "w' = crash p w"
  | (Move) a f x st v where "move_of e = Some (a, f)" "attempt_of w a = Some x" "f x w = Some (st, v)"
      "w' = v\<lparr>lw_attempts := AList.update a (x\<lparr>at_stage := st\<rparr>) (lw_attempts v)\<rparr>"
  using assms by (cases e) (auto elim!: move_attempt_SomeE)

text \<open>What a move changes.\<close>

lemma move_frame:
  assumes "move_of e = Some (a, f)" and "f x w = Some (st, v)"
  shows "lw_attempts v = lw_attempts w" "lw_tables v = lw_tables w" "lw_special v = lw_special w"
proof -
  have "lw_attempts v = lw_attempts w \<and> lw_tables v = lw_tables w \<and> lw_special v = lw_special w"
    using assms by (cases e) (auto simp: move_defs split: stage.splits option.splits if_splits)
  then show "lw_attempts v = lw_attempts w" "lw_tables v = lw_tables w" "lw_special v = lw_special w" by auto
qed

lemma not_locked_by_other:
  "\<not> locked_by_other a i w \<Longrightarrow> b \<noteq> a \<Longrightarrow> attempt_of w b = Some y \<Longrightarrow> locked_inode (at_stage y) \<noteq> Some i"
  using map_of_SomeD [of "lw_attempts w" b y] by (fastforce simp: locked_by_other_def list_ex_iff)

lemma move_lock:
  assumes "move_of e = Some (a, f)" and "f x w = Some (st, v)" and "locked_inode st = Some i"
  shows "locked_inode (at_stage x) = Some i \<or> (\<forall>b y. b \<noteq> a \<and> attempt_of w b = Some y \<longrightarrow> locked_inode (at_stage y) \<noteq> Some i)"
proof (cases e)
  case (Flock b)
  with assms show ?thesis
    by (auto simp: try_lock_def not_locked_by_other split: stage.splits if_splits)
qed (use assms in \<open>auto simp: move_defs split: stage.splits option.splits if_splits\<close>)

lemma move_locks:
  assumes "move_of e = Some (a, f)" and "f x w = Some (st, v)"
  shows "(\<forall>i. st \<noteq> Verified i \<or> lock_of w (at_session x) = Some i)
    \<and> (lock_of v = lock_of w \<and> (\<forall>i. st \<noteq> Removed i)
     \<or> (\<exists>i. lock_of w (at_session x) = None \<and> lock_of v = (lock_of w)(at_session x \<mapsto> i) \<and> st = Opened i None)
     \<or> (\<exists>i. at_stage x = Verified i \<and> st = Removed i \<and> lock_of v = (lock_of w)(at_session x := None)))"
  using assms by (cases e) (auto simp: move_defs update_conv' delete_conv' split: stage.splits option.splits if_splits)

section \<open>One lock, one reservation, one lock file\<close>

definition exclusive :: "lease_world \<Rightarrow> bool" where
  "exclusive w \<longleftrightarrow> (\<forall>a b x y i. attempt_of w a = Some x \<and> attempt_of w b = Some y
     \<and> locked_inode (at_stage x) = Some i \<and> locked_inode (at_stage y) = Some i \<longrightarrow> a = b)"

definition verified_linked :: "lease_world \<Rightarrow> bool" where
  "verified_linked w \<longleftrightarrow> (\<forall>a x i. attempt_of w a = Some x \<and> at_stage x = Verified i \<longrightarrow> lock_of w (at_session x) = Some i)"

definition tables_ok :: "lease_world \<Rightarrow> bool" where
  "tables_ok w \<longleftrightarrow>
     (\<forall>a x. attempt_of w a = Some x \<longrightarrow> reserved w (at_process x) (at_token x) = Some (at_session x))
     \<and> (\<forall>p t n. reserved w p t = Some n \<longrightarrow> t \<le> pl_next (lw_tables w p) \<and> (\<exists>a x. attempt_of w a = Some x \<and> at_process x = p \<and> at_token x = t))
     \<and> (\<forall>p t u n. reserved w p t = Some n \<and> reserved w p u = Some n \<longrightarrow> t = u)
     \<and> (\<forall>a b x y. attempt_of w a = Some x \<and> attempt_of w b = Some y \<and> at_process x = at_process y \<and> at_token x = at_token y \<longrightarrow> a = b)"

definition leases_ok :: "lease_world \<Rightarrow> bool" where
  "leases_ok w \<longleftrightarrow> distinct (map fst (lw_attempts w)) \<and> exclusive w \<and> verified_linked w \<and> tables_ok w"

lemma attempts_updated [simp]:
  "attempt_of (v\<lparr>lw_attempts := AList.update a z (lw_attempts w)\<rparr>) b = (if b = a then Some z else attempt_of w b)"
  by (simp add: update_conv')

lemma exclusive_move:
  assumes "exclusive w" and "move_of e = Some (a, f)" and "attempt_of w a = Some x" and "f x w = Some (st, v)"
  shows "exclusive (v\<lparr>lw_attempts := AList.update a (x\<lparr>at_stage := st\<rparr>) (lw_attempts v)\<rparr>)"
proof -
  note m = move_lock [OF assms(2,4)] move_frame [OF assms(2,4)]
  have "b = a" if "attempt_of w b = Some y" "locked_inode (at_stage y) = Some i" "locked_inode st = Some i" for b y i
    using m(1) [OF that(3)] that assms(1,3) unfolding exclusive_def by blast
  with assms(1) show ?thesis unfolding exclusive_def attempts_updated m by (auto split: if_splits)
qed

lemma verified_move:
  assumes "exclusive w" and "verified_linked w" and "move_of e = Some (a, f)" and "attempt_of w a = Some x" and "f x w = Some (st, v)"
  shows "verified_linked (v\<lparr>lw_attempts := AList.update a (x\<lparr>at_stage := st\<rparr>) (lw_attempts v)\<rparr>)"
proof -
  note m = move_locks [OF assms(3,5)] and fr = move_frame [OF assms(3,5)]
  have other: "lock_of v (at_session y) = Some i"
    if y: "attempt_of w b = Some y" "at_stage y = Verified i" "b \<noteq> a" for b y i
  proof -
    have l: "lock_of w (at_session y) = Some i" using assms(2) y unfolding verified_linked_def by blast
    have "at_session y \<noteq> at_session x" if "at_stage x = Verified j" for j
    proof
      assume "at_session y = at_session x"
      moreover have "lock_of w (at_session x) = Some j" using assms(2,4) that unfolding verified_linked_def by blast
      ultimately have "i = j" using l by simp
      then have "a = b" using assms(1,4) y that unfolding exclusive_def by (metis locked_inode.simps(5))
      with y(3) show False by simp
    qed
    with m l show ?thesis by auto
  qed
  moreover have "lock_of v (at_session x) = Some i" if "st = Verified i" for i
    using m that by auto
  ultimately show ?thesis unfolding verified_linked_def attempts_updated fr by (auto split: if_splits)
qed

lemma tables_move:
  assumes "tables_ok w" and "move_of e = Some (a, f)" and "attempt_of w a = Some x" and "f x w = Some (st, v)"
  shows "tables_ok (v\<lparr>lw_attempts := AList.update a (x\<lparr>at_stage := st\<rparr>) (lw_attempts v)\<rparr>)"
proof -
  let ?w = "v\<lparr>lw_attempts := AList.update a (x\<lparr>at_stage := st\<rparr>) (lw_attempts v)\<rparr>"
  note fr = move_frame [OF assms(2,4)]
  have same: "\<exists>y'. attempt_of w b = Some y' \<and> at_process y = at_process y' \<and> at_token y = at_token y' \<and> at_session y = at_session y'"
    if "attempt_of ?w b = Some y" for b y
    using that assms(3) unfolding attempts_updated fr by (auto split: if_splits)
  have kept: "\<exists>y. attempt_of ?w b = Some y \<and> at_process y = at_process y' \<and> at_token y = at_token y'"
    if "attempt_of w b = Some y'" for b y'
    using that assms(3) unfolding attempts_updated fr by (auto split: if_splits)
  have t: "lw_tables ?w = lw_tables w" using fr by simp
  have "\<forall>b y. attempt_of ?w b = Some y \<longrightarrow> reserved w (at_process y) (at_token y) = Some (at_session y)"
  proof (intro allI impI)
    fix b y assume "attempt_of ?w b = Some y"
    from same [OF this] obtain y' where "attempt_of w b = Some y'" "at_process y = at_process y'" "at_token y = at_token y'" "at_session y = at_session y'" by blast
    moreover have "reserved w (at_process y') (at_token y') = Some (at_session y')" using assms(1) calculation(1) unfolding tables_ok_def by blast
    ultimately show "reserved w (at_process y) (at_token y) = Some (at_session y)" by simp
  qed
  moreover have "\<forall>p u n. reserved w p u = Some n \<longrightarrow> u \<le> pl_next (lw_tables w p) \<and> (\<exists>b y. attempt_of ?w b = Some y \<and> at_process y = p \<and> at_token y = u)"
  proof (intro allI impI conjI)
    fix p u n assume r: "reserved w p u = Some n"
    then show "u \<le> pl_next (lw_tables w p)" using assms(1) unfolding tables_ok_def by blast
    from r obtain b y' where b: "attempt_of w b = Some y'" "at_process y' = p" "at_token y' = u"
      using assms(1) unfolding tables_ok_def by blast
    from kept [OF b(1)] b(2,3) show "\<exists>b y. attempt_of ?w b = Some y \<and> at_process y = p \<and> at_token y = u" by blast
  qed
  moreover have "b = c" if "attempt_of ?w b = Some y" "attempt_of ?w c = Some z" "at_process y = at_process z" "at_token y = at_token z" for b c y z
  proof -
    from same [OF that(1)] obtain y' where y': "attempt_of w b = Some y'" "at_process y = at_process y'" "at_token y = at_token y'" by blast
    from same [OF that(2)] obtain z' where z': "attempt_of w c = Some z'" "at_process z = at_process z'" "at_token z = at_token z'" by blast
    have "at_process y' = at_process z'" "at_token y' = at_token z'" using that(3,4) y' z' by simp_all
    with assms(1) y'(1) z'(1) show "b = c" unfolding tables_ok_def by blast
  qed
  moreover have "\<forall>p u1 u2 n. reserved w p u1 = Some n \<and> reserved w p u2 = Some n \<longrightarrow> u1 = u2"
    using assms(1) unfolding tables_ok_def by blast
  ultimately show ?thesis unfolding tables_ok_def t by blast
qed

lemma tables_okI:
  assumes "\<And>a x. attempt_of w a = Some x \<Longrightarrow> reserved w (at_process x) (at_token x) = Some (at_session x)"
    and "\<And>p t n. reserved w p t = Some n \<Longrightarrow> t \<le> pl_next (lw_tables w p)"
    and "\<And>p t n. reserved w p t = Some n \<Longrightarrow> \<exists>a x. attempt_of w a = Some x \<and> at_process x = p \<and> at_token x = t"
    and "\<And>p t u n. reserved w p t = Some n \<Longrightarrow> reserved w p u = Some n \<Longrightarrow> t = u"
    and "\<And>a b x y. attempt_of w a = Some x \<Longrightarrow> attempt_of w b = Some y \<Longrightarrow> at_process x = at_process y \<Longrightarrow> at_token x = at_token y \<Longrightarrow> a = b"
  shows "tables_ok w"
  unfolding tables_ok_def by (intro conjI allI impI; (elim conjE)?) (fact assms)+

lemma reserve_lease_SomeE:
  assumes "reserve_lease n t = Some (k, t')"
  obtains "n \<notin> snd ` set (pl_files t)" "k = Suc (pl_next t)" "pl_next t' = k" "map_of (pl_files t') = (map_of (pl_files t))(k \<mapsto> n)"
  using assms by (auto simp: reserve_lease_def update_conv' split: if_splits)

lemma tables_begin:
  assumes "tables_ok w" and "begin_attempt a p n w = Some w'"
  shows "tables_ok w'"
proof (cases "reserve_lease n (lw_tables w p)")
  case None
  then have w': "w' = w\<lparr>lw_results := (a, Some lease_held) # lw_results w\<rparr>"
    using assms(2) by (simp add: begin_attempt_def split: if_splits)
  have "tables_ok w' = tables_ok w" unfolding tables_ok_def w' by simp
  with assms(1) show ?thesis by simp
next
  case (Some kt)
  then obtain k t where r: "reserve_lease n (lw_tables w p) = Some (k, t)" by (cases kt) auto
  from reserve_lease_SomeE [OF r] have t: "n \<notin> snd ` set (pl_files (lw_tables w p))" "k = Suc (pl_next (lw_tables w p))"
    "pl_next t = k" "map_of (pl_files t) = (reserved w p)(k \<mapsto> n)" by auto
  let ?x = "\<lparr>at_process = p, at_session = n, at_token = k, at_stage = Reserved\<rparr>"
  have a: "attempt_of w a = None" using assms(2) by (auto simp: begin_attempt_def split: if_splits)
  have w': "w' = w\<lparr>lw_tables := (lw_tables w)(p := t), lw_attempts := AList.update a ?x (lw_attempts w)\<rparr>"
    using assms(2) a r by (simp add: begin_attempt_def)
  have A: "attempt_of w' b = (if b = a then Some ?x else attempt_of w b)" for b by (simp add: w' update_conv')
  have R: "reserved w' q u = (if q = p \<and> u = k then Some n else reserved w q u)" for q u by (simp add: w' t(4))
  have N: "pl_next (lw_tables w' q) = (if q = p then k else pl_next (lw_tables w q))" for q by (simp add: w' t(3))
  have fresh: "reserved w p u \<noteq> Some n" for u using t(1) by (force dest: map_of_SomeD)
  have low: "reserved w p u = Some m \<Longrightarrow> u < k" for u m using assms(1) unfolding tables_ok_def t(2) by (simp add: less_Suc_eq_le)
  note ok = assms(1) [unfolded tables_ok_def]
  have old: "reserved w (at_process x) (at_token x) = Some (at_session x)" if "attempt_of w b = Some x" for b x
    using ok that by blast
  have fwd: "reserved w' (at_process x) (at_token x) = Some (at_session x)" if b: "attempt_of w' b = Some x" for b x
  proof (cases "b = a")
    case True then show ?thesis using b unfolding A R by auto
  next
    case False
    then have o: "reserved w (at_process x) (at_token x) = Some (at_session x)" using b old unfolding A by simp
    then show ?thesis using low [of "at_token x"] unfolding R by auto
  qed
  have bwd: "u \<le> pl_next (lw_tables w' q) \<and> (\<exists>b x. attempt_of w' b = Some x \<and> at_process x = q \<and> at_token x = u)"
    if "reserved w' q u = Some m" for q u m
  proof (cases "q = p \<and> u = k")
    case True then show ?thesis unfolding A N by auto
  next
    case False
    then have o: "reserved w q u = Some m" using that unfolding R by (simp only: if_False)
    then obtain b x where "attempt_of w b = Some x" "at_process x = q" "at_token x = u" using ok by blast
    moreover have "b \<noteq> a" using a calculation(1) by auto
    ultimately have "\<exists>b x. attempt_of w' b = Some x \<and> at_process x = q \<and> at_token x = u" unfolding A by (intro exI [of _ b] exI [of _ x]) simp
    moreover have "u \<le> pl_next (lw_tables w q)" using ok o by blast
    ultimately show ?thesis using low o unfolding N by fastforce
  qed
  have inj: "u = u'" if "reserved w' q u = Some m" "reserved w' q u' = Some m" for q u u' m
  proof -
    have "reserved w q u = Some m \<and> reserved w q u' = Some m \<longrightarrow> u = u'" using ok by blast
    with that fresh show ?thesis unfolding R by (auto split: if_splits)
  qed
  have one: "b = c" if "attempt_of w' b = Some x" "attempt_of w' c = Some y" "at_process x = at_process y" "at_token x = at_token y" for b c x y
  proof -
    have prior: "attempt_of w b = Some x \<and> attempt_of w c = Some y \<longrightarrow> b = c" using ok that(3,4) by blast
    have tok: "at_token z \<noteq> k" if "attempt_of w d = Some z" "at_process z = p" for d z
      using old [OF that(1)] low [of "at_token z"] that(2) by fastforce
    show ?thesis
    proof (cases "b = a")
      case True then show ?thesis using that tok [of c y] prior unfolding A by (auto split: if_splits)
    next
      case False then show ?thesis using that tok [of b x] prior unfolding A by (auto split: if_splits)
    qed
  qed
  show ?thesis by (rule tables_okI) (fact fwd bwd [THEN conjunct1] bwd [THEN conjunct2] inj one)+
qed

text \<open>Attempts leave or enter: what the others keep.\<close>

lemma attempts_change:
  assumes "exclusive w" and "verified_linked w" and "lw_locks w' = lw_locks w"
    and new: "\<And>b y. attempt_of w' b = Some y \<Longrightarrow> attempt_of w b = Some y \<or> at_stage y = Reserved"
  shows "exclusive w' \<and> verified_linked w'"
proof
  have same: "attempt_of w b = Some y" if "attempt_of w' b = Some y" "locked_inode (at_stage y) = Some i" for b y i
    using new [OF that(1)] that(2) by auto
  show "exclusive w'" using assms(1) same unfolding exclusive_def by blast
  show "verified_linked w'" unfolding verified_linked_def assms(3)
  proof (intro allI impI, elim conjE)
    fix b y i assume b: "attempt_of w' b = Some y" "at_stage y = Verified i"
    then have "attempt_of w b = Some y" by (intro same [of _ _ i]) simp_all
    with b(2) assms(2) show "lock_of w (at_session y) = Some i" unfolding verified_linked_def by blast
  qed
qed

lemma tables_unreserve:
  assumes "tables_ok w" and "unreserve a w = Some w'"
  shows "tables_ok w'"
proof -
  from assms(2) obtain x e where x: "attempt_of w a = Some x"
    and w': "w' = w\<lparr>lw_tables := (lw_tables w)(at_process x := release_local (at_token x) (lw_tables w (at_process x))),
                 lw_attempts := AList.delete a (lw_attempts w), lw_results := (a, e) # lw_results w\<rparr>"
    by (auto simp: unreserve_def split: option.splits stage.splits)
  have A: "attempt_of w' b = (if b = a then None else attempt_of w b)" for b by (simp add: w' delete_conv')
  have R: "reserved w' q u = (if q = at_process x \<and> u = at_token x then None else reserved w q u)" for q u
    by (simp add: w' release_local_def delete_conv')
  have N: "pl_next (lw_tables w' q) = pl_next (lw_tables w q)" for q by (simp add: w' release_local_def)
  note ok = assms(1) [unfolded tables_ok_def]
  have alone: "b = a" if "attempt_of w b = Some y" "at_process y = at_process x" "at_token y = at_token x" for b y
    using ok that x by blast
  have fwd: "reserved w' (at_process y) (at_token y) = Some (at_session y)" if "attempt_of w' b = Some y" for b y
  proof -
    have b: "b \<noteq> a" "attempt_of w b = Some y" using that unfolding A by (auto split: if_splits)
    then have "reserved w (at_process y) (at_token y) = Some (at_session y)" using ok by blast
    with alone [OF b(2)] b(1) show ?thesis unfolding R by auto
  qed
  have bwd: "\<exists>b y. attempt_of w' b = Some y \<and> at_process y = q \<and> at_token y = u" if "reserved w' q u = Some m" for q u m
  proof -
    from that have r: "reserved w q u = Some m" "\<not> (q = at_process x \<and> u = at_token x)" unfolding R by (auto split: if_splits)
    from r(1) obtain b y where "attempt_of w b = Some y" "at_process y = q" "at_token y = u" using ok by blast
    moreover have "b \<noteq> a" using calculation x r(2) by auto
    ultimately show ?thesis unfolding A by (intro exI [of _ b] exI [of _ y]) simp
  qed
  have low: "u \<le> pl_next (lw_tables w' q)" if "reserved w' q u = Some m" for q u m
  proof -
    have "reserved w q u = Some m" using that unfolding R by (simp split: if_splits)
    then show ?thesis using ok unfolding N by blast
  qed
  have inj: "u = u'" if "reserved w' q u = Some m" "reserved w' q u' = Some m" for q u u' m
  proof -
    have "reserved w q u = Some m \<and> reserved w q u' = Some m" using that unfolding R by (auto split: if_splits)
    then show ?thesis using ok by blast
  qed
  have one: "b = c" if "attempt_of w' b = Some y" "attempt_of w' c = Some z" "at_process y = at_process z" "at_token y = at_token z" for b c y z
  proof -
    have "attempt_of w b = Some y \<and> attempt_of w c = Some z" using that unfolding A by (auto split: if_splits)
    then show ?thesis using ok that(3,4) by blast
  qed
  show ?thesis by (rule tables_okI) (fact fwd bwd low inj one)+
qed

lemma attempt_of_crash:
  "distinct (map fst (lw_attempts w)) \<Longrightarrow>
   attempt_of (crash p w) b = Some y \<longleftrightarrow> attempt_of w b = Some y \<and> at_process y \<noteq> p"
  by (auto simp: crash_def map_of_eq_Some_iff distinct_map_filter)

lemma tables_crash:
  assumes "tables_ok w" and "distinct (map fst (lw_attempts w))"
  shows "tables_ok (crash p w)"
proof -
  note A = attempt_of_crash [OF assms(2), of p]
  have R: "reserved (crash p w) q u = (if q = p then None else reserved w q u)" for q u by (simp add: crash_def)
  have N: "q \<noteq> p \<Longrightarrow> lw_tables (crash p w) q = lw_tables w q" for q by (simp add: crash_def)
  note ok = assms(1) [unfolded tables_ok_def]
  show ?thesis
  proof (rule tables_okI)
    fix b y assume "attempt_of (crash p w) b = Some y"
    then have "attempt_of w b = Some y" "at_process y \<noteq> p" by (simp_all add: A)
    moreover have "reserved w (at_process y) (at_token y) = Some (at_session y)" using ok calculation(1) by blast
    ultimately show "reserved (crash p w) (at_process y) (at_token y) = Some (at_session y)" unfolding R by simp
  next
    fix q u n assume r: "reserved (crash p w) q u = Some n"
    then have q: "q \<noteq> p" "reserved w q u = Some n" unfolding R by (simp_all split: if_splits)
    then have "u \<le> pl_next (lw_tables w q)" using ok by blast
    then show "u \<le> pl_next (lw_tables (crash p w) q)" using N [OF q(1)] by simp
    from q(2) obtain b y where "attempt_of w b = Some y" "at_process y = q" "at_token y = u" using ok by blast
    with q(1) show "\<exists>b y. attempt_of (crash p w) b = Some y \<and> at_process y = q \<and> at_token y = u"
      by (intro exI [of _ b] exI [of _ y]) (simp add: A)
  next
    fix q u u' n assume "reserved (crash p w) q u = Some n" "reserved (crash p w) q u' = Some n"
    then have "reserved w q u = Some n \<and> reserved w q u' = Some n" unfolding R by (simp split: if_splits)
    then show "u = u'" using ok by blast
  next
    fix b c y z assume "attempt_of (crash p w) b = Some y" "attempt_of (crash p w) c = Some z"
      and same: "at_process y = at_process z" "at_token y = at_token z"
    then have "attempt_of w b = Some y \<and> attempt_of w c = Some z" by (simp add: A)
    then show "b = c" using ok same by blast
  qed
qed

lemma leases_ok_step:
  assumes "leases_ok w" and "lease_step e w = Some w'"
  shows "leases_ok w'"
proof -
  have d: "distinct (map fst (lw_attempts w))" and ex: "exclusive w" and ve: "verified_linked w" and ta: "tables_ok w"
    using assms(1) by (auto simp: leases_ok_def)
  from assms(2) show ?thesis
  proof (cases rule: lease_step_cases)
    case (Move a f x st v)
    then show ?thesis
      using exclusive_move [OF ex Move(1-3)] verified_move [OF ex ve Move(1-3)] tables_move [OF ta Move(1-3)] d
        move_frame [OF Move(1,3)] by (simp add: leases_ok_def distinct_update)
  next
    case (Begin a p n)
    then have "lw_locks w' = lw_locks w" "distinct (map fst (lw_attempts w'))"
      and new: "attempt_of w' b = Some y \<Longrightarrow> attempt_of w b = Some y \<or> at_stage y = Reserved" for b y
      using d by (auto simp: begin_attempt_def distinct_update update_conv' split: option.splits if_splits)
    then show ?thesis using attempts_change [OF ex ve _ new, of w'] tables_begin [OF ta Begin(2)] unfolding leases_ok_def by blast
  next
    case (Unreserve a)
    then have "lw_locks w' = lw_locks w" "distinct (map fst (lw_attempts w'))" "attempt_of w' b = Some y \<Longrightarrow> attempt_of w b = Some y" for b y
      using d by (auto simp: unreserve_def distinct_delete delete_conv' split: option.splits stage.splits if_splits)
    then show ?thesis using attempts_change [OF ex ve, of w'] tables_unreserve [OF ta Unreserve(2)] unfolding leases_ok_def by blast
  next
    case (New n)
    then have w': "w' = w\<lparr>lw_sessions := n # lw_sessions w\<rparr>" by (simp add: new_session_def split: if_splits)
    have "exclusive w' = exclusive w" "verified_linked w' = verified_linked w" "tables_ok w' = tables_ok w"
      unfolding exclusive_def verified_linked_def tables_ok_def w' by simp_all
    with d ex ve ta w' show ?thesis by (simp add: leases_ok_def)
  next
    case (Crash p)
    have "distinct (map fst (lw_attempts w'))" using d unfolding Crash by (simp add: crash_def distinct_map_filter)
    moreover have "lw_locks w' = lw_locks w" unfolding Crash by (simp add: crash_def)
    moreover have "attempt_of w' b = Some y \<Longrightarrow> attempt_of w b = Some y" for b y unfolding Crash by (simp add: attempt_of_crash [OF d])
    ultimately show ?thesis using attempts_change [OF ex ve, of w'] tables_crash [OF ta d, of p] unfolding leases_ok_def Crash by blast
  qed
qed

section \<open>One worker per session\<close>

text \<open>
  As long as a session exists the lock file at its path is the one every attempt opened; an
  attempt removes the file only when it has seen that the session is gone.
\<close>

fun leaving :: "stage \<Rightarrow> bool" where
  "leaving (Gone i) = True"
| "leaving (Finished i) = True"
| "leaving (Verified i) = True"
| "leaving (Removed i) = True"
| "leaving _ = False"

definition linked_ok :: "lease_world \<Rightarrow> bool" where
  "linked_ok w \<longleftrightarrow>
     (\<forall>a x i. attempt_of w a = Some x \<and> open_inode (at_stage x) = Some i \<and> at_session x \<in> set (lw_sessions w) \<longrightarrow>
        lock_of w (at_session x) = Some i)
     \<and> (\<forall>a x. attempt_of w a = Some x \<and> leaving (at_stage x) \<longrightarrow> at_session x \<notin> set (lw_sessions w))
     \<and> (\<forall>a x i. attempt_of w a = Some x \<and> at_stage x = Working i \<longrightarrow> at_session x \<in> set (lw_sessions w))"

text \<open>Loading fails only when the session does not exist.\<close>

fun loads_well :: "lease_event \<Rightarrow> bool" where
  "loads_well (Load_fails a) = False"
| "loads_well _ = True"

lemma move_sessions:
  assumes "move_of e = Some (a, f)" and "f x w = Some (st, v)"
  shows "set (lw_sessions v) = set (lw_sessions w) \<and> (\<forall>i. st \<noteq> Finished i)
    \<or> (\<exists>i. at_stage x = Working i \<and> st = Finished i \<and> set (lw_sessions v) = set (lw_sessions w) - {at_session x} \<and> lw_locks v = lw_locks w)"
  using assms by (cases e) (auto simp: move_defs split: stage.splits option.splits if_splits)

lemma move_opens:
  assumes "move_of e = Some (a, f)" and "f x w = Some (st, v)" and "open_inode st = Some i"
  shows "open_inode (at_stage x) = Some i \<or> lock_of w (at_session x) = Some i \<or> st = Opened i None \<and> lock_of v (at_session x) = Some i"
  using assms by (cases e) (auto simp: move_defs update_conv' split: stage.splits option.splits if_splits)

lemma move_leaves:
  assumes "move_of e = Some (a, f)" and "f x w = Some (st, v)" and "loads_well e"
  shows "(leaving st \<longrightarrow> leaving (at_stage x) \<or> at_session x \<notin> set (lw_sessions v))
    \<and> (\<forall>i. st = Working i \<longrightarrow> at_session x \<in> set (lw_sessions v))"
  using assms by (cases e) (auto simp: move_defs split: stage.splits option.splits if_splits)

lemma linked_move:
  assumes "exclusive w" and "verified_linked w" and "linked_ok w" and "loads_well e"
    and "move_of e = Some (a, f)" and "attempt_of w a = Some x" and "f x w = Some (st, v)"
  shows "linked_ok (v\<lparr>lw_attempts := AList.update a (x\<lparr>at_stage := st\<rparr>) (lw_attempts v)\<rparr>)"
proof -
  note fr = move_frame [OF assms(5,7)] and se = move_sessions [OF assms(5,7)] and lo = move_locks [OF assms(5,7)]
    and op = move_opens [OF assms(5,7)] and le = move_leaves [OF assms(5,7,4)]
  have ok1: "lock_of w (at_session y) = Some i" if "attempt_of w b = Some y" "open_inode (at_stage y) = Some i" "at_session y \<in> set (lw_sessions w)" for b y i
    using assms(3) that unfolding linked_ok_def by blast
  have ok2: "at_session y \<notin> set (lw_sessions w)" if "attempt_of w b = Some y" "leaving (at_stage y)" for b y
    using assms(3) that unfolding linked_ok_def by blast
  have ok3: "at_session y \<in> set (lw_sessions w)" if "attempt_of w b = Some y" "at_stage y = Working i" for b y i
    using assms(3) that unfolding linked_ok_def by blast
  have sub: "set (lw_sessions v) \<subseteq> set (lw_sessions w)" using se by auto
  have kept: "lock_of v n = Some i" if "lock_of w n = Some i" "n \<in> set (lw_sessions v)" for n i
  proof -
    have "at_session x \<notin> set (lw_sessions w)" if "at_stage x = Verified j" for j using ok2 [OF assms(6)] that by simp
    with lo that sub show ?thesis by auto
  qed
  have own1: "lock_of v (at_session x) = Some i" if "open_inode st = Some i" "at_session x \<in> set (lw_sessions v)" for i
    using op [OF that(1)] ok1 [OF assms(6)] that(2) sub kept by auto
  have other1: "lock_of v (at_session y) = Some i" if "attempt_of w b = Some y" "open_inode (at_stage y) = Some i" "at_session y \<in> set (lw_sessions v)" for b y i
    using ok1 [OF that(1,2)] that(3) sub kept by auto
  have own2: "at_session x \<notin> set (lw_sessions v)" if "leaving st" using le that ok2 [OF assms(6)] sub by auto
  have other3: "at_session y \<in> set (lw_sessions v)" if y: "attempt_of w b = Some y" "at_stage y = Working i" "b \<noteq> a" for b y i
  proof -
    have "at_session y \<noteq> at_session x" if "at_stage x = Working j" for j
    proof
      assume s: "at_session y = at_session x"
      have "lock_of w (at_session y) = Some i" using ok1 [OF y(1)] ok3 [OF y(1,2)] y(2) by simp
      moreover have "lock_of w (at_session x) = Some j" using ok1 [OF assms(6)] ok3 [OF assms(6) that] that by simp
      ultimately have "i = j" using s by simp
      then have "a = b" using assms(1,6) y(1,2) that unfolding exclusive_def by (metis locked_inode.simps(2))
      with y(3) show False by simp
    qed
    with se ok3 [OF y(1,2)] show ?thesis by auto
  qed
  show ?thesis unfolding linked_ok_def attempts_updated fr
    using own1 other1 own2 ok2 sub le other3 by (auto split: if_splits)
qed

lemma linked_change:
  assumes "linked_ok w" and "lw_locks w' = lw_locks w" and "lw_sessions w' = lw_sessions w"
    and "\<And>b y. attempt_of w' b = Some y \<Longrightarrow> attempt_of w b = Some y \<or> at_stage y = Reserved"
  shows "linked_ok w'"
proof -
  have same: "attempt_of w b = Some y" if "attempt_of w' b = Some y" "at_stage y \<noteq> Reserved" for b y
    using assms(4) [OF that(1)] that(2) by blast
  show ?thesis unfolding linked_ok_def assms(2,3)
  proof (intro conjI allI impI; elim conjE)
    fix b y i assume b: "attempt_of w' b = Some y" "open_inode (at_stage y) = Some i" "at_session y \<in> set (lw_sessions w)"
    then have "at_stage y \<noteq> Reserved" by auto
    with b assms(1) same [OF b(1)] show "lock_of w (at_session y) = Some i" unfolding linked_ok_def by blast
  next
    fix b y assume b: "attempt_of w' b = Some y" "leaving (at_stage y)"
    then have "at_stage y \<noteq> Reserved" by auto
    with b assms(1) same [OF b(1)] show "at_session y \<notin> set (lw_sessions w)" unfolding linked_ok_def by blast
  next
    fix b y i assume b: "attempt_of w' b = Some y" "at_stage y = Working i"
    with assms(1) same [OF b(1)] show "at_session y \<in> set (lw_sessions w)" unfolding linked_ok_def by auto
  qed
qed

lemma linked_ok_step:
  assumes "leases_ok w" and "linked_ok w" and "loads_well e" and "lease_step e w = Some w'"
  shows "linked_ok w'"
proof -
  have d: "distinct (map fst (lw_attempts w))" and ex: "exclusive w" and ve: "verified_linked w"
    using assms(1) by (auto simp: leases_ok_def)
  from assms(4) show ?thesis
  proof (cases rule: lease_step_cases)
    case (Move a f x st v)
    then show ?thesis using linked_move [OF ex ve assms(2,3) Move(1-3)] by simp
  next
    case (Begin a p n)
    then show ?thesis
      by (intro linked_change [OF assms(2)]) (auto simp: begin_attempt_def update_conv' split: option.splits if_splits)
  next
    case (Unreserve a)
    then show ?thesis
      by (intro linked_change [OF assms(2)]) (auto simp: unreserve_def delete_conv' split: option.splits stage.splits if_splits)
  next
    case (Crash p)
    then show ?thesis
      by (intro linked_change [OF assms(2)]) (simp_all add: attempt_of_crash [OF d], simp_all add: crash_def)
  next
    case (New n)
    then have w': "w' = w\<lparr>lw_sessions := n # lw_sessions w\<rparr>" and "\<not> list_ex (\<lambda>(_, x). at_session x = n) (lw_attempts w)"
      by (simp_all add: new_session_def split: if_splits)
    then have "at_session y \<noteq> n" if "attempt_of w b = Some y" for b y
      using map_of_SomeD [OF that] by (fastforce simp: list_ex_iff)
    then have S: "attempt_of w b = Some y \<Longrightarrow> at_session y \<in> set (lw_sessions w') \<longleftrightarrow> at_session y \<in> set (lw_sessions w)" for b y
      unfolding w' by simp
    have same: "lw_attempts w' = lw_attempts w" "lw_locks w' = lw_locks w" unfolding w' by simp_all
    show ?thesis using assms(2) S unfolding linked_ok_def same by blast
  qed
qed

section \<open>What holds in every interleaving\<close>

definition fresh_start :: "lease_world \<Rightarrow> bool" where
  "fresh_start w \<longleftrightarrow> lw_attempts w = [] \<and> lw_tables w = (\<lambda>_. \<lparr>pl_next = 0, pl_files = []\<rparr>)"

lemma fresh_start_ok: "fresh_start w \<Longrightarrow> leases_ok w \<and> linked_ok w"
  by (simp add: fresh_start_def leases_ok_def exclusive_def verified_linked_def tables_ok_def linked_ok_def)

lemma leased_ok: "leased w0 es w \<Longrightarrow> fresh_start w0 \<Longrightarrow> leases_ok w"
  by (induction rule: leased.induct) (auto dest: fresh_start_ok leases_ok_step)

lemma leased_linked: "leased w0 es w \<Longrightarrow> fresh_start w0 \<Longrightarrow> list_all loads_well es \<Longrightarrow> linked_ok w"
  by (induction rule: leased.induct) (auto dest: fresh_start_ok leased_ok intro: linked_ok_step)

fun works :: "stage \<Rightarrow> bool" where
  "works (Working i) = True"
| "works _ = False"

definition workers :: "bytes \<Rightarrow> lease_world \<Rightarrow> nat list" where
  "workers n w = map fst (filter (\<lambda>(_, x). at_session x = n \<and> works (at_stage x)) (lw_attempts w))"

lemma at_most_one:
  assumes "\<And>a b. a \<in> set xs \<Longrightarrow> b \<in> set xs \<Longrightarrow> a = b" and "distinct xs"
  shows "length xs \<le> 1"
proof (cases xs)
  case (Cons y ys)
  have "ys = []"
  proof (rule ccontr)
    assume "ys \<noteq> []"
    then obtain z zs where "ys = z # zs" by (cases ys) auto
    with Cons assms(1) [of y z] assms(2) show False by simp
  qed
  with Cons show ?thesis by simp
qed simp

lemma exclusiveD:
  "exclusive w \<Longrightarrow> attempt_of w a = Some x \<Longrightarrow> attempt_of w b = Some y \<Longrightarrow> locked_inode (at_stage x) = Some i \<Longrightarrow>
   locked_inode (at_stage y) = Some i \<Longrightarrow> a = b"
  unfolding exclusive_def by blast

lemma working_linked:
  assumes "linked_ok w" and "attempt_of w a = Some x" and "at_stage x = Working i"
  shows "lock_of w (at_session x) = Some i"
proof -
  have "at_session x \<in> set (lw_sessions w)" using assms unfolding linked_ok_def by blast
  moreover have "open_inode (at_stage x) = Some i" using assms(3) by simp
  ultimately show ?thesis using assms(1,2) unfolding linked_ok_def by blast
qed

lemma one_worker:
  assumes "leases_ok w" and "linked_ok w"
  shows "length (workers n w) \<le> 1"
proof -
  have d: "distinct (map fst (lw_attempts w))" using assms(1) by (simp add: leases_ok_def)
  have "a = b" if ab: "a \<in> set (workers n w)" "b \<in> set (workers n w)" for a b
  proof -
    have worker: "\<exists>x. attempt_of w c = Some x \<and> at_session x = n \<and> works (at_stage x)" if "c \<in> set (workers n w)" for c
      using that d by (auto simp: workers_def)
    from worker [OF ab(1)] worker [OF ab(2)] obtain x y where at: "attempt_of w a = Some x" "attempt_of w b = Some y"
      "at_session x = n" "at_session y = n" "works (at_stage x)" "works (at_stage y)" by blast
    then obtain i j where st: "at_stage x = Working i" "at_stage y = Working j" by (metis works.elims(2))
    have "i = j" using working_linked [OF assms(2) at(1) st(1)] working_linked [OF assms(2) at(2) st(2)] at(3,4) by simp
    have "exclusive w" using assms(1) by (simp add: leases_ok_def)
    moreover have "locked_inode (at_stage x) = Some i" "locked_inode (at_stage y) = Some i" using st \<open>i = j\<close> by simp_all
    ultimately show "a = b" using exclusiveD at(1,2) by blast
  qed
  moreover have "distinct (workers n w)" using d unfolding workers_def by (rule distinct_map_filter)
  ultimately show ?thesis by (rule at_most_one)
qed

lemma tables_distinct:
  "leased w0 es w \<Longrightarrow> fresh_start w0 \<Longrightarrow> distinct (map fst (pl_files (lw_tables w p)))"
proof (induction rule: leased.induct)
  case (leased_step es w e w')
  then have d: "distinct (map fst (pl_files (lw_tables w p)))" by simp
  from leased_step.hyps(2) show ?case
  proof (cases rule: lease_step_cases)
    case (Move a f x st v)
    then show ?thesis using d move_frame [OF Move(1,3)] by simp
  qed (use d in \<open>auto simp: begin_attempt_def unreserve_def new_session_def crash_def reserve_lease_def release_local_def
         distinct_update distinct_delete split: option.splits stage.splits if_splits\<close>)
qed (simp add: fresh_start_def)

lemma refused_iff_underway:
  assumes "leased w0 es w" and "fresh_start w0"
  shows "reserve_lease n (lw_tables w p) = None \<longleftrightarrow> (\<exists>a x. attempt_of w a = Some x \<and> at_process x = p \<and> at_session x = n)"
proof -
  have ok: "tables_ok w" using leased_ok [OF assms] by (simp add: leases_ok_def)
  have "reserve_lease n (lw_tables w p) = None \<longleftrightarrow> (\<exists>t. reserved w p t = Some n)"
    using tables_distinct [OF assms, of p] by (force simp: reserve_lease_def map_of_eq_Some_iff)
  also have "\<dots> \<longleftrightarrow> (\<exists>a x. attempt_of w a = Some x \<and> at_process x = p \<and> at_session x = n)"
  proof
    assume "\<exists>t. reserved w p t = Some n"
    then obtain t where t: "reserved w p t = Some n" by blast
    then obtain a x where a: "attempt_of w a = Some x" "at_process x = p" "at_token x = t" using ok unfolding tables_ok_def by blast
    then have "reserved w p t = Some (at_session x)" using ok unfolding tables_ok_def by blast
    with t a show "\<exists>a x. attempt_of w a = Some x \<and> at_process x = p \<and> at_session x = n" by auto
  qed (use ok in \<open>unfold tables_ok_def, blast\<close>)
  finally show ?thesis .
qed

text \<open>
  C33. However the attempts of any number of processes interleave, fail and crash: no two attempts
  hold the lock of one file; a verified lease file is the one at the path of the session and is
  locked by nobody else, so completing a lease removes no lock but its own; and an attempt is
  refused by its own process exactly while another attempt of that process on the session is
  under way, so no reservation is ever left behind.
\<close>

theorem lease_is_exclusive:
  assumes "fresh_start w0" and "leased w0 es w" and "attempt_of w a = Some x"
  shows "(\<forall>b y i. attempt_of w b = Some y \<and> locked_inode (at_stage x) = Some i \<and> locked_inode (at_stage y) = Some i \<longrightarrow> b = a)
    \<and> (\<forall>i. at_stage x = Verified i \<longrightarrow> lock_of w (at_session x) = Some i)
    \<and> (\<forall>n p. reserve_lease n (lw_tables w p) = None \<longleftrightarrow> (\<exists>b y. attempt_of w b = Some y \<and> at_process y = p \<and> at_session y = n))"
proof (intro conjI)
  have ok: "exclusive w" "verified_linked w" using leased_ok [OF assms(2,1)] by (simp_all add: leases_ok_def)
  show "\<forall>b y i. attempt_of w b = Some y \<and> locked_inode (at_stage x) = Some i \<and> locked_inode (at_stage y) = Some i \<longrightarrow> b = a"
    using ok(1) assms(3) unfolding exclusive_def by blast
  show "\<forall>i. at_stage x = Verified i \<longrightarrow> lock_of w (at_session x) = Some i"
    using ok(2) assms(3) unfolding verified_linked_def by blast
  show "\<forall>n p. reserve_lease n (lw_tables w p) = None \<longleftrightarrow> (\<exists>b y. attempt_of w b = Some y \<and> at_process y = p \<and> at_session y = n)"
    using refused_iff_underway [OF assms(2,1)] by blast
qed

text \<open>
  C32. As long as loading a session fails only when the session does not exist, at most one
  attempt works on a session at any time, also while others acquire, complete and crash around
  it and lock files are removed and created again.
\<close>

theorem one_worker_per_session:
  assumes "fresh_start w0" and "leased w0 es w" and "list_all loads_well es"
  shows "length (workers n w) \<le> 1"
  using one_worker leased_ok [OF assms(2,1)] leased_linked [OF assms(2,1,3)] by blast

section \<open>Runs\<close>

fun run_events :: "lease_event list \<Rightarrow> lease_world \<Rightarrow> lease_world option" where
  "run_events [] w = Some w"
| "run_events (e # es) w = (case lease_step e w of None \<Rightarrow> None | Some w' \<Rightarrow> run_events es w')"

lemma leased_append: "leased w0 es w \<Longrightarrow> run_events fs w = Some w' \<Longrightarrow> leased w0 (es @ fs) w'"
proof (induction fs arbitrary: es w)
  case (Cons f fs)
  then obtain v where "lease_step f w = Some v" "run_events fs v = Some w'" by (auto split: option.splits)
  with Cons.IH [of "es @ [f]" v] leased.leased_step [OF Cons.prems(1)] show ?case by simp
qed simp

lemma run_events_leased: "run_events es w0 = Some w \<Longrightarrow> leased w0 es w"
  using leased_append [OF leased.leased_none] by simp

definition one_session :: lease_world where
  "one_session = \<lparr>lw_locks = [], lw_special = [], lw_sessions = [''s''], lw_tables = (\<lambda>_. \<lparr>pl_next = 0, pl_files = []\<rparr>),
     lw_attempts = [], lw_results = []\<rparr>"

text \<open>A second process is refused while the first one works.\<close>

definition two_resumes :: "lease_event list" where
  "two_resumes =
     [Begin 0 1 ''s'', Create 0 7, Begin 1 2 ''s'', Create 1 8, Stat 0, Flock 0, Lstat 1 lease_held, Load 0,
      Open 1 lease_held, Stat 1, Flock 1, Unreserve 1]"

lemma two_resumes_run:
  "case run_events two_resumes one_session of None \<Rightarrow> False
     | Some w \<Rightarrow> workers ''s'' w = [0] \<and> lw_results w = [(1, Some lease_held)]
         \<and> map_option at_stage (attempt_of w 0) = Some (Working 7)"
  by code_simp

lemma fresh_one_session: "fresh_start one_session"
  by (simp add: fresh_start_def one_session_def)

lemma one_worker_per_session_witness:
  "\<exists>w. run_events two_resumes one_session = Some w \<and> workers ''s'' w = [0] \<and> length (workers ''s'' w) \<le> 1"
proof -
  obtain w where w: "run_events two_resumes one_session = Some w" "workers ''s'' w = [0]"
    using two_resumes_run by (auto split: option.splits)
  have "list_all loads_well two_resumes" by (simp add: two_resumes_def)
  from one_worker_per_session [OF fresh_one_session run_events_leased [OF w(1)] this] w show ?thesis by blast
qed

lemma lease_is_exclusive_witness:
  "\<exists>w. run_events two_resumes one_session = Some w \<and> reserve_lease ''s'' (lw_tables w 1) = None
     \<and> reserve_lease ''s'' (lw_tables w 2) \<noteq> None"
proof -
  obtain w x where w: "run_events two_resumes one_session = Some w" "attempt_of w 0 = Some x"
    using two_resumes_run by (auto split: option.splits)
  note all = lease_is_exclusive [OF fresh_one_session run_events_leased [OF w(1)] w(2), THEN conjunct2, THEN conjunct2]
  have "map (\<lambda>(b, y). (b, at_process y, at_session y)) (lw_attempts (the (run_events two_resumes one_session))) = [(0, 1, ''s'')]"
    by code_simp
  then have "map (\<lambda>(b, y). (b, at_process y, at_session y)) (lw_attempts w) = [(0, 1, ''s'')]" using w(1) by simp
  then obtain y where "lw_attempts w = [(0, y)]" "at_process y = 1" "at_session y = ''s''" by auto
  then have "reserve_lease n (lw_tables w p) = None \<longleftrightarrow> p = 1 \<and> n = ''s''" for n p using all by auto
  with w(1) show ?thesis by (simp del: not_None_eq)
qed

text \<open>
  The other way round: when the session is there but could not be read, \<open>resumePlanner\<close>
  completes the lease and so removes the lock file of a session that still exists. Who opened
  the file before takes its lock, who comes later creates a new one: two processes work on
  the session.
\<close>

definition failed_load :: "lease_event list" where
  "failed_load =
     [Begin 0 1 ''s'', Create 0 7, Stat 0, Flock 0,
      Begin 1 2 ''s'', Create 1 8, Lstat 1 lease_held, Open 1 lease_held,
      Load_fails 0, Verify 0, Remove 0, Close 0 None,
      Stat 1, Flock 1, Load 1,
      Begin 2 3 ''s'', Create 2 8, Stat 2, Flock 2, Load 2]"

lemma failed_load_lets_two_work:
  "\<exists>w. leased one_session failed_load w \<and> workers ''s'' w = [1, 2]"
proof -
  have "map_option (workers ''s'') (run_events failed_load one_session) = Some [1, 2]" by code_simp
  then show ?thesis using run_events_leased by blast
qed

end
