(* ===== verification/CalEvents.thy ===== *)
theory CalEvents
  imports Schedule SortFacts
begin

text \<open>
  Events of iCalendar objects (\<open>internal/calendar/caldav.go\<close>, \<open>ics.go\<close>, \<open>vdir.go\<close>,
  \<open>google.go\<close>): grouping the components of an object into logical events, expanding a
  recurring event, and applying the components that change single occurrences or all from one
  on. The third-party package decodes the object and computes the recurrence set: a component is
  the record of what it answers. Times are instants in a fixed local zone \<open>off\<close>.
\<close>

section \<open>Components\<close>

text \<open>
  \<open>ie_recurrence\<close> is \<open>None\<close> without a RECURRENCE-ID and \<open>Some None\<close> when it cannot be read;
  \<open>ie_set\<close> answers \<open>Between\<close>, and is \<open>None\<close> for an event that does not recur.
\<close>

record ical_event =
  ie_uid :: bytes
  ie_recurrence :: "gotime option option"
  ie_range :: bytes
  ie_cancelled :: bool
  ie_start :: "gotime option"
  ie_end :: "gotime option"
  ie_summary :: bytes
  ie_set :: "(gotime \<Rightarrow> gotime \<Rightarrow> gotime list) option"

definition hour_ns :: int where "hour_ns = 3600000000000"

definition in_zone :: "int \<Rightarrow> gotime \<Rightarrow> gotime" where
  "in_zone off t = t\<lparr>gt_off := off\<rparr>"

definition second_ns :: int where "second_ns = 1000000000"

text \<open>\<open>Format(time.RFC3339)\<close>, for an offset of whole minutes.\<close>

definition zone_text :: "int \<Rightarrow> bytes" where
  "zone_text off =
     (let m = \<bar>off\<bar> div minute_ns in
      if m = 0 then ''Z'' else (if off < 0 then ''-'' else ''+'') @ two_digits (m div 60) @ '':'' @ two_digits (m mod 60))"

definition rfc3339 :: "gotime \<Rightarrow> bytes" where
  "rfc3339 t =
     (let s = clock_of t div second_ns in
      format_date (civil_of t) @ ''T'' @ two_digits (s div 3600) @ '':'' @ two_digits (s div 60 mod 60) @ '':'' @
      two_digits (s mod 60) @ zone_text (gt_off t))"

definition occurrence_id :: "bytes \<Rightarrow> gotime \<Rightarrow> bytes" where
  "occurrence_id uid start = (if uid = [] then [] else uid @ ''-'' @ rfc3339 start)"

definition is_override :: "ical_event \<Rightarrow> bool" where
  "is_override e \<longleftrightarrow> ie_recurrence e \<noteq> None"

definition recurrence_id :: "int \<Rightarrow> ical_event \<Rightarrow> gotime option" where
  "recurrence_id off e = (case ie_recurrence e of Some (Some t) \<Rightarrow> Some (in_zone off t) | _ \<Rightarrow> None)"

definition event_to_domain :: "bytes \<Rightarrow> ical_event \<Rightarrow> event option" where
  "event_to_domain source e =
     (case ie_start e of
        None \<Rightarrow> None
      | Some s \<Rightarrow> Some \<lparr>ev_id = ie_uid e, ev_source = source, ev_title = ie_summary e, ev_start = s,
          ev_end = (case ie_end e of Some t \<Rightarrow> t | None \<Rightarrow> add_ns hour_ns s), ev_project = []\<rparr>)"

definition in_window :: "gotime \<Rightarrow> gotime \<Rightarrow> event \<Rightarrow> bool" where
  "in_window a b e \<longleftrightarrow> \<not> (gt_ns (ev_end e) < gt_ns a \<or> gt_ns b < gt_ns (ev_start e))"

definition filter_event_range :: "event list \<Rightarrow> gotime \<Rightarrow> gotime \<Rightarrow> event list" where
  "filter_event_range evs a b = filter (in_window a b) evs"

section \<open>Grouping\<close>

record event_group =
  eg_uid :: bytes
  eg_base :: "ical_event option"
  eg_overrides :: "ical_event list"

definition group_of_base :: "bytes \<Rightarrow> ical_event \<Rightarrow> event_group" where
  "group_of_base uid e = \<lparr>eg_uid = uid, eg_base = Some e, eg_overrides = []\<rparr>"

definition add_override :: "ical_event \<Rightarrow> event_group \<Rightarrow> event_group" where
  "add_override e g = g\<lparr>eg_overrides := eg_overrides g @ [e]\<rparr>"

definition group_alone :: "bytes \<Rightarrow> ical_event \<Rightarrow> event_group" where
  "group_alone uid e =
     (if is_override e then \<lparr>eg_uid = uid, eg_base = None, eg_overrides = [e]\<rparr> else group_of_base uid e)"

text \<open>
  The groups so far, and for every UID the position of its first group (the pointer in
  \<open>byUID\<close>).
\<close>

type_synonym grouping = "event_group list \<times> (bytes, nat) gomap"

definition group_event :: "ical_event \<Rightarrow> grouping \<Rightarrow> grouping" where
  "group_event e st =
     (case st of (gs, by_uid) \<Rightarrow>
        if ie_uid e = [] then (gs @ [group_alone [] e], by_uid)
        else case map_of by_uid (ie_uid e) of
          None \<Rightarrow> (gs @ [group_alone (ie_uid e) e], AList.update (ie_uid e) (length gs) by_uid)
        | Some i \<Rightarrow>
            (if is_override e then (gs[i := add_override e (gs ! i)], by_uid)
             else if eg_base (gs ! i) = None then (gs[i := (gs ! i)\<lparr>eg_base := Some e\<rparr>], by_uid)
             else (gs @ [group_of_base (ie_uid e) e], by_uid)))"

definition group_calendar_events :: "ical_event list \<Rightarrow> event_group list" where
  "group_calendar_events evs = fst (fold group_event evs ([], []))"

section \<open>Overrides\<close>

definition is_this_and_future :: "ical_event \<Rightarrow> bool" where
  "is_this_and_future e \<longleftrightarrow> is_override e \<and> equal_fold (ie_range e) ''THISANDFUTURE''"

definition earlier_override :: "int \<Rightarrow> ical_event \<Rightarrow> ical_event \<Rightarrow> bool" where
  "earlier_override off x y =
     (case (recurrence_id off x, recurrence_id off y) of (Some a, Some b) \<Rightarrow> gt_ns a < gt_ns b | _ \<Rightarrow> False)"

definition split_overrides :: "int \<Rightarrow> ical_event list \<Rightarrow> ical_event list \<times> ical_event list" where
  "split_overrides off ovs =
     (stable_sort (earlier_override off) (filter is_this_and_future ovs),
      filter (\<lambda>e. is_override e \<and> \<not> is_this_and_future e) ovs)"

definition duration_of :: "event \<Rightarrow> int" where
  "duration_of e = (let d = sub_ns (ev_end e) (ev_start e) in if d \<le> 0 then hour_ns else d)"

definition shift_slot :: "gotime \<Rightarrow> event \<Rightarrow> event \<Rightarrow> event" where
  "shift_slot rid ev s =
     (if gt_ns (ev_start s) < gt_ns rid then s
      else (let start = add_ns (sub_ns (ev_start ev) rid) (ev_start s)
            in s\<lparr>ev_start := start, ev_end := add_ns (duration_of ev) start, ev_title := ev_title ev\<rparr>))"

definition apply_this_and_future :: "int \<Rightarrow> bytes \<Rightarrow> ical_event \<Rightarrow> event list \<Rightarrow> event list" where
  "apply_this_and_future off source ov slots =
     (case recurrence_id off ov of
        None \<Rightarrow> slots
      | Some rid \<Rightarrow>
          if ie_cancelled ov then filter (\<lambda>s. gt_ns (ev_start s) < gt_ns rid) slots
          else case event_to_domain source ov of None \<Rightarrow> slots | Some ev \<Rightarrow> map (shift_slot rid ev) slots)"

definition apply_single_override ::
  "int \<Rightarrow> bytes \<Rightarrow> bytes \<Rightarrow> ical_event \<Rightarrow> event list \<times> event list \<Rightarrow> event list \<times> event list" where
  "apply_single_override off source uid ov st =
     (case st of (slots, added) \<Rightarrow>
        case recurrence_id off ov of
          None \<Rightarrow> (slots, added)
        | Some rid \<Rightarrow>
            (let slot = occurrence_id uid rid;
                 kept = filter (\<lambda>s. ev_id s \<noteq> slot) slots
             in if ie_cancelled ov then (kept, added)
                else case event_to_domain source ov of
                  None \<Rightarrow> (kept, added)
                | Some ev \<Rightarrow> (kept, added @ [ev\<lparr>ev_id := slot\<rparr>])))"

section \<open>Expanding\<close>

definition expand_event_occurrences :: "int \<Rightarrow> bytes \<Rightarrow> ical_event \<Rightarrow> gotime \<Rightarrow> gotime \<Rightarrow> event list" where
  "expand_event_occurrences off source e a b =
     (case event_to_domain source e of
        None \<Rightarrow> []
      | Some base \<Rightarrow>
          (case ie_set e of
             None \<Rightarrow> filter_event_range [base] a b
           | Some starts \<Rightarrow>
               map (\<lambda>t. let start = in_zone off t in
                      \<lparr>ev_id = occurrence_id (ev_id base) start, ev_source = source, ev_title = ev_title base, ev_start = start,
                       ev_end = add_ns (duration_of base) start, ev_project = []\<rparr>)
                 (starts (add_ns (- duration_of base) a) b)))"

definition expand_group :: "int \<Rightarrow> bytes \<Rightarrow> event_group \<Rightarrow> gotime \<Rightarrow> gotime \<Rightarrow> event list" where
  "expand_group off source g a b =
     (case eg_base g of
        None \<Rightarrow> filter_event_range (snd (fold (apply_single_override off source (eg_uid g)) (eg_overrides g) ([], []))) a b
      | Some base \<Rightarrow>
          (let (futures, singles) = split_overrides off (eg_overrides g);
               slots = fold (apply_this_and_future off source) futures (expand_event_occurrences off source base a b);
               (kept, added) = fold (apply_single_override off source (eg_uid g)) singles (slots, [])
           in filter_event_range (kept @ added) a b))"

definition expand_calendar_events :: "int \<Rightarrow> bytes \<Rightarrow> ical_event list \<Rightarrow> gotime \<Rightarrow> gotime \<Rightarrow> event list" where
  "expand_calendar_events off source evs a b =
     concat (map (\<lambda>g. expand_group off source g a b) (group_calendar_events evs))"

section \<open>No component is lost\<close>

definition group_members :: "event_group \<Rightarrow> ical_event list" where
  "group_members g = (case eg_base g of None \<Rightarrow> [] | Some e \<Rightarrow> [e]) @ eg_overrides g"

definition members_of :: "event_group list \<Rightarrow> ical_event multiset" where
  "members_of gs = mset (concat (map group_members gs))"

lemma members_of_snoc [simp]: "members_of (gs @ [g]) = members_of gs + mset (group_members g)"
  by (simp add: members_of_def)

lemma members_of_update:
  assumes "i < length gs" and "mset (group_members g) = add_mset e (mset (group_members (gs ! i)))"
  shows "members_of (gs[i := g]) = add_mset e (members_of gs)"
proof -
  have "members_of gs = members_of (take i gs) + mset (group_members (gs ! i)) + members_of (drop (Suc i) gs)"
    using id_take_nth_drop [OF assms(1)] by (metis members_of_def concat.simps(2) concat_append list.simps(9) map_append mset_append add.assoc)
  moreover have "members_of (gs[i := g]) = members_of (take i gs) + mset (group_members g) + members_of (drop (Suc i) gs)"
    by (simp add: upd_conv_take_nth_drop [OF assms(1)] members_of_def)
  ultimately show ?thesis by (simp add: assms(2))
qed

definition well_grouped :: "event_group \<Rightarrow> bool" where
  "well_grouped g \<longleftrightarrow> list_all (\<lambda>e. ie_uid e = eg_uid g) (group_members g)
     \<and> (case eg_base g of None \<Rightarrow> True | Some e \<Rightarrow> \<not> is_override e) \<and> list_all is_override (eg_overrides g)"

text \<open>The table has the position of the group that collects the overrides of a UID.\<close>

definition grouping_ok :: "grouping \<Rightarrow> bool" where
  "grouping_ok st \<longleftrightarrow>
     list_all well_grouped (fst st)
     \<and> (\<forall>u i. map_of (snd st) u = Some i \<longrightarrow> i < length (fst st) \<and> eg_uid (fst st ! i) = u)
     \<and> (\<forall>i < length (fst st). eg_uid (fst st ! i) \<noteq> [] \<and> eg_overrides (fst st ! i) \<noteq> [] \<longrightarrow>
          map_of (snd st) (eg_uid (fst st ! i)) = Some i)"

lemma group_alone_fields [simp]:
  "group_members (group_alone uid e) = [e]" "eg_uid (group_alone uid e) = uid"
  "well_grouped (group_alone uid e) = (ie_uid e = uid)" "eg_overrides (group_alone uid e) = (if is_override e then [e] else [])"
  by (simp_all add: group_alone_def group_of_base_def group_members_def well_grouped_def)

lemma group_of_base_fields [simp]:
  "group_members (group_of_base uid e) = [e]" "eg_uid (group_of_base uid e) = uid"
  "well_grouped (group_of_base uid e) = (ie_uid e = uid \<and> \<not> is_override e)" "eg_overrides (group_of_base uid e) = []"
  by (auto simp: group_of_base_def group_members_def well_grouped_def)

lemma group_event_step:
  assumes "grouping_ok st"
  shows "grouping_ok (group_event e st) \<and> members_of (fst (group_event e st)) = add_mset e (members_of (fst st))"
proof -
  obtain gs by_uid where st: "st = (gs, by_uid)" by (cases st)
  have ok: "list_all well_grouped gs" "\<And>u i. map_of by_uid u = Some i \<Longrightarrow> i < length gs \<and> eg_uid (gs ! i) = u"
    "\<And>i. i < length gs \<Longrightarrow> eg_uid (gs ! i) \<noteq> [] \<Longrightarrow> eg_overrides (gs ! i) \<noteq> [] \<Longrightarrow> map_of by_uid (eg_uid (gs ! i)) = Some i"
    using assms unfolding st grouping_ok_def by auto
  show ?thesis
  proof (cases "ie_uid e = []")
    case True
    then show ?thesis using ok unfolding st by (auto simp: group_event_def grouping_ok_def nth_append less_Suc_eq)
  next
    case uid: False
    show ?thesis
    proof (cases "map_of by_uid (ie_uid e)")
      case None
      have fresh: "eg_uid (gs ! i) \<noteq> ie_uid e" if "i < length gs" "eg_overrides (gs ! i) \<noteq> []" for i
      proof
        assume same: "eg_uid (gs ! i) = ie_uid e"
        then have "map_of by_uid (ie_uid e) = Some i" using ok(3) [of i] that uid by simp
        then show False using None by simp
      qed
      let ?by = "AList.update (ie_uid e) (length gs) by_uid"
      have step: "group_event e (gs, by_uid) = (gs @ [group_alone (ie_uid e) e], ?by)" using uid None by (simp add: group_event_def)
      have table: "i < length (gs @ [group_alone (ie_uid e) e]) \<and> eg_uid ((gs @ [group_alone (ie_uid e) e]) ! i) = u"
        if "map_of ?by u = Some i" for u i
        using that ok(2) [of u i] by (cases "u = ie_uid e") (auto simp: update_conv' nth_append)
      have entered: "map_of ?by (eg_uid ((gs @ [group_alone (ie_uid e) e]) ! i)) = Some i"
        if "i < Suc (length gs)" "eg_uid ((gs @ [group_alone (ie_uid e) e]) ! i) \<noteq> []"
          "eg_overrides ((gs @ [group_alone (ie_uid e) e]) ! i) \<noteq> []" for i
      proof (cases "i < length gs")
        case True
        then have "eg_uid (gs ! i) \<noteq> ie_uid e" using fresh [of i] that by (simp add: nth_append)
        then show ?thesis using True that ok(3) [of i] by (simp add: update_conv' nth_append)
      next
        case False
        then show ?thesis using that(1) by (simp add: update_conv' less_Suc_eq)
      qed
      show ?thesis using ok(1) table entered unfolding st step grouping_ok_def by simp
    next
      case (Some i)
      note i = ok(2) [OF Some]
      have same: "ie_uid e = u" if "map_of by_uid u = Some i" for u using ok(2) [OF that] i by simp
      have wf: "well_grouped (gs ! i)" using ok(1) i by (simp add: list_all_length)
      show ?thesis
      proof (cases "is_override e")
        case True
        let ?g = "add_override e (gs ! i)"
        have g: "well_grouped ?g" "eg_uid ?g = ie_uid e" "mset (group_members ?g) = add_mset e (mset (group_members (gs ! i)))"
          using wf i True by (auto simp: add_override_def well_grouped_def group_members_def)
        have "group_event e st = (gs[i := ?g], by_uid)" using uid Some True by (simp add: st group_event_def)
        then show ?thesis using ok i g members_of_update [OF _ g(3)] Some
          by (auto simp: st grouping_ok_def nth_list_update list_all_length dest: same)
      next
        case plain: False
        show ?thesis
        proof (cases "eg_base (gs ! i)")
          case None
          let ?g = "(gs ! i)\<lparr>eg_base := Some e\<rparr>"
          have g: "well_grouped ?g" "eg_uid ?g = ie_uid e" "mset (group_members ?g) = add_mset e (mset (group_members (gs ! i)))"
            using wf i plain None by (auto simp: well_grouped_def group_members_def)
          have "group_event e st = (gs[i := ?g], by_uid)" using uid Some plain None by (simp add: st group_event_def)
          then show ?thesis using ok i g members_of_update [OF _ g(3)] Some
            by (auto simp: st grouping_ok_def nth_list_update list_all_length dest: same)
        next
          case (Some b)
          then have "group_event e st = (gs @ [group_of_base (ie_uid e) e], by_uid)"
            using uid plain \<open>map_of by_uid (ie_uid e) = Some i\<close> by (simp add: st group_event_def)
          then show ?thesis using ok i plain by (auto simp: st grouping_ok_def nth_append less_Suc_eq dest: ok(2))
        qed
      qed
    qed
  qed
qed

lemma grouping_fold:
  "grouping_ok st \<Longrightarrow> grouping_ok (fold group_event evs st)
     \<and> members_of (fst (fold group_event evs st)) = mset evs + members_of (fst st)"
proof (induction evs arbitrary: st)
  case (Cons e evs)
  have "grouping_ok (group_event e st)" "members_of (fst (group_event e st)) = add_mset e (members_of (fst st))"
    using group_event_step [OF Cons.prems] by blast+
  then show ?case using Cons.IH [of "group_event e st"] by simp
qed simp

lemma grouping_of_calendar:
  "grouping_ok (fold group_event evs ([], []))" "members_of (group_calendar_events evs) = mset evs"
  using grouping_fold [of "([], [])" evs] by (auto simp: grouping_ok_def group_calendar_events_def members_of_def)

text \<open>The group of a UID that has no base of its own is the only group of that UID.\<close>

definition lone_ok :: "grouping \<Rightarrow> bool" where
  "lone_ok st \<longleftrightarrow>
     (\<forall>i < length (fst st). eg_uid (fst st ! i) \<noteq> [] \<longrightarrow> map_of (snd st) (eg_uid (fst st ! i)) \<noteq> None)
     \<and> (\<forall>i < length (fst st). \<forall>j < length (fst st). eg_uid (fst st ! i) \<noteq> [] \<and> eg_uid (fst st ! j) = eg_uid (fst st ! i)
          \<and> eg_base (fst st ! i) = None \<longrightarrow> j = i)"

lemma lone_ok_update:
  assumes "lone_ok (gs, m)" and "eg_uid g = eg_uid (gs ! i)" and "eg_base g = None \<Longrightarrow> eg_base (gs ! i) = None"
  shows "lone_ok (gs[i := g], m)"
proof (cases "i < length gs")
  case True
  have u: "eg_uid (gs[i := g] ! k) = eg_uid (gs ! k)" if "k < length gs" for k
    using that assms(2) by (cases "k = i") simp_all
  have b: "eg_base (gs ! k) = None" if "k < length gs" "eg_base (gs[i := g] ! k) = None" for k
    using that assms(3) by (cases "k = i") simp_all
  show ?thesis using assms(1) unfolding lone_ok_def fst_conv snd_conv length_list_update using u b by metis
next
  case False
  then show ?thesis using assms(1) by (simp add: list_update_beyond)
qed

lemma lone_ok_append:
  assumes "lone_ok (gs, m)"
    and "eg_uid g \<noteq> [] \<Longrightarrow> map_of m' (eg_uid g) \<noteq> None" "\<And>u. map_of m u \<noteq> None \<Longrightarrow> map_of m' u \<noteq> None"
    and "\<And>i. i < length gs \<Longrightarrow> eg_uid g \<noteq> [] \<Longrightarrow> eg_uid (gs ! i) = eg_uid g \<Longrightarrow> eg_base (gs ! i) \<noteq> None \<and> eg_base g \<noteq> None"
  shows "lone_ok (gs @ [g], m')"
proof -
  have old: "map_of m (eg_uid (gs ! i)) \<noteq> None" if "i < length gs" "eg_uid (gs ! i) \<noteq> []" for i
    using assms(1) that by (simp add: lone_ok_def)
  have lone: "j = i" if "i < length gs" "j < length gs" "eg_uid (gs ! i) \<noteq> []" "eg_uid (gs ! j) = eg_uid (gs ! i)"
    "eg_base (gs ! i) = None" for i j using assms(1) that by (simp add: lone_ok_def)
  have nth: "(gs @ [g]) ! i = (if i < length gs then gs ! i else g)" if "i < Suc (length gs)" for i
    using that by (auto simp: nth_append less_Suc_eq)
  have 1: "map_of m' (eg_uid (if i < length gs then gs ! i else g)) \<noteq> None"
    if "eg_uid (if i < length gs then gs ! i else g) \<noteq> []" for i
    using that assms(2) assms(3) [OF old [of i]] by (cases "i < length gs") simp_all
  have 2: "j = i" if "i < Suc (length gs)" "j < Suc (length gs)" "eg_uid (if i < length gs then gs ! i else g) \<noteq> []"
    "eg_uid (if j < length gs then gs ! j else g) = eg_uid (if i < length gs then gs ! i else g)"
    "eg_base (if i < length gs then gs ! i else g) = None" for i j
  proof (cases "i < length gs"; cases "j < length gs")
    assume "i < length gs" "j < length gs"
    then show ?thesis using lone [of i j] that by simp
  next
    assume i: "i < length gs" "\<not> j < length gs"
    then have "eg_uid (gs ! i) = eg_uid g" "eg_uid g \<noteq> []" "eg_base (gs ! i) = None" using that(3,4,5) by simp_all
    then show ?thesis using assms(4) [OF i(1)] by blast
  next
    assume j: "\<not> i < length gs" "j < length gs"
    then have "eg_uid (gs ! j) = eg_uid g" "eg_uid g \<noteq> []" "eg_base g = None" using that(3,4,5) by simp_all
    then show ?thesis using assms(4) [OF j(2)] by blast
  qed (use that in simp)
  show ?thesis unfolding lone_ok_def fst_conv snd_conv length_append_singleton
  proof (intro conjI allI impI)
    fix i
    assume i: "i < Suc (length gs)" and u: "eg_uid ((gs @ [g]) ! i) \<noteq> []"
    show "map_of m' (eg_uid ((gs @ [g]) ! i)) \<noteq> None" using 1 [of i] u unfolding nth [OF i] by blast
  next
    fix i j
    assume i: "i < Suc (length gs)" and j: "j < Suc (length gs)"
      and h: "eg_uid ((gs @ [g]) ! i) \<noteq> [] \<and> eg_uid ((gs @ [g]) ! j) = eg_uid ((gs @ [g]) ! i) \<and> eg_base ((gs @ [g]) ! i) = None"
    show "j = i" using 2 [OF i j] h unfolding nth [OF i] nth [OF j] by iprover
  qed
qed

lemma lone_ok_step:
  assumes "grouping_ok st" and "lone_ok st"
  shows "lone_ok (group_event e st)"
proof -
  obtain gs by_uid where st: "st = (gs, by_uid)" by (cases st)
  have reg: "map_of by_uid u = Some i \<Longrightarrow> i < length gs \<and> eg_uid (gs ! i) = u" for u i
    using assms(1) unfolding st grouping_ok_def by auto
  have old: "map_of by_uid (eg_uid (gs ! i)) \<noteq> None" if "i < length gs" "eg_uid (gs ! i) \<noteq> []" for i
    using assms(2) that by (simp add: lone_ok_def st)
  show ?thesis
  proof (cases "ie_uid e = []")
    case True
    then show ?thesis using lone_ok_append [of gs by_uid "group_alone [] e" by_uid] assms(2)
      by (simp add: st group_event_def)
  next
    case uid: False
    show ?thesis
    proof (cases "map_of by_uid (ie_uid e)")
      case None
      have "lone_ok (gs @ [group_alone (ie_uid e) e], AList.update (ie_uid e) (length gs) by_uid)"
      proof (rule lone_ok_append)
        show "lone_ok (gs, by_uid)" using assms(2) st by simp
        show "eg_base (gs ! i) \<noteq> None \<and> eg_base (group_alone (ie_uid e) e) \<noteq> None"
          if "i < length gs" "eg_uid (gs ! i) = eg_uid (group_alone (ie_uid e) e)" for i
          using that old [of i] None uid by simp
      qed (auto simp: update_conv')
      then show ?thesis using uid None by (simp add: st group_event_def)
    next
      case (Some i)
      note i = reg [OF Some]
      consider "is_override e" | "\<not> is_override e" "eg_base (gs ! i) = None" | b where "\<not> is_override e" "eg_base (gs ! i) = Some b"
        by fastforce
      then show ?thesis
      proof cases
        case 1
        then show ?thesis using uid Some assms(2) lone_ok_update [of gs by_uid "add_override e (gs ! i)" i]
          by (simp add: st group_event_def add_override_def)
      next
        case 2
        then show ?thesis using uid Some assms(2) lone_ok_update [of gs by_uid "(gs ! i)\<lparr>eg_base := Some e\<rparr>" i]
          by (simp add: st group_event_def)
      next
        case 3
        have "eg_base (gs ! k) \<noteq> None" if k: "k < length gs" "eg_uid (gs ! k) = ie_uid e" for k
        proof
          assume n: "eg_base (gs ! k) = None"
          have "i = k" using assms(2) k i n uid by (auto simp: lone_ok_def st)
          then show False using n 3 by simp
        qed
        then have "lone_ok (gs @ [group_of_base (ie_uid e) e], by_uid)"
          by (intro lone_ok_append) (use assms(2) st Some in \<open>auto simp: group_of_base_def\<close>)
        then show ?thesis using uid Some 3 by (simp add: st group_event_def)
      qed
    qed
  qed
qed

lemma lone_ok_fold: "grouping_ok st \<Longrightarrow> lone_ok st \<Longrightarrow> lone_ok (fold group_event evs st)"
proof (induction evs arbitrary: st)
  case (Cons e evs)
  have "grouping_ok (group_event e st)" "lone_ok (group_event e st)"
    using group_event_step [OF Cons.prems(1)] lone_ok_step [OF Cons.prems] by blast+
  then show ?case using Cons.IH [of "group_event e st"] by simp
qed simp

lemma lone_ok_calendar: "lone_ok (fold group_event evs ([], []))"
  by (rule lone_ok_fold) (simp_all add: grouping_ok_def lone_ok_def)

lemma grouping_parts:
  shows "mset (concat (map group_members (group_calendar_events evs))) = mset evs"
    and "g \<in> set (group_calendar_events evs) \<Longrightarrow> well_grouped g"
    and "i < length (group_calendar_events evs) \<Longrightarrow> j < length (group_calendar_events evs)
      \<Longrightarrow> eg_overrides (group_calendar_events evs ! i) \<noteq> [] \<Longrightarrow> eg_overrides (group_calendar_events evs ! j) \<noteq> []
      \<Longrightarrow> eg_uid (group_calendar_events evs ! i) = eg_uid (group_calendar_events evs ! j)
      \<Longrightarrow> eg_uid (group_calendar_events evs ! j) \<noteq> [] \<Longrightarrow> i = j"
    and "g \<in> set (group_calendar_events evs) \<Longrightarrow> eg_uid g \<noteq> [] \<Longrightarrow> eg_base g = None \<Longrightarrow> e \<in> set evs \<Longrightarrow> ie_uid e = eg_uid g
      \<Longrightarrow> is_override e"
proof -
  let ?gs = "group_calendar_events evs"
  obtain m where st: "fold group_event evs ([], []) = (?gs, m)"
    by (metis group_calendar_events_def prod.collapse)
  have ok: "grouping_ok (?gs, m)" and lone: "lone_ok (?gs, m)"
    using grouping_of_calendar(1) [of evs] lone_ok_calendar [of evs] by (simp_all only: st)
  show all: "mset (concat (map group_members ?gs)) = mset evs" using grouping_of_calendar(2) [of evs] by (simp add: members_of_def)
  show wf: "well_grouped g" if "g \<in> set ?gs" for g using ok that by (simp add: grouping_ok_def list_all_iff)
  show "i = j" if "i < length ?gs" "j < length ?gs" "eg_overrides (?gs ! i) \<noteq> []" "eg_overrides (?gs ! j) \<noteq> []"
    "eg_uid (?gs ! i) = eg_uid (?gs ! j)" "eg_uid (?gs ! j) \<noteq> []"
  proof -
    have in_table: "map_of m (eg_uid (?gs ! k)) = Some k" if "k < length ?gs" "eg_uid (?gs ! k) \<noteq> []" "eg_overrides (?gs ! k) \<noteq> []" for k
      using ok that unfolding grouping_ok_def fst_conv snd_conv by blast
    have "eg_uid (?gs ! i) \<noteq> []" using that(5,6) by simp
    from in_table [OF that(1) this that(3)] in_table [OF that(2,6,4)] show ?thesis unfolding that(5) by simp
  qed
  show "is_override e" if g: "g \<in> set ?gs" "eg_uid g \<noteq> []" "eg_base g = None" "e \<in> set evs" "ie_uid e = eg_uid g"
  proof -
    have "e \<in># mset (concat (map group_members ?gs))" using all g(4) by simp
    then obtain h where h: "h \<in> set ?gs" "e \<in> set (group_members h)" by auto
    have "eg_uid h = eg_uid g" using wf [OF h(1)] h(2) g(5) by (auto simp: well_grouped_def list_all_iff)
    obtain a b where "a < length ?gs" "b < length ?gs" "?gs ! a = g" "?gs ! b = h" using g(1) h(1) by (metis in_set_conv_nth)
    then have "b = a" using lone g(2,3) \<open>eg_uid h = eg_uid g\<close> unfolding lone_ok_def fst_conv by blast
    then have "h = g" using \<open>?gs ! a = g\<close> \<open>?gs ! b = h\<close> by simp
    then show ?thesis using wf [OF g(1)] h(2) g(3) by (auto simp: well_grouped_def group_members_def list_all_iff)
  qed
qed

text \<open>
  C36. Grouping the components of a calendar object loses and repeats none of them; the
  components of a group have its UID, its base is no override and everything else is; the
  overrides of a UID are together in one group; and a group is without a base only when the
  object has no base of that UID at all, in whatever order the components stand.
\<close>

theorem grouping_loses_nothing:
  "let gs = group_calendar_events evs in
   mset (concat (map group_members gs)) = mset evs
   \<and> (\<forall>g \<in> set gs. well_grouped g)
   \<and> (\<forall>i < length gs. \<forall>j < length gs. eg_overrides (gs ! i) \<noteq> [] \<and> eg_overrides (gs ! j) \<noteq> []
        \<and> eg_uid (gs ! i) = eg_uid (gs ! j) \<and> eg_uid (gs ! j) \<noteq> [] \<longrightarrow> i = j)
   \<and> (\<forall>g \<in> set gs. \<forall>e \<in> set evs. eg_uid g \<noteq> [] \<and> eg_base g = None \<and> ie_uid e = eg_uid g \<longrightarrow> is_override e)"
  unfolding Let_def
proof (intro conjI ballI allI impI)
  show "mset (concat (map group_members (group_calendar_events evs))) = mset evs" by (rule grouping_parts(1))
qed (blast intro: grouping_parts(2), use grouping_parts(3) in blast, use grouping_parts(4) in blast)

definition monday :: "int \<Rightarrow> int \<Rightarrow> gotime" where
  "monday week hour = \<lparr>gt_ns = (19723 + 7 * week) * day_ns + hour * hour_ns, gt_off = 0\<rparr>"

definition weekly_review :: ical_event where
  "weekly_review =
     \<lparr>ie_uid = ''u'', ie_recurrence = None, ie_range = [], ie_cancelled = False, ie_start = Some (monday 0 9),
      ie_end = Some (monday 0 10), ie_summary = ''Review'',
      ie_set = Some (\<lambda>a b. filter (\<lambda>t. gt_ns a \<le> gt_ns t \<and> gt_ns t \<le> gt_ns b) [monday 0 9, monday 1 9, monday 2 9])\<rparr>"

definition change_of :: "gotime \<Rightarrow> bytes \<Rightarrow> bool \<Rightarrow> gotime \<Rightarrow> ical_event" where
  "change_of slot rng cancelled start =
     \<lparr>ie_uid = ''u'', ie_recurrence = Some (Some slot), ie_range = rng, ie_cancelled = cancelled, ie_start = Some start,
      ie_end = None, ie_summary = ''Moved'', ie_set = None\<rparr>"

lemma grouping_loses_nothing_witness:
  "mset (concat (map group_members (group_calendar_events [change_of (monday 1 9) [] False (monday 1 14), weekly_review]))) =
     mset [change_of (monday 1 9) [] False (monday 1 14), weekly_review]
   \<and> is_override (change_of (monday 1 9) [] False (monday 1 14))"
proof -
  let ?c = "change_of (monday 1 9) [] False (monday 1 14)"
  have "group_calendar_events [?c] = [\<lparr>eg_uid = ''u'', eg_base = None, eg_overrides = [?c]\<rparr>]"
    by (simp add: group_calendar_events_def group_event_def group_alone_def is_override_def change_of_def)
  moreover have "ie_uid ?c = ''u''" by (simp add: change_of_def)
  ultimately have "is_override ?c" using grouping_loses_nothing [of "[?c]"] by (simp add: Let_def)
  moreover have "mset (concat (map group_members (group_calendar_events [?c, weekly_review]))) = mset [?c, weekly_review]"
    using grouping_loses_nothing [of "[?c, weekly_review]"] unfolding Let_def by blast
  ultimately show ?thesis by blast
qed

section \<open>What a change does to the slot it names\<close>

text \<open>Instants with the same text are the same instant, where the text shows all of it.\<close>

definition printable :: "gotime \<Rightarrow> bool" where
  "printable t \<longleftrightarrow> iso_date (civil_of t) \<and> gt_ns t mod second_ns = 0"

lemma clock_seconds:
  "0 \<le> clock_of t div second_ns" "clock_of t div second_ns < 86400"
  using clock_bounds [of t] by (simp_all add: second_ns_def day_ns_def pos_imp_zdiv_nonneg_iff)

lemma clock_mod_second: "clock_of t mod second_ns = (gt_ns t + gt_off t) mod second_ns"
  by (simp add: clock_of_def second_ns_def day_ns_def mod_mod_cancel)

lemma two_digits_inject: "two_digits a = two_digits b \<Longrightarrow> 0 \<le> a \<Longrightarrow> a < 100 \<Longrightarrow> 0 \<le> b \<Longrightarrow> b < 100 \<Longrightarrow> a = b"
  by (metis num_two_digits)

lemma same_clock_text:
  assumes "two_digits (s div 3600) = two_digits (s' div 3600)" "two_digits (s div 60 mod 60) = two_digits (s' div 60 mod 60)"
    "two_digits (s mod 60) = two_digits (s' mod 60)" and "0 \<le> s" "s < 86400" "0 \<le> s'" "s' < (86400 :: int)"
  shows "s = s'"
proof -
  have 1: "0 \<le> s div 3600" "s div 3600 < 100" "0 \<le> s' div 3600" "s' div 3600 < 100" using assms(4-7) by linarith+
  have 2: "0 \<le> n mod 60" "n mod 60 < 100" for n :: int by (simp, use pos_mod_bound [of 60 n] in linarith)
  have "s div 3600 = s' div 3600" "s div 60 mod 60 = s' div 60 mod 60" "s mod 60 = s' mod 60"
    using two_digits_inject [OF assms(1) 1] two_digits_inject [OF assms(2) 2 2] two_digits_inject [OF assms(3) 2 2] by blast+
  moreover have "n = 3600 * (n div 3600) + 60 * (n div 60 mod 60) + n mod 60" for n :: int
  proof -
    have "n div 3600 = n div 60 div 60" using zdiv_zmult2_eq [of 60 n 60] by simp
    then show ?thesis using mult_div_mod_eq [of 60 "n div 60"] mult_div_mod_eq [of 60 n] by linarith
  qed
  ultimately show ?thesis by metis
qed

lemma rfc3339_inject:
  assumes "rfc3339 s = rfc3339 t" and "printable s" "printable t" and "gt_off s = gt_off t"
  shows "gt_ns s = gt_ns t"
proof -
  have iso: "iso_date (civil_of s)" "iso_date (civil_of t)" using assms(2,3) by (simp_all add: printable_def)
  have len: "length (format_date (civil_of s)) = length (format_date (civil_of t))"
    using iso_date_facts(3) [OF iso(1)] iso_date_facts(3) [OF iso(2)] by simp
  let ?a = "clock_of s div second_ns" and ?b = "clock_of t div second_ns"
  have parts: "format_date (civil_of s) = format_date (civil_of t)" "two_digits (?a div 3600) = two_digits (?b div 3600)"
    "two_digits (?a div 60 mod 60) = two_digits (?b div 60 mod 60)" "two_digits (?a mod 60) = two_digits (?b mod 60)"
    using assms(1) len by (simp_all add: rfc3339_def Let_def append_eq_append_conv)
  have day: "day_of s = day_of t"
    using iso_date_facts(1) [OF iso(1)] iso_date_facts(1) [OF iso(2)] parts(1)
    by (metis civil_of_def days_of_civil_from_days option.inject)
  have "?a = ?b" using same_clock_text [OF parts(2-4)] clock_seconds [of s] clock_seconds [of t] by blast
  moreover have "clock_of s mod second_ns = clock_of t mod second_ns"
    unfolding clock_mod_second using assms(2-4) by (metis printable_def mod_add_left_eq)
  ultimately have "clock_of s = clock_of t" by (metis div_mod_decomp_int)
  with day show ?thesis using assms(4) unfolding day_of_def clock_of_def
    by (metis add_right_cancel div_mult_mod_eq)
qed

text \<open>
  \<open>reshape_slot\<close> is what the changes of a range make of one slot; \<open>named_slots\<close> are the slots
  the changes of a single occurrence name, \<open>replacements\<close> the events they put there.
\<close>

definition reshape_slot :: "int \<Rightarrow> bytes \<Rightarrow> ical_event list \<Rightarrow> event \<Rightarrow> event option" where
  "reshape_slot off source futures s =
     fold (\<lambda>ov acc. Option.bind acc (\<lambda>s. case apply_this_and_future off source ov [s] of [] \<Rightarrow> None | s' # _ \<Rightarrow> Some s')) futures (Some s)"

definition named_slots :: "int \<Rightarrow> ical_event list \<Rightarrow> gotime list" where
  "named_slots off ovs = List.map_filter (recurrence_id off) (filter (Not \<circ> is_this_and_future) ovs)"

definition replacements :: "int \<Rightarrow> bytes \<Rightarrow> bytes \<Rightarrow> ical_event list \<Rightarrow> event list" where
  "replacements off source uid ovs =
     List.map_filter (\<lambda>ov. case recurrence_id off ov of
         None \<Rightarrow> None
       | Some rid \<Rightarrow> if ie_cancelled ov then None
                     else map_option (ev_id_update (\<lambda>_. occurrence_id uid rid)) (event_to_domain source ov)) ovs"

lemma map_filter_bind: "List.map_filter g (List.map_filter f xs) = List.map_filter (\<lambda>x. Option.bind (f x) g) xs"
  by (induction xs) (auto simp: List.map_filter_simps split: option.splits)

lemma this_and_future_slots:
  "apply_this_and_future off source ov slots =
     List.map_filter (\<lambda>s. case apply_this_and_future off source ov [s] of [] \<Rightarrow> None | s' # _ \<Rightarrow> Some s') slots"
  by (induction slots) (auto simp: apply_this_and_future_def List.map_filter_simps split: option.splits)

lemma futures_slots: "fold (apply_this_and_future off source) futures slots = List.map_filter (reshape_slot off source futures) slots"
proof (induction futures arbitrary: slots)
  case Nil
  then show ?case by (induction slots) (simp_all add: reshape_slot_def List.map_filter_simps)
next
  case (Cons ov futures)
  let ?f = "\<lambda>s. case apply_this_and_future off source ov [s] of [] \<Rightarrow> None | s' # _ \<Rightarrow> Some s'"
  have lost: "fold (\<lambda>ov acc. Option.bind acc (\<lambda>s. case apply_this_and_future off source ov [s] of [] \<Rightarrow> None | s' # _ \<Rightarrow> Some s')) fs None = None"
    for fs by (induction fs) simp_all
  have one: "reshape_slot off source (ov # futures) s = Option.bind (?f s) (reshape_slot off source futures)" for s
    by (cases "?f s") (simp_all add: reshape_slot_def lost)
  have "fold (apply_this_and_future off source) (ov # futures) slots
      = List.map_filter (reshape_slot off source futures) (apply_this_and_future off source ov slots)"
    using Cons by simp
  also have "\<dots> = List.map_filter (\<lambda>s. Option.bind (?f s) (reshape_slot off source futures)) slots"
    unfolding this_and_future_slots [of off source ov slots] by (rule map_filter_bind)
  also have "(\<lambda>s. Option.bind (?f s) (reshape_slot off source futures)) = reshape_slot off source (ov # futures)"
    by (rule ext) (simp only: one)
  finally show ?case .
qed

lemma reshape_keeps_id: "reshape_slot off source futures s = Some s' \<Longrightarrow> ev_id s' = ev_id s"
proof (induction futures arbitrary: s)
  case (Cons ov futures)
  have lost: "fold (\<lambda>ov acc. Option.bind acc (\<lambda>s. case apply_this_and_future off source ov [s] of [] \<Rightarrow> None | s' # _ \<Rightarrow> Some s')) fs None = None"
    for fs by (induction fs) simp_all
  obtain t where t: "apply_this_and_future off source ov [s] = [t]" "reshape_slot off source futures t = Some s'"
  proof (cases "apply_this_and_future off source ov [s]")
    case Nil
    then show ?thesis using Cons.prems lost by (simp add: reshape_slot_def)
  next
    case (Cons a list)
    then have "list = []" by (auto simp: apply_this_and_future_def split: option.splits if_splits)
    then show ?thesis using that [of a] Cons \<open>reshape_slot off source (ov # futures) s = Some s'\<close> by (simp add: reshape_slot_def)
  qed
  then have "ev_id t = ev_id s"
    by (auto simp: apply_this_and_future_def shift_slot_def Let_def split: option.splits if_splits)
  with Cons.IH [OF t(2)] show ?case by simp
qed (simp add: reshape_slot_def)

lemma singles_fold:
  "fold (apply_single_override off source uid) ovs (slots, added) =
     (filter (\<lambda>s. ev_id s \<notin> set (map (occurrence_id uid) (List.map_filter (recurrence_id off) ovs))) slots,
      added @ replacements off source uid ovs)"
proof (induction ovs arbitrary: slots added)
  case (Cons ov ovs)
  show ?case
  proof (cases "recurrence_id off ov")
    case None
    then show ?thesis using Cons by (simp add: apply_single_override_def List.map_filter_simps replacements_def)
  next
    case (Some rid)
    then show ?thesis using Cons
      by (auto simp: apply_single_override_def List.map_filter_simps replacements_def Let_def intro!: filter_cong split: option.splits)
  qed
qed (simp add: List.map_filter_simps replacements_def)

lemma filter_map_filter:
  assumes "\<And>x y. f x = Some y \<Longrightarrow> P y = Q x"
  shows "filter P (List.map_filter f xs) = List.map_filter f (filter Q xs)"
  using assms by (induction xs) (auto simp: List.map_filter_simps split: option.splits)

lemma occurrence_fields:
  assumes "s \<in> set (expand_event_occurrences off source base a b)" and "ie_set base = Some starts"
  shows "ev_id s = occurrence_id (ie_uid base) (ev_start s)" and "gt_off (ev_start s) = off"
  using assms by (auto simp: expand_event_occurrences_def event_to_domain_def Let_def in_zone_def split: option.splits)

lemma named_slots_zone: "rid \<in> set (named_slots off ovs) \<Longrightarrow> gt_off rid = off"
  by (auto simp: named_slots_def List.map_filter_def recurrence_id_def in_zone_def split: option.splits)

lemma named_by_instant:
  assumes "gt_off t = off" "printable t" "uid \<noteq> []" and "\<forall>rid \<in> set rids. printable rid \<and> gt_off rid = off"
  shows "occurrence_id uid t \<in> set (map (occurrence_id uid) rids) \<longleftrightarrow> gt_ns t \<in> gt_ns ` set rids"
proof
  assume "occurrence_id uid t \<in> set (map (occurrence_id uid) rids)"
  then obtain rid where "rid \<in> set rids" "rfc3339 t = rfc3339 rid" using assms(3) by (auto simp: occurrence_id_def)
  then show "gt_ns t \<in> gt_ns ` set rids" using rfc3339_inject [of t rid] assms by auto
next
  assume "gt_ns t \<in> gt_ns ` set rids"
  then obtain rid where "rid \<in> set rids" "gt_ns rid = gt_ns t" by force
  moreover from this have "rid = t" using assms by (auto intro: gotime.equality)
  ultimately show "occurrence_id uid t \<in> set (map (occurrence_id uid) rids)" by simp
qed


lemma monday_fields [simp]:
  "gt_ns (monday w h) = (19723 + 7 * w) * day_ns + h * hour_ns" "gt_off (monday w h) = 0" "in_zone 0 (monday w h) = monday w h"
  by (simp_all add: monday_def in_zone_def)

lemma review_facts:
  "event_to_domain src weekly_review = Some \<lparr>ev_id = ''u'', ev_source = src, ev_title = ''Review'', ev_start = monday 0 9,
     ev_end = monday 0 10, ev_project = []\<rparr>"
  "ie_set weekly_review = Some (\<lambda>a b. filter (\<lambda>t. gt_ns a \<le> gt_ns t \<and> gt_ns t \<le> gt_ns b) [monday 0 9, monday 1 9, monday 2 9])"
  "duration_of \<lparr>ev_id = ''u'', ev_source = src, ev_title = ''Review'', ev_start = monday 0 9, ev_end = monday 0 10, ev_project = []\<rparr> = hour_ns"
  "0 < hour_ns" "hour_ns = 3600000000000" "day_ns = 86400000000000" "gt_ns (add_ns k t) = gt_ns t + k"
  by (simp_all add: event_to_domain_def weekly_review_def duration_of_def sub_ns_def hour_ns_def add_ns_def day_ns_def)

definition review_group :: "ical_event list \<Rightarrow> event_group" where
  "review_group ovs = \<lparr>eg_uid = ''u'', eg_base = Some weekly_review, eg_overrides = ovs\<rparr>"

definition review_slot :: "bytes \<Rightarrow> int \<Rightarrow> event" where
  "review_slot src w = \<lparr>ev_id = occurrence_id ''u'' (monday w 9), ev_source = src, ev_title = ''Review'', ev_start = monday w 9,
     ev_end = add_ns hour_ns (monday w 9), ev_project = []\<rparr>"

lemma review_slots:
  "expand_event_occurrences 0 src weekly_review (monday 0 0) (monday 3 0) = [review_slot src 0, review_slot src 1, review_slot src 2]"
  "ev_start (review_slot src w) = monday w 9"
  by (simp_all add: review_facts expand_event_occurrences_def review_slot_def Let_def)

lemma change_facts:
  "recurrence_id 0 (change_of (monday w h) rng c t) = Some (monday w h)" "ie_cancelled (change_of slot rng c t) = c"
  "is_override (change_of slot rng c t)" "is_this_and_future (change_of slot rng c t) = equal_fold rng ''THISANDFUTURE''"
  "event_to_domain src (change_of slot rng c t)
    = Some \<lparr>ev_id = ''u'', ev_source = src, ev_title = ''Moved'', ev_start = t, ev_end = add_ns hour_ns t, ev_project = []\<rparr>"
  by (simp_all add: recurrence_id_def change_of_def event_to_domain_def is_override_def is_this_and_future_def)

lemma range_texts: "equal_fold ''THISANDFUTURE'' ''THISANDFUTURE''" "\<not> equal_fold [] ''THISANDFUTURE''"
  by code_simp+

lemma monday_texts:
  "rfc3339 (monday 0 9) = ''2024-01-01T09:00:00Z''" "rfc3339 (monday 1 9) = ''2024-01-08T09:00:00Z''"
  "rfc3339 (monday 2 9) = ''2024-01-15T09:00:00Z''"
  "printable (monday 0 9)" "printable (monday 1 9)" "printable (monday 2 9)"
proof -
  have at: "day_of (monday 0 9) = 19723" "day_of (monday 1 9) = 19730" "day_of (monday 2 9) = 19737"
    "clock_of (monday 0 9) div second_ns = 32400" "clock_of (monday 1 9) div second_ns = 32400" "clock_of (monday 2 9) div second_ns = 32400"
    by (simp_all add: day_of_def clock_of_def day_ns_def hour_ns_def second_ns_def)
  have civil: "civil_from_days 19723 = (2024, 1, 1)" "civil_from_days 19730 = (2024, 1, 8)" "civil_from_days 19737 = (2024, 1, 15)"
    using civil_of_days_from_civil [of "(2024, 1, 1)"] civil_of_days_from_civil [of "(2024, 1, 8)"] civil_of_days_from_civil [of "(2024, 1, 15)"]
    by (simp_all add: days_from_civil_def month_start_def valid_civil_def days_in_month_def)
  have day: "format_date (civil_from_days 19723) = ''2024-01-01''" "format_date (civil_from_days 19730) = ''2024-01-08''"
    "format_date (civil_from_days 19737) = ''2024-01-15''" unfolding civil
    by (simp_all add: format_date_def four_digits_def two_digits_def digit_char_def char_of_def bit_0)
  have hour: "two_digits 9 = ''09''" "two_digits 0 = ''00''" "zone_text 0 = ''Z''"
    by (simp_all add: two_digits_def digit_char_def char_of_def bit_0 zone_text_def minute_ns_def)
  show "rfc3339 (monday 0 9) = ''2024-01-01T09:00:00Z''" "rfc3339 (monday 1 9) = ''2024-01-08T09:00:00Z''"
    "rfc3339 (monday 2 9) = ''2024-01-15T09:00:00Z''"
    by (simp_all add: rfc3339_def civil_of_def at day hour Let_def)
  have "iso_date (civil_from_days 19723)" "iso_date (civil_from_days 19730)" "iso_date (civil_from_days 19737)"
    unfolding civil by (simp_all add: iso_date_def valid_civil_def days_in_month_def)
  then show "printable (monday 0 9)" "printable (monday 1 9)" "printable (monday 2 9)"
    by (simp_all add: printable_def civil_of_def at second_ns_def day_ns_def hour_ns_def)
qed

lemma add_hour:
  "add_ns 3600000000000 (monday w h) = monday w (h + 1)" "hour_ns = 3600000000000" "day_ns = 86400000000000"
  "gt_ns (add_ns k t) = gt_ns t + k"
  by (simp_all add: monday_def add_ns_def algebra_simps hour_ns_def day_ns_def)


text \<open>
  Two changes of a range, against the comment that matching is by slot and never by the start:
  the second compares the start that the first has moved. The review moves to the Friday before
  from its second week on, and is cancelled from its third week on; the third one stays.
\<close>

lemma later_range_misses_moved_slot:
  "map ev_id (expand_group 0 [] (review_group [change_of (monday 1 9) ''THISANDFUTURE'' False (monday 1 (9 - 72)),
      change_of (monday 2 9) ''THISANDFUTURE'' True (monday 2 9)]) (monday 0 0) (monday 3 0)) =
   [''u-2024-01-01T09:00:00Z'', ''u-2024-01-08T09:00:00Z'', ''u-2024-01-15T09:00:00Z'']"
proof -
  let ?a = "change_of (monday 1 9) ''THISANDFUTURE'' False (monday 1 (9 - 72))" and ?b = "change_of (monday 2 9) ''THISANDFUTURE'' True (monday 2 9)"
  have "split_overrides 0 [?a, ?b] = ([?a, ?b], [])"
    by (simp add: split_overrides_def change_facts range_texts earlier_override_def add_hour)
  then have "map ev_id (expand_group 0 [] (review_group [?a, ?b]) (monday 0 0) (monday 3 0))
      = map ev_id [review_slot [] 0, review_slot [] 1, review_slot [] 2]"
    by (simp add: review_group_def expand_group_def review_slots review_slot_def change_facts apply_this_and_future_def shift_slot_def sub_ns_def
        duration_of_def filter_event_range_def in_window_def review_facts(4-) Let_def)
  also have "\<dots> = [''u-2024-01-01T09:00:00Z'', ''u-2024-01-08T09:00:00Z'', ''u-2024-01-15T09:00:00Z'']"
    by (simp add: review_slot_def occurrence_id_def monday_texts)
  finally show ?thesis .
qed

text \<open>
  A change of a range that moves a slot into the window does not bring it there: only slots of
  the window are generated, and moved. The review of the second week is on the Friday before, and
  the agenda of that Friday is empty; the same move of a single occurrence is shown.
\<close>

lemma range_moved_into_window_is_lost:
  "expand_group 0 [] (review_group [change_of (monday 1 9) ''THISANDFUTURE'' False (monday 1 (9 - 72))])
     (monday 1 (-72)) (monday 1 (-48)) = []"
  "map ev_id (expand_group 0 [] (review_group [change_of (monday 1 9) [] False (monday 1 (9 - 72))])
     (monday 1 (-72)) (monday 1 (-48))) = [''u-2024-01-08T09:00:00Z'']"
proof -
  have none: "expand_event_occurrences 0 [] weekly_review (monday 1 (-72)) (monday 1 (-48)) = []"
    by (simp add: expand_event_occurrences_def review_facts)
  note facts = review_group_def expand_group_def split_overrides_def none change_facts range_texts filter_event_range_def
    apply_this_and_future_def apply_single_override_def
  show "expand_group 0 [] (review_group [change_of (monday 1 9) ''THISANDFUTURE'' False (monday 1 (9 - 72))])
     (monday 1 (-72)) (monday 1 (-48)) = []"
    by (simp add: facts)
  show "map ev_id (expand_group 0 [] (review_group [change_of (monday 1 9) [] False (monday 1 (9 - 72))])
     (monday 1 (-72)) (monday 1 (-48))) = [''u-2024-01-08T09:00:00Z'']"
    by (simp add: facts in_window_def occurrence_id_def monday_texts add_hour Let_def)
qed

text \<open>
  The window is closed at both ends: an event that ended at midnight and one that starts at the
  next midnight are events of the day between.
\<close>

lemma neighbours_of_the_day:
  assumes "ev_end e = a \<or> ev_start e = b" and "gt_ns (ev_start e) \<le> gt_ns (ev_end e)" and "gt_ns a \<le> gt_ns b"
  shows "in_window a b e"
  using assms by (auto simp: in_window_def)

end
