(* ===== verification/Config.thy ===== *)
theory Config
  imports GoPath SyncRun Complex_Main
begin

text \<open>
  The configuration (\<open>internal/config\<close>): from the decoded file and the environment to the settings
  the rest of the program is built from, the projects flattened out of their clients, and the
  look-ups by name. Decoding TOML is a third-party package: its result is an argument. An
  environment variable that is not set is the empty string, as \<open>os.Getenv\<close> has it.
\<close>

section \<open>The sections of the file\<close>

record launch_config =
  la_harness :: bytes
  la_args :: "bytes list"
  la_detach :: bool

record mcp_server =
  ms_id :: bytes
  ms_command :: bytes
  ms_args :: "bytes list"
  ms_env :: "(bytes, bytes) gomap"

record ai_provider =
  ap_provider :: bytes
  ap_model :: bytes
  ap_url :: bytes
  ap_key_env :: bytes

record ai_config =
  ac_provider :: bytes
  ac_model :: bytes
  ac_ollama_url :: bytes
  ac_ollama_model :: bytes
  ac_providers :: "ai_provider list"

record remote_queue =
  rq_enabled :: bool
  rq_url :: bytes
  rq_token :: bytes

record ics_calendar =
  ics_name :: bytes
  ics_url :: bytes

record caldav_raw =
  cd_name :: bytes
  cd_endpoint :: bytes
  cd_username :: bytes
  cd_email :: bytes
  cd_password :: bytes
  cd_path :: bytes

record caldav_calendar =
  dav_name :: bytes
  dav_endpoint :: bytes
  dav_username :: bytes
  dav_password :: bytes
  dav_path :: bytes

record vdir_calendar =
  vd_name :: bytes
  vd_path :: bytes
  vd_discover :: bool

record google_calendar =
  gc_name :: bytes
  gc_account :: bytes
  gc_calendar :: bytes

text \<open>A float of the file: a number or NaN, which is neither below nor above anything.\<close>

datatype config_float = NotANumber | Number rat

fun float_less :: "config_float \<Rightarrow> config_float \<Rightarrow> bool" where
  "float_less (Number a) (Number b) = (a < b)"
| "float_less _ _ = False"

record inbox_raw =
  ir_classifier :: bytes
  ir_confidence :: "config_float option"
  ir_limit :: "int option"

record inbox_config =
  ic_classifier :: bytes
  ic_confidence :: config_float
  ic_limit :: int

record typesafe_config =
  ts_key_env :: bytes
  ts_url :: bytes
  ts_model :: bytes

record project_raw =
  pj_project :: bytes
  pj_vault :: bytes
  pj_path :: bytes
  pj_notes :: bytes
  pj_dev :: bytes
  pj_file :: bytes
  pj_launch :: "launch_config option"

record client_raw =
  cl_name :: bytes
  cl_vault :: bytes
  cl_notes :: bytes
  cl_dev_root :: bytes
  cl_task_file :: bytes
  cl_launch :: "launch_config option"
  cl_projects :: "project_raw list"

record project_entry =
  pe_project :: bytes
  pe_client :: bytes
  pe_vault :: bytes
  pe_notes :: bytes
  pe_dev :: bytes
  pe_file :: bytes
  pe_launch :: "launch_config option"
  pe_synthetic :: bool

record client_entry =
  ce_name :: bytes
  ce_vault :: bytes
  ce_notes :: bytes
  ce_dev_root :: bytes
  ce_task_file :: bytes
  ce_launch :: "launch_config option"

record google_oauth =
  go_client :: bytes
  go_secret :: bytes

record sync_config =
  sc_watch :: bool
  sc_debounce_ms :: int

record notify_config =
  nt_due_today :: bool
  nt_at :: bytes

record embeddings_config =
  em_enabled :: bool
  em_model :: bytes
  em_ollama_url :: bytes

record agents_config =
  ag_runtime_name :: bytes
  ag_herdr_bin :: bytes

record voice_config =
  vo_stt :: bytes
  vo_stt_url :: bytes
  vo_stt_model :: bytes
  vo_stt_key_env :: bytes
  vo_stt_prompt :: bytes
  vo_tts :: bytes
  vo_tts_voice :: bytes
  vo_record_seconds :: int
  vo_record_device :: bytes
  vo_wait_timeout :: int
  vo_aliases :: "(bytes, bytes) gomap"

record raw_config =
  rw_vault :: bytes
  rw_task_file :: bytes
  rw_daily_dir :: bytes
  rw_daily_file :: bytes
  rw_ics :: "ics_calendar list"
  rw_caldav :: "caldav_raw list"
  rw_vdir :: "vdir_calendar list"
  rw_google :: "google_calendar list"
  rw_mcp :: "mcp_server list"
  rw_ai :: ai_config
  rw_clients :: "client_raw list"
  rw_launch :: launch_config
  rw_queue :: remote_queue
  rw_typesafe :: typesafe_config
  rw_inbox :: inbox_raw
  rw_oauth :: google_oauth
  rw_sync :: sync_config
  rw_notify :: notify_config
  rw_embeddings :: embeddings_config
  rw_agents :: agents_config
  rw_voice :: voice_config

record config =
  cf_vault :: bytes
  cf_task_file :: bytes
  cf_inbox_path :: bytes
  cf_notes :: bytes
  cf_daily :: bytes
  cf_daily_dir :: bytes
  cf_daily_file :: bytes
  cf_ics :: "ics_calendar list"
  cf_caldav :: "caldav_calendar list"
  cf_vdir :: "vdir_calendar list"
  cf_google :: "google_calendar list"
  cf_mcp :: "mcp_server list"
  cf_ai :: ai_config
  cf_clients :: "client_entry list"
  cf_projects :: "project_entry list"
  cf_launch :: launch_config
  cf_queue :: remote_queue
  cf_typesafe :: typesafe_config
  cf_inbox :: inbox_config
  cf_oauth :: google_oauth
  cf_sync :: sync_config
  cf_notify :: notify_config
  cf_embeddings :: embeddings_config
  cf_agents :: agents_config
  cf_voice :: voice_config

record system =
  sy_env :: "bytes \<Rightarrow> bytes"
  sy_home :: "bytes option"
  sy_cwd :: "bytes option"

section \<open>Paths\<close>

definition join_paths :: "bytes list \<Rightarrow> bytes" where
  "join_paths es = (case dropWhile (\<lambda>e. e = []) es of [] \<Rightarrow> [] | xs \<Rightarrow> clean_path (join ''/'' xs))"

definition under :: "bytes \<Rightarrow> bytes \<Rightarrow> bytes" where
  "under base p = (if is_abs p then p else join_paths [base, p])"

text \<open>\<open>filepath.Abs\<close> of a relative path needs the working directory.\<close>

definition absolute :: "system \<Rightarrow> bytes \<Rightarrow> bytes option" where
  "absolute sy p = (if is_abs p then Some (clean_path p) else map_option (\<lambda>d. join_paths [d, p]) (sy_cwd sy))"

definition expand_user_path :: "system \<Rightarrow> bytes \<Rightarrow> bytes" where
  "expand_user_path sy p =
     (if p = [] then p
      else (let q = (if p = ''~'' \<or> has_prefix p ''~/''
                     then (case sy_home sy of Some h \<Rightarrow> join_paths [h, trim_prefix p ''~''] | None \<Rightarrow> p)
                     else p)
            in case absolute sy q of Some a \<Rightarrow> a | None \<Rightarrow> q))"

definition resolve_notes_path :: "bytes \<Rightarrow> bytes list \<Rightarrow> bytes" where
  "resolve_notes_path vault candidates =
     under vault (case dropWhile (\<lambda>c. c = []) candidates of [] \<Rightarrow> ''00-inbox'' | c # _ \<Rightarrow> c)"

definition config_dir :: "system \<Rightarrow> bytes" where
  "config_dir sy =
     (let x = sy_env sy ''XDG_CONFIG_HOME'';
          base = (if x = [] then join_paths [case sy_home sy of Some h \<Rightarrow> h | None \<Rightarrow> [], ''.config''] else x)
      in join_paths [base, ''qi''])"

definition config_path :: "system \<Rightarrow> bytes" where
  "config_path sy = join_paths [config_dir sy, ''config.toml'']"

definition data_dir :: "system \<Rightarrow> bytes" where
  "data_dir sy =
     (let x = sy_env sy ''XDG_DATA_HOME'';
          base = (if x = [] then join_paths [case sy_home sy of Some h \<Rightarrow> h | None \<Rightarrow> [], ''.local'', ''share''] else x)
      in join_paths [base, ''qi''])"

section \<open>Sections with rules of their own\<close>

definition set_from_env :: "system \<Rightarrow> bytes \<Rightarrow> bytes \<Rightarrow> bytes" where
  "set_from_env sy name v = (let x = sy_env sy name in if x \<noteq> [] then x else v)"

definition env_overrides :: "system \<Rightarrow> raw_config \<Rightarrow> raw_config" where
  "env_overrides sy raw =
     (let on = sy_env sy ''QI_QUEUE_ENABLED'' in
      raw\<lparr>rw_vault := set_from_env sy ''QI_VAULT_PATH'' (rw_vault raw),
          rw_task_file := set_from_env sy ''QI_TASK_FILE_PATH'' (rw_task_file raw),
          rw_queue := \<lparr>rq_enabled = (rq_enabled (rw_queue raw) \<or> on = ''1'' \<or> equal_fold on ''true''),
                       rq_url = set_from_env sy ''QI_QUEUE_URL'' (rq_url (rw_queue raw)),
                       rq_token = set_from_env sy ''QI_QUEUE_TOKEN'' (rq_token (rw_queue raw))\<rparr>\<rparr>)"

definition task_file_path :: "raw_config \<Rightarrow> bytes" where
  "task_file_path raw =
     (if rw_task_file raw = [] then join_paths [rw_vault raw, ''10-tasks'', ''inbox.md'']
      else if \<not> is_abs (rw_task_file raw) then join_paths [rw_vault raw, rw_task_file raw]
      else rw_task_file raw)"

definition or_default :: "bytes \<Rightarrow> bytes \<Rightarrow> bytes" where
  "or_default d v = (if v = [] then d else v)"

definition ics_calendars :: "ics_calendar list \<Rightarrow> ics_calendar list" where
  "ics_calendars cs = filter (\<lambda>c. ics_name c \<noteq> [] \<and> ics_url c \<noteq> []) cs"

definition caldav_of :: "caldav_raw \<Rightarrow> caldav_calendar option" where
  "caldav_of c =
     (let username = or_default (cd_email c) (cd_username c);
          endpoint = (if cd_endpoint c = [] \<and> cd_email c \<noteq> [] then ''https://apidata.googleusercontent.com/caldav/v2''
                      else cd_endpoint c)
      in if cd_name c = [] \<or> username = [] \<or> endpoint = [] then None
         else Some \<lparr>dav_name = cd_name c, dav_endpoint = endpoint, dav_username = username,
                    dav_password = cd_password c, dav_path = cd_path c\<rparr>)"

definition vdir_calendars :: "system \<Rightarrow> vdir_calendar list \<Rightarrow> vdir_calendar list" where
  "vdir_calendars sy cs =
     map (\<lambda>c. c\<lparr>vd_path := expand_user_path sy (vd_path c)\<rparr>) (filter (\<lambda>c. vd_name c \<noteq> [] \<and> vd_path c \<noteq> []) cs)"

definition google_calendars :: "google_calendar list \<Rightarrow> google_calendar list" where
  "google_calendars cs =
     map (\<lambda>c. c\<lparr>gc_calendar := or_default ''primary'' (gc_calendar c)\<rparr>)
       (filter (\<lambda>c. gc_name c \<noteq> [] \<and> gc_account c \<noteq> []) cs)"

fun mcp_servers :: "bytes list \<Rightarrow> mcp_server list \<Rightarrow> go_error + mcp_server list" where
  "mcp_servers seen [] = Inr []"
| "mcp_servers seen (s # ss) =
     (if ms_id s = [] \<or> ms_command s = [] then mcp_servers seen ss
      else if ms_id s \<in> set seen then Inl (new_error (''mcp_servers: duplicate id '' @ go_quote (ms_id s)))
      else case mcp_servers (ms_id s # seen) ss of Inl e \<Rightarrow> Inl e | Inr rest \<Rightarrow> Inr (s # rest))"

definition ai_providers :: "ai_provider list \<Rightarrow> ai_provider list" where
  "ai_providers ps = filter (\<lambda>p. trim_space (ap_provider p) \<noteq> []) ps"

definition valid_inbox_classifier :: "bytes \<Rightarrow> bool" where
  "valid_inbox_classifier n \<longleftrightarrow> n = ''heuristic'' \<or> n = ''typesafe''"

text \<open>Printing a float is an argument.\<close>

definition inbox_from_toml :: "(config_float \<Rightarrow> bytes) \<Rightarrow> inbox_raw \<Rightarrow> go_error + inbox_config" where
  "inbox_from_toml show_float raw =
     (let classifier = or_default ''heuristic'' (ir_classifier raw);
          confidence = (case ir_confidence raw of None \<Rightarrow> Number (1 / 2) | Some c \<Rightarrow> c);
          limit = (case ir_limit raw of None \<Rightarrow> 100 | Some l \<Rightarrow> l)
      in if \<not> valid_inbox_classifier classifier then Inl (new_error (''inbox: unknown classifier '' @ go_quote (ir_classifier raw) @ '' (want '' @ go_quote ''heuristic'' @ '' or '' @
                go_quote ''typesafe'' @ '')''))
         else if float_less confidence (Number 0) \<or> float_less (Number 1) confidence
         then Inl (new_error (''inbox: min_confidence '' @ show_float confidence @ '' out of range [0,1]''))
         else if limit < 0 then Inl (new_error (''inbox: classify_limit '' @ itoa limit @ '' must be >= 0 (0 = no limit)''))
         else Inr \<lparr>ic_classifier = classifier, ic_confidence = confidence, ic_limit = limit\<rparr>)"

definition launch_from_toml :: "launch_config option \<Rightarrow> launch_config option" where
  "launch_from_toml l = (case l of None \<Rightarrow> None | Some x \<Rightarrow> if la_harness x = [] then None else Some x)"

section \<open>Clients and their projects\<close>

text \<open>What the loop over the clients has collected, the last entry first.\<close>

record flattened =
  fl_clients :: "client_entry list"
  fl_projects :: "project_entry list"
  fl_names :: "bytes list"
  fl_tags :: "bytes list"
  fl_files :: "bytes list"

definition client_error :: "bytes \<Rightarrow> bytes \<Rightarrow> go_error" where
  "client_error name t = new_error (''client '' @ go_quote name @ '': '' @ t)"

definition project_base :: "bytes \<Rightarrow> project_raw \<Rightarrow> bytes" where
  "project_base vault p = (if pj_path p = [] then vault else under vault (pj_path p))"

definition dev_path :: "client_raw \<Rightarrow> project_raw \<Rightarrow> go_error + bytes" where
  "dev_path cl p =
     (if pj_dev p \<noteq> [] \<and> \<not> is_abs (pj_dev p)
      then (if cl_dev_root cl = []
            then Inl (new_error (''project '' @ go_quote (pj_project p) @ '': relative dev_path '' @ go_quote (pj_dev p) @
                   '' needs dev_root on client '' @ go_quote (cl_name cl)))
            else Inr (join_paths [cl_dev_root cl, pj_dev p]))
      else Inr (pj_dev p))"

definition project_file :: "bytes \<Rightarrow> project_raw \<Rightarrow> bytes" where
  "project_file base p =
     under base (if pj_file p = []
                 then join_paths [''10-tasks'', replace_all ''/'' ''-'' (pj_project p) @ ''.md'']
                 else pj_file p)"

definition add_project :: "client_raw \<Rightarrow> project_raw \<Rightarrow> flattened \<Rightarrow> go_error + flattened" where
  "add_project cl p fl =
     (if pj_project p = [] then Inl (client_error (cl_name cl) ''project is required'')
      else if pj_project p \<in> set (fl_tags fl)
      then Inl (new_error (''project: duplicate project '' @ go_quote (pj_project p)))
      else (let vault = or_default (cl_vault cl) (pj_vault p);
                base = project_base vault p
            in case dev_path cl p of
                 Inl e \<Rightarrow> Inl e
               | Inr dev \<Rightarrow>
                   (let file = project_file base p
                    in if file \<in> set (fl_files fl)
                       then Inl (new_error (''project: duplicate resolved file path '' @ go_quote file))
                       else Inr (fl\<lparr>fl_tags := pj_project p # fl_tags fl, fl_files := file # fl_files fl,
                              fl_projects := \<lparr>pe_project = pj_project p, pe_client = cl_name cl, pe_vault = vault,
                                 pe_notes = resolve_notes_path base [pj_notes p, cl_notes cl], pe_dev = dev, pe_file = file,
                                 pe_launch = launch_from_toml (pj_launch p), pe_synthetic = False\<rparr> # fl_projects fl\<rparr>))))"

fun add_projects :: "client_raw \<Rightarrow> project_raw list \<Rightarrow> flattened \<Rightarrow> go_error + flattened" where
  "add_projects cl [] fl = Inr fl"
| "add_projects cl (p # ps) fl = (case add_project cl p fl of Inl e \<Rightarrow> Inl e | Inr fl' \<Rightarrow> add_projects cl ps fl')"

text \<open>A client with a task file is a sync target of its own, under the client's name.\<close>

definition client_target :: "client_raw \<Rightarrow> flattened \<Rightarrow> go_error + bytes \<times> flattened" where
  "client_target cl fl =
     (if cl_task_file cl = [] then Inr ([], fl)
      else (let file = under (cl_vault cl) (cl_task_file cl)
            in if cl_name cl \<in> set (fl_tags fl)
               then Inl (client_error (cl_name cl) (''task_file project tag collides with a project named '' @ go_quote (cl_name cl)))
               else if file \<in> set (fl_files fl)
               then Inl (client_error (cl_name cl) (''task_file resolves to duplicate path '' @ go_quote file))
               else Inr (file, fl\<lparr>fl_tags := cl_name cl # fl_tags fl, fl_files := file # fl_files fl,
                      fl_projects := \<lparr>pe_project = cl_name cl, pe_client = cl_name cl, pe_vault = cl_vault cl,
                         pe_notes = resolve_notes_path (cl_vault cl) [cl_notes cl], pe_dev = [], pe_file = file,
                         pe_launch = launch_from_toml (cl_launch cl), pe_synthetic = True\<rparr> # fl_projects fl\<rparr>)))"

definition add_client :: "client_raw \<Rightarrow> flattened \<Rightarrow> go_error + flattened" where
  "add_client cl fl =
     (if cl_name cl = [] then Inl (new_error ''client: name is required'')
      else if cl_vault cl = [] then Inl (client_error (cl_name cl) ''vault_path is required'')
      else if cl_name cl \<in> set (fl_names fl) then Inl (new_error (''client: duplicate name '' @ go_quote (cl_name cl)))
      else case client_target cl (fl\<lparr>fl_names := cl_name cl # fl_names fl\<rparr>) of
        Inl e \<Rightarrow> Inl e
      | Inr (file, fl') \<Rightarrow>
          add_projects cl (cl_projects cl)
            (fl'\<lparr>fl_clients := \<lparr>ce_name = cl_name cl, ce_vault = cl_vault cl,
                   ce_notes = resolve_notes_path (cl_vault cl) [cl_notes cl], ce_dev_root = cl_dev_root cl,
                   ce_task_file = file, ce_launch = launch_from_toml (cl_launch cl)\<rparr> # fl_clients fl'\<rparr>))"

fun add_clients :: "client_raw list \<Rightarrow> flattened \<Rightarrow> go_error + flattened" where
  "add_clients [] fl = Inr fl"
| "add_clients (c # cs) fl = (case add_client c fl of Inl e \<Rightarrow> Inl e | Inr fl' \<Rightarrow> add_clients cs fl')"

definition nothing_yet :: flattened where
  "nothing_yet = \<lparr>fl_clients = [], fl_projects = [], fl_names = [], fl_tags = [], fl_files = []\<rparr>"

section \<open>Loading\<close>

definition build_config ::
  "system \<Rightarrow> raw_config \<Rightarrow> mcp_server list \<Rightarrow> inbox_config \<Rightarrow> flattened \<Rightarrow> config" where
  "build_config sy raw servers inbox fl =
     \<lparr>cf_vault = rw_vault raw, cf_task_file = task_file_path raw,
      cf_inbox_path = join_paths [rw_vault raw, ''00-inbox''], cf_notes = join_paths [rw_vault raw, ''20-notes''],
      cf_daily = join_paths [rw_vault raw, ''30-daily''],
      cf_daily_dir = or_default ''30-daily'' (rw_daily_dir raw), cf_daily_file = or_default ''YYYY-MM-DD'' (rw_daily_file raw),
      cf_ics = ics_calendars (rw_ics raw), cf_caldav = List.map_filter caldav_of (rw_caldav raw),
      cf_vdir = vdir_calendars sy (rw_vdir raw), cf_google = google_calendars (rw_google raw), cf_mcp = servers,
      cf_ai = (rw_ai raw)\<lparr>ac_providers := ai_providers (ac_providers (rw_ai raw))\<rparr>,
      cf_clients = rev (fl_clients fl), cf_projects = rev (fl_projects fl), cf_launch = rw_launch raw,
      cf_queue = rw_queue raw,
      cf_typesafe = (rw_typesafe raw)\<lparr>ts_key_env := or_default ''TYPESAFE_API_KEY'' (ts_key_env (rw_typesafe raw))\<rparr>,
      cf_inbox = inbox,
      cf_oauth = rw_oauth raw, cf_sync = rw_sync raw, cf_notify = rw_notify raw, cf_embeddings = rw_embeddings raw, cf_agents = rw_agents raw, cf_voice = rw_voice raw\<rparr>"

text \<open>
  \<open>file\<close> is \<open>None\<close> when the file cannot be looked up, and otherwise what decoding it gives;
  \<open>zero\<close> is the empty file.
\<close>

definition load_from ::
  "system \<Rightarrow> (config_float \<Rightarrow> bytes) \<Rightarrow> bytes \<Rightarrow> raw_config \<Rightarrow> (go_error + raw_config) option \<Rightarrow> go_error + config" where
  "load_from sy show_float path zero file =
     (case (case file of None \<Rightarrow> Inr zero | Some r \<Rightarrow> r) of
        Inl e \<Rightarrow> Inl (wrap_error (''parsing '' @ path @ '': '') e)
      | Inr decoded \<Rightarrow>
          (let raw = env_overrides sy decoded in
           if rw_vault raw = []
           then Inl (new_error ''vault_path is required: set vault_path in config.toml or QI_VAULT_PATH env var'')
           else case mcp_servers [] (rw_mcp raw) of
             Inl e \<Rightarrow> Inl e
           | Inr servers \<Rightarrow>
               (case inbox_from_toml show_float (rw_inbox raw) of
                  Inl e \<Rightarrow> Inl e
                | Inr inbox \<Rightarrow>
                    (case add_clients (rw_clients raw) nothing_yet of
                       Inl e \<Rightarrow> Inl e
                     | Inr fl \<Rightarrow> Inr (build_config sy raw servers inbox fl)))))"

section \<open>Looking up by name\<close>

definition project_by_name :: "config \<Rightarrow> bytes \<Rightarrow> project_entry option" where
  "project_by_name c name =
     (if name = [] then None else List.find (\<lambda>p. \<not> pe_synthetic p \<and> pe_project p = name) (cf_projects c))"

definition client_by_name :: "config \<Rightarrow> bytes \<Rightarrow> client_entry option" where
  "client_by_name c name = (if name = [] then None else List.find (\<lambda>k. ce_name k = name) (cf_clients c))"

definition note_vault_for :: "config \<Rightarrow> bytes \<Rightarrow> bytes \<Rightarrow> go_error + bytes \<times> bytes" where
  "note_vault_for c client project =
     (if client \<noteq> [] \<and> project \<noteq> [] then Inl (new_error ''note: --client and --project are mutually exclusive'')
      else if client \<noteq> []
      then (case client_by_name c client of
              None \<Rightarrow> Inl (new_error (''note: unknown client '' @ go_quote client))
            | Some k \<Rightarrow> Inr (ce_vault k, ce_notes k))
      else if project \<noteq> []
      then (case project_by_name c project of
              None \<Rightarrow> Inl (new_error (''note: unknown project '' @ go_quote project))
            | Some p \<Rightarrow> Inr (pe_vault p, pe_notes p))
      else Inr (cf_vault c, cf_notes c))"

record launch_target =
  lt_harness :: launch_config
  lt_vault :: bytes
  lt_dir :: bytes
  lt_label :: bytes
  lt_from_env :: bool

definition plain_harness :: "bytes \<Rightarrow> launch_config" where
  "plain_harness h = \<lparr>la_harness = h, la_args = [], la_detach = False\<rparr>"

definition harness_from :: "system \<Rightarrow> config \<Rightarrow> launch_config option list \<Rightarrow> go_error + launch_config" where
  "harness_from sy c overrides =
     (case List.find (\<lambda>l. la_harness l \<noteq> []) (List.map_filter id overrides) of
        Some l \<Rightarrow> Inr l
      | None \<Rightarrow>
          if la_harness (cf_launch c) \<noteq> [] then Inr (cf_launch c)
          else if sy_env sy ''AI_HARNESS'' \<noteq> [] then Inr (plain_harness (sy_env sy ''AI_HARNESS''))
          else if sy_env sy ''AI_EDITOR'' \<noteq> [] then Inr (plain_harness (sy_env sy ''AI_EDITOR''))
          else Inl (new_error ''launch: no harness configured (set [launch] harness in config.toml or $AI_HARNESS)''))"

definition launch_at ::
  "system \<Rightarrow> config \<Rightarrow> launch_config option list \<Rightarrow> bytes \<Rightarrow> bytes \<Rightarrow> bytes \<Rightarrow> bool \<Rightarrow> go_error + launch_target" where
  "launch_at sy c overrides vault dir label from_env =
     (case harness_from sy c overrides of
        Inl e \<Rightarrow> Inl e
      | Inr h \<Rightarrow> Inr \<lparr>lt_harness = h, lt_vault = vault, lt_dir = dir, lt_label = label, lt_from_env = from_env\<rparr>)"

definition resolve_launch_target :: "system \<Rightarrow> config \<Rightarrow> bytes \<Rightarrow> go_error + launch_target" where
  "resolve_launch_target sy c flag =
     (let name = (if flag = [] then sy_env sy ''WORK_CONTEXT'' else flag);
          from_env = (flag = [] \<and> name \<noteq> []);
          default = launch_at sy c [] (cf_vault c) [] [] False
      in if name = [] then default
         else case project_by_name c name of
           Some p \<Rightarrow>
             launch_at sy c [pe_launch p, Option.bind (client_by_name c (pe_client p)) ce_launch] (pe_vault p) (pe_dev p)
               (''project '' @ go_quote (pe_project p)) from_env
         | None \<Rightarrow>
             (case client_by_name c name of
                Some k \<Rightarrow> launch_at sy c [ce_launch k] (ce_vault k) (ce_dev_root k) (''client '' @ go_quote (ce_name k)) from_env
              | None \<Rightarrow>
                  if from_env then default else Inl (new_error (''launch: unknown project or client '' @ go_quote name))))"

section \<open>Daily notes\<close>

definition month_names :: "bytes list" where
  "month_names = [''January'', ''February'', ''March'', ''April'', ''May'', ''June'', ''July'', ''August'',
     ''September'', ''October'', ''November'', ''December'']"

definition month_name :: "int \<Rightarrow> bytes" where
  "month_name m = month_names ! nat (m - 1)"

text \<open>The token at the head of the format, the longest first, with what it stands for.\<close>

definition date_token :: "bytes \<Rightarrow> civil \<Rightarrow> (nat \<times> bytes) option" where
  "date_token s d =
     (case d of (y, m, dd) \<Rightarrow>
        if has_prefix s ''YYYY'' then Some (4, four_digits y)
        else if has_prefix s ''MMMM'' then Some (4, month_name m)
        else if has_prefix s ''MMM'' then Some (3, take 3 (month_name m))
        else if has_prefix s ''MM'' then Some (2, two_digits m)
        else if has_prefix s ''DD'' then Some (2, two_digits dd)
        else None)"

fun resolve_date_format :: "bytes \<Rightarrow> civil \<Rightarrow> bytes" where
  "resolve_date_format [] d = []"
| "resolve_date_format (ch # rest) d =
     (case date_token (ch # rest) d of
        Some (n, t) \<Rightarrow> t @ resolve_date_format (drop (n - 1) rest) d
      | None \<Rightarrow> ch # resolve_date_format rest d)"

definition daily_note_path :: "config \<Rightarrow> civil \<Rightarrow> bytes" where
  "daily_note_path c d =
     join_paths [cf_vault c, resolve_date_format (cf_daily_dir c) d, resolve_date_format (cf_daily_file c) d @ ''.md'']"

section \<open>What a loaded configuration satisfies\<close>

definition flattened_ok :: "flattened \<Rightarrow> bool" where
  "flattened_ok fl \<longleftrightarrow>
     fl_tags fl = map pe_project (fl_projects fl) \<and> fl_files fl = map pe_file (fl_projects fl)
     \<and> distinct (fl_tags fl) \<and> distinct (fl_files fl) \<and> distinct (fl_names fl)
     \<and> list_all (\<lambda>p. pe_project p \<noteq> [] \<and> pe_client p \<in> set (fl_names fl)) (fl_projects fl)"

lemma add_project_ok:
  assumes "add_project cl p fl = Inr fl'" and "flattened_ok fl" and "cl_name cl \<in> set (fl_names fl)"
  shows "flattened_ok fl' \<and> fl_names fl' = fl_names fl \<and> fl_clients fl' = fl_clients fl"
  using assms by (auto simp: add_project_def flattened_ok_def Let_def split: if_splits sum.splits)

lemma add_projects_ok:
  "add_projects cl ps fl = Inr fl' \<Longrightarrow> flattened_ok fl \<Longrightarrow> cl_name cl \<in> set (fl_names fl) \<Longrightarrow>
   flattened_ok fl' \<and> fl_names fl' = fl_names fl \<and> fl_clients fl' = fl_clients fl"
proof (induction ps arbitrary: fl)
  case (Cons p ps)
  then obtain fl1 where a: "add_project cl p fl = Inr fl1" "add_projects cl ps fl1 = Inr fl'" by (auto split: sum.splits)
  from add_project_ok [OF a(1) Cons.prems(2,3)] Cons.IH [OF a(2)] Cons.prems(3) show ?case by simp
qed simp

lemma client_target_ok:
  assumes "client_target cl fl = Inr (file, fl')" and "flattened_ok fl" and "cl_name cl \<in> set (fl_names fl)" and "cl_name cl \<noteq> []"
  shows "flattened_ok fl' \<and> fl_names fl' = fl_names fl \<and> fl_clients fl' = fl_clients fl"
  using assms by (auto simp: client_target_def flattened_ok_def Let_def split: if_splits)

definition clients_ok :: "flattened \<Rightarrow> bool" where
  "clients_ok fl \<longleftrightarrow> flattened_ok fl \<and> fl_names fl = map ce_name (fl_clients fl) \<and> [] \<notin> set (fl_names fl)"

lemma add_client_ok:
  assumes "add_client cl fl = Inr fl'" and "clients_ok fl"
  shows "clients_ok fl'"
proof -
  let ?fl = "fl\<lparr>fl_names := cl_name cl # fl_names fl\<rparr>"
  have c: "cl_name cl \<noteq> []" "cl_name cl \<notin> set (fl_names fl)" using assms(1) by (auto simp: add_client_def split: if_splits)
  then have ok: "flattened_ok ?fl" using assms(2) by (auto simp: clients_ok_def flattened_ok_def list_all_iff)
  obtain tf fl1 where t: "client_target cl ?fl = Inr (tf, fl1)" using assms(1) by (auto simp: add_client_def split: if_splits sum.splits)
  note t_ok = client_target_ok [OF t ok _ c(1)]
  let ?k = "\<lparr>ce_name = cl_name cl, ce_vault = cl_vault cl, ce_notes = resolve_notes_path (cl_vault cl) [cl_notes cl],
     ce_dev_root = cl_dev_root cl, ce_task_file = tf, ce_launch = launch_from_toml (cl_launch cl)\<rparr>"
  have a: "add_projects cl (cl_projects cl) (fl1\<lparr>fl_clients := ?k # fl_clients fl1\<rparr>) = Inr fl'"
    using assms(1) t by (auto simp: add_client_def split: if_splits)
  have "flattened_ok (fl1\<lparr>fl_clients := ?k # fl_clients fl1\<rparr>) = flattened_ok fl1" by (simp add: flattened_ok_def)
  then have "flattened_ok (fl1\<lparr>fl_clients := ?k # fl_clients fl1\<rparr>)" using t_ok by simp
  from add_projects_ok [OF a this] t_ok show ?thesis using assms(2) c unfolding clients_ok_def by auto
qed

lemma add_clients_ok: "add_clients cs fl = Inr fl' \<Longrightarrow> clients_ok fl \<Longrightarrow> clients_ok fl'"
  by (induction cs arbitrary: fl) (auto split: sum.splits dest: add_client_ok)

lemma mcp_servers_ok:
  "mcp_servers seen ss = Inr rs \<Longrightarrow> distinct (map ms_id rs) \<and> set (map ms_id rs) \<inter> set seen = {}"
proof (induction ss arbitrary: seen rs)
  case (Cons s ss)
  show ?case
  proof (cases "ms_id s = [] \<or> ms_command s = []")
    case True
    then show ?thesis using Cons by simp
  next
    case False
    then obtain rest where "ms_id s \<notin> set seen" "mcp_servers (ms_id s # seen) ss = Inr rest" "rs = s # rest"
      using Cons.prems by (auto split: if_splits sum.splits)
    with Cons.IH [of "ms_id s # seen" rest] show ?thesis by auto
  qed
qed simp

lemma load_from_InrE:
  assumes "load_from sy show_float path zero file = Inr c"
  obtains raw servers inbox fl where "mcp_servers [] (rw_mcp raw) = Inr servers" "inbox_from_toml show_float (rw_inbox raw) = Inr inbox"
    "add_clients (rw_clients raw) nothing_yet = Inr fl" "c = build_config sy raw servers inbox fl" "rw_vault raw \<noteq> []"
    "(case file of None \<Rightarrow> Inr zero | Some r \<Rightarrow> r) = Inr decoded \<Longrightarrow> raw = env_overrides sy decoded"
  using assms by (auto simp: load_from_def Let_def split: sum.splits if_splits option.splits)

lemma find_by_key:
  assumes "distinct (map k xs)" and "x \<in> set xs" and "P x"
  shows "List.find (\<lambda>y. P y \<and> k y = k x) xs = Some x"
  using assms by (induction xs) (auto simp: rev_image_eqI)

definition consistent :: "config \<Rightarrow> bool" where
  "consistent c \<longleftrightarrow>
     distinct (map pe_project (cf_projects c)) \<and> distinct (map pe_file (cf_projects c))
     \<and> distinct (map ce_name (cf_clients c)) \<and> distinct (map ms_id (cf_mcp c))
     \<and> list_all (\<lambda>p. pe_project p \<noteq> [] \<and> pe_client p \<in> ce_name ` set (cf_clients c)) (cf_projects c)
     \<and> list_all (\<lambda>k. ce_name k \<noteq> []) (cf_clients c)"

lemma loaded_consistent:
  assumes "load_from sy show_float path zero decoded = Inr c"
  shows "consistent c"
proof -
  from assms obtain raw servers inbox fl where l: "mcp_servers [] (rw_mcp raw) = Inr servers"
    "add_clients (rw_clients raw) nothing_yet = Inr fl" "c = build_config sy raw servers inbox fl"
    by (rule load_from_InrE)
  have "clients_ok nothing_yet" by (simp add: clients_ok_def flattened_ok_def nothing_yet_def)
  from add_clients_ok [OF l(2) this] have ok: "clients_ok fl" .
  have r: "distinct (map f (rev xs)) = distinct (map f xs)" for f :: "'b \<Rightarrow> 'c" and xs by (simp flip: rev_map)
  have "[] \<notin> ce_name ` set (fl_clients fl)" using ok unfolding clients_ok_def by auto
  then have "list_all (\<lambda>k. ce_name k \<noteq> []) (fl_clients fl)" by (force simp: list_all_iff)
  with ok mcp_servers_ok [OF l(1)] show ?thesis
    by (auto simp: consistent_def l(3) build_config_def r clients_ok_def flattened_ok_def list_all_rev list_all_iff)
qed

text \<open>
  C34. A configuration that loads has one project per tag, one per task file, one client per
  name and one server per id; every project belongs to a client of the configuration; and every
  client and every project of the file is found under its own name, whatever client-level
  targets are there.
\<close>

theorem loaded_config_is_consistent:
  assumes "load_from sy show_float path zero decoded = Inr c"
  shows "consistent c
    \<and> (p \<in> set (cf_projects c) \<and> \<not> pe_synthetic p \<longrightarrow> project_by_name c (pe_project p) = Some p)
    \<and> (k \<in> set (cf_clients c) \<longrightarrow> client_by_name c (ce_name k) = Some k)"
proof -
  have ok: "consistent c" by (rule loaded_consistent [OF assms])
  have "project_by_name c (pe_project p) = Some p" if "p \<in> set (cf_projects c)" "\<not> pe_synthetic p"
    using ok that find_by_key [of pe_project "cf_projects c" p "\<lambda>p. \<not> pe_synthetic p"]
    by (auto simp: consistent_def project_by_name_def list_all_iff)
  moreover have "client_by_name c (ce_name k) = Some k" if "k \<in> set (cf_clients c)"
    using ok that find_by_key [of ce_name "cf_clients c" k "\<lambda>_. True"]
    by (auto simp: consistent_def client_by_name_def list_all_iff)
  ultimately show ?thesis using ok by blast
qed

section \<open>The targets of the sync\<close>

definition sync_targets :: "config \<Rightarrow> project_config list" where
  "sync_targets c = map (\<lambda>p. \<lparr>pc_project = pe_project p, pc_file = pe_file p\<rparr>) (cf_projects c)"

lemma fold_update_keys:
  "distinct (map k vs) \<Longrightarrow> set (map k vs) \<inter> fst ` set m = {} \<Longrightarrow>
   map_of (fold (\<lambda>v. AList.update (k v) (f v)) vs m) x = (case List.find (\<lambda>v. k v = x) vs of Some v \<Rightarrow> Some (f v) | None \<Rightarrow> map_of m x)"
proof (induction vs arbitrary: m)
  case (Cons v vs)
  have "set (map k vs) \<inter> fst ` set (AList.update (k v) (f v) m) = {}"
    using Cons.prems by (auto simp: dom_update)
  moreover have "List.find (\<lambda>u. k u = k v) vs = None" using Cons.prems by (auto simp: find_None_iff image_iff)
  moreover have "map_of (fold (\<lambda>v. AList.update (k v) (f v)) vs (AList.update (k v) (f v) m)) x =
      (case List.find (\<lambda>v. k v = x) vs of Some v \<Rightarrow> Some (f v) | None \<Rightarrow> map_of (AList.update (k v) (f v) m) x)"
    using Cons.IH [OF _ calculation(1)] Cons.prems(1) by simp
  ultimately show ?case by (cases "k v = x") (auto simp: update_conv' split: option.splits)
qed simp


section \<open>Daily notes of different days\<close>

lemma default_date_format: "resolve_date_format ''YYYY-MM-DD'' d = format_date d"
  by (cases d) (simp add: date_token_def has_prefix_def format_date_def)

lemma default_daily_dir: "resolve_date_format ''30-daily'' d = ''30-daily''"
  by (cases d) (simp add: date_token_def has_prefix_def)

lemma join_paths_clean:
  assumes "list_all normal_name ns" and "list_all normal_name ms" and "ms \<noteq> []"
  shows "join_paths ((CHR ''/'' # join ''/'' ns) # ms) = CHR ''/'' # join ''/'' (ns @ ms)"
proof -
  have ms: "split_on (CHR ''/'') (join ''/'' ms) = ms" using split_join_path [OF assms(2)] assms(3) by simp
  have ns: "split_on (CHR ''/'') (join ''/'' ns) = (if ns = [] then [[]] else ns)" by (rule split_join_path [OF assms(1)])
  have "join_paths ((CHR ''/'' # join ''/'' ns) # ms) = clean_path ((CHR ''/'' # join ''/'' ns) @ ''/'' @ join ''/'' ms)"
    using assms(3) by (cases ms) (simp_all add: join_paths_def)
  also have "split_on (CHR ''/'') ((CHR ''/'' # join ''/'' ns) @ ''/'' @ join ''/'' ms) = [] # (if ns = [] then [[]] else ns) @ ms"
    using split_on_sep [of "CHR ''/''" "CHR ''/'' # join ''/'' ns" "join ''/'' ms"] ns ms by simp
  then have "clean_path ((CHR ''/'' # join ''/'' ns) @ ''/'' @ join ''/'' ms) = CHR ''/'' # join ''/'' (ns @ ms)"
    using clean_parts_normal [OF assms(1), of True "[]" ms] clean_parts_normal [OF assms(2), of True "rev ns" "[]"] 
      clean_parts_normal [OF assms(2), of True "[]" "[]"]
    by (simp add: clean_path_def Let_def is_abs_def has_prefix_def)
  finally show ?thesis .
qed

text \<open>
  With the default formats the daily note of a day lies in \<open>30-daily\<close> of the vault under its
  ISO date, so the day can be read back from the path and two days never share a note.
\<close>

theorem daily_notes_are_distinct:
  assumes "cf_daily_dir c = ''30-daily''" and "cf_daily_file c = ''YYYY-MM-DD''"
    and "cf_vault c = CHR ''/'' # join ''/'' ns" and "list_all normal_name ns" and "iso_date d"
  shows "daily_note_path c d = CHR ''/'' # join ''/'' (ns @ [''30-daily'', format_date d @ ''.md''])
    \<and> parse_date (format_date d) = Some d
    \<and> (iso_date d' \<and> daily_note_path c d' = daily_note_path c d \<longrightarrow> d' = d)"
proof -
  have n: "normal_name (format_date x @ ''.md'')" if "iso_date x" for x
  proof -
    have "\<not> is_digit (CHR ''/'')" by code_simp
    then have "CHR ''/'' \<notin> set (format_date x)" using format_date_chars [OF that] by auto
    then show ?thesis by (auto simp: normal_name_def append_eq_Cons_conv)
  qed
  have p: "daily_note_path c x = CHR ''/'' # join ''/'' (ns @ [''30-daily'', format_date x @ ''.md''])" if "iso_date x" for x
    using join_paths_clean [OF assms(4), of "[''30-daily'', format_date x @ ''.md'']"] n [OF that] assms(1-3)
    by (simp add: daily_note_path_def default_date_format default_daily_dir normal_name_def del: resolve_date_format.simps)
  have r: "parse_date (format_date x) = Some x" if "iso_date x" for x
    using that by (cases x) (simp add: iso_date_def)
  have "d' = d" if d': "iso_date d'" "daily_note_path c d' = daily_note_path c d"
  proof -
    let ?m = "\<lambda>x. ns @ [''30-daily'', format_date x @ ''.md'']"
    have s: "split_on (CHR ''/'') (join ''/'' (?m x)) = ?m x" if "iso_date x" for x
      using split_join_path [of "?m x"] assms(4) n [OF that] by (simp add: normal_name_def)
    have "join ''/'' (?m d') = join ''/'' (?m d)" using d'(2) unfolding p [OF d'(1)] p [OF assms(5)] by (rule list.inject [THEN iffD1, THEN conjunct2])
    then have "split_on (CHR ''/'') (join ''/'' (?m d')) = split_on (CHR ''/'') (join ''/'' (?m d))" by (rule arg_cong)
    then have "?m d' = ?m d" unfolding s [OF d'(1)] s [OF assms(5)] .
    then have "format_date d' = format_date d" by simp
    then have "Some d' = Some d" unfolding r [OF d'(1), symmetric] r [OF assms(5), symmetric] by (rule arg_cong)
    then show "d' = d" unfolding option.inject .
  qed
  with p r assms(5) show ?thesis by blast
qed

section \<open>Samples\<close>

definition sample_system :: system where
  "sample_system = \<lparr>sy_env = (\<lambda>_. []), sy_home = Some ''/home/u'', sy_cwd = Some ''/''\<rparr>"

definition sample_project :: "bytes \<Rightarrow> bytes \<Rightarrow> project_raw" where
  "sample_project name f = \<lparr>pj_project = name, pj_vault = [], pj_path = [], pj_notes = [], pj_dev = [], pj_file = f, pj_launch = None\<rparr>"

definition sample_raw :: "project_raw list \<Rightarrow> raw_config" where
  "sample_raw ps =
     \<lparr>rw_vault = ''/v'', rw_task_file = [], rw_daily_dir = [], rw_daily_file = [], rw_ics = [], rw_caldav = [], rw_vdir = [],
      rw_google = [], rw_mcp = [],
      rw_ai = \<lparr>ac_provider = [], ac_model = [], ac_ollama_url = [], ac_ollama_model = [], ac_providers = []\<rparr>,
      rw_clients = [\<lparr>cl_name = ''acme'', cl_vault = ''/v'', cl_notes = [], cl_dev_root = [], cl_task_file = ''acme.md'',
                     cl_launch = None, cl_projects = ps\<rparr>],
      rw_launch = \<lparr>la_harness = [], la_args = [], la_detach = False\<rparr>,
      rw_queue = \<lparr>rq_enabled = False, rq_url = [], rq_token = []\<rparr>,
      rw_typesafe = \<lparr>ts_key_env = [], ts_url = [], ts_model = []\<rparr>,
      rw_inbox = \<lparr>ir_classifier = [], ir_confidence = None, ir_limit = None\<rparr>,
      rw_oauth = \<lparr>go_client = [], go_secret = []\<rparr>, rw_sync = \<lparr>sc_watch = False, sc_debounce_ms = 0\<rparr>,
      rw_notify = \<lparr>nt_due_today = False, nt_at = []\<rparr>,
      rw_embeddings = \<lparr>em_enabled = False, em_model = [], em_ollama_url = []\<rparr>,
      rw_agents = \<lparr>ag_runtime_name = [], ag_herdr_bin = []\<rparr>,
      rw_voice = \<lparr>vo_stt = [], vo_stt_url = [], vo_stt_model = [], vo_stt_key_env = [], vo_stt_prompt = [], vo_tts = [],
        vo_tts_voice = [], vo_record_seconds = 0, vo_record_device = [], vo_wait_timeout = 0, vo_aliases = []\<rparr>\<rparr>"

definition sample_config :: "project_raw list \<Rightarrow> go_error + config" where
  "sample_config ps = load_from sample_system (\<lambda>_. []) ''c'' (sample_raw []) (Some (Inr (sample_raw ps)))"

lemma sample_config_loads:
  "case sample_config [sample_project ''web'' [], sample_project ''api'' ''x/api.md''] of Inl e \<Rightarrow> False | Inr c \<Rightarrow>
     map pe_file (cf_projects c) = [''/v/acme.md'', ''/v/10-tasks/web.md'', ''/v/x/api.md'']
     \<and> map pe_project (cf_projects c) = [''acme'', ''web'', ''api'']
     \<and> cf_daily_dir c = ''30-daily'' \<and> cf_daily_file c = ''YYYY-MM-DD'' \<and> cf_vault c = ''/v''"
  by code_simp

lemma loaded_config_is_consistent_witness:
  "\<exists>c. sample_config [sample_project ''web'' [], sample_project ''api'' ''x/api.md''] = Inr c \<and> consistent c"
proof -
  obtain c where c: "sample_config [sample_project ''web'' [], sample_project ''api'' ''x/api.md''] = Inr c"
    using sample_config_loads by (auto split: sum.splits)
  from loaded_config_is_consistent [OF this [unfolded sample_config_def]] c show ?thesis by blast
qed


lemma daily_notes_are_distinct_witness:
  "\<exists>c. sample_config [sample_project ''web'' [], sample_project ''api'' ''x/api.md''] = Inr c
     \<and> daily_note_path c (2024, 2, 29) = ''/v/30-daily/2024-02-29.md''"
proof -
  obtain c where c: "sample_config [sample_project ''web'' [], sample_project ''api'' ''x/api.md''] = Inr c"
    "cf_daily_dir c = ''30-daily''" "cf_daily_file c = ''YYYY-MM-DD''" "cf_vault c = CHR ''/'' # join ''/'' [''v'']"
    using sample_config_loads by (auto split: sum.splits)
  have "list_all normal_name [''v'']" "iso_date (2024, 2, 29)" by code_simp+
  note daily_notes_are_distinct [OF c(2-4) this]
  moreover have "CHR ''/'' # join ''/'' ([''v''] @ [''30-daily'', format_date (2024, 2, 29) @ ''.md'']) = ''/v/30-daily/2024-02-29.md''" by code_simp
  ultimately show ?thesis using c(1) by auto
qed

section \<open>What is not checked\<close>

text \<open>Two spellings of one absolute path pass the test for duplicate files.\<close>

lemma one_file_spelled_twice:
  "case sample_config [sample_project ''web'' ''/v/t.md'', sample_project ''api'' ''/v//t.md''] of Inl e \<Rightarrow> False | Inr c \<Rightarrow>
     map (clean_path \<circ> pe_file) (cf_projects c) = [''/v/acme.md'', ''/v/t.md'', ''/v/t.md'']"
  by code_simp

text \<open>
  A client that lives in the main vault: the default file of a project is the canonical file
  of that project, so the sync has one file on both of its sides.
\<close>

lemma projection_is_the_canon:
  "case sample_config [sample_project ''web'' []] of Inl e \<Rightarrow> False | Inr c \<Rightarrow>
     map_of (proj_file_for (sync_targets c)) ''web'' = Some (canon_path (path_dir (cf_task_file c)) (flatten_project ''web'' @ ''.md''))"
  by code_simp

text \<open>NaN is in no range, and out of none.\<close>

lemma nan_confidence_accepted:
  "inbox_from_toml show_float \<lparr>ir_classifier = [], ir_confidence = Some NotANumber, ir_limit = None\<rparr>
     = Inr \<lparr>ic_classifier = ''heuristic'', ic_confidence = NotANumber, ic_limit = 100\<rparr>"
  by (simp add: inbox_from_toml_def or_default_def valid_inbox_classifier_def)

lemma inbox_limits:
  "inbox_from_toml show_float raw = Inr ic \<Longrightarrow>
   0 \<le> ic_limit ic \<and> valid_inbox_classifier (ic_classifier ic) \<and> (\<forall>r. ic_confidence ic = Number r \<longrightarrow> 0 \<le> r \<and> r \<le> 1)"
  by (auto simp: inbox_from_toml_def Let_def split: if_splits)

end
