(* ===== verification/Agenda.thy ===== *)
theory Agenda
  imports CalEvents Config
begin

text \<open>
  The calendars and the agenda (\<open>internal/calendar/build.go\<close>, \<open>ics.go\<close>, \<open>vdir.go\<close>, the provider
  part of \<open>caldav.go\<close> and \<open>google.go\<close>, \<open>internal/service/agenda_service.go\<close>,
  \<open>daily_service.go\<close>): from the configured calendars to providers, from providers to the events
  of a day or a week with a warning for each provider that failed, and the agenda of a daily note.
  Servers, directories, decoding and the keychain are the fields of a \<open>calendar_world\<close>.
\<close>

section \<open>What the calendars are read from\<close>

text \<open>A component of a subscribed file: the values of the properties the provider reads.\<close>

record ics_component =
  co_is_event :: bool
  co_start :: "gotime option"
  co_end :: "gotime option"
  co_summary :: bytes
  co_uid :: bytes

record google_time =
  gg_datetime :: bytes
  gg_date :: bytes

record google_item =
  gi_id :: bytes
  gi_summary :: bytes
  gi_start :: "google_time option"
  gi_end :: "google_time option"

datatype secret = Secret bytes | NoSecret | SecretError go_error

record http_answer =
  ha_status :: int
  ha_body :: "go_error + ics_component list"

record dir_entry =
  de_name :: bytes
  de_is_dir :: bool

record calendar_world =
  cw_off :: int
  cw_note :: "gotime \<Rightarrow> bytes option"
  cw_get :: "bytes \<Rightarrow> go_error + http_answer"
  cw_client :: "caldav_calendar \<Rightarrow> go_error option"
  cw_calendars :: "caldav_calendar \<Rightarrow> go_error + (bytes \<times> bytes) list"
  cw_hrefs :: "caldav_calendar \<Rightarrow> bytes \<Rightarrow> go_error + bytes list"
  cw_object :: "caldav_calendar \<Rightarrow> bytes \<Rightarrow> go_error + ical_event list"
  cw_dir :: "bytes \<Rightarrow> go_error + dir_entry list"
  cw_ics_file :: "bytes \<Rightarrow> go_error + ical_event list"
  cw_file :: "bytes \<Rightarrow> bytes option"
  cw_google_service :: "google_calendar \<Rightarrow> go_error option"
  cw_google :: "google_calendar \<Rightarrow> bytes \<Rightarrow> gotime \<Rightarrow> gotime \<Rightarrow> go_error + google_item list"
  cw_rfc3339 :: "bytes \<Rightarrow> gotime option"
  cw_keychain :: "bytes \<Rightarrow> secret"

section \<open>Subscribed calendars\<close>

definition ics_event :: "bytes \<Rightarrow> gotime \<Rightarrow> gotime \<Rightarrow> ics_component \<Rightarrow> event option" where
  "ics_event name a b c =
     (case co_start c of
        None \<Rightarrow> None
      | Some s \<Rightarrow>
          (let e = (case co_end c of Some t \<Rightarrow> t | None \<Rightarrow> add_ns hour_ns s)
           in if gt_ns b < gt_ns s \<or> gt_ns e < gt_ns a then None
              else Some \<lparr>ev_id = co_uid c, ev_source = name, ev_title = co_summary c, ev_start = s, ev_end = e, ev_project = []\<rparr>))"

definition ics_events :: "calendar_world \<Rightarrow> ics_calendar \<Rightarrow> gotime \<Rightarrow> gotime \<Rightarrow> go_error + event list" where
  "ics_events w c a b =
     (case cw_get w (ics_url c) of
        Inl e \<Rightarrow> Inl (wrap_error (''fetch '' @ ics_name c @ '': '') e)
      | Inr r \<Rightarrow>
          if ha_status r \<noteq> 200 then Inl (new_error (''fetch '' @ ics_name c @ '': HTTP '' @ itoa (ha_status r)))
          else (case ha_body r of
                  Inl e \<Rightarrow> Inl (wrap_error (''parse '' @ ics_name c @ '': '') e)
                | Inr cs \<Rightarrow> Inr (List.map_filter (ics_event (ics_name c) a b) (filter co_is_event cs))))"

section \<open>CalDAV\<close>

definition propfind_hrefs :: "bytes \<Rightarrow> bytes list \<Rightarrow> bytes list" where
  "propfind_hrefs path hrefs = filter (\<lambda>h. h \<noteq> [] \<and> h \<noteq> path \<and> \<not> has_suffix h ''/'') (map trim_space hrefs)"

text \<open>The objects are fetched in parallel into a slice by their position.\<close>

definition query_path ::
  "calendar_world \<Rightarrow> caldav_calendar \<Rightarrow> bytes \<Rightarrow> bytes \<Rightarrow> gotime \<Rightarrow> gotime \<Rightarrow> go_error + event list" where
  "query_path w c path source a b =
     (case cw_hrefs w c path of
        Inl e \<Rightarrow> Inl e
      | Inr hrefs \<Rightarrow>
          Inr (concat (map (\<lambda>h. case cw_object w c h of Inl e \<Rightarrow> [] | Inr evs \<Rightarrow> expand_calendar_events (cw_off w) source evs a b)
            (propfind_hrefs path hrefs))))"

definition caldav_paths :: "calendar_world \<Rightarrow> caldav_calendar \<Rightarrow> go_error + (bytes \<times> bytes) list" where
  "caldav_paths w c = (if dav_path c = [] then cw_calendars w c else Inr [(dav_path c, [])])"

definition caldav_source :: "caldav_calendar \<Rightarrow> (bytes \<times> bytes) list \<Rightarrow> bytes \<Rightarrow> bytes" where
  "caldav_source c found path =
     (case map_of (rev found) path of
        Some sub \<Rightarrow> if sub \<noteq> [] then dav_name c @ ''/'' @ sub else dav_name c
      | None \<Rightarrow> dav_name c)"

definition caldav_events :: "calendar_world \<Rightarrow> caldav_calendar \<Rightarrow> gotime \<Rightarrow> gotime \<Rightarrow> go_error + event list" where
  "caldav_events w c a b =
     (case cw_client w c of
        Some e \<Rightarrow> Inl (wrap_error (''caldav '' @ dav_name c @ '': '') e)
      | None \<Rightarrow>
          (case caldav_paths w c of
             Inl e \<Rightarrow> Inl (wrap_error (''caldav '' @ dav_name c @ '' discover: '') e)
           | Inr found \<Rightarrow>
               Inr (concat (map (\<lambda>p. case query_path w c (fst p) (caldav_source c found (fst p)) a b of Inl e \<Rightarrow> [] | Inr evs \<Rightarrow> evs) found))))"

section \<open>Directories of calendar files\<close>

definition is_ics_file :: "dir_entry \<Rightarrow> bool" where
  "is_ics_file e \<longleftrightarrow> \<not> de_is_dir e \<and> equal_fold (path_ext (de_name e)) ''.ics''"

definition vdir_events :: "calendar_world \<Rightarrow> bytes \<Rightarrow> bytes \<Rightarrow> gotime \<Rightarrow> gotime \<Rightarrow> go_error + event list" where
  "vdir_events w name dir a b =
     (case cw_dir w dir of
        Inl e \<Rightarrow> Inl (wrap_error (''read '' @ name @ '': '') e)
      | Inr es \<Rightarrow>
          Inr (concat (map (\<lambda>e. case cw_ics_file w (join_path dir (de_name e)) of
                   Inl _ \<Rightarrow> [] | Inr evs \<Rightarrow> expand_calendar_events (cw_off w) name evs a b)
                 (filter is_ics_file es))))"

definition vdir_display_name :: "calendar_world \<Rightarrow> bytes \<Rightarrow> bytes \<Rightarrow> bytes" where
  "vdir_display_name w dir fallback =
     (case cw_file w (join_path dir ''displayname'') of
        None \<Rightarrow> fallback
      | Some t \<Rightarrow> if trim_space t \<noteq> [] then trim_space t else fallback)"

definition is_collection :: "dir_entry \<Rightarrow> bool" where
  "is_collection e \<longleftrightarrow> de_is_dir e \<and> \<not> has_prefix (de_name e) ''.''"

section \<open>Google\<close>

definition parse_google_time :: "calendar_world \<Rightarrow> google_time \<Rightarrow> gotime option" where
  "parse_google_time w t =
     (if gg_datetime t \<noteq> [] then map_option (in_zone (cw_off w)) (cw_rfc3339 w (gg_datetime t))
      else if gg_date t \<noteq> [] then map_option (\<lambda>c. at_day (days_from_civil c) 0 (cw_off w)) (parse_date (gg_date t))
      else None)"

definition google_event_to_domain :: "calendar_world \<Rightarrow> bytes \<Rightarrow> google_item \<Rightarrow> event option" where
  "google_event_to_domain w source i =
     (case Option.bind (gi_start i) (parse_google_time w) of
        None \<Rightarrow> None
      | Some s \<Rightarrow> Some \<lparr>ev_id = gi_id i, ev_source = source, ev_title = gi_summary i, ev_start = s,
          ev_end = (case Option.bind (gi_end i) (parse_google_time w) of Some e \<Rightarrow> e | None \<Rightarrow> add_ns hour_ns s), ev_project = []\<rparr>)"

definition google_events :: "calendar_world \<Rightarrow> google_calendar \<Rightarrow> gotime \<Rightarrow> gotime \<Rightarrow> go_error + event list" where
  "google_events w c a b =
     (case cw_google_service w c of
        Some e \<Rightarrow> Inl (wrap_error (''google '' @ gc_name c @ '': '') e)
      | None \<Rightarrow>
     (case cw_google w c (or_default ''primary'' (gc_calendar c)) a b of
        Inl e \<Rightarrow> Inl (wrap_error (''list events '' @ gc_name c @ '': '') e)
      | Inr items \<Rightarrow> Inr (List.map_filter (google_event_to_domain w (gc_name c)) items)))"

section \<open>Providers\<close>

datatype calendar_provider =
    LocalProvider
  | ICSProvider ics_calendar
  | CalDAVProvider caldav_calendar
  | VdirProvider bytes bytes
  | GoogleProvider google_calendar

fun provider_name :: "calendar_provider \<Rightarrow> bytes" where
  "provider_name LocalProvider = EventSourceLocal"
| "provider_name (ICSProvider c) = ics_name c"
| "provider_name (CalDAVProvider c) = dav_name c"
| "provider_name (VdirProvider name dir) = name"
| "provider_name (GoogleProvider c) = gc_name c"

fun provider_events :: "calendar_world \<Rightarrow> calendar_provider \<Rightarrow> gotime \<Rightarrow> gotime \<Rightarrow> go_error + event list" where
  "provider_events w LocalProvider a b = Inr (local_events (cw_note w) a b)"
| "provider_events w (ICSProvider c) a b = ics_events w c a b"
| "provider_events w (CalDAVProvider c) a b = caldav_events w c a b"
| "provider_events w (VdirProvider name dir) a b = vdir_events w name dir a b"
| "provider_events w (GoogleProvider c) a b = google_events w c a b"

record build_warning =
  bw_kind :: bytes
  bw_name :: bytes
  bw_err :: go_error

definition build_warning_text :: "build_warning \<Rightarrow> bytes" where
  "build_warning_text x = ''skipping '' @ bw_kind x @ '' '' @ go_quote (bw_name x) @ '': '' @ err_text (bw_err x)"

text \<open>The hint in this error quotes a command in back quotes.\<close>

definition resolve_caldav_password :: "calendar_world \<Rightarrow> caldav_calendar \<Rightarrow> go_error + bytes" where
  "resolve_caldav_password w c =
     (if dav_password c \<noteq> [] then Inr (dav_password c)
      else case cw_keychain w (dav_name c) of
        Secret p \<Rightarrow> Inr p
      | NoSecret \<Rightarrow> Inl (new_error (''no password in config and none in keychain (run '' @ [CHR 0x60] @
          ''qi calendar caldav-passwd '' @ dav_name c @ [CHR 0x60] @ '')''))
      | SecretError e \<Rightarrow> Inl e)"

definition discover_vdir :: "calendar_world \<Rightarrow> bytes \<Rightarrow> go_error + calendar_provider list" where
  "discover_vdir w base =
     (case cw_dir w base of
        Inl e \<Rightarrow> Inl (wrap_error (''discover vdir '' @ base @ '': '') e)
      | Inr es \<Rightarrow>
          Inr (stable_sort (\<lambda>x y. provider_name x < provider_name y)
            (map (\<lambda>e. let dir = join_path base (de_name e) in VdirProvider (vdir_display_name w dir (de_name e)) dir)
               (filter is_collection es))))"

text \<open>What each entry of a kind adds: providers, or a warning.\<close>

definition build_caldav :: "calendar_world \<Rightarrow> caldav_calendar \<Rightarrow> build_warning + calendar_provider list" where
  "build_caldav w c =
     (case resolve_caldav_password w c of
        Inl e \<Rightarrow> Inl \<lparr>bw_kind = ''caldav'', bw_name = dav_name c, bw_err = e\<rparr>
      | Inr p \<Rightarrow> Inr [CalDAVProvider (c\<lparr>dav_password := p\<rparr>)])"

definition build_vdir :: "calendar_world \<Rightarrow> vdir_calendar \<Rightarrow> build_warning + calendar_provider list" where
  "build_vdir w c =
     (if \<not> vd_discover c then Inr [VdirProvider (vd_name c) (vd_path c)]
      else case discover_vdir w (vd_path c) of
        Inl e \<Rightarrow> Inl \<lparr>bw_kind = ''vdir'', bw_name = vd_name c, bw_err = e\<rparr>
      | Inr ps \<Rightarrow> Inr ps)"

definition built :: "(build_warning + calendar_provider list) list \<Rightarrow> calendar_provider list" where
  "built rs = concat (map (\<lambda>r. case r of Inl _ \<Rightarrow> [] | Inr ps \<Rightarrow> ps) rs)"

definition skipped :: "(build_warning + calendar_provider list) list \<Rightarrow> build_warning list" where
  "skipped rs = List.map_filter (\<lambda>r. case r of Inl x \<Rightarrow> Some x | Inr _ \<Rightarrow> None) rs"

definition build_providers :: "calendar_world \<Rightarrow> config \<Rightarrow> calendar_provider list \<times> build_warning list" where
  "build_providers w cfg =
     (let rs = map (build_caldav w) (cf_caldav cfg) @ map (build_vdir w) (cf_vdir cfg)
      in (LocalProvider # map ICSProvider (cf_ics cfg) @ built rs
          @ (if go_client (cf_oauth cfg) \<noteq> [] \<and> go_secret (cf_oauth cfg) \<noteq> [] then map GoogleProvider (cf_google cfg) else []),
          skipped rs))"

section \<open>The agenda\<close>

record provider_warning =
  pw_provider :: bytes
  pw_err :: go_error

definition provider_warning_error :: "provider_warning \<Rightarrow> go_error" where
  "provider_warning_error x = new_error (pw_provider x @ '': '' @ err_text (pw_err x))"

definition starts_before :: "event \<Rightarrow> event \<Rightarrow> bool" where
  "starts_before x y \<longleftrightarrow> gt_ns (ev_start x) < gt_ns (ev_start y)"

text \<open>\<open>ask p\<close> is what the provider answers in the window.\<close>

definition gather :: "('p \<Rightarrow> bytes) \<Rightarrow> ('p \<Rightarrow> go_error + event list) \<Rightarrow> 'p list \<Rightarrow> event list \<times> provider_warning list" where
  "gather name ask ps =
     fold (\<lambda>p (evs, ws). case ask p of
         Inl e \<Rightarrow> (evs, ws @ [\<lparr>pw_provider = name p, pw_err = e\<rparr>])
       | Inr es \<Rightarrow> (evs @ es, ws)) ps ([], [])"

definition fetch_agenda ::
  "('p \<Rightarrow> bytes) \<Rightarrow> ('p \<Rightarrow> go_error + event list) \<Rightarrow> 'p list \<Rightarrow> event list \<times> provider_warning list \<times> go_error option" where
  "fetch_agenda name ask ps =
     (case gather name ask ps of (evs, ws) \<Rightarrow>
        (let all = stable_sort starts_before evs
         in if all = [] \<and> ws \<noteq> [] then ([], ws, Some (provider_warning_error (last ws))) else (all, ws, None)))"

definition agenda_of :: "calendar_world \<Rightarrow> calendar_provider list \<Rightarrow> gotime \<Rightarrow> gotime \<Rightarrow> event list \<times> provider_warning list \<times> go_error option" where
  "agenda_of w ps a b = fetch_agenda provider_name (\<lambda>p. provider_events w p a b) ps"

definition agenda_today :: "calendar_world \<Rightarrow> calendar_provider list \<Rightarrow> gotime \<Rightarrow> event list \<times> provider_warning list \<times> go_error option" where
  "agenda_today w ps now = (let start = at_day (day_of now) 0 (gt_off now) in agenda_of w ps start (add_ns (24 * hour_ns) start))"

definition agenda_week :: "calendar_world \<Rightarrow> calendar_provider list \<Rightarrow> gotime \<Rightarrow> event list \<times> provider_warning list \<times> go_error option" where
  "agenda_week w ps now = (let start = at_day (day_of now) 0 (gt_off now) in agenda_of w ps start (add_date 0 0 7 start))"

section \<open>The daily note\<close>

definition is_zero_time :: "gotime \<Rightarrow> bool" where
  "is_zero_time t \<longleftrightarrow> gt_ns t = days_from_civil (1, 1, 1) * day_ns"

definition clock_text :: "gotime \<Rightarrow> bytes" where
  "clock_text t = clock (clock_of t div minute_ns)"

definition en_dash :: bytes where "en_dash = [CHR 0xE2, CHR 0x80, CHR 0x93]"

definition agenda_line :: "event \<Rightarrow> bytes" where
  "agenda_line e =
     ''- '' @ clock_text (ev_start e)
     @ (if \<not> is_zero_time (ev_end e) \<and> ev_end e \<noteq> ev_start e then en_dash @ clock_text (ev_end e) else [])
     @ '' '' @ ev_title e @ (if ev_project e \<noteq> [] then '' #'' @ ev_project e else [])"

definition render_agenda :: "event list \<Rightarrow> bytes" where
  "render_agenda evs = (if evs = [] then ''No events.'' else join [newline] (map agenda_line evs))"

text \<open>\<open>url.QueryEscape\<close>.\<close>

definition query_unreserved :: "char \<Rightarrow> bool" where
  "query_unreserved c \<longleftrightarrow> is_digit c \<or> between (CHR ''a'') c (CHR ''z'') \<or> between (CHR ''A'') c (CHR ''Z'') \<or> c \<in> set ''-_.~''"

definition hex_digit :: "nat \<Rightarrow> char" where
  "hex_digit n = ''0123456789ABCDEF'' ! n"

definition query_escape :: "bytes \<Rightarrow> bytes" where
  "query_escape s =
     concat (map (\<lambda>c. if query_unreserved c then [c] else if c = CHR '' '' then ''+''
       else [CHR 0x25, hex_digit (of_char c div 16), hex_digit (of_char c mod 16)]) s)"

text \<open>
  Waiting for the note: the clock and the look at the file are functions of how often they have
  been asked. Between two rounds the code sleeps for 100 ms.
\<close>

partial_function (option) poll_note :: "(nat \<Rightarrow> int) \<Rightarrow> (nat \<Rightarrow> bool) \<Rightarrow> int \<Rightarrow> nat \<Rightarrow> bool option" where
  "poll_note now exists_at deadline k =
     (if now k < deadline then (if exists_at k then Some True else poll_note now exists_at deadline (Suc k)) else Some False)"

definition default_create_wait :: int where "default_create_wait = 3000000000"

definition note_uri :: "bytes \<Rightarrow> bytes" where
  "note_uri vault = ''obsidian://adv-uri?vault='' @ query_escape vault @ ''&daily=true''"

definition ensure_note ::
  "(nat \<Rightarrow> int) \<Rightarrow> (nat \<Rightarrow> bool) \<Rightarrow> (bytes \<Rightarrow> go_error option) option \<Rightarrow> bytes \<Rightarrow> int \<Rightarrow> bytes \<Rightarrow> (go_error + bytes) option" where
  "ensure_note now exists_at open_uri vault wait path =
     (if exists_at 0 then Some (Inr path)
      else case Option.bind open_uri (\<lambda>f. f (note_uri vault)) of
        Some e \<Rightarrow> Some (Inl (wrap_error ''trigger daily note creation: '' e))
      | None \<Rightarrow>
          (case poll_note now exists_at (now 0 + (if wait \<le> 0 then default_create_wait else wait)) 1 of
             None \<Rightarrow> None
           | Some True \<Rightarrow> Some (Inr path)
           | Some False \<Rightarrow> Some (Inl (new_error (''daily note not created at '' @ path @ [CHR 0x20, CHR 0xE2, CHR 0x80, CHR 0x94, CHR 0x20] @
               ''install the Advanced URI Obsidian plugin or open the note manually'')))))"

section \<open>The agenda is what the working calendars answer\<close>

definition answers :: "('p \<Rightarrow> go_error + event list) \<Rightarrow> 'p \<Rightarrow> event list" where
  "answers ask p = (case ask p of Inl _ \<Rightarrow> [] | Inr es \<Rightarrow> es)"

definition failures :: "('p \<Rightarrow> bytes) \<Rightarrow> ('p \<Rightarrow> go_error + event list) \<Rightarrow> 'p list \<Rightarrow> provider_warning list" where
  "failures name ask ps =
     List.map_filter (\<lambda>p. case ask p of Inl e \<Rightarrow> Some \<lparr>pw_provider = name p, pw_err = e\<rparr> | Inr _ \<Rightarrow> None) ps"

lemma gather_parts: "gather name ask ps = (concat (map (answers ask) ps), failures name ask ps)"
proof -
  have "fold (\<lambda>p (evs, ws). case ask p of
         Inl e \<Rightarrow> (evs, ws @ [\<lparr>pw_provider = name p, pw_err = e\<rparr>])
       | Inr es \<Rightarrow> (evs @ es, ws)) ps (evs, ws) = (evs @ concat (map (answers ask) ps), ws @ failures name ask ps)" for evs ws
    by (induction ps arbitrary: evs ws) (auto simp: answers_def failures_def List.map_filter_simps split: sum.splits)
  then show ?thesis by (simp add: gather_def)
qed

lemma sorted_by_start: "sorted_wrt (\<lambda>x y. gt_ns (ev_start x) \<le> gt_ns (ev_start y)) (stable_sort starts_before evs)"
proof -
  have "weak_order starts_before" by (auto simp: weak_order_def starts_before_def)
  from in_order_stable_sort [OF this, of evs] show ?thesis
    unfolding in_order_def by (rule sorted_wrt_mono_rel [rotated]) (auto simp: starts_before_def)
qed

lemma fetch_parts:
  assumes "fetch_agenda name ask ps = (evs, ws, err)"
  shows "mset evs = (\<Sum>p\<in>#mset ps. mset (answers ask p))"
    and "sorted_wrt (\<lambda>x y. gt_ns (ev_start x) \<le> gt_ns (ev_start y)) evs"
    and "ws = failures name ask ps"
    and "err \<noteq> None \<longleftrightarrow> ws \<noteq> [] \<and> (\<forall>p \<in> set ps. answers ask p = [])"
proof -
  let ?all = "stable_sort starts_before (concat (map (answers ask) ps))"
  have e: "evs = ?all" and w: "ws = failures name ask ps" and err: "err \<noteq> None \<longleftrightarrow> ?all = [] \<and> ws \<noteq> []"
    using assms by (auto simp: fetch_agenda_def gather_parts Let_def split: if_splits)
  have "mset (concat (map (answers ask) ps)) = (\<Sum>p\<in>#mset ps. mset (answers ask p))"
    by (induction ps) simp_all
  then show "mset evs = (\<Sum>p\<in>#mset ps. mset (answers ask p))" by (simp add: e mset_stable_sort)
  show "sorted_wrt (\<lambda>x y. gt_ns (ev_start x) \<le> gt_ns (ev_start y)) evs" unfolding e by (rule sorted_by_start)
  show "ws = failures name ask ps" by (rule w)
  have "?all = [] \<longleftrightarrow> (\<forall>p \<in> set ps. answers ask p = [])"
  proof -
    have "?all = [] \<longleftrightarrow> concat (map (answers ask) ps) = []"
      using length_stable_sort [of starts_before "concat (map (answers ask) ps)"] by (metis length_0_conv)
    then show ?thesis by simp
  qed
  then show "err \<noteq> None \<longleftrightarrow> ws \<noteq> [] \<and> (\<forall>p \<in> set ps. answers ask p = [])" using err by blast
qed


definition sample_event :: "bytes \<Rightarrow> gotime \<Rightarrow> event" where
  "sample_event title t = \<lparr>ev_id = title, ev_source = ''s'', ev_title = title, ev_start = t, ev_end = add_ns hour_ns t, ev_project = []\<rparr>"

definition sample_answers :: "bytes \<Rightarrow> go_error + event list" where
  "sample_answers p =
     (if p = ''dead'' then Inl (new_error ''token expired'')
      else if p = ''late'' then Inr [sample_event ''Dinner'' (monday 0 19), sample_event ''Call'' (monday 0 9)]
      else Inr [sample_event ''Lunch'' (monday 0 12)])"


text \<open>
  One failing calendar makes the agenda of a day without events fail, though the others have
  answered; the comment says it is fatal only when every provider failed.
\<close>

lemma one_failure_on_a_free_day_is_fatal:
  "snd (snd (fetch_agenda id (\<lambda>p. if p = ''dead'' then Inl (new_error ''token expired'') else Inr []) [''local'', ''dead'']))
     = Some (new_error ''dead: token expired'')"
  by (simp add: fetch_agenda_def gather_def provider_warning_error_def new_error_def)

section \<open>Every configured calendar is built or reported\<close>

lemma set_skipped: "x \<in> set (skipped rs) \<longleftrightarrow> Inl x \<in> set rs"
  by (induction rs) (auto simp: skipped_def List.map_filter_simps split: sum.splits)

lemma set_built: "p \<in> set (built rs) \<longleftrightarrow> (\<exists>ps. Inr ps \<in> set rs \<and> p \<in> set ps)"
  by (induction rs) (auto simp: built_def split: sum.splits)

lemma build_parts:
  assumes "build_providers w cfg = (ps, ws)"
  shows "LocalProvider \<in> set ps \<and> ICSProvider ` set (cf_ics cfg) \<subseteq> set ps"
    and "c \<in> set (cf_caldav cfg) \<Longrightarrow>
      (case resolve_caldav_password w c of
         Inr p \<Rightarrow> CalDAVProvider (c\<lparr>dav_password := p\<rparr>) \<in> set ps
       | Inl e \<Rightarrow> \<lparr>bw_kind = ''caldav'', bw_name = dav_name c, bw_err = e\<rparr> \<in> set ws)"
    and "v \<in> set (cf_vdir cfg) \<Longrightarrow> \<not> vd_discover v \<Longrightarrow> VdirProvider (vd_name v) (vd_path v) \<in> set ps"
    and "v \<in> set (cf_vdir cfg) \<Longrightarrow> vd_discover v \<Longrightarrow>
      (case cw_dir w (vd_path v) of
         Inr es \<Rightarrow> \<forall>e \<in> set es. is_collection e \<longrightarrow>
           VdirProvider (vdir_display_name w (join_path (vd_path v) (de_name e)) (de_name e)) (join_path (vd_path v) (de_name e)) \<in> set ps
       | Inl e \<Rightarrow> \<exists>x \<in> set ws. bw_kind x = ''vdir'' \<and> bw_name x = vd_name v)"
    and "x \<in> set ws \<Longrightarrow> bw_name x \<in> dav_name ` set (cf_caldav cfg) \<union> vd_name ` set (cf_vdir cfg)"
proof -
  let ?rs = "map (build_caldav w) (cf_caldav cfg) @ map (build_vdir w) (cf_vdir cfg)"
  have ps: "set (built ?rs) \<subseteq> set ps" and ws: "set ws = {x. Inl x \<in> set ?rs}"
    using assms set_skipped [of _ ?rs] by (auto simp: build_providers_def Let_def)
  have taken: "p \<in> set ps" if "Inr qs \<in> set ?rs" "p \<in> set qs" for p qs
    using ps that set_built [of p ?rs] by blast
  show "LocalProvider \<in> set ps \<and> ICSProvider ` set (cf_ics cfg) \<subseteq> set ps"
    using assms by (auto simp: build_providers_def Let_def)
  show "case resolve_caldav_password w c of
         Inr p \<Rightarrow> CalDAVProvider (c\<lparr>dav_password := p\<rparr>) \<in> set ps
       | Inl e \<Rightarrow> \<lparr>bw_kind = ''caldav'', bw_name = dav_name c, bw_err = e\<rparr> \<in> set ws" if "c \<in> set (cf_caldav cfg)"
  proof -
    have "build_caldav w c \<in> set ?rs" using that by simp
    then show ?thesis using ws taken by (auto simp: build_caldav_def split: sum.splits)
  qed
  show "VdirProvider (vd_name v) (vd_path v) \<in> set ps" if "v \<in> set (cf_vdir cfg)" "\<not> vd_discover v"
  proof -
    have "build_vdir w v \<in> set ?rs" using that by simp
    then show ?thesis using that(2) taken [of "[VdirProvider (vd_name v) (vd_path v)]"] by (simp add: build_vdir_def)
  qed
  show "case cw_dir w (vd_path v) of
         Inr es \<Rightarrow> \<forall>e \<in> set es. is_collection e \<longrightarrow>
           VdirProvider (vdir_display_name w (join_path (vd_path v) (de_name e)) (de_name e)) (join_path (vd_path v) (de_name e)) \<in> set ps
       | Inl e \<Rightarrow> \<exists>x \<in> set ws. bw_kind x = ''vdir'' \<and> bw_name x = vd_name v" if v: "v \<in> set (cf_vdir cfg)" "vd_discover v"
  proof -
    have r: "build_vdir w v \<in> set ?rs" using v by simp
    show ?thesis
    proof (cases "cw_dir w (vd_path v)")
      case (Inl e)
      then have "build_vdir w v = Inl \<lparr>bw_kind = ''vdir'', bw_name = vd_name v, bw_err = wrap_error (''discover vdir '' @ vd_path v @ '': '') e\<rparr>"
        using v(2) by (simp add: build_vdir_def discover_vdir_def)
      then have "\<lparr>bw_kind = ''vdir'', bw_name = vd_name v, bw_err = wrap_error (''discover vdir '' @ vd_path v @ '': '') e\<rparr> \<in> set ws"
        using r ws by simp
      then show ?thesis using Inl by force
    next
      case (Inr es)
      let ?f = "\<lambda>e. let dir = join_path (vd_path v) (de_name e) in VdirProvider (vdir_display_name w dir (de_name e)) dir"
      have "build_vdir w v = Inr (stable_sort (\<lambda>x y. provider_name x < provider_name y) (map ?f (filter is_collection es)))"
        using v(2) Inr by (simp add: build_vdir_def discover_vdir_def)
      then have "?f e \<in> set ps" if "e \<in> set es" "is_collection e" for e
        using taken [of _ "?f e"] r that by force
      then show ?thesis using Inr by (simp add: Let_def)
    qed
  qed
  show "bw_name x \<in> dav_name ` set (cf_caldav cfg) \<union> vd_name ` set (cf_vdir cfg)" if "x \<in> set ws"
  proof -
    have "Inl x \<in> set ?rs" using that ws by simp
    then show ?thesis by (auto simp: build_caldav_def build_vdir_def split: sum.splits if_splits)
  qed
qed


definition no_calendars :: calendar_world where
  "no_calendars =
     \<lparr>cw_off = 0, cw_note = (\<lambda>_. None), cw_get = (\<lambda>_. Inl (new_error ''offline'')), cw_client = (\<lambda>_. None),
      cw_calendars = (\<lambda>_. Inr []), cw_hrefs = (\<lambda>_ _. Inl (new_error ''401 Unauthorized'')), cw_object = (\<lambda>_ _. Inl (new_error ''offline'')),
      cw_dir = (\<lambda>d. if d = ''/cal'' then Inr [\<lparr>de_name = ''work'', de_is_dir = True\<rparr>, \<lparr>de_name = ''.git'', de_is_dir = True\<rparr>] else Inl (new_error ''no such directory'')),
      cw_ics_file = (\<lambda>_. Inl (new_error ''unreadable'')), cw_file = (\<lambda>_. None), cw_google_service = (\<lambda>_. None),
      cw_google = (\<lambda>_ _ _ _. Inr []), cw_rfc3339 = (\<lambda>_. None), cw_keychain = (\<lambda>_. NoSecret)\<rparr>"

definition sample_dav :: caldav_calendar where
  "sample_dav = \<lparr>dav_name = ''home'', dav_endpoint = ''https://dav'', dav_username = ''u'', dav_password = [], dav_path = ''/home/''\<rparr>"

definition calendar_config :: config where
  "calendar_config =
     (build_config sample_system (sample_raw []) [] \<lparr>ic_classifier = [], ic_confidence = NotANumber, ic_limit = 0\<rparr> nothing_yet)
       \<lparr>cf_caldav := [sample_dav], cf_vdir := [\<lparr>vd_name = ''all'', vd_path = ''/cal'', vd_discover = True\<rparr>],
        cf_google := [\<lparr>gc_name = ''g'', gc_account = ''a'', gc_calendar = ''primary''\<rparr>]\<rparr>"


text \<open>Configured Google calendars without the OAuth client are neither built nor reported.\<close>

lemma google_without_oauth_is_silent:
  "cf_google calendar_config \<noteq> [] \<and> list_all (\<lambda>p. \<forall>c. p \<noteq> GoogleProvider c) (fst (build_providers no_calendars calendar_config))
   \<and> list_all (\<lambda>x. bw_name x \<noteq> ''g'') (snd (build_providers no_calendars calendar_config))"
proof -
  have "cf_google calendar_config \<noteq> []" "cf_oauth calendar_config = \<lparr>go_client = [], go_secret = []\<rparr>"
    "cf_caldav calendar_config = [sample_dav]" "cf_vdir calendar_config = [\<lparr>vd_name = ''all'', vd_path = ''/cal'', vd_discover = True\<rparr>]"
    "cf_ics calendar_config = []"
    by (simp_all add: calendar_config_def build_config_def sample_raw_def ics_calendars_def)
  moreover have "build_caldav no_calendars sample_dav = Inl \<lparr>bw_kind = ''caldav'', bw_name = ''home'', bw_err = e\<rparr>"
    if "resolve_caldav_password no_calendars sample_dav = Inl e" for e using that by (simp add: build_caldav_def sample_dav_def)
  moreover obtain e where "resolve_caldav_password no_calendars sample_dav = Inl e"
    by (simp add: resolve_caldav_password_def sample_dav_def no_calendars_def)
  moreover have "build_vdir no_calendars \<lparr>vd_name = ''all'', vd_path = ''/cal'', vd_discover = True\<rparr> =
      Inr [VdirProvider (vdir_display_name no_calendars (join_path ''/cal'' ''work'') ''work'') (join_path ''/cal'' ''work'')]"
    by (simp add: build_vdir_def discover_vdir_def no_calendars_def is_collection_def has_prefix_def Let_def)
  ultimately show ?thesis by (simp add: build_providers_def built_def skipped_def List.map_filter_simps)
qed

text \<open>
  A CalDAV server that answers no query, say because the password has expired, is an empty
  calendar and no warning of the agenda.
\<close>

lemma dead_caldav_is_silent:
  "provider_events no_calendars (CalDAVProvider sample_dav) a b = Inr []"
  by (simp add: caldav_events_def caldav_paths_def query_path_def no_calendars_def sample_dav_def)

section \<open>The agenda of a note\<close>

lemma agenda_line_newline:
  assumes "newline \<notin> set (ev_title e)" and "newline \<notin> set (ev_project e)"
  shows "newline \<notin> set (agenda_line e)"
proof -
  have d: "\<not> is_digit newline" by code_simp
  then have "newline \<notin> set (clock_text t)" for t using two_digits_chars by (auto simp: clock_text_def clock_def)
  moreover have "newline \<notin> set en_dash" by code_simp
  ultimately show ?thesis using assms by (auto simp: agenda_line_def)
qed

lemma minute_of_day: "0 \<le> clock_of t div minute_ns" "clock_of t div minute_ns < 6000"
  using clock_bounds [of t] by (simp_all add: minute_ns_def day_ns_def pos_imp_zdiv_nonneg_iff)

lemma dash_line_no_event:
  assumes "0 \<le> m" "m < 6000"
  shows "parse_line (''- '' @ clock m @ en_dash @ rest) day = None"
proof -
  have sp: "re_space (CHR '' '')" "\<not> re_space (CHR 0xE2)" by code_simp+
  have "dropWhile re_space (clock m @ en_dash @ rest) = clock m @ en_dash @ rest"
    using clock_facts(6,7) [OF assms] by (cases "clock m") auto
  then have "dash_re (''- '' @ clock m @ en_dash @ rest) = Some (clock m @ en_dash @ rest)" using sp by (simp add: dash_re_def)
  then show ?thesis using hhmm_re_clock [OF assms, of "en_dash @ rest"] clock_facts(1) [OF assms] sp
    by (simp add: parse_line_def event_range_re_def event_time_re_def en_dash_def has_prefix_def tail_re_def Let_def)
qed

text \<open>
  The agenda of a note is a line per event, if titles and projects are lines; and a line
  with an end is not read back as an event of the local calendar, whatever its title is.
\<close>

theorem agenda_lines_are_no_events:
  assumes "\<forall>e \<in> set evs. newline \<notin> set (ev_title e) \<and> newline \<notin> set (ev_project e)"
  shows "evs \<noteq> [] \<Longrightarrow> split_on newline (render_agenda evs) = map agenda_line evs"
    and "e \<in> set evs \<Longrightarrow> \<not> is_zero_time (ev_end e) \<Longrightarrow> ev_end e \<noteq> ev_start e \<Longrightarrow> parse_line (agenda_line e) day = None"
proof -
  show "split_on newline (render_agenda evs) = map agenda_line evs" if "evs \<noteq> []"
    using that agenda_line_newline assms by (simp add: render_agenda_def split_on_join)
  show "parse_line (agenda_line e) day = None" if "\<not> is_zero_time (ev_end e)" "ev_end e \<noteq> ev_start e"
  proof -
    let ?rest = "clock_text (ev_end e) @ '' '' @ ev_title e @ (if ev_project e \<noteq> [] then '' #'' @ ev_project e else [])"
    have "agenda_line e = ''- '' @ clock (clock_of (ev_start e) div minute_ns) @ en_dash @ ?rest"
      using that by (simp add: agenda_line_def clock_text_def)
    then show ?thesis using dash_line_no_event minute_of_day [of "ev_start e"] by simp
  qed
qed

lemma agenda_lines_are_no_events_witness:
  "split_on newline (render_agenda [sample_event ''Call'' (monday 0 9)]) = map agenda_line [sample_event ''Call'' (monday 0 9)]"
  by (rule agenda_lines_are_no_events(1)) (simp_all add: sample_event_def)

text \<open>A title of a calendar the user only subscribes to can hold line ends, and then writes lines of its own into the note.\<close>

lemma title_forges_a_heading:
  "''## Logs'' \<in> set (split_on newline (render_agenda
     [sample_event (''Call'' @ [newline] @ ''## Logs'') (monday 0 9)]))"
proof -
  have n: "newline \<notin> set (''- '' @ clock_text (monday 0 9) @ en_dash @ clock_text (add_ns hour_ns (monday 0 9)) @ '' Call'')" by code_simp
  have h: "newline \<notin> set ''## Logs''" by code_simp
  have "\<not> is_zero_time (add_ns hour_ns (monday 0 9))" "add_ns hour_ns (monday 0 9) \<noteq> monday 0 9" by code_simp+
  then have e: "render_agenda [sample_event (''Call'' @ [newline] @ ''## Logs'') (monday 0 9)] =
      (''- '' @ clock_text (monday 0 9) @ en_dash @ clock_text (add_ns hour_ns (monday 0 9)) @ '' Call'') @ newline # ''## Logs''"
    by (simp add: render_agenda_def agenda_line_def sample_event_def)
  show ?thesis unfolding e split_on_append [OF n] split_on_single [OF h] by simp
qed

section \<open>Waiting for the note\<close>

lemma poll_note_ends:
  assumes sleep: "\<And>j. now j + 100000000 \<le> now (Suc j)"
  shows "poll_note now exists_at deadline k = Some (\<exists>j \<ge> k. exists_at j \<and> now j < deadline)"
proof (induction "nat (deadline - now k)" arbitrary: k rule: less_induct)
  case less
  have mono: "now k \<le> now j" if "k \<le> j" for j
  proof -
    have "now i \<le> now (Suc i)" for i using sleep [of i] by linarith
    then show ?thesis using that by (rule lift_Suc_mono_le)
  qed
  show ?case
  proof (cases "now k < deadline")
    case True
    have next_k: "nat (deadline - now (Suc k)) < nat (deadline - now k)" using sleep [of k] True by linarith
    have "(\<exists>j \<ge> k. exists_at j \<and> now j < deadline) \<longleftrightarrow> exists_at k \<or> (\<exists>j \<ge> Suc k. exists_at j \<and> now j < deadline)"
      using True by (metis Suc_leD le_antisym not_less_eq_eq order_refl)
    then show ?thesis using True less [OF next_k] by (subst poll_note.simps) auto
  next
    case False
    then have "\<not> (\<exists>j \<ge> k. exists_at j \<and> now j < deadline)" using mono by fastforce
    then show ?thesis using False by (subst poll_note.simps) simp
  qed
qed



end
