(* ===== verification/Spec2Isabelle.thy ===== *)
theory Spec2Isabelle
  imports Tools Policy AuditLog Approval Recovery Daemon Recurrence TaskFile SyncRun TaskService
    TaskCreate DailyNote Notes Schedule Plan Drain Inbox Failover Session Client Planner
    Voice Mcp Lease Agenda
begin

text \<open>
  A verification development for qi (module \<open>qi\<close>, Go): a personal assistant that keeps
  tasks, notes, captures and schedules as markdown files of a vault, and a daemon that lets
  other programs call its tools under a policy with human approval.

  The parts and how they interact. Strings are lists of bytes (\<open>bytes\<close>), a Go map is an
  association list (\<open>gomap\<close>), an error is a record of its text and the sentinels it
  wraps (\<open>go_error\<close>), a fallible function returns \<open>go_error + 'a\<close>.

  \<^item> \<open>Prelude\<close>, \<open>GoText\<close>, \<open>TextFacts\<close>, \<open>GoDate\<close>,
    \<open>GoPath\<close>, \<open>WordFacts\<close>, \<open>SortFacts\<close>: the shared vocabulary, the parts of
    \<open>strings\<close>, \<open>strconv\<close>, \<open>bufio\<close>, \<open>filepath\<close> and \<open>time\<close> the program uses, and their
    lemmas. The locale \<open>preserved\<close> is the shape of an invariant under steps.
  \<^item> \<open>Tools\<close> (\<open>internal/tools\<close>): the registry of tools and the dispatch of a call.
  \<^item> \<open>Policy\<close> (\<open>internal/policy\<close>): the decider; the locale \<open>gating_decider\<close> is what the
    daemon relies on, interpreted by the default policy.
  \<^item> \<open>AuditLog\<close>, \<open>Approval\<close>, \<open>Recovery\<close> (\<open>internal/approval\<close>): the append-only log with
    its capacity and crash repair; the queue with one function per operation; and what both
    guarantee together, by refinement of the queue to a book of entries that only move forward
    and of a restart to reading the log back.
  \<^item> \<open>Daemon\<close> (\<open>internal/daemon/server.go\<close>, \<open>wire.go\<close>): a line in, at most one line
    out; \<open>tools.call\<close> asks the policy and runs, refuses or queues the call; the approval
    methods run what was queued.
  \<^item> \<open>Recurrence\<close> (\<open>internal/vault/recurrence.go\<close>): rules and dates.
  \<^item> \<open>TaskLine\<close>, \<open>TaskMatch\<close>, \<open>TaskFile\<close> (\<open>internal/vault/task_format.go\<close>,
    \<open>tasks.go\<close>): the task line with the regular expressions of the source as matchers, its
    round trip, and the guarded update of one line of a file.
  \<^item> \<open>TaskService\<close>, \<open>TaskCreate\<close> (\<open>internal/service/task_service.go\<close>,
    \<open>task_filter.go\<close>, \<open>validate.go\<close>, \<open>due_today.go\<close>): creating, completing,
    validating and listing tasks over the files of the vault; creation is idempotent.
  \<^item> \<open>SyncEngine\<close>, \<open>SyncRun\<close> (\<open>internal/sync\<close>, \<open>internal/vault/guarded.go\<close>): the
    three-way merge of the canon, the projections and the ancestor rows, and one reconcile with
    other processes writing between its steps.
  \<^item> \<open>DailyNote\<close> (\<open>internal/vault/daily.go\<close>, \<open>atomic.go\<close>): the sections of a note as
    lenses on its bytes; replacing a file atomically as a step relation.
  \<^item> \<open>Notes\<close> (\<open>internal/vault/capture.go\<close>, \<open>note.go\<close>): captures and notes.
  \<^item> \<open>Schedule\<close>, \<open>Plan\<close> (\<open>internal/calendar/schedule.go\<close>, \<open>local.go\<close>,
    \<open>internal/service/plan_service.go\<close>, \<open>internal/commands/plan.go\<close>): schedule lines,
    the local calendar, and the planner that writes what this calendar reads.
  \<^item> \<open>Drain\<close> (\<open>internal/service/drain_service.go\<close>): one pass over the remote queue, on top
    of the creation of tasks, notes and captures.
  \<^item> \<open>Inbox\<close> (\<open>internal/service/inbox_service.go\<close>, \<open>inbox_email.go\<close>,
    \<open>inbox_classify.go\<close>): listing, proposing, collapsing, refining and applying.
  \<^item> \<open>Client\<close> (\<open>internal/daemon/client/client.go\<close>): the daemon's client over a connection,
    and its composition with the line handler of \<open>Daemon\<close>.
  \<^item> \<open>Agents\<close> (\<open>internal/agentrt/runtime.go\<close>, \<open>internal/service/agent_service.go\<close>): the coding
    agents of a runtime, resolving a query to one of them, and the texts spoken about them.
  \<^item> \<open>Intent\<close>, \<open>Voice\<close> (\<open>internal/voice/intent.go\<close>, \<open>context.go\<close>, \<open>loop.go\<close>): the grammar
    of spoken commands, and the conversation that resolves, asks back and sends the prompt. A
    runtime that records what is sent (\<open>recorded\<close>) is the measure of every prompt.
  \<^item> \<open>Mcp\<close> (\<open>internal/mcp\<close>): attaching servers to the registry of \<open>Tools\<close> and routing the
    calls of their tools; \<open>in_step\<close> is the invariant between the registry and the clients.
  \<^item> \<open>Lease\<close> (\<open>internal/ai/session_lock.go\<close>, \<open>resumePlanner\<close>): the lease of a planner session
    as a step relation of system calls over several processes, with crashes.
  \<^item> \<open>Config\<close> (\<open>internal/config\<close>): from the decoded file and the environment to the settings, the
    projects flattened out of their clients, the look-ups by name and the paths of daily notes; a
    configuration that loads gives the sync run a file of its own for every project.
  \<^item> \<open>CalEvents\<close>, \<open>Agenda\<close> (\<open>internal/calendar\<close>, \<open>internal/service/agenda_service.go\<close>,
    \<open>daily_service.go\<close>): grouping and expanding recurring events with the changes of single
    occurrences and of ranges; the providers built from the configuration, what each makes of the
    answers of its server or directory, and the agenda of a day or a week.
  \<^item> \<open>Failover\<close>, \<open>Session\<close>, \<open>Planner\<close> (\<open>internal/ai\<close>): the chain of model
    providers; the sessions saved at the approval gate with their store; and the conversation
    loop that calls tools through the client, stops at the gate and resumes. The locale
    \<open>careful_backend\<close> states what every call of the planner does to the world; it is
    interpreted by the planner over the daemon.

  What the lemmas show. Safety of the daemon: a mutating call never runs without the command
  line or an approval, an approval is granted once and runs the stored call, and the
  planner over the daemon only reads. Durability: a crash
  in an append loses no entry and a restart rebuilds the queue. Fidelity of the files: tasks,
  notes, sections and schedules are read back as they were written, an operation changes the one
  line or section it names, and a file another process changed is not overwritten. Sync and
  drain: the merge is the textbook merge, the ancestor rows are committed last, rows are
  acknowledged after they are written, and repeating a pass changes nothing. Termination is part
  of the definitions (structural or by a measure) except for the search of a free archive name,
  which may run for ever in the source: it is a \<open>partial_function\<close>, and that it ends is proved
  where it does. The bounds of the source (1000 capture names, the retries of a reconcile, the
  byte limits of the log, batches of 25) are kept as they are.

  Not modelled. System calls are parameters: what \<open>Stat\<close>, \<open>Rename\<close>, a write or a lock
  answers, the clock, random bytes and other processes are arguments of the definitions. JSON,
  SHA-256, the network clients (model providers, calendars, queue), the database of the index
  and the terminal interface are third-party or operating system code. Time zones are
  fixed offsets, case mapping is ASCII, and iteration over a Go map is the order of the
  association list.
\<close>

end
